(* ===== verification/Prelude.thy ===== *)
theory Prelude
  imports Main "HOL-Library.Word" "HOL-Library.Finite_Map" "HOL-Library.Monad_Syntax"
begin

text \<open>
  Shared vocabulary of the development.

  \<^item> Go's \<open>uint64\<close> is \<open>u64\<close>, a natural number whose arithmetic is written out modulo
    \<open>2 ^ 64\<close> (\<open>u64_add\<close>, \<open>u64_sub\<close>); the collection \<open>u64_simps\<close> turns both into ordinary
    arithmetic wherever no wrap-around can happen.
  \<^item> A Go panic (an explicit \<open>panic\<close>, a failed assertion, an index out of range, a nil
    pointer) is \<open>None\<close>; code that may panic returns an \<open>option\<close> and is sequenced with
    \<open>do { ... }\<close>.
  \<^item> A Go \<open>error\<close> result is the left summand of a sum.
  \<^item> \<open>foldM\<close> is a \<open>for ... range\<close> loop whose body may panic.
\<close>

type_synonym u64 = nat
type_synonym byte = "8 word"
type_synonym bytes = "8 word list"

named_theorems u64_simps "exactness of 64-bit arithmetic away from the wrap-around"
named_theorems panic_free "operations that return instead of panicking"
named_theorems frame "fields an operation leaves alone"

section \<open>Unsigned 64-bit arithmetic\<close>

definition u64_add :: "u64 \<Rightarrow> u64 \<Rightarrow> u64" where
  "u64_add a b = (a + b) mod 2 ^ 64"

definition u64_sub :: "u64 \<Rightarrow> u64 \<Rightarrow> u64" where
  "u64_sub a b = (a + (2 ^ 64 - b mod 2 ^ 64)) mod 2 ^ 64"

text \<open>Go's conversion \<open>int(x)\<close> of a \<open>uint64\<close> reinterprets the bits as two's complement.\<close>

definition u64_to_int :: "u64 \<Rightarrow> int" where
  "u64_to_int x = (if x < 2 ^ 63 then int x else int x - 2 ^ 64)"

lemma u64_add_exact [u64_simps]: "a + b < 2 ^ 64 \<Longrightarrow> u64_add a b = a + b"
  by (simp add: u64_add_def)

lemma u64_sub_exact [u64_simps]:
  assumes "b \<le> a" "a < 2 ^ 64"
  shows "u64_sub a b = a - b"
proof -
  have "a + (2 ^ 64 - b mod 2 ^ 64) = (a - b) + 2 ^ 64"
    using assms by simp
  then have "u64_sub a b = ((a - b) + 2 ^ 64) mod 2 ^ 64"
    by (simp only: u64_sub_def)
  also have "\<dots> = a - b"
    using assms by (simp only: mod_add_self2) simp
  finally show ?thesis .
qed

lemma u64_add_bound [simp]: "u64_add a b < 2 ^ 64"
  by (simp add: u64_add_def)

lemma u64_sub_bound [simp]: "u64_sub a b < 2 ^ 64"
  by (simp add: u64_sub_def)

lemma u64_add_sub_cancel: "a < 2 ^ 64 \<Longrightarrow> u64_sub (u64_add a 1) 1 = a"
proof (cases "a + 1 < 2 ^ 64")
  case False
  moreover assume "a < 2 ^ 64"
  ultimately have "a = 2 ^ 64 - 1" by simp
  then show ?thesis by (simp add: u64_add_def u64_sub_def)
qed (simp add: u64_simps)

section \<open>Slices and loops\<close>

text \<open>Indexing and slicing panic out of range.\<close>

definition at :: "'a list \<Rightarrow> nat \<Rightarrow> 'a option" where
  "at xs i = (if i < length xs then Some (xs ! i) else None)"

definition slice :: "'a list \<Rightarrow> nat \<Rightarrow> nat \<Rightarrow> 'a list option" where
  "slice xs lo hi = (if lo \<le> hi \<and> hi \<le> length xs then Some (drop lo (take hi xs)) else None)"

definition slice_from :: "'a list \<Rightarrow> nat \<Rightarrow> 'a list option" where
  "slice_from xs lo = slice xs lo (length xs)"

lemma at_Some [simp]: "i < length xs \<Longrightarrow> at xs i = Some (xs ! i)"
  by (simp add: at_def)

lemma at_eq_Some_iff: "at xs i = Some x \<longleftrightarrow> i < length xs \<and> xs ! i = x"
  by (auto simp: at_def)

lemma at_eq_None_iff: "at xs i = None \<longleftrightarrow> length xs \<le> i"
  by (auto simp: at_def)

lemma slice_Some [simp]:
  "lo \<le> hi \<Longrightarrow> hi \<le> length xs \<Longrightarrow> slice xs lo hi = Some (drop lo (take hi xs))"
  by (simp add: slice_def)

lemma slice_from_Some [simp]: "lo \<le> length xs \<Longrightarrow> slice_from xs lo = Some (drop lo xs)"
  by (simp add: slice_from_def)

fun foldM :: "('a \<Rightarrow> 's \<Rightarrow> 's option) \<Rightarrow> 'a list \<Rightarrow> 's \<Rightarrow> 's option" where
  "foldM f [] s = Some s"
| "foldM f (x # xs) s = (case f x s of None \<Rightarrow> None | Some t \<Rightarrow> foldM f xs t)"

lemma foldM_append: "foldM f (xs @ ys) s = Option.bind (foldM f xs s) (foldM f ys)"
  by (induction xs arbitrary: s) (auto split: option.splits)

text \<open>A loop whose body keeps a property keeps it, and returns if every iteration returns.\<close>

lemma foldM_invariant:
  assumes "foldM f xs s = Some t" "P s"
    and "\<And>x s t. x \<in> set xs \<Longrightarrow> P s \<Longrightarrow> f x s = Some t \<Longrightarrow> P t"
  shows "P t"
  using assms
proof (induction xs arbitrary: s)
  case Nil
  then show ?case by simp
next
  case (Cons x xs)
  from Cons.prems(1) obtain u where u: "f x s = Some u" "foldM f xs u = Some t"
    by (auto split: option.splits)
  have "P u" using Cons.prems(2,3) u(1) by auto
  with u(2) show ?case using Cons.IH Cons.prems(3) by auto
qed

lemma foldM_total:
  assumes "P s"
    and "\<And>x s. x \<in> set xs \<Longrightarrow> P s \<Longrightarrow> \<exists>t. f x s = Some t \<and> P t"
  shows "\<exists>t. foldM f xs s = Some t \<and> P t"
  using assms
proof (induction xs arbitrary: s)
  case Nil
  then show ?case by simp
next
  case (Cons x xs)
  obtain u where u: "f x s = Some u" "P u"
    using Cons.prems(2)[of x s] Cons.prems(1) by auto
  have "\<exists>t. foldM f xs u = Some t \<and> P t"
    using Cons.IH[OF u(2)] Cons.prems(2) by auto
  with u(1) show ?case by simp
qed

lemma foldM_pure: "foldM (\<lambda>x s. Some (g x s)) xs s = Some (fold g xs s)"
  by (induction xs arbitrary: s) auto

lemma bind_SomeE:
  assumes "Option.bind m f = Some y"
  obtains x where "m = Some x" "f x = Some y"
  using assms by (cases m) auto

section \<open>Maps\<close>

lemma fmlookup_fold_upd:
  "fmlookup (fold (\<lambda>k. fmupd k v) ks m) k = (if k \<in> set ks then Some v else fmlookup m k)"
  by (induction ks arbitrary: m) auto

end
