(* ===== verification/Bytes.thy ===== *)
theory Bytes
  imports Prelude
begin

text \<open>
  The parts of Go's standard library that the key formats rest on: \<open>bytes.Compare\<close> and
  \<open>binary.BigEndian\<close>. The locale \<open>comparator\<close> is the contract of a three-way comparison;
  clients that sort or route by key are proved against it, and \<open>bytes_compare\<close> interprets it.
\<close>

section \<open>Definitions\<close>

fun bytes_compare :: "bytes \<Rightarrow> bytes \<Rightarrow> int" where
  "bytes_compare [] [] = 0"
| "bytes_compare [] (y # ys) = -1"
| "bytes_compare (x # xs) [] = 1"
| "bytes_compare (x # xs) (y # ys) =
     (if x < y then -1 else if y < x then 1 else bytes_compare xs ys)"

definition put_be64 :: "64 word \<Rightarrow> bytes" where
  "put_be64 v = map (\<lambda>i. ucast (drop_bit (8 * i) v)) [7, 6, 5, 4, 3, 2, 1, 0]"

text \<open>\<open>Uint64(b)\<close> reads the first eight bytes and panics on a shorter slice.\<close>

definition get_be64 :: "bytes \<Rightarrow> 64 word option" where
  "get_be64 b = (if length b < 8 then None
     else Some (fold (\<lambda>x acc. push_bit 8 acc + ucast x) (take 8 b) 0))"

section \<open>The contract of a comparison\<close>

locale comparator =
  fixes cmp :: "'k \<Rightarrow> 'k \<Rightarrow> int"
  assumes cmp_eq_0_iff: "cmp a b = 0 \<longleftrightarrow> a = b"
    and cmp_antisym: "cmp b a = - cmp a b"
    and cmp_trans: "cmp a b < 0 \<Longrightarrow> cmp b c < 0 \<Longrightarrow> cmp a c < 0"
begin

lemma refl_0 [simp]: "cmp a a = 0"
  by (simp add: cmp_eq_0_iff)

lemma le_trans: "cmp a b \<le> 0 \<Longrightarrow> cmp b c \<le> 0 \<Longrightarrow> cmp a c \<le> 0"
  by (metis cmp_eq_0_iff cmp_trans order_le_less)

lemma less_le_trans: "cmp a b < 0 \<Longrightarrow> cmp b c \<le> 0 \<Longrightarrow> cmp a c < 0"
  by (metis cmp_eq_0_iff cmp_trans order_le_less)

lemma le_less_trans: "cmp a b \<le> 0 \<Longrightarrow> cmp b c < 0 \<Longrightarrow> cmp a c < 0"
  by (metis cmp_eq_0_iff cmp_trans order_le_less)

lemma ge_iff: "0 \<le> cmp a b \<longleftrightarrow> cmp b a \<le> 0"
  using cmp_antisym[of b a] by simp

lemma gt_iff: "0 < cmp a b \<longleftrightarrow> cmp b a < 0"
  using cmp_antisym[of b a] by simp

lemma total: "cmp a b < 0 \<or> a = b \<or> cmp b a < 0"
  using cmp_antisym[of a b] cmp_eq_0_iff[of a b] by linarith

end

section \<open>\<open>bytes.Compare\<close> meets it\<close>

lemma bytes_compare_refl [simp]: "bytes_compare xs xs = 0"
  by (induction xs) auto

lemma bytes_compare_eq_0_iff: "bytes_compare xs ys = 0 \<longleftrightarrow> xs = ys"
  by (induction xs ys rule: bytes_compare.induct) auto

lemma bytes_compare_antisym: "bytes_compare ys xs = - bytes_compare xs ys"
  by (induction xs ys rule: bytes_compare.induct) auto

lemma bytes_compare_trans:
  "bytes_compare xs ys < 0 \<Longrightarrow> bytes_compare ys zs < 0 \<Longrightarrow> bytes_compare xs zs < 0"
proof (induction xs ys arbitrary: zs rule: bytes_compare.induct)
  case (2 y ys)
  then show ?case by (cases zs) auto
next
  case (4 x xs y ys)
  then show ?case by (cases zs) (auto split: if_splits)
qed auto

interpretation bc: comparator bytes_compare
  by unfold_locales
    (auto simp: bytes_compare_eq_0_iff intro: bytes_compare_antisym bytes_compare_trans)

lemma bytes_compare_range: "bytes_compare xs ys \<in> {-1, 0, 1}"
  by (induction xs ys rule: bytes_compare.induct) auto

text \<open>Comparison is decided at the first difference: equal-length heads, then the tails.\<close>

lemma bytes_compare_append:
  "length xs = length ys \<Longrightarrow> bytes_compare (xs @ s) (ys @ t) =
     (if xs = ys then bytes_compare s t else bytes_compare xs ys)"
  by (induction xs ys rule: list_induct2) auto

lemma bytes_compare_Nil: "bytes_compare [] ys = (if ys = [] then 0 else -1)"
  by (cases ys) auto

section \<open>Big-endian integers\<close>

lemma length_put_be64 [simp]: "length (put_be64 v) = 8"
  by (simp add: put_be64_def)

lemma unat_u64_bound: "unat (v :: 64 word) < 256 ^ 8"
  using unsigned_less[where w = v] by (simp del: unsigned_less)

fun be_digits :: "nat \<Rightarrow> nat \<Rightarrow> nat list" where
  "be_digits 0 v = []"
| "be_digits (Suc n) v = v div 256 ^ n # be_digits n (v mod 256 ^ n)"

lemma length_be_digits [simp]: "length (be_digits n v) = n"
  by (induction n arbitrary: v) auto

lemma be_digits_bound:
  "v < 256 ^ n \<Longrightarrow> d \<in> set (be_digits n v) \<Longrightarrow> d < 256"
proof (induction n arbitrary: v)
  case (Suc n)
  have "v mod 256 ^ n < 256 ^ n" "v div 256 ^ n < 256"
    using Suc.prems(1) by (simp_all add: less_mult_imp_div_less)
  with Suc.IH[of "v mod 256 ^ n"] Suc.prems(2) show ?case by auto
qed simp

lemma be_digits_nth:
  "v < 256 ^ n \<Longrightarrow> i < n \<Longrightarrow> be_digits n v ! i = v div 256 ^ (n - 1 - i) mod 256"
proof (induction n arbitrary: v i)
  case (Suc n)
  show ?case
  proof (cases i)
    case 0
    have "v div 256 ^ n < 256"
      using Suc.prems(1) by (simp add: less_mult_imp_div_less)
    with 0 show ?thesis by simp
  next
    case (Suc j)
    with Suc.prems have j: "j < n" by simp
    have "be_digits (Suc n) v ! i = (v mod 256 ^ n) div 256 ^ (n - 1 - j) mod 256"
      using Suc.IH[of "v mod 256 ^ n" j] j Suc by simp
    also have "\<dots> = v div 256 ^ (n - 1 - j) mod 256"
    proof -
      have e: "n = (n - 1 - j) + Suc j" using j by simp
      have p: "(256::nat) ^ n = 256 ^ (n - 1 - j) * 256 ^ Suc j" by (metis e power_add)
      have "(v mod 256 ^ n) div 256 ^ (n - 1 - j) = v div 256 ^ (n - 1 - j) mod 256 ^ Suc j"
        by (simp only: p mod_mult2_eq) simp
      then show ?thesis by (simp add: mod_mod_cancel)
    qed
    finally show ?thesis using Suc by simp
  qed
qed simp

lemma put_be64_digits: "put_be64 v = map of_nat (be_digits 8 (unat v))"
proof (rule nth_equalityI)
  fix i assume "i < length (put_be64 v)"
  then have i: "i < 8" by simp
  have v: "unat v < 256 ^ 8" by (rule unat_u64_bound)
  have "put_be64 v ! i = ucast (drop_bit (8 * (7 - i)) v)"
    using i by (auto simp: put_be64_def less_Suc_eq numeral_eq_Suc)
  also have "\<dots> = of_nat (unat v div 256 ^ (7 - i) mod 256)"
  proof (rule iffD2[OF word_unat_eq_iff])
    have "unat (ucast (drop_bit (8 * (7 - i)) v) :: 8 word) = unat (drop_bit (8 * (7 - i)) v) mod 2 ^ 8"
      by (simp add: unsigned_ucast_eq take_bit_eq_mod)
    also have "unat (drop_bit (8 * (7 - i)) v) = unat v div 2 ^ (8 * (7 - i))"
      by (simp only: unat_drop_bit_eq) (simp only: drop_bit_eq_div)
    also have "(2::nat) ^ (8 * (7 - i)) = 256 ^ (7 - i)"
      by (simp add: power_mult)
    finally show "unat (ucast (drop_bit (8 * (7 - i)) v) :: 8 word) =
      unat (of_nat (unat v div 256 ^ (7 - i) mod 256) :: 8 word)"
      by (simp add: unat_of_nat)
  qed
  also have "\<dots> = map of_nat (be_digits 8 (unat v)) ! i"
    using be_digits_nth[OF v i] i by simp
  finally show "put_be64 v ! i = map of_nat (be_digits 8 (unat v)) ! i" .
qed simp

text \<open>Reading the digits back.\<close>

lemma be_digits_value:
  "v < 256 ^ n \<Longrightarrow> fold (\<lambda>d acc. acc * 256 + d) (be_digits n v) a = a * 256 ^ n + v"
proof (induction n arbitrary: v a)
  case (Suc n)
  have "fold (\<lambda>d acc. acc * 256 + d) (be_digits (Suc n) v) a
      = (a * 256 + v div 256 ^ n) * 256 ^ n + v mod 256 ^ n"
    using Suc.IH[of "v mod 256 ^ n" "a * 256 + v div 256 ^ n"] by simp
  also have "\<dots> = a * 256 ^ Suc n + (v div 256 ^ n * 256 ^ n + v mod 256 ^ n)"
    by (simp add: algebra_simps)
  also have "v div 256 ^ n * 256 ^ n + v mod 256 ^ n = v" by (rule div_mult_mod_eq)
  finally show ?case .
qed simp

lemma fold_be_word:
  assumes "\<forall>d \<in> set ds. d < 256"
  shows "fold (\<lambda>x acc. push_bit 8 acc + ucast x) (map of_nat ds :: 8 word list) (of_nat a :: 64 word)
    = of_nat (fold (\<lambda>d acc. acc * 256 + d) ds a)"
  using assms
proof (induction ds arbitrary: a)
  case (Cons d ds)
  have d: "unat (of_nat d :: 8 word) = d" using Cons.prems by (simp add: unat_of_nat)
  have "push_bit 8 (of_nat a :: 64 word) + ucast (of_nat d :: 8 word) = of_nat (a * 256 + d)"
  proof -
    have "(ucast (of_nat d :: 8 word) :: 64 word) = of_nat (unat (of_nat d :: 8 word))"
      by (rule iffD2[OF word_unat_eq_iff]) (simp add: unsigned_ucast_eq take_bit_eq_mod unat_of_nat)
    then show ?thesis using d by (simp add: push_bit_eq_mult)
  qed
  then have "fold (\<lambda>x acc. push_bit 8 acc + ucast x) (map of_nat (d # ds) :: 8 word list) (of_nat a :: 64 word)
    = fold (\<lambda>x acc. push_bit 8 acc + ucast x) (map of_nat ds :: 8 word list) (of_nat (a * 256 + d) :: 64 word)"
    by simp
  also have "\<dots> = of_nat (fold (\<lambda>d acc. acc * 256 + d) ds (a * 256 + d))"
    using Cons.prems by (intro Cons.IH) simp
  finally show ?case by simp
qed simp

lemma get_put_be64 [simp]: "get_be64 (put_be64 v @ rest) = Some v"
proof -
  have v: "unat v < 256 ^ 8" by (rule unat_u64_bound)
  have b: "\<forall>d \<in> set (be_digits 8 (unat v)). d < 256"
    using be_digits_bound[OF v] by blast
  have "get_be64 (put_be64 v @ rest) =
    Some (fold (\<lambda>x acc. push_bit 8 acc + ucast x) (put_be64 v) (of_nat 0))"
    by (simp add: get_be64_def)
  also have "\<dots> = Some (of_nat (fold (\<lambda>d acc. acc * 256 + d) (be_digits 8 (unat v)) 0))"
    using fold_be_word[OF b, of 0] by (simp add: put_be64_digits)
  also have "\<dots> = Some v" using be_digits_value[OF v, of 0] by simp
  finally show ?thesis .
qed

lemma be_digits_compare:
  "v < 256 ^ n \<Longrightarrow> w < 256 ^ n \<Longrightarrow>
   bytes_compare (map of_nat (be_digits n v)) (map of_nat (be_digits n w)) =
     (if v < w then -1 else if w < v then 1 else 0)"
proof (induction n arbitrary: v w)
  case (Suc n)
  let ?d = "\<lambda>x. x div 256 ^ n" and ?m = "\<lambda>x. x mod 256 ^ n"
  have dv: "?d v < 256" "?d w < 256"
    using Suc.prems by (simp_all add: less_mult_imp_div_less)
  have less: "(of_nat (?d a) < (of_nat (?d b) :: 8 word)) \<longleftrightarrow> ?d a < ?d b"
    if "?d a < 256" "?d b < 256" for a b
    using that by (simp add: word_less_nat_alt unat_of_nat)
  have ih: "bytes_compare (map of_nat (be_digits n (?m v))) (map of_nat (be_digits n (?m w))) =
     (if ?m v < ?m w then -1 else if ?m w < ?m v then 1 else 0)"
    by (rule Suc.IH) simp_all
  have ord: "?d a < ?d b \<Longrightarrow> a < b" for a b :: nat
    by (meson div_le_mono leD leI)
  have eqd: "(?m v < ?m w) = (v < w) \<and> (?m w < ?m v) = (w < v)" if "?d v = ?d w"
  proof -
    have "?d v * 256 ^ n + ?m v = v" "?d w * 256 ^ n + ?m w = w"
      by (rule div_mult_mod_eq)+
    then show ?thesis unfolding that by linarith
  qed
  consider "?d v < ?d w" | "?d w < ?d v" | "?d v = ?d w" by linarith
  then show ?case
  proof cases
    case 1
    with ord[of v w] less[OF dv] show ?thesis by simp
  next
    case 2
    with ord[of w v] less[OF dv] less[OF dv(2,1)] show ?thesis by simp
  next
    case 3
    with ih eqd show ?thesis by simp
  qed
qed simp

lemma put_be64_compare:
  "bytes_compare (put_be64 v) (put_be64 w) = (if v < w then -1 else if w < v then 1 else 0)"
proof -
  have "unat v < 256 ^ 8" "unat w < 256 ^ 8"
    by (rule unat_u64_bound)+
  then show ?thesis
    by (simp add: put_be64_digits be_digits_compare word_less_nat_alt del: be_digits.simps)
qed

lemma put_be64_inject [simp]: "put_be64 v = put_be64 w \<longleftrightarrow> v = w"
  by (metis get_put_be64 option.inject)

end
