(* ===== verification/Codec.thy ===== *)
theory Codec
  imports Bytes
begin

text \<open>
  \<open>kv/util/codec/codec.go\<close>: the memcomparable byte encoding under every multi-version key.
  \<open>EncodeBytes\<close> and \<open>DecodeBytes\<close> are the two loops of the source; the lemmas show that decoding
  inverts encoding whatever bytes follow, that everything the decoder accepts is an encoding,
  and that the encoding keeps the order of the keys.
\<close>

section \<open>Definitions\<close>

definition encGroupSize :: nat where
  "encGroupSize = 8"

definition encMarker :: byte where
  "encMarker = 0xFF"

definition encPad :: byte where
  "encPad = 0"

definition pads :: bytes where
  "pads = replicate encGroupSize 0"

datatype codec_error =
    InsufficientBytes nat
  | InvalidMarker bytes
  | InvalidPadding bytes

text \<open>The loop of \<open>EncodeBytes\<close>, with its loop variable \<open>idx\<close> and the slice built so far.\<close>

function EncodeBytes_loop :: "bytes \<Rightarrow> nat \<Rightarrow> bytes \<Rightarrow> bytes" where
  "EncodeBytes_loop data idx result =
     (if idx \<le> length data then
        let remain = length data - idx;
            padCount = (if remain \<ge> encGroupSize then 0 else encGroupSize - remain);
            result' = (if remain \<ge> encGroupSize
              then result @ take encGroupSize (drop idx data)
              else result @ drop idx data @ take padCount pads);
            marker = encMarker - of_nat padCount
        in EncodeBytes_loop data (idx + encGroupSize) (result' @ [marker])
      else result)"
  by pat_completeness auto
termination
  by (relation "measure (\<lambda>(data, idx, result). Suc (length data) - idx)")
    (auto simp: encGroupSize_def)

declare EncodeBytes_loop.simps [simp del]

definition EncodeBytes :: "bytes \<Rightarrow> bytes" where
  "EncodeBytes data = EncodeBytes_loop data 0 []"

text \<open>
  The loop of \<open>DecodeBytes\<close> returns the leftover bytes and the decoded value. The test
  \<open>padCount > encGroupSize\<close> is a comparison of bytes.
\<close>

function DecodeBytes_loop :: "bytes \<Rightarrow> bytes \<Rightarrow> codec_error + bytes \<times> bytes" where
  "DecodeBytes_loop b data =
     (if length b < encGroupSize + 1 then Inl (InsufficientBytes (length b))
      else
        let groupBytes = take (encGroupSize + 1) b;
            group = take encGroupSize groupBytes;
            marker = groupBytes ! encGroupSize;
            padCount = encMarker - marker
        in if padCount > of_nat encGroupSize then Inl (InvalidMarker groupBytes)
           else
             let realGroupSize = encGroupSize - unat padCount;
                 data' = data @ take realGroupSize group;
                 b' = drop (encGroupSize + 1) b
             in if padCount \<noteq> 0
                then (if list_all (\<lambda>v. v = encPad) (drop realGroupSize group)
                      then Inr (b', data') else Inl (InvalidPadding groupBytes))
                else DecodeBytes_loop b' data')"
  by pat_completeness auto
termination
  by (relation "measure (\<lambda>(b, data). length b)") (auto simp: encGroupSize_def)

declare DecodeBytes_loop.simps [simp del]

definition DecodeBytes :: "bytes \<Rightarrow> codec_error + bytes \<times> bytes" where
  "DecodeBytes b = DecodeBytes_loop b []"

section \<open>The encoding as a recursion over groups\<close>

definition enc_group :: "bytes \<Rightarrow> bytes" where
  "enc_group g = g @ replicate (8 - length g) 0 @ [255 - of_nat (8 - length g)]"

function enc_groups :: "bytes \<Rightarrow> bytes" where
  "enc_groups data = enc_group (take 8 data) @
     (if length data < 8 then [] else enc_groups (drop 8 data))"
  by pat_completeness auto
termination
  by (relation "measure length") auto

declare enc_groups.simps [simp del]

lemma length_enc_group [simp]: "length g \<le> 8 \<Longrightarrow> length (enc_group g) = 9"
  by (simp add: enc_group_def)

lemma EncodeBytes_loop_groups:
  "idx \<le> length data \<Longrightarrow> EncodeBytes_loop data idx result = result @ enc_groups (drop idx data)"
proof (induction data idx result rule: EncodeBytes_loop.induct)
  case (1 data idx result)
  show ?case
  proof (cases "length data - idx < 8")
    case True
    then have stop: "\<not> idx + 8 \<le> length data" using "1.prems" by linarith
    then have "EncodeBytes_loop data (idx + 8) r = r" for r
      by (simp add: EncodeBytes_loop.simps)
    with True "1.prems" show ?thesis
      by (simp add: EncodeBytes_loop.simps[of data idx] enc_groups.simps[of "drop idx data"]
          enc_group_def encGroupSize_def encMarker_def pads_def min_def Let_def)
  next
    case False
    then have go: "idx + 8 \<le> length data" by linarith
    have "EncodeBytes_loop data idx result =
        EncodeBytes_loop data (idx + 8) (result @ take 8 (drop idx data) @ [255])"
      using False "1.prems"
      by (subst EncodeBytes_loop.simps) (simp add: encGroupSize_def encMarker_def Let_def)
    also have "\<dots> = result @ take 8 (drop idx data) @ [255] @ enc_groups (drop (idx + 8) data)"
    proof -
      have "EncodeBytes_loop data (idx + encGroupSize)
          ((result @ take encGroupSize (drop idx data)) @ [encMarker - of_nat 0]) =
        ((result @ take encGroupSize (drop idx data)) @ [encMarker - of_nat 0])
          @ enc_groups (drop (idx + encGroupSize) data)"
        using "1.IH"[OF "1.prems" refl refl refl refl] False go by (simp add: encGroupSize_def)
      then show ?thesis by (simp add: encGroupSize_def encMarker_def)
    qed
    also have "\<dots> = result @ enc_groups (drop idx data)"
      using False
      by (simp add: enc_groups.simps[of "drop idx data"] enc_group_def add.commute)
    finally show ?thesis .
  qed
qed

lemma EncodeBytes_groups: "EncodeBytes data = enc_groups data"
  by (simp add: EncodeBytes_def EncodeBytes_loop_groups)

lemma enc_groups_short: "length g < 8 \<Longrightarrow> enc_groups g = enc_group g"
  by (simp add: enc_groups.simps[of g])

section \<open>Decoding\<close>

lemma DecodeBytes_loop_full:
  "length g = 8 \<Longrightarrow> DecodeBytes_loop (enc_group g @ rest) acc = DecodeBytes_loop rest (acc @ g)"
  by (subst DecodeBytes_loop.simps)
    (simp add: enc_group_def encGroupSize_def encMarker_def nth_append Let_def)

lemma DecodeBytes_loop_last:
  assumes "length g < 8"
  shows "DecodeBytes_loop (enc_group g @ rest) acc = Inr (rest, acc @ g)"
proof -
  let ?k = "8 - length g"
  have k: "unat (of_nat ?k :: byte) = ?k" by (simp add: unat_of_nat)
  have "\<not> of_nat ?k > (8 :: byte)" "(of_nat ?k :: byte) \<noteq> 0"
    using assms k by (simp_all add: word_less_nat_alt word_unat_eq_iff)
  then show ?thesis
    using assms k
    by (subst DecodeBytes_loop.simps)
      (simp add: enc_group_def encGroupSize_def encMarker_def encPad_def nth_append Let_def
        list_all_iff)
qed

lemma DecodeBytes_loop_enc_groups:
  "DecodeBytes_loop (enc_groups data @ rest) acc = Inr (rest, acc @ data)"
proof (induction data arbitrary: acc rule: enc_groups.induct)
  case (1 data)
  show ?case
  proof (cases "length data < 8")
    case True
    then show ?thesis
      by (simp add: enc_groups.simps[of data] DecodeBytes_loop_last)
  next
    case False
    then show ?thesis
      using 1 by (simp add: enc_groups.simps[of data] DecodeBytes_loop_full)
  qed
qed

text \<open>Everything the decoder accepts is an encoding followed by the leftover bytes.\<close>

lemma group_of_marker:
  assumes len: "length gb = 9" and k: "255 - gb ! 8 \<le> (8 :: byte)"
    and pad: "\<forall>v \<in> set (drop (8 - unat (255 - gb ! 8)) (take 8 gb)). v = 0"
  shows "gb = enc_group (take (8 - unat (255 - gb ! 8)) gb)"
proof -
  let ?k = "unat (255 - gb ! 8)"
  have k8: "?k \<le> 8" using k by (simp add: word_le_nat_alt)
  have "drop (8 - ?k) (take 8 gb) = replicate ?k 0"
    using pad len k8 by (intro replicate_eqI) auto
  then have "take 8 gb = take (8 - ?k) gb @ replicate ?k 0"
    using append_take_drop_id[of "8 - ?k" "take 8 gb"] k8 by (simp add: min_def)
  moreover have "gb = take 8 gb @ [gb ! 8]"
    using len take_Suc_conv_app_nth[of 8 gb] by simp
  moreover have "gb ! 8 = 255 - of_nat ?k" by simp
  ultimately show ?thesis
    using len k8 by (simp add: enc_group_def)
qed

lemma DecodeBytes_loop_sound:
  "DecodeBytes_loop b acc = Inr (rest, d) \<Longrightarrow> \<exists>x. d = acc @ x \<and> b = enc_groups x @ rest"
proof (induction b acc rule: DecodeBytes_loop.induct)
  case (1 b acc)
  let ?gb = "take 9 b" and ?p = "255 - b ! 8 :: byte"
  have len: "9 \<le> length b"
    using "1.prems" by (subst (asm) DecodeBytes_loop.simps) (auto simp: encGroupSize_def split: if_splits)
  have p: "?p \<le> 8"
    using "1.prems" len
    by (subst (asm) DecodeBytes_loop.simps)
      (auto simp: encGroupSize_def encMarker_def Let_def split: if_splits)
  have b: "b = ?gb @ drop 9 b" by simp
  let ?g = "take (8 - unat ?p) ?gb"
  show ?case
  proof (cases "?p = 0")
    case True
    have gb: "?gb = enc_group (take 8 b)"
      using group_of_marker[of ?gb] len p True by (simp add: min_def)
    have rec: "DecodeBytes_loop (drop 9 b) (acc @ take 8 b) = Inr (rest, d)"
      using "1.prems" len DecodeBytes_loop_full[of "take 8 b" "drop 9 b" acc] gb b by simp
    then obtain x where x: "d = (acc @ take 8 b) @ x" "drop 9 b = enc_groups x @ rest"
      using "1.IH"[OF _ refl refl refl refl _ refl refl refl] len p True
      by (auto simp: encGroupSize_def encMarker_def min_def)
    have "b = enc_groups (take 8 b @ x) @ rest"
      using gb b x(2) len by (simp add: enc_groups.simps[of "take 8 b @ x"])
    with x(1) show ?thesis by auto
  next
    case False
    have ok: "(\<forall>v \<in> set (drop (8 - unat ?p) (take 8 b)). v = 0) \<and>
        (rest, d) = (drop 9 b, acc @ take (8 - unat ?p) (take 8 b))"
      using "1.prems" len p False
      by (subst (asm) DecodeBytes_loop.simps)
        (auto simp: encGroupSize_def encMarker_def encPad_def Let_def list_all_iff min_def
          split: if_splits)
    have k: "0 < unat ?p" using False by (simp add: unat_gt_0)
    have gi: "?gb ! 8 = b ! 8" by simp
    have gb: "?gb = enc_group ?g"
      by (rule group_of_marker[of ?gb, unfolded gi]) (use len p ok in \<open>simp_all add: min_def\<close>)
    have "enc_groups ?g = enc_group ?g"
      using k by (intro enc_groups_short) simp
    then have "b = enc_groups ?g @ rest"
      using b ok by (simp only: gb[symmetric] prod.inject)
    moreover have "8 - unat ?p \<le> 9" by linarith
    then have "d = acc @ ?g" using ok by (simp add: min_absorb1)
    ultimately show ?thesis by blast
  qed
qed


section \<open>Order\<close>

lemma bytes_compare_take:
  "take n a \<noteq> take n b \<Longrightarrow> bytes_compare a b = bytes_compare (take n a) (take n b)"
proof (induction a b arbitrary: n rule: bytes_compare.induct)
  case (2 y ys)
  then show ?case by (cases n) auto
next
  case (3 x xs)
  then show ?case by (cases n) auto
next
  case (4 x xs y ys)
  then show ?case by (cases n) auto
qed simp

lemma bytes_compare_drop:
  "take n a = take n b \<Longrightarrow> bytes_compare (drop n a) (drop n b) = bytes_compare a b"
proof -
  assume eq: "take n a = take n b"
  have "bytes_compare (take n a @ drop n a) (take n b @ drop n b) =
      bytes_compare (drop n a) (drop n b)"
    using eq by (subst bytes_compare_append) simp_all
  then show ?thesis by simp
qed

text \<open>
  Padding with the least byte only loses the order of keys of which one extends the other by
  zero bytes; the marker restores it.
\<close>

lemma bytes_compare_zeros:
  "length b \<le> n \<Longrightarrow> bytes_compare (replicate n 0) (b @ replicate (n - length b) 0) =
     (if b = replicate (length b) 0 then 0 else -1)"
proof (induction b arbitrary: n)
  case (Cons y b)
  then obtain m where "n = Suc m" by (cases n) auto
  with Cons show ?case by (auto simp: word_gt_0)
qed simp

lemma padded_compare:
  "length a \<le> n \<Longrightarrow> length b \<le> n \<Longrightarrow>
   (if a @ replicate (n - length a) 0 = b @ replicate (n - length b) 0
    then bytes_compare a b = (if length a < length b then -1 else if length b < length a then 1 else 0)
    else bytes_compare (a @ replicate (n - length a) 0) (b @ replicate (n - length b) 0) =
      bytes_compare a b)"
proof (induction a b arbitrary: n rule: bytes_compare.induct)
  case (2 y ys)
  have z: "bytes_compare (replicate n 0) ((y # ys) @ replicate (n - length (y # ys)) 0) =
     (if y # ys = replicate (length (y # ys)) 0 then 0 else -1)"
    using 2 by (intro bytes_compare_zeros) simp
  show ?case
  proof (cases "replicate n 0 = (y # ys) @ replicate (n - length (y # ys)) 0")
    case False
    then have "bytes_compare (replicate n 0) ((y # ys) @ replicate (n - length (y # ys)) 0) \<noteq> 0"
      by (simp add: bytes_compare_eq_0_iff del: append_Cons)
    with z False show ?thesis by (simp split: if_splits del: append_Cons)
  qed simp
next
  case (3 x xs)
  have z: "bytes_compare (replicate n 0) ((x # xs) @ replicate (n - length (x # xs)) 0) =
     (if x # xs = replicate (length (x # xs)) 0 then 0 else -1)"
    using 3 by (intro bytes_compare_zeros) simp
  show ?case
  proof (cases "replicate n 0 = (x # xs) @ replicate (n - length (x # xs)) 0")
    case True
    then show ?thesis by (auto simp del: append_Cons)
  next
    case False
    then have "bytes_compare (replicate n 0) ((x # xs) @ replicate (n - length (x # xs)) 0) = -1"
      using z by (metis bytes_compare_eq_0_iff)
    then have "bytes_compare ((x # xs) @ replicate (n - length (x # xs)) 0) (replicate n 0) = 1"
      using bytes_compare_antisym by (metis minus_minus)
    with False show ?thesis by (auto simp del: append_Cons)
  qed
next
  case (4 x xs y ys)
  then obtain m where n: "n = Suc m" by (cases n) auto
  show ?case
  proof (cases "x = y")
    case True
    then show ?thesis using 4 n by auto
  next
    case False
    then show ?thesis using n by auto
  qed
qed simp


lemma enc_group_compare:
  assumes "length a \<le> 8" "length b \<le> 8"
  shows "bytes_compare (enc_group a) (enc_group b) = bytes_compare a b"
proof -
  let ?a = "a @ replicate (8 - length a) 0" and ?b = "b @ replicate (8 - length b) 0"
  have u: "unat (255 - of_nat (8 - length x) :: byte) = 247 + length x" if "length x \<le> 8" for x :: bytes
  proof -
    have "(255 - of_nat (8 - length x) :: byte) = of_nat (247 + length x)" using that by simp
    then show ?thesis using that by (simp only: unat_of_nat) simp
  qed
  have "bytes_compare (enc_group a) (enc_group b) =
    (if ?a = ?b then bytes_compare [255 - of_nat (8 - length a)] [255 - of_nat (8 - length b)]
     else bytes_compare ?a ?b)"
    using assms bytes_compare_append[of ?a ?b] by (simp add: enc_group_def)
  also have "\<dots> = bytes_compare a b"
    using padded_compare[OF assms] u[OF assms(1)] u[OF assms(2)]
    by (auto simp: word_less_nat_alt)
  finally show ?thesis .
qed

lemma enc_groups_compare:
  "bytes_compare (enc_groups a @ s) (enc_groups b @ t) =
     (if a = b then bytes_compare s t else bytes_compare a b)"
proof (induction a arbitrary: b rule: enc_groups.induct)
  case (1 a)
  let ?rest = "\<lambda>x s. (if length x < 8 then [] else enc_groups (drop 8 x)) @ s"
  have split: "bytes_compare (enc_groups a @ s) (enc_groups b @ t) =
    (if enc_group (take 8 a) = enc_group (take 8 b)
     then bytes_compare (?rest a s) (?rest b t)
     else bytes_compare (enc_group (take 8 a)) (enc_group (take 8 b)))"
    by (simp add: enc_groups.simps[of a] enc_groups.simps[of b] bytes_compare_append)
  have inj: "enc_group (take 8 a) = enc_group (take 8 b) \<longleftrightarrow> take 8 a = take 8 b"
  proof -
    have "bytes_compare (enc_group (take 8 a)) (enc_group (take 8 b)) = bytes_compare (take 8 a) (take 8 b)"
      by (rule enc_group_compare) simp_all
    then show ?thesis
      using bytes_compare_eq_0_iff[of "take 8 a"] bytes_compare_eq_0_iff[of "enc_group (take 8 a)"]
      by metis
  qed
  show ?case
  proof (cases "take 8 a = take 8 b")
    case False
    then have "a \<noteq> b" by auto
    with False show ?thesis
      using split inj bytes_compare_take[OF False] by (simp add: enc_group_compare)
  next
    case True
    then have len: "min 8 (length a) = min 8 (length b)" by (metis length_take min.commute)
    show ?thesis
    proof (cases "length a < 8")
      case a: True
      then have "length b < 8"
        using len by linarith
      with a True split show ?thesis by simp
    next
      case False
      then have "\<not> length b < 8"
        using len by linarith
      moreover have "(drop 8 a = drop 8 b) = (a = b)"
        using True by (metis append_take_drop_id)
      ultimately show ?thesis
        using 1[OF False, of "drop 8 b"] False True split bytes_compare_drop[OF True] by simp
    qed
  qed
qed

lemma EncodeBytes_compare:
  "bytes_compare (EncodeBytes a @ s) (EncodeBytes b @ t) =
     (if a = b then bytes_compare s t else bytes_compare a b)"
  by (simp add: EncodeBytes_groups enc_groups_compare)

lemma Decode_Encode [simp]: "DecodeBytes (EncodeBytes data @ rest) = Inr (rest, data)"
  by (simp add: DecodeBytes_def EncodeBytes_groups DecodeBytes_loop_enc_groups)

section \<open>Properties\<close>

text \<open>
  Decoding an encoded key that is followed by any bytes returns the key and
  leaves exactly those bytes, so a key can be peeled off the front of a longer key.
\<close>

theorem DecodeBytes_EncodeBytes: "DecodeBytes (EncodeBytes data @ rest) = Inr (rest, data)"
  by (rule Decode_Encode)

text \<open>
  C29 (round trip): the decoder accepts nothing but encodings. Whenever it returns a value, the
  input was the encoding of that value followed by the leftover bytes; marker and padding checks
  leave no second representation.
\<close>

theorem DecodeBytes_sound:
  "DecodeBytes b = Inr (rest, data) \<Longrightarrow> b = EncodeBytes data @ rest"
  using DecodeBytes_loop_sound[of b "[]" rest data]
  by (simp add: DecodeBytes_def EncodeBytes_groups)

theorem DecodeBytes_sound_witness:
  "[1, 2, 0, 0, 0, 0, 0, 0, 249, 7] = EncodeBytes [1, 2] @ [7]"
  by (rule DecodeBytes_sound) code_simp

text \<open>
  C28 (order): the encoding is memcomparable. Encoded keys compare as the keys do, whatever
  follows them; only for equal keys is the comparison decided by what follows.
\<close>

theorem EncodeBytes_order:
  "bytes_compare (EncodeBytes a @ s) (EncodeBytes b @ t) =
     (if a = b then bytes_compare s t else bytes_compare a b)"
  by (rule EncodeBytes_compare)

end
