(* ===== verification/Mvcc.thy ===== *)
theory Mvcc
  imports Codec
begin

unbundle bit_operations_syntax

text \<open>
  \<open>kv/transaction/mvcc\<close>: the formats of the multi-version layer. \<open>EncodeKey\<close> appends the
  complemented timestamp to the encoded user key, locks and writes are serialised with
  big-endian integers, and \<open>AllLocksForTxn\<close> scans the lock column family. The column family is
  read through the \<open>DBIterator\<close> interface; an iterator is the list of the items it yields, each
  with the result of \<open>Value()\<close>. (The transactional methods of \<open>MvccTxn\<close> and the \<open>Scanner\<close> have
  empty bodies in the source and are not modelled.)
\<close>

section \<open>Versioned keys\<close>

definition EncodeKey :: "bytes \<Rightarrow> 64 word \<Rightarrow> bytes" where
  "EncodeKey key ts = EncodeBytes key @ put_be64 (NOT ts)"

text \<open>A decoding error is a panic here.\<close>

definition DecodeUserKey :: "bytes \<Rightarrow> bytes option" where
  "DecodeUserKey key =
     (case DecodeBytes key of Inl e \<Rightarrow> None | Inr (left, userKey) \<Rightarrow> Some userKey)"

definition decodeTimestamp :: "bytes \<Rightarrow> 64 word option" where
  "decodeTimestamp key =
     (case DecodeBytes key of Inl e \<Rightarrow> None
      | Inr (left, userKey) \<Rightarrow> map_option (\<lambda>v. NOT v) (get_be64 left))"

definition PhysicalShiftBits :: nat where
  "PhysicalShiftBits = 18"

definition PhysicalTime :: "64 word \<Rightarrow> 64 word" where
  "PhysicalTime ts = drop_bit PhysicalShiftBits ts"

section \<open>Write kinds\<close>

type_synonym WriteKind = int

definition WriteKindPut :: WriteKind where "WriteKindPut = 1"
definition WriteKindDelete :: WriteKind where "WriteKindDelete = 2"
definition WriteKindRollback :: WriteKind where "WriteKindRollback = 3"

text \<open>\<open>kvrpcpb.Op\<close> as its protobuf number: \<open>Put = 0\<close>, \<open>Del = 1\<close>, \<open>Rollback = 2\<close>, \<open>Lock = 3\<close>.\<close>

definition ToProto :: "WriteKind \<Rightarrow> int" where
  "ToProto wk =
     (if wk = WriteKindPut then 0 else if wk = WriteKindDelete then 1
      else if wk = WriteKindRollback then 2 else -1)"

definition WriteKindFromProto :: "int \<Rightarrow> WriteKind option" where
  "WriteKindFromProto op =
     (if op = 0 then Some WriteKindPut else if op = 1 then Some WriteKindDelete
      else if op = 2 then Some WriteKindRollback else None)"

section \<open>Writes\<close>

record Write =
  w_StartTS :: "64 word"
  w_Kind :: WriteKind

datatype mvcc_error = WriteLength nat | LockLength nat | ValueError string

definition Write_ToBytes :: "Write \<Rightarrow> bytes" where
  "Write_ToBytes wr = word_of_int (w_Kind wr) # put_be64 (w_StartTS wr)"

text \<open>
  \<open>nil\<close> parses to \<open>(nil, nil)\<close>. The outer \<open>option\<close> is the panic of \<open>Uint64\<close> on a short slice.
\<close>

definition ParseWrite :: "bytes option \<Rightarrow> (mvcc_error + Write option) option" where
  "ParseWrite value =
     (case value of
        None \<Rightarrow> Some (Inr None)
      | Some v \<Rightarrow>
          if length v \<noteq> 9 then Some (Inl (WriteLength (length v)))
          else do {
            kind \<leftarrow> at v 0;
            startTs \<leftarrow> get_be64 (drop 1 v);
            Some (Inr (Some \<lparr>w_StartTS = startTs, w_Kind = uint kind\<rparr>))
          })"

section \<open>Locks\<close>

definition TsMax :: "64 word" where
  "TsMax = NOT 0"

record Lock =
  l_Primary :: bytes
  l_Ts :: "64 word"
  l_Ttl :: "64 word"
  l_Kind :: WriteKind

record LockInfo =
  li_Key :: bytes
  li_LockVersion :: "64 word"
  li_PrimaryLock :: bytes
  li_LockTtl :: "64 word"

definition Info :: "Lock \<Rightarrow> bytes \<Rightarrow> LockInfo" where
  "Info lock key =
     \<lparr>li_Key = key, li_LockVersion = l_Ts lock, li_PrimaryLock = l_Primary lock,
      li_LockTtl = l_Ttl lock\<rparr>"

definition Lock_ToBytes :: "Lock \<Rightarrow> bytes" where
  "Lock_ToBytes lock =
     l_Primary lock @ [word_of_int (l_Kind lock)] @ put_be64 (l_Ts lock) @ put_be64 (l_Ttl lock)"

definition ParseLock :: "bytes \<Rightarrow> (mvcc_error + Lock) option" where
  "ParseLock input =
     (if length input \<le> 16 then Some (Inl (LockLength (length input)))
      else
        let primaryLen = length input - 17 in do {
          primary \<leftarrow> slice input 0 primaryLen;
          kind \<leftarrow> at input primaryLen;
          ts \<leftarrow> get_be64 (drop (primaryLen + 1) input);
          ttl \<leftarrow> get_be64 (drop (primaryLen + 9) input);
          Some (Inr \<lparr>l_Primary = primary, l_Ts = ts, l_Ttl = ttl, l_Kind = uint kind\<rparr>)
        })"

text \<open>
  \<open>IsLockedFor\<close> returns whether the key is locked and, if so, stores a \<open>Locked\<close> key error in the
  \<open>Error\<close> field of the response it was given: the second component is what the field holds
  afterwards, \<open>old\<close> being what it held before.
\<close>

definition IsLockedFor ::
  "Lock option \<Rightarrow> bytes \<Rightarrow> 64 word \<Rightarrow> LockInfo option \<Rightarrow> bool \<times> LockInfo option" where
  "IsLockedFor lk key txnStartTs old =
     (case lk of
        None \<Rightarrow> (False, old)
      | Some lock \<Rightarrow>
          if txnStartTs = TsMax \<and> bytes_compare key (l_Primary lock) \<noteq> 0 then (False, old)
          else if l_Ts lock \<le> txnStartTs then (True, Some (Info lock key))
          else (False, old))"

text \<open>The loop of \<open>AllLocksForTxn\<close> over the items of the lock column family.\<close>

fun AllLocksForTxn_loop ::
  "64 word \<Rightarrow> (bytes \<times> (mvcc_error + bytes)) list \<Rightarrow> (bytes \<times> Lock) list \<Rightarrow>
   (mvcc_error + (bytes \<times> Lock) list) option" where
  "AllLocksForTxn_loop startTS [] result = Some (Inr result)"
| "AllLocksForTxn_loop startTS ((key, value) # items) result =
     (case value of
        Inl err \<Rightarrow> Some (Inl err)
      | Inr val \<Rightarrow>
          (case ParseLock val of
             None \<Rightarrow> None
           | Some (Inl err) \<Rightarrow> Some (Inl err)
           | Some (Inr lock) \<Rightarrow>
               AllLocksForTxn_loop startTS items
                 (if l_Ts lock = startTS then result @ [(key, lock)] else result)))"

definition AllLocksForTxn ::
  "64 word \<Rightarrow> (bytes \<times> (mvcc_error + bytes)) list \<Rightarrow> (mvcc_error + (bytes \<times> Lock) list) option" where
  "AllLocksForTxn startTS items = AllLocksForTxn_loop startTS items []"

section \<open>Lemmas\<close>

lemma not_word_less_iff: "NOT a < NOT b \<longleftrightarrow> b < (a :: 64 word)"
proof -
  have "unat (NOT x) = unat (-1 :: 64 word) - unat x" and "unat x \<le> unat (-1 :: 64 word)"
    for x :: "64 word"
  proof -
    have "NOT x = -1 - x" by (simp add: not_eq_complement)
    moreover have le: "x \<le> -1" by simp
    ultimately show "unat (NOT x) = unat (-1 :: 64 word) - unat x" by (simp only: unat_sub)
    from le show "unat x \<le> unat (-1 :: 64 word)" by (simp only: word_le_nat_alt)
  qed
  from this[of a] this[of b] show ?thesis unfolding word_less_nat_alt by linarith
qed

lemma uint_byte_of_int: "0 \<le> k \<Longrightarrow> k < 256 \<Longrightarrow> uint (word_of_int k :: byte) = k"
  by (simp add: uint_word_of_int)

lemma ParseWrite_ToBytes:
  "0 \<le> w_Kind w \<Longrightarrow> w_Kind w < 256 \<Longrightarrow> ParseWrite (Some (Write_ToBytes w)) = Some (Inr (Some w))"
  using get_put_be64[of "w_StartTS w" "[]"]
  by (simp add: ParseWrite_def Write_ToBytes_def uint_byte_of_int)

lemma ParseLock_ToBytes:
  assumes "0 \<le> l_Kind l" "l_Kind l < 256"
  shows "ParseLock (Lock_ToBytes l) = Some (Inr l)"
  using assms get_put_be64[of "l_Ttl l" "[]"]
  by (simp add: ParseLock_def Lock_ToBytes_def uint_byte_of_int nth_append)

lemma get_be64_Some: "8 \<le> length b \<Longrightarrow> \<exists>v. get_be64 b = Some v"
  by (simp add: get_be64_def)

lemma ParseLock_returns [panic_free]: "\<exists>r. ParseLock input = Some r"
proof (cases "length input \<le> 16")
  case False
  then obtain ts ttl where
    "get_be64 (drop (length input - 17 + 1) input) = Some ts"
    "get_be64 (drop (length input - 17 + 9) input) = Some ttl"
    using get_be64_Some[of "drop (length input - 17 + 1) input"]
      get_be64_Some[of "drop (length input - 17 + 9) input"] by auto
  with False show ?thesis by (simp add: ParseLock_def Let_def)
qed (simp add: ParseLock_def)

lemma AllLocksForTxn_loop_filter:
  "\<forall>(k, l) \<in> set kls. 0 \<le> l_Kind l \<and> l_Kind l < 256 \<Longrightarrow>
   AllLocksForTxn_loop ts (map (\<lambda>(k, l). (k, Inr (Lock_ToBytes l))) kls) acc =
     Some (Inr (acc @ filter (\<lambda>(k, l). l_Ts l = ts) kls))"
  by (induction kls arbitrary: acc) (auto simp: ParseLock_ToBytes)

section \<open>Properties\<close>

text \<open>
  C30 (order): versioned keys sort by user key first, ascending, and by timestamp second,
  descending, so that a seek to a key and a timestamp lands on the newest version that is
  visible at it.
\<close>

theorem EncodeKey_order:
  "bytes_compare (EncodeKey k1 t1) (EncodeKey k2 t2) =
     (if k1 \<noteq> k2 then bytes_compare k1 k2
      else if t1 > t2 then -1 else if t1 < t2 then 1 else 0)"
  by (simp add: EncodeKey_def EncodeBytes_compare put_be64_compare not_word_less_iff)

text \<open>
  The user key and the timestamp are both recovered from a versioned key, and
  the two decoders do not panic on one.
\<close>

theorem EncodeKey_roundtrip:
  "DecodeUserKey (EncodeKey key ts) = Some key \<and> decodeTimestamp (EncodeKey key ts) = Some ts"
  using get_put_be64[of "NOT ts" "[]"]
  by (simp add: EncodeKey_def DecodeUserKey_def decodeTimestamp_def)

text \<open>
  On a column family that holds serialised locks, \<open>AllLocksForTxn\<close> returns
  exactly the locks of the transaction, in key order, and neither fails nor panics.
\<close>

theorem AllLocksForTxn_filter:
  assumes "\<forall>(k, l) \<in> set kls. 0 \<le> l_Kind l \<and> l_Kind l < 256"
  shows "AllLocksForTxn ts (map (\<lambda>(k, l). (k, Inr (Lock_ToBytes l))) kls) =
    Some (Inr (filter (\<lambda>(k, l). l_Ts l = ts) kls))"
  using AllLocksForTxn_loop_filter[OF assms] by (simp add: AllLocksForTxn_def)

theorem AllLocksForTxn_filter_witness:
  "let a = \<lparr>l_Primary = [1], l_Ts = 7, l_Ttl = 9, l_Kind = 1\<rparr>;
       b = \<lparr>l_Primary = [1], l_Ts = 8, l_Ttl = 9, l_Kind = 2\<rparr>;
       kls = [([1], a), ([2], b), ([3], a)]
   in AllLocksForTxn 7 (map (\<lambda>(k, l). (k, Inr (Lock_ToBytes l))) kls) =
        Some (Inr [([1], a), ([3], a)])"
proof -
  let ?a = "\<lparr>l_Primary = [1], l_Ts = 7, l_Ttl = 9, l_Kind = 1\<rparr> :: Lock"
  let ?b = "\<lparr>l_Primary = [1], l_Ts = 8, l_Ttl = 9, l_Kind = 2\<rparr> :: Lock"
  show ?thesis
    using AllLocksForTxn_filter[of "[([1], ?a), ([2], ?b), ([3], ?a)]" 7] by simp
qed

end
