(* ===== verification/Latches.thy ===== *)
theory Latches
  imports Prelude
begin

text \<open>
  \<open>kv/transaction/latches/latches.go\<close>: per-key latches for commands. A \<open>*sync.WaitGroup\<close> is a
  number, \<open>wg_count\<close> holds the counters of the allocated groups and \<open>wg_next\<close> the next free
  number. \<open>AcquireLatches\<close> and \<open>ReleaseLatches\<close> run under the mutex \<open>latchGuard\<close>, so each is one
  atomic step; \<open>WaitForLatches\<close> is a loop of such steps, interleaved with other threads by the
  relation \<open>latch_step\<close>.
\<close>

section \<open>Definitions\<close>

record Latches =
  latchMap :: "(bytes, nat) fmap"
  wg_count :: "nat \<Rightarrow> nat"
  wg_next :: nat

definition NewLatches :: Latches where
  "NewLatches = \<lparr>latchMap = fmempty, wg_count = (\<lambda>_. 0), wg_next = 0\<rparr>"

fun find_latched :: "(bytes, nat) fmap \<Rightarrow> bytes list \<Rightarrow> nat option" where
  "find_latched m [] = None"
| "find_latched m (key # keys) =
     (case fmlookup m key of Some latchWg \<Rightarrow> Some latchWg | None \<Rightarrow> find_latched m keys)"

text \<open>The result \<open>None\<close> is the nil wait group: every latch was acquired.\<close>

definition AcquireLatches :: "bytes list \<Rightarrow> Latches \<Rightarrow> nat option \<times> Latches" where
  "AcquireLatches keysToLatch l =
     (case find_latched (latchMap l) keysToLatch of
        Some latchWg \<Rightarrow> (Some latchWg, l)
      | None \<Rightarrow>
          let wg = wg_next l in
          (None, l\<lparr>latchMap := fold (\<lambda>key m. fmupd key wg m) keysToLatch (latchMap l),
                  wg_count := (wg_count l)(wg := 1),
                  wg_next := Suc wg\<rparr>))"

text \<open>\<open>wg.Done()\<close> panics on a nil group and when the counter would become negative.\<close>

definition wg_Done :: "nat option \<Rightarrow> Latches \<Rightarrow> Latches option" where
  "wg_Done wg l =
     (case wg of None \<Rightarrow> None
      | Some g \<Rightarrow>
          if wg_count l g = 0 then None
          else Some (l\<lparr>wg_count := (wg_count l)(g := wg_count l g - 1)\<rparr>))"

fun ReleaseLatches_loop :: "bool \<Rightarrow> bytes list \<Rightarrow> Latches \<Rightarrow> Latches option" where
  "ReleaseLatches_loop first [] l = Some l"
| "ReleaseLatches_loop first (key # keys) l =
     (case (if first then wg_Done (fmlookup (latchMap l) key) l else Some l) of
        None \<Rightarrow> None
      | Some l' \<Rightarrow> ReleaseLatches_loop False keys (l'\<lparr>latchMap := fmdrop key (latchMap l')\<rparr>))"

definition ReleaseLatches :: "bytes list \<Rightarrow> Latches \<Rightarrow> Latches option" where
  "ReleaseLatches keysToUnlatch l = ReleaseLatches_loop True keysToUnlatch l"

text \<open>
  Threads: \<open>Trying\<close> is the top of the loop of \<open>WaitForLatches\<close>, \<open>Blocked\<close> the call of
  \<open>wg.Wait()\<close>, \<open>Holding\<close> the critical section after it returned. The group number in \<open>Holding\<close>
  records which acquisition the thread made; no step reads it.
\<close>

datatype thread = Idle | Trying "bytes list" | Blocked "bytes list" nat | Holding "bytes list" nat

record latch_sys =
  latches :: Latches
  threads :: "nat \<Rightarrow> thread"

definition latch_init :: latch_sys where
  "latch_init = \<lparr>latches = NewLatches, threads = (\<lambda>_. Idle)\<rparr>"

inductive latch_step :: "latch_sys \<Rightarrow> latch_sys \<Rightarrow> bool" where
  call_Wait:
    "threads s i = Idle \<Longrightarrow> latch_step s (s\<lparr>threads := (threads s)(i := Trying keys)\<rparr>)"
| acquire:
    "threads s i = Trying keys \<Longrightarrow> AcquireLatches keys (latches s) = (None, l) \<Longrightarrow>
     latch_step s \<lparr>latches = l, threads = (threads s)(i := Holding keys (wg_next (latches s)))\<rparr>"
| block:
    "threads s i = Trying keys \<Longrightarrow> AcquireLatches keys (latches s) = (Some wg, l) \<Longrightarrow>
     latch_step s \<lparr>latches = l, threads = (threads s)(i := Blocked keys wg)\<rparr>"
| wake:
    "threads s i = Blocked keys wg \<Longrightarrow> wg_count (latches s) wg = 0 \<Longrightarrow>
     latch_step s (s\<lparr>threads := (threads s)(i := Trying keys)\<rparr>)"
| release:
    "threads s i = Holding keys wg \<Longrightarrow> ReleaseLatches keys (latches s) = Some l \<Longrightarrow>
     latch_step s \<lparr>latches = l, threads = (threads s)(i := Idle)\<rparr>"

inductive latch_reachable :: "latch_sys \<Rightarrow> bool" where
  init: "latch_reachable latch_init"
| step: "latch_reachable s \<Longrightarrow> latch_step s t \<Longrightarrow> latch_reachable t"

section \<open>Lemmas on the operations\<close>

lemma find_latched_None_iff:
  "find_latched m keys = None \<longleftrightarrow> (\<forall>k \<in> set keys. fmlookup m k = None)"
  by (induction keys) (auto split: option.splits)

lemma find_latched_SomeD:
  "find_latched m keys = Some g \<Longrightarrow> \<exists>k \<in> set keys. fmlookup m k = Some g"
  by (induction keys) (auto split: option.splits)

lemma ReleaseLatches_loop_False:
  "ReleaseLatches_loop False keys l =
     Some (l\<lparr>latchMap := fold (\<lambda>key m. fmdrop key m) keys (latchMap l)\<rparr>)"
  by (induction keys arbitrary: l) auto

lemma fmlookup_fold_drop:
  "fmlookup (fold (\<lambda>key m. fmdrop key m) keys m) k = (if k \<in> set keys then None else fmlookup m k)"
  by (induction keys arbitrary: m) auto

text \<open>Releasing latches that were taken together by group \<open>g\<close> wakes \<open>g\<close> and frees the keys.\<close>

lemma ReleaseLatches_held:
  assumes "\<forall>k \<in> set keys. fmlookup (latchMap l) k = Some g" "keys \<noteq> [] \<longrightarrow> wg_count l g = 1"
  shows "\<exists>l'. ReleaseLatches keys l = Some l' \<and>
    (\<forall>k. fmlookup (latchMap l') k = (if k \<in> set keys then None else fmlookup (latchMap l) k)) \<and>
    wg_count l' = (if keys = [] then wg_count l else (wg_count l)(g := 0)) \<and>
    wg_next l' = wg_next l"
proof (cases keys)
  case Nil
  then show ?thesis by (simp add: ReleaseLatches_def)
next
  case (Cons k ks)
  let ?l = "l\<lparr>wg_count := (wg_count l)(g := 0),
    latchMap := fold (\<lambda>key m. fmdrop key m) keys (latchMap l)\<rparr>"
  have "ReleaseLatches keys l = Some ?l"
    using Cons assms
    by (simp add: ReleaseLatches_def wg_Done_def ReleaseLatches_loop_False)
  with Cons show ?thesis by (simp add: fmlookup_fold_drop)
qed

section \<open>The invariant of the interleaved system\<close>

definition latch_inv :: "latch_sys \<Rightarrow> bool" where
  "latch_inv s \<longleftrightarrow>
     (\<forall>i keys g. threads s i = Holding keys g \<longrightarrow>
        (\<forall>k \<in> set keys. fmlookup (latchMap (latches s)) k = Some g) \<and>
        wg_count (latches s) g = 1 \<and> g < wg_next (latches s)) \<and>
     (\<forall>k g. fmlookup (latchMap (latches s)) k = Some g \<longrightarrow>
        (\<exists>i keys. threads s i = Holding keys g \<and> k \<in> set keys)) \<and>
     (\<forall>i j keys keys' g. threads s i = Holding keys g \<longrightarrow> threads s j = Holding keys' g \<longrightarrow> i = j) \<and>
     (\<forall>i keys g. threads s i = Blocked keys g \<longrightarrow>
        g < wg_next (latches s) \<and>
        (wg_count (latches s) g = 0 \<or> (\<exists>j keys'. threads s j = Holding keys' g \<and> keys' \<noteq> [])))"

lemma latch_invD:
  assumes "latch_inv s"
  shows latch_inv_holding: "threads s i = Holding keys g \<Longrightarrow>
      (\<forall>k \<in> set keys. fmlookup (latchMap (latches s)) k = Some g) \<and>
      wg_count (latches s) g = 1 \<and> g < wg_next (latches s)"
    and latch_inv_map: "fmlookup (latchMap (latches s)) k = Some g \<Longrightarrow>
      \<exists>i keys. threads s i = Holding keys g \<and> k \<in> set keys"
    and latch_inv_unique:
      "threads s i = Holding keys g \<Longrightarrow> threads s j = Holding keys' g \<Longrightarrow> i = j"
    and latch_inv_blocked: "threads s i = Blocked keys g \<Longrightarrow>
      g < wg_next (latches s) \<and>
      (wg_count (latches s) g = 0 \<or> (\<exists>j keys'. threads s j = Holding keys' g \<and> keys' \<noteq> []))"
  using assms unfolding latch_inv_def by blast+

lemma latch_inv_init: "latch_inv latch_init"
  by (simp add: latch_inv_def latch_init_def NewLatches_def)

lemma latch_inv_acquire:
  assumes inv: "latch_inv s" and i: "threads s i = Trying keys"
    and acq: "AcquireLatches keys (latches s) = (None, l)"
  shows "latch_inv \<lparr>latches = l, threads = (threads s)(i := Holding keys (wg_next (latches s)))\<rparr>"
proof -
  let ?g = "wg_next (latches s)"
  note D = latch_invD[OF inv]
  have free: "fmlookup (latchMap (latches s)) k = None" if "k \<in> set keys" for k
    using acq that by (auto simp: AcquireLatches_def Let_def find_latched_None_iff split: option.splits)
  have l: "fmlookup (latchMap l) k = (if k \<in> set keys then Some ?g else fmlookup (latchMap (latches s)) k)"
    "wg_count l = (wg_count (latches s))(?g := 1)" "wg_next l = Suc ?g" for k
    using acq by (auto simp: AcquireLatches_def Let_def fmlookup_fold_upd split: option.splits)
  have old: "g \<noteq> ?g" if "threads s j = Holding ks g" for j ks g
    using D(1)[OF that] by simp
  have map_old: "g \<noteq> ?g" if "fmlookup (latchMap (latches s)) k = Some g" for k g
    using D(2)[OF that] old by blast
  show ?thesis
    unfolding latch_inv_def latch_sys.simps
  proof (intro conjI allI impI)
    fix j ks g assume j: "((threads s)(i := Holding keys ?g)) j = Holding ks g"
    show "\<forall>k\<in>set ks. fmlookup (latchMap l) k = Some g" "wg_count l g = 1" "g < wg_next l"
      using j D(1)[of j ks g] free old[of j ks g] l by (auto split: if_splits)
  next
    fix k g assume k: "fmlookup (latchMap l) k = Some g"
    show "\<exists>j ks. ((threads s)(i := Holding keys ?g)) j = Holding ks g \<and> k \<in> set ks"
    proof (cases "k \<in> set keys")
      case True
      then have "g = ?g" using k l(1)[of k] by simp
      with True show ?thesis by (intro exI[of _ i] exI[of _ keys]) simp
    next
      case False
      then obtain j ks where "threads s j = Holding ks g" "k \<in> set ks"
        using k l(1)[of k] D(2)[of k g] by auto
      moreover from this i have "j \<noteq> i" by auto
      ultimately show ?thesis by (intro exI[of _ j] exI[of _ ks]) simp
    qed
  next
    fix j j' ks ks' g
    assume "((threads s)(i := Holding keys ?g)) j = Holding ks g"
      "((threads s)(i := Holding keys ?g)) j' = Holding ks' g"
    then show "j = j'" using D(3)[of j ks g j' ks'] old by (auto split: if_splits)
  next
    fix j ks g assume "((threads s)(i := Holding keys ?g)) j = Blocked ks g"
    then have b: "threads s j = Blocked ks g" "j \<noteq> i" by (auto split: if_splits)
    from D(4)[OF b(1)] show "g < wg_next l" using l(3) by simp
    show "wg_count l g = 0 \<or>
        (\<exists>j ks. ((threads s)(i := Holding keys ?g)) j = Holding ks g \<and> ks \<noteq> [])"
    proof (cases "wg_count (latches s) g = 0")
      case True
      with D(4)[OF b(1)] l(2) show ?thesis by simp
    next
      case False
      with D(4)[OF b(1)] obtain j' ks' where "threads s j' = Holding ks' g" "ks' \<noteq> []" by auto
      moreover from this i have "j' \<noteq> i" by auto
      ultimately have "\<exists>j ks. ((threads s)(i := Holding keys ?g)) j = Holding ks g \<and> ks \<noteq> []"
        by (intro exI[of _ j'] exI[of _ ks']) simp
      then show ?thesis ..
    qed
  qed
qed

lemma latch_inv_block:
  assumes inv: "latch_inv s" and i: "threads s i = Trying keys"
    and acq: "AcquireLatches keys (latches s) = (Some wg, l)"
  shows "latch_inv \<lparr>latches = l, threads = (threads s)(i := Blocked keys wg)\<rparr>"
proof -
  note D = latch_invD[OF inv]
  have l: "l = latches s" and wg: "find_latched (latchMap (latches s)) keys = Some wg"
    using acq by (auto simp: AcquireLatches_def Let_def split: option.splits)
  from find_latched_SomeD[OF wg] obtain k where "fmlookup (latchMap (latches s)) k = Some wg"
    by blast
  from D(2)[OF this] obtain j ks where j: "threads s j = Holding ks wg" "k \<in> set ks" by blast
  have bl: "wg < wg_next (latches s)" using D(1)[OF j(1)] by simp
  have hold: "\<exists>j ks. threads s j = Holding ks wg \<and> ks \<noteq> []"
    using j by (intro exI[of _ j] exI[of _ ks]) auto
  have stay: "((threads s)(i := Blocked keys wg)) j' = Holding ks' g' \<longleftrightarrow>
      threads s j' = Holding ks' g'" for j' ks' g'
    using i by auto
  show ?thesis
    unfolding l latch_inv_def latch_sys.simps stay
  proof (intro conjI allI impI)
    fix j' ks' g assume "((threads s)(i := Blocked keys wg)) j' = Blocked ks' g"
    then have "threads s j' = Blocked ks' g \<or> g = wg" by (auto split: if_splits)
    then show "g < wg_next (latches s)"
      "wg_count (latches s) g = 0 \<or> (\<exists>j ks. threads s j = Holding ks g \<and> ks \<noteq> [])"
      using D(4)[of j' ks' g] bl hold by auto
  qed (use D(1,2,3) in blast)+
qed

lemma latch_inv_local:
  assumes inv: "latch_inv s" and i: "\<And>ks g. threads s i \<noteq> Holding ks g"
    and t: "\<And>ks g. t \<noteq> Holding ks g" "\<And>ks g. t \<noteq> Blocked ks g"
  shows "latch_inv (s\<lparr>threads := (threads s)(i := t)\<rparr>)"
proof -
  note D = latch_invD[OF inv]
  have stay: "((threads s)(i := t)) j = Holding ks g \<longleftrightarrow> threads s j = Holding ks g" for j ks g
    using i t by auto
  have blk: "((threads s)(i := t)) j = Blocked ks g \<Longrightarrow> threads s j = Blocked ks g" for j ks g
    using t by (auto split: if_splits)
  have upd: "latches (s\<lparr>threads := f\<rparr>) = latches s" "threads (s\<lparr>threads := f\<rparr>) = f" for f
    by simp_all
  show ?thesis
    unfolding latch_inv_def upd stay
    by (intro conjI allI impI) (use D blk in blast)+
qed

lemma latch_inv_release:
  assumes inv: "latch_inv s" and i: "threads s i = Holding keys wg"
    and rel: "ReleaseLatches keys (latches s) = Some l"
  shows "latch_inv \<lparr>latches = l, threads = (threads s)(i := Idle)\<rparr>"
proof -
  note D = latch_invD[OF inv]
  have held: "\<forall>k \<in> set keys. fmlookup (latchMap (latches s)) k = Some wg"
    "keys \<noteq> [] \<longrightarrow> wg_count (latches s) wg = 1"
    using D(1)[OF i] by auto
  from ReleaseLatches_held[OF held] rel
  have l: "\<forall>k. fmlookup (latchMap l) k =
        (if k \<in> set keys then None else fmlookup (latchMap (latches s)) k)"
      "wg_count l = (if keys = [] then wg_count (latches s) else (wg_count (latches s))(wg := 0))"
      "wg_next l = wg_next (latches s)"
    by auto
  have other: "g \<noteq> wg" if "threads s j = Holding ks g" "j \<noteq> i" for j ks g
    using D(3) i that by blast
  show ?thesis
    unfolding latch_inv_def latch_sys.simps
  proof (intro conjI allI impI)
    fix j ks g assume j: "((threads s)(i := Idle)) j = Holding ks g"
    then have j': "threads s j = Holding ks g" "j \<noteq> i" by (auto split: if_splits)
    show "wg_count l g = 1" "g < wg_next l"
      using D(1)[OF j'(1)] other[OF j'] l(2,3) by auto
    show "\<forall>k\<in>set ks. fmlookup (latchMap l) k = Some g"
      using D(1)[OF j'(1)] other[OF j'] held l(1) by auto
  next
    fix k g assume k: "fmlookup (latchMap l) k = Some g"
    then have "k \<notin> set keys" "fmlookup (latchMap (latches s)) k = Some g"
      using l(1) by (auto split: if_splits)
    then obtain j ks where "threads s j = Holding ks g" "k \<in> set ks" using D(2) by blast
    moreover from this i \<open>k \<notin> set keys\<close> have "j \<noteq> i" by auto
    ultimately show "\<exists>j ks. ((threads s)(i := Idle)) j = Holding ks g \<and> k \<in> set ks"
      by (intro exI[of _ j] exI[of _ ks]) simp
  next
    fix j j' ks ks' g
    assume "((threads s)(i := Idle)) j = Holding ks g" "((threads s)(i := Idle)) j' = Holding ks' g"
    then show "j = j'" using D(3)[of j ks g j' ks'] by (auto split: if_splits)
  next
    fix j ks g assume "((threads s)(i := Idle)) j = Blocked ks g"
    then have b: "threads s j = Blocked ks g" by (auto split: if_splits)
    from D(4)[OF b] show "g < wg_next l" using l(3) by simp
    show "wg_count l g = 0 \<or> (\<exists>j ks. ((threads s)(i := Idle)) j = Holding ks g \<and> ks \<noteq> [])"
    proof (cases "wg_count (latches s) g = 0")
      case True
      with l(2) show ?thesis by simp
    next
      case False
      with D(4)[OF b] obtain j' ks' where j': "threads s j' = Holding ks' g" "ks' \<noteq> []" by auto
      show ?thesis
      proof (cases "j' = i")
        case True
        with i j' l(2) show ?thesis by auto
      next
        case False
        with j' show ?thesis by auto
      qed
    qed
  qed
qed

lemma latch_step_inv: "latch_step s t \<Longrightarrow> latch_inv s \<Longrightarrow> latch_inv t"
  by (induction rule: latch_step.induct)
    (auto intro: latch_inv_acquire latch_inv_block latch_inv_release latch_inv_local)

lemma latch_reachable_inv: "latch_reachable s \<Longrightarrow> latch_inv s"
  by (induction rule: latch_reachable.induct) (auto intro: latch_inv_init latch_step_inv)


lemma latch_acquire_enabled:
  assumes "latch_reachable s" "threads s i = Idle"
    and "\<forall>k \<in> set ks. fmlookup (latchMap (latches s)) k = None"
  shows "\<exists>t. latch_reachable t \<and>
    threads t = (threads s)(i := Holding ks (wg_next (latches s))) \<and>
    wg_next (latches t) = Suc (wg_next (latches s)) \<and>
    (\<forall>k. fmlookup (latchMap (latches t)) k =
      (if k \<in> set ks then Some (wg_next (latches s)) else fmlookup (latchMap (latches s)) k))"
proof -
  let ?u = "s\<lparr>threads := (threads s)(i := Trying ks)\<rparr>"
  have u: "latch_reachable ?u"
    using assms(1,2) by (blast intro: latch_reachable.step latch_step.call_Wait)
  let ?l = "snd (AcquireLatches ks (latches s))"
  have a: "AcquireLatches ks (latches ?u) = (None, ?l)"
    using assms(3) find_latched_None_iff[of "latchMap (latches s)" ks]
    by (simp add: AcquireLatches_def Let_def)
  have "latch_reachable \<lparr>latches = ?l, threads = (threads ?u)(i := Holding ks (wg_next (latches ?u)))\<rparr>"
    by (rule latch_reachable.step[OF u latch_step.acquire[OF _ a]]) simp
  moreover have "find_latched (latchMap (latches s)) ks = None"
    using assms(3) by (simp add: find_latched_None_iff)
  ultimately show ?thesis
    by (intro exI conjI) (auto simp: AcquireLatches_def Let_def fmlookup_fold_upd)
qed

lemma latch_demo:
  "\<exists>s. latch_reachable s \<and> threads s 0 = Holding [[1]] 0 \<and> threads s 1 = Holding [[2]] 1"
proof -
  obtain s where s: "latch_reachable s" "threads s = (\<lambda>_. Idle)(0 := Holding [[1]] 0)"
    "wg_next (latches s) = 1" "fmlookup (latchMap (latches s)) [2] = None"
    using latch_acquire_enabled[OF latch_reachable.init, of 0 "[[1]]"]
    by (auto simp: latch_init_def NewLatches_def)
  obtain t where "latch_reachable t" "threads t = (threads s)(1 := Holding [[2]] 1)"
    using latch_acquire_enabled[OF s(1), of 1 "[[2]]"] s(2,3,4) by auto
  with s(2) show ?thesis by (intro exI[of _ t]) simp
qed

lemma latch_demo_blocked:
  "\<exists>s. latch_reachable s \<and> threads s 0 = Holding [[1]] 0 \<and> threads s 1 = Blocked [[1]] 0"
proof -
  obtain s where s: "latch_reachable s" "threads s = (\<lambda>_. Idle)(0 := Holding [[1]] 0)"
    "fmlookup (latchMap (latches s)) [1] = Some 0"
    using latch_acquire_enabled[OF latch_reachable.init, of 0 "[[1]]"]
    by (auto simp: latch_init_def NewLatches_def)
  let ?u = "s\<lparr>threads := (threads s)(1 := Trying [[1]])\<rparr>"
  have "latch_step s ?u" by (rule latch_step.call_Wait) (simp add: s(2))
  with s(1) have u: "latch_reachable ?u" by (rule latch_reachable.step)
  have "latch_step ?u \<lparr>latches = latches s, threads = (threads ?u)(1 := Blocked [[1]] 0)\<rparr>"
    by (rule latch_step.block) (simp_all add: AcquireLatches_def s(3))
  with u have "latch_reachable \<lparr>latches = latches s, threads = (threads ?u)(1 := Blocked [[1]] 0)\<rparr>"
    by (rule latch_reachable.step)
  with s(2) show ?thesis by (intro exI conjI) auto
qed

section \<open>Properties\<close>

text \<open>
  C19 (safety): mutual exclusion. In every interleaving of threads that go through
  \<open>WaitForLatches\<close> and \<open>ReleaseLatches\<close>, two threads that hold latches at the same time hold
  disjoint sets of keys.
\<close>

theorem latches_mutual_exclusion:
  assumes "latch_reachable s" "threads s i = Holding ks g" "threads s j = Holding ks' g'" "i \<noteq> j"
  shows "set ks \<inter> set ks' = {}"
proof -
  note D = latch_invD[OF latch_reachable_inv[OF assms(1)]]
  have "g \<noteq> g'" using D(3) assms(2,3,4) by blast
  with D(1)[OF assms(2)] D(1)[OF assms(3)] show ?thesis by auto
qed

theorem latches_mutual_exclusion_witness:
  "\<exists>s. latch_reachable s \<and> threads s 0 = Holding [[1]] 0 \<and> threads s 1 = Holding [[2]] 1 \<and>
     set [[1 :: byte]] \<inter> set [[2]] = {}"
proof -
  from latch_demo obtain s where s: "latch_reachable s" "threads s 0 = Holding [[1]] 0"
    "threads s 1 = Holding [[2]] 1" by blast
  show ?thesis using s latches_mutual_exclusion[OF s] by auto
qed

text \<open>
  C20 (liveness): no deadlock and no lost wake-up. A thread that is blocked either has been woken
  already (its wait group is at zero, so \<open>wake\<close> is enabled), or another thread holds latches under
  that very wait group, and that thread's \<open>ReleaseLatches\<close> returns without a panic and brings the
  group to zero.
\<close>

theorem latches_no_lost_wakeup:
  assumes "latch_reachable s" "threads s i = Blocked keys g"
  shows "wg_count (latches s) g = 0 \<or>
    (\<exists>j keys' l. threads s j = Holding keys' g \<and> ReleaseLatches keys' (latches s) = Some l \<and>
       wg_count l g = 0)"
proof (cases "wg_count (latches s) g = 0")
  case False
  note D = latch_invD[OF latch_reachable_inv[OF assms(1)]]
  from False D(4)[OF assms(2)] obtain j ks where j: "threads s j = Holding ks g" "ks \<noteq> []" by auto
  have "\<forall>k \<in> set ks. fmlookup (latchMap (latches s)) k = Some g"
    "ks \<noteq> [] \<longrightarrow> wg_count (latches s) g = 1"
    using D(1)[OF j(1)] by auto
  from ReleaseLatches_held[OF this] obtain l where "ReleaseLatches ks (latches s) = Some l"
    "wg_count l = (if ks = [] then wg_count (latches s) else (wg_count (latches s))(g := 0))"
    by blast
  with j have "threads s j = Holding ks g \<and> ReleaseLatches ks (latches s) = Some l \<and> wg_count l g = 0"
    by simp
  then show ?thesis by blast
qed simp

theorem latches_no_lost_wakeup_witness:
  "\<exists>s. latch_reachable s \<and> threads s 1 = Blocked [[1]] 0 \<and>
     (wg_count (latches s) 0 = 0 \<or>
      (\<exists>j keys' l. threads s j = Holding keys' 0 \<and> ReleaseLatches keys' (latches s) = Some l \<and>
         wg_count l 0 = 0))"
  using latch_demo_blocked latches_no_lost_wakeup by blast


end
