(* ===== verification/Raft_Types.thy ===== *)
theory Raft_Types
  imports Prelude
begin

text \<open>
  The data of the consensus module: the messages of \<open>proto/pkg/eraftpb\<close>, the errors and the
  \<open>Storage\<close> interface of \<open>raft/storage.go\<close> and the helpers of \<open>raft/util.go\<close>. A pointer field
  that the code may find nil is an \<open>option\<close>; the entries of a message are values, so a message
  does not alias the log it was built from.
\<close>

section \<open>Entries, snapshots and messages\<close>

datatype EntryType = EntryNormal | EntryConfChange

record Entry =
  e_EntryType :: EntryType
  e_Term :: u64
  e_Index :: u64
  e_Data :: "bytes option"

record ConfState =
  cs_Nodes :: "u64 list"

record SnapshotMetadata =
  sm_ConfState :: "ConfState option"
  sm_Index :: u64
  sm_Term :: u64

record Snapshot =
  sn_Data :: "bytes option"
  sn_Metadata :: "SnapshotMetadata option"

record HardState =
  hs_Term :: u64
  hs_Vote :: u64
  hs_Commit :: u64

datatype MessageType =
    MsgHup | MsgBeat | MsgPropose | MsgAppend | MsgAppendResponse | MsgRequestVote
  | MsgRequestVoteResponse | MsgSnapshot | MsgHeartbeat | MsgHeartbeatResponse
  | MsgTransferLeader | MsgTimeoutNow

record Message =
  m_MsgType :: MessageType
  m_To :: u64
  m_From :: u64
  m_Term :: u64
  m_LogTerm :: u64
  m_Index :: u64
  m_Entries :: "Entry list"
  m_Commit :: u64
  m_Snapshot :: "Snapshot option"
  m_Reject :: bool
  m_ConflictTerm :: u64
  m_CommitUse :: bool

datatype ConfChangeType = AddNode | RemoveNode

record ConfChange =
  cc_ChangeType :: ConfChangeType
  cc_NodeId :: u64
  cc_Context :: "bytes option"

text \<open>Go's zero values, from which composite literals start.\<close>

definition zero_Entry :: Entry where
  "zero_Entry = \<lparr>e_EntryType = EntryNormal, e_Term = 0, e_Index = 0, e_Data = None\<rparr>"

definition zero_HardState :: HardState where
  "zero_HardState = \<lparr>hs_Term = 0, hs_Vote = 0, hs_Commit = 0\<rparr>"

definition zero_Snapshot :: Snapshot where
  "zero_Snapshot = \<lparr>sn_Data = None, sn_Metadata = None\<rparr>"

definition zero_Message :: Message where
  "zero_Message = \<lparr>m_MsgType = MsgHup, m_To = 0, m_From = 0, m_Term = 0, m_LogTerm = 0,
     m_Index = 0, m_Entries = [], m_Commit = 0, m_Snapshot = None, m_Reject = False,
     m_ConflictTerm = 0, m_CommitUse = False\<rparr>"

section \<open>Errors and the storage interface\<close>

datatype raft_error =
    ErrCompacted | ErrSnapOutOfDate | ErrUnavailable | ErrSnapshotTemporarilyUnavailable
  | ErrProposalDropped | ErrStepLocalMsg | ErrStepPeerNotFound | ErrOther string

text \<open>
  A value of the Go interface \<open>Storage\<close> is a method table and a receiver. Every method may
  panic (the outer \<open>option\<close>) or return an error; \<open>Snapshot\<close> is the one that changes the receiver.
\<close>

record 's StorageOps =
  so_InitialState :: "'s \<Rightarrow> (raft_error + HardState \<times> ConfState) option"
  so_Entries :: "'s \<Rightarrow> u64 \<Rightarrow> u64 \<Rightarrow> (raft_error + Entry list) option"
  so_Term :: "'s \<Rightarrow> u64 \<Rightarrow> (raft_error + u64) option"
  so_LastIndex :: "'s \<Rightarrow> (raft_error + u64) option"
  so_FirstIndex :: "'s \<Rightarrow> (raft_error + u64) option"
  so_Snapshot :: "'s \<Rightarrow> ((raft_error + Snapshot) \<times> 's) option"

section \<open>Helpers of \<open>raft/util.go\<close>\<close>

definition raft_min :: "u64 \<Rightarrow> u64 \<Rightarrow> u64" where
  "raft_min a b = (if a > b then b else a)"

definition raft_max :: "u64 \<Rightarrow> u64 \<Rightarrow> u64" where
  "raft_max a b = (if a > b then a else b)"

definition isHardStateEqual :: "HardState \<Rightarrow> HardState \<Rightarrow> bool" where
  "isHardStateEqual a b \<longleftrightarrow>
     hs_Term a = hs_Term b \<and> hs_Vote a = hs_Vote b \<and> hs_Commit a = hs_Commit b"

definition IsEmptyHardState :: "HardState \<Rightarrow> bool" where
  "IsEmptyHardState st \<longleftrightarrow> isHardStateEqual st zero_HardState"

definition HardState_Equal :: "HardState \<Rightarrow> HardState \<Rightarrow> bool" where
  "HardState_Equal st curHardState \<longleftrightarrow> hs_Commit st = hs_Commit curHardState \<and>
     hs_Vote st = hs_Vote curHardState \<and> hs_Term st = hs_Term curHardState"

definition HardState_IsEmpty :: "HardState \<Rightarrow> bool" where
  "HardState_IsEmpty st \<longleftrightarrow> HardState_Equal st zero_HardState"

definition IsEmptySnap :: "Snapshot option \<Rightarrow> bool" where
  "IsEmptySnap sp =
     (case sp of None \<Rightarrow> True
      | Some s \<Rightarrow> (case sn_Metadata s of None \<Rightarrow> True | Some md \<Rightarrow> sm_Index md = 0))"

definition IsLocalMsg :: "MessageType \<Rightarrow> bool" where
  "IsLocalMsg msgt \<longleftrightarrow> msgt = MsgHup \<or> msgt = MsgBeat"

definition IsResponseMsg :: "MessageType \<Rightarrow> bool" where
  "IsResponseMsg msgt \<longleftrightarrow>
     msgt = MsgAppendResponse \<or> msgt = MsgRequestVoteResponse \<or> msgt = MsgHeartbeatResponse"

definition mustTerm :: "raft_error + u64 \<Rightarrow> u64 option" where
  "mustTerm r = (case r of Inl err \<Rightarrow> None | Inr term \<Rightarrow> Some term)"

lemma raft_min_eq [simp]: "raft_min a b = min a b"
  by (simp add: raft_min_def)

lemma raft_max_eq [simp]: "raft_max a b = max a b"
  by (simp add: raft_max_def)

lemma isHardStateEqual_iff [simp]: "isHardStateEqual a b \<longleftrightarrow> a = b"
  by (cases a; cases b) (simp add: isHardStateEqual_def)

lemma HardState_Equal_iff [simp]: "HardState_Equal a b \<longleftrightarrow> a = b"
  by (cases a; cases b) (auto simp: HardState_Equal_def)

section \<open>Contiguous runs of entries\<close>

text \<open>\<open>contig i es\<close>: the entries of \<open>es\<close> carry the indices \<open>i, i + 1, \<dots>\<close> in order.\<close>

fun contig :: "u64 \<Rightarrow> Entry list \<Rightarrow> bool" where
  "contig i [] \<longleftrightarrow> True"
| "contig i (e # es) \<longleftrightarrow> e_Index e = i \<and> contig (Suc i) es"

lemma contig_nth: "contig i es \<longleftrightarrow> (\<forall>k < length es. e_Index (es ! k) = i + k)"
proof (induction es arbitrary: i)
  case (Cons e es)
  then show ?case by (auto simp: less_Suc_eq_0_disj)
qed simp

lemma contig_append: "contig i (xs @ ys) \<longleftrightarrow> contig i xs \<and> contig (i + length xs) ys"
  by (induction xs arbitrary: i) auto

lemma contig_take: "contig i es \<Longrightarrow> contig i (take n es)"
  by (simp add: contig_nth)

lemma contig_drop: "contig i es \<Longrightarrow> n \<le> length es \<Longrightarrow> contig (i + n) (drop n es)"
  by (simp add: contig_nth)

lemma contig_last: "contig i es \<Longrightarrow> es \<noteq> [] \<Longrightarrow> Suc (e_Index (last es)) = i + length es"
  by (simp add: contig_nth last_conv_nth)

lemma contig_index_inj:
  "contig i es \<Longrightarrow> a < length es \<Longrightarrow> b < length es \<Longrightarrow>
   e_Index (es ! a) = e_Index (es ! b) \<longleftrightarrow> a = b"
  by (simp add: contig_nth)

section \<open>What the log relies on in a storage\<close>

text \<open>
  The contract of \<open>Storage\<close> as its interface comments state it: the available entries are
  \<open>fi s\<close> to \<open>li s\<close>, \<open>Entries\<close> returns any run of them, \<open>Term\<close> agrees with \<open>Entries\<close> and also
  knows the term of the entry before the first one, and a snapshot that is returned carries
  metadata. Indices stay below the last \<open>uint64\<close>.
\<close>

locale raft_storage =
  fixes ops :: "'s StorageOps" and inv :: "'s \<Rightarrow> bool" and fi li :: "'s \<Rightarrow> u64"
  assumes FirstIndex: "inv s \<Longrightarrow> so_FirstIndex ops s = Some (Inr (fi s))"
    and LastIndex: "inv s \<Longrightarrow> so_LastIndex ops s = Some (Inr (li s))"
    and range: "inv s \<Longrightarrow> 0 < fi s \<and> fi s \<le> Suc (li s) \<and> Suc (li s) < 2 ^ 64"
    and Entries: "inv s \<Longrightarrow> fi s \<le> lo \<Longrightarrow> lo \<le> hi \<Longrightarrow> hi \<le> Suc (li s) \<Longrightarrow>
      \<exists>es. so_Entries ops s lo hi = Some (Inr es) \<and> length es = hi - lo \<and> contig lo es"
    and Term: "inv s \<Longrightarrow> fi s \<le> lo \<Longrightarrow> lo \<le> i \<Longrightarrow> i < hi \<Longrightarrow> hi \<le> Suc (li s) \<Longrightarrow>
      so_Entries ops s lo hi = Some (Inr es) \<Longrightarrow> so_Term ops s i = Some (Inr (e_Term (es ! (i - lo))))"
    and Term_before: "inv s \<Longrightarrow> \<exists>t. so_Term ops s (fi s - 1) = Some (Inr t)"
    and InitialState: "inv s \<Longrightarrow> \<exists>hs cs. so_InitialState ops s = Some (Inr (hs, cs))"
    and Snapshot: "inv s \<Longrightarrow> \<exists>r s'. so_Snapshot ops s = Some (r, s') \<and> inv s' \<and>
      fi s' = fi s \<and> li s' = li s \<and> (\<forall>sn. r = Inr sn \<longrightarrow> sn_Metadata sn \<noteq> None)"

end
