(* ===== verification/Memory_Storage.thy ===== *)
theory Memory_Storage
  imports Raft_Types
begin

text \<open>
  \<open>MemoryStorage\<close> of \<open>raft/storage.go\<close>, method by method. The mutex is not modelled: each method
  holds it throughout, so the methods are atomic. The invariant \<open>ms_wf\<close> says that the slice
  \<open>ents\<close> is the dummy entry followed by a contiguous run; under it the storage meets the contract
  \<open>raft_storage\<close>.
\<close>

section \<open>Definitions\<close>

record MemoryStorage =
  ms_hardState :: HardState
  ms_snapshot :: Snapshot
  ms_ents :: "Entry list"

definition NewMemoryStorage :: MemoryStorage where
  "NewMemoryStorage =
     \<lparr>ms_hardState = zero_HardState,
      ms_snapshot = \<lparr>sn_Data = None, sn_Metadata =
        Some \<lparr>sm_ConfState = Some \<lparr>cs_Nodes = []\<rparr>, sm_Index = 0, sm_Term = 0\<rparr>\<rparr>,
      ms_ents = [zero_Entry]\<rparr>"

text \<open>Reading \<open>ms.ents[0]\<close> panics on an empty slice, \<open>ms.snapshot.Metadata.x\<close> on a nil pointer.\<close>

definition ms_InitialState :: "MemoryStorage \<Rightarrow> (raft_error + HardState \<times> ConfState) option" where
  "ms_InitialState ms = do {
     md \<leftarrow> sn_Metadata (ms_snapshot ms);
     cs \<leftarrow> sm_ConfState md;
     Some (Inr (ms_hardState ms, cs))
   }"

definition ms_SetHardState :: "HardState \<Rightarrow> MemoryStorage \<Rightarrow> MemoryStorage" where
  "ms_SetHardState st ms = ms\<lparr>ms_hardState := st\<rparr>"

definition ms_lastIndex :: "MemoryStorage \<Rightarrow> u64 option" where
  "ms_lastIndex ms = do {
     e0 \<leftarrow> at (ms_ents ms) 0;
     Some (u64_sub (u64_add (e_Index e0) (length (ms_ents ms))) 1)
   }"

definition ms_firstIndex :: "MemoryStorage \<Rightarrow> u64 option" where
  "ms_firstIndex ms = do { e0 \<leftarrow> at (ms_ents ms) 0; Some (u64_add (e_Index e0) 1) }"

definition ms_LastIndex :: "MemoryStorage \<Rightarrow> (raft_error + u64) option" where
  "ms_LastIndex ms = map_option Inr (ms_lastIndex ms)"

definition ms_FirstIndex :: "MemoryStorage \<Rightarrow> (raft_error + u64) option" where
  "ms_FirstIndex ms = map_option Inr (ms_firstIndex ms)"

definition ms_Entries :: "MemoryStorage \<Rightarrow> u64 \<Rightarrow> u64 \<Rightarrow> (raft_error + Entry list) option" where
  "ms_Entries ms lo hi = do {
     e0 \<leftarrow> at (ms_ents ms) 0;
     let offset = e_Index e0;
     if lo \<le> offset then Some (Inl ErrCompacted)
     else do {
       last \<leftarrow> ms_lastIndex ms;
       if hi > u64_add last 1 then None
       else do {
         ents \<leftarrow> slice (ms_ents ms) (u64_sub lo offset) (u64_sub hi offset);
         if length (ms_ents ms) = 1 \<and> length ents \<noteq> 0 then Some (Inl ErrUnavailable)
         else Some (Inr ents)
       }
     }
   }"

definition ms_Term :: "MemoryStorage \<Rightarrow> u64 \<Rightarrow> (raft_error + u64) option" where
  "ms_Term ms i = do {
     e0 \<leftarrow> at (ms_ents ms) 0;
     let offset = e_Index e0;
     if i < offset then Some (Inl ErrCompacted)
     else if u64_to_int (u64_sub i offset) \<ge> int (length (ms_ents ms)) then Some (Inl ErrUnavailable)
     else do { e \<leftarrow> at (ms_ents ms) (u64_sub i offset); Some (Inr (e_Term e)) }
   }"

definition ms_Snapshot :: "MemoryStorage \<Rightarrow> ((raft_error + Snapshot) \<times> MemoryStorage) option" where
  "ms_Snapshot ms = Some (Inr (ms_snapshot ms), ms)"

definition ms_ApplySnapshot ::
  "Snapshot \<Rightarrow> MemoryStorage \<Rightarrow> (raft_error option \<times> MemoryStorage) option" where
  "ms_ApplySnapshot snap ms = do {
     md \<leftarrow> sn_Metadata (ms_snapshot ms);
     smd \<leftarrow> sn_Metadata snap;
     if sm_Index md \<ge> sm_Index smd then Some (Some ErrSnapOutOfDate, ms)
     else Some (None, ms\<lparr>ms_snapshot := snap,
       ms_ents := [zero_Entry\<lparr>e_Term := sm_Term smd, e_Index := sm_Index smd\<rparr>]\<rparr>)
   }"

definition ms_CreateSnapshot ::
  "u64 \<Rightarrow> ConfState option \<Rightarrow> bytes option \<Rightarrow> MemoryStorage \<Rightarrow>
   ((raft_error + Snapshot) \<times> MemoryStorage) option" where
  "ms_CreateSnapshot i cs data ms = do {
     md \<leftarrow> sn_Metadata (ms_snapshot ms);
     if i \<le> sm_Index md then Some (Inl ErrSnapOutOfDate, ms)
     else do {
       e0 \<leftarrow> at (ms_ents ms) 0;
       let offset = e_Index e0;
       last \<leftarrow> ms_lastIndex ms;
       if i > last then None
       else do {
         e \<leftarrow> at (ms_ents ms) (u64_sub i offset);
         let md' = md\<lparr>sm_Index := i, sm_Term := e_Term e,
               sm_ConfState := (case cs of None \<Rightarrow> sm_ConfState md | Some c \<Rightarrow> Some c)\<rparr>;
         let snap = \<lparr>sn_Data = data, sn_Metadata = Some md'\<rparr>;
         Some (Inr snap, ms\<lparr>ms_snapshot := snap\<rparr>)
       }
     }
   }"

definition ms_Compact :: "u64 \<Rightarrow> MemoryStorage \<Rightarrow> (raft_error option \<times> MemoryStorage) option" where
  "ms_Compact compactIndex ms = do {
     e0 \<leftarrow> at (ms_ents ms) 0;
     let offset = e_Index e0;
     if compactIndex \<le> offset then Some (Some ErrCompacted, ms)
     else do {
       last \<leftarrow> ms_lastIndex ms;
       if compactIndex > last then None
       else do {
         let i = u64_sub compactIndex offset;
         e \<leftarrow> at (ms_ents ms) i;
         rest \<leftarrow> slice_from (ms_ents ms) (i + 1);
         Some (None, ms\<lparr>ms_ents := zero_Entry\<lparr>e_Index := e_Index e, e_Term := e_Term e\<rparr> # rest\<rparr>)
       }
     }
   }"

definition ms_Append :: "Entry list \<Rightarrow> MemoryStorage \<Rightarrow> MemoryStorage option" where
  "ms_Append entries ms =
     (case entries of
        [] \<Rightarrow> Some ms
      | en0 # _ \<Rightarrow> do {
          first \<leftarrow> ms_firstIndex ms;
          let last = u64_sub (u64_add (e_Index en0) (length entries)) 1;
          if last < first then Some ms
          else do {
            entries' \<leftarrow> (if first > e_Index en0
              then slice_from entries (u64_sub first (e_Index en0)) else Some entries);
            en0' \<leftarrow> at entries' 0;
            e0 \<leftarrow> at (ms_ents ms) 0;
            let offset = u64_sub (e_Index en0') (e_Index e0);
            if length (ms_ents ms) > offset then do {
              kept \<leftarrow> slice (ms_ents ms) 0 offset;
              Some (ms\<lparr>ms_ents := kept @ entries'\<rparr>)
            }
            else if length (ms_ents ms) = offset then Some (ms\<lparr>ms_ents := ms_ents ms @ entries'\<rparr>)
            else None
          }
        })"

definition memory_storage_ops :: "MemoryStorage StorageOps" where
  "memory_storage_ops =
     \<lparr>so_InitialState = ms_InitialState, so_Entries = ms_Entries, so_Term = ms_Term,
      so_LastIndex = ms_LastIndex, so_FirstIndex = ms_FirstIndex, so_Snapshot = ms_Snapshot\<rparr>"

section \<open>The invariant and the contract\<close>

definition ms_base :: "MemoryStorage \<Rightarrow> u64" where
  "ms_base ms = e_Index (hd (ms_ents ms))"

definition ms_wf :: "MemoryStorage \<Rightarrow> bool" where
  "ms_wf ms \<longleftrightarrow> ms_ents ms \<noteq> [] \<and> contig (ms_base ms) (ms_ents ms) \<and>
     ms_base ms + length (ms_ents ms) < 2 ^ 64 \<and>
     (\<exists>md cs. sn_Metadata (ms_snapshot ms) = Some md \<and> sm_ConfState md = Some cs)"

abbreviation ms_fi :: "MemoryStorage \<Rightarrow> u64" where
  "ms_fi ms \<equiv> Suc (ms_base ms)"

abbreviation ms_li :: "MemoryStorage \<Rightarrow> u64" where
  "ms_li ms \<equiv> ms_base ms + length (ms_ents ms) - 1"

lemma ms_wfE:
  assumes "ms_wf ms"
  obtains e0 es where "ms_ents ms = e0 # es" "e_Index e0 = ms_base ms"
    "contig (Suc (ms_base ms)) es" "ms_base ms + Suc (length es) < 2 ^ 64"
proof (cases "ms_ents ms")
  case Nil
  with assms show ?thesis by (simp add: ms_wf_def)
next
  case (Cons e0 es)
  with assms have "contig (ms_base ms) (e0 # es)" "ms_base ms + length (e0 # es) < 2 ^ 64"
    by (auto simp: ms_wf_def)
  with Cons show ?thesis by (intro that[of e0 es]) (auto simp: ms_base_def)
qed

lemma ms_firstIndex_eq: "ms_wf ms \<Longrightarrow> ms_firstIndex ms = Some (ms_fi ms)"
  by (erule ms_wfE) (simp add: ms_firstIndex_def u64_simps)

lemma ms_lastIndex_eq: "ms_wf ms \<Longrightarrow> ms_lastIndex ms = Some (ms_li ms)"
  by (erule ms_wfE) (simp add: ms_lastIndex_def u64_simps)

lemma ms_nth_0: "ms_wf ms \<Longrightarrow> e_Index (ms_ents ms ! 0) = ms_base ms"
  by (erule ms_wfE) simp

lemma ms_ents_nth: "ms_wf ms \<Longrightarrow> k < length (ms_ents ms) \<Longrightarrow> e_Index (ms_ents ms ! k) = ms_base ms + k"
  by (auto simp: ms_wf_def contig_nth)

lemmas ms_eqs = ms_firstIndex_eq ms_lastIndex_eq ms_nth_0

text \<open>The abstraction: the storage as a partial map from indices to entries.\<close>

definition ms_log :: "MemoryStorage \<Rightarrow> u64 \<Rightarrow> Entry option" where
  "ms_log ms i = (if ms_fi ms \<le> i \<and> i \<le> ms_li ms then Some (ms_ents ms ! (i - ms_base ms)) else None)"

lemma ms_Entries_drop:
  assumes "ms_wf ms" "ms_fi ms \<le> lo" "lo \<le> hi" "hi \<le> Suc (ms_li ms)"
  shows "ms_Entries ms lo hi =
    Some (Inr (drop (lo - ms_base ms) (take (hi - ms_base ms) (ms_ents ms))))"
proof -
  have ne: "0 < length (ms_ents ms)" and bound: "ms_base ms + length (ms_ents ms) < 2 ^ 64"
    using assms(1) by (auto simp: ms_wf_def)
  have "u64_add (ms_li ms) 1 = ms_base ms + length (ms_ents ms)"
    using ne bound by (simp add: u64_simps)
  moreover have "u64_sub lo (ms_base ms) = lo - ms_base ms" "u64_sub hi (ms_base ms) = hi - ms_base ms"
    using assms bound ne by (auto intro!: u64_sub_exact)
  ultimately show ?thesis
    using assms ne by (auto simp: ms_Entries_def ms_eqs Let_def)
qed

lemma ms_Term_nth:
  assumes "ms_wf ms" "ms_base ms \<le> i" "i \<le> ms_li ms"
  shows "ms_Term ms i = Some (Inr (e_Term (ms_ents ms ! (i - ms_base ms))))"
proof -
  have ne: "0 < length (ms_ents ms)" and bound: "ms_base ms + length (ms_ents ms) < 2 ^ 64"
    using assms(1) by (auto simp: ms_wf_def)
  have k: "i - ms_base ms < length (ms_ents ms)" using assms ne by linarith
  have "u64_sub i (ms_base ms) = i - ms_base ms"
    using assms bound ne by (intro u64_sub_exact) auto
  moreover have "u64_to_int (i - ms_base ms) < int (length (ms_ents ms))"
    using k by (auto simp: u64_to_int_def)
  ultimately show ?thesis
    using assms k ne by (simp add: ms_Term_def ms_eqs)
qed

interpretation ms: raft_storage memory_storage_ops ms_wf ms_fi ms_li
proof
  fix s lo hi
  assume "ms_wf s" "ms_fi s \<le> lo" "lo \<le> hi" "hi \<le> Suc (ms_li s)"
  moreover from this have "hi - ms_base s \<le> length (ms_ents s)" by (auto elim!: ms_wfE)
  ultimately show "\<exists>es. so_Entries memory_storage_ops s lo hi = Some (Inr es) \<and>
      length es = hi - lo \<and> contig lo es"
    by (auto simp: memory_storage_ops_def ms_Entries_drop contig_nth ms_ents_nth)
next
  fix s lo i hi es
  assume a: "ms_wf s" "ms_fi s \<le> lo" "lo \<le> i" "i < hi" "hi \<le> Suc (ms_li s)"
    "so_Entries memory_storage_ops s lo hi = Some (Inr es)"
  then have es: "es = drop (lo - ms_base s) (take (hi - ms_base s) (ms_ents s))"
    by (simp add: memory_storage_ops_def ms_Entries_drop)
  have "i \<le> ms_li s" "hi - ms_base s \<le> length (ms_ents s)" using a by (auto elim!: ms_wfE)
  moreover from this have "es ! (i - lo) = ms_ents s ! (i - ms_base s)"
    using a(2,3,4) by (simp add: es)
  ultimately show "so_Term memory_storage_ops s i = Some (Inr (e_Term (es ! (i - lo))))"
    using a ms_Term_nth[of s i] by (simp add: memory_storage_ops_def)
next
  fix s
  assume a: "ms_wf s"
  then show "\<exists>t. so_Term memory_storage_ops s (ms_fi s - 1) = Some (Inr t)"
    using ms_Term_nth[OF a, of "ms_base s"] by (auto simp: memory_storage_ops_def elim!: ms_wfE)
qed (auto simp: memory_storage_ops_def ms_FirstIndex_def ms_LastIndex_def ms_eqs
    ms_InitialState_def ms_Snapshot_def ms_wf_def Suc_le_eq)

section \<open>The operations keep the invariant\<close>

lemma NewMemoryStorage_wf: "ms_wf NewMemoryStorage"
  by (simp add: ms_wf_def NewMemoryStorage_def ms_base_def zero_Entry_def)

lemma ms_SetHardState_wf: "ms_wf ms \<Longrightarrow> ms_wf (ms_SetHardState st ms)"
  by (simp add: ms_wf_def ms_SetHardState_def ms_base_def)

lemma ms_ApplySnapshot_wf:
  assumes "ms_wf ms" "ms_ApplySnapshot snap ms = Some (r, ms')"
    and "sn_Metadata snap = Some md" "sm_ConfState md = Some cs" "Suc (sm_Index md) < 2 ^ 64"
  shows "ms_wf ms'"
  using assms
  by (auto simp: ms_ApplySnapshot_def ms_wf_def ms_base_def split: if_splits elim!: bind_SomeE)

lemma ms_CreateSnapshot_wf:
  assumes "ms_wf ms" "ms_CreateSnapshot i cs data ms = Some (r, ms')"
  shows "ms_wf ms'"
  using assms
  by (auto simp: ms_CreateSnapshot_def ms_wf_def ms_base_def Let_def
      split: if_splits option.splits elim!: bind_SomeE)

text \<open>
  Compaction: everything after the compacted index is still there, the index itself keeps its
  term, and nothing before it is available.
\<close>

lemma ms_Compact_eq:
  assumes "ms_wf ms" "ms_fi ms \<le> i" "i \<le> ms_li ms"
  shows "ms_Compact i ms = Some (None, ms\<lparr>ms_ents :=
    zero_Entry\<lparr>e_Index := i, e_Term := e_Term (ms_ents ms ! (i - ms_base ms))\<rparr> #
      drop (Suc (i - ms_base ms)) (ms_ents ms)\<rparr>)"
proof -
  have ne: "0 < length (ms_ents ms)" and bound: "ms_base ms + length (ms_ents ms) < 2 ^ 64"
    using assms(1) by (auto simp: ms_wf_def)
  have k: "i - ms_base ms < length (ms_ents ms)" using assms ne by linarith
  have "u64_sub i (ms_base ms) = i - ms_base ms"
    using assms bound ne by (intro u64_sub_exact) auto
  moreover have "e_Index (ms_ents ms ! (i - ms_base ms)) = i"
    using ms_ents_nth[OF assms(1) k] assms(2) by simp
  ultimately show ?thesis
    using assms k ne by (simp add: ms_Compact_def ms_eqs Let_def)
qed

lemma ms_Compact_wf:
  assumes "ms_wf ms" "ms_fi ms \<le> i" "i \<le> ms_li ms"
  shows "\<exists>ms'. ms_Compact i ms = Some (None, ms') \<and> ms_wf ms' \<and> ms_base ms' = i \<and>
    ms_li ms' = ms_li ms"
proof -
  let ?ents = "zero_Entry\<lparr>e_Index := i, e_Term := e_Term (ms_ents ms ! (i - ms_base ms))\<rparr> #
    drop (Suc (i - ms_base ms)) (ms_ents ms)"
  obtain n where ne: "length (ms_ents ms) = Suc n" and bound: "ms_base ms + Suc n < 2 ^ 64"
    using assms(1) by (cases "ms_ents ms") (auto simp: ms_wf_def)
  have len: "i + length ?ents = ms_base ms + length (ms_ents ms)"
    using assms(2,3) ne by simp
  have "contig (Suc i) (drop (Suc (i - ms_base ms)) (ms_ents ms))"
    using assms(2,3) ms_ents_nth[OF assms(1)] ne by (simp add: contig_nth)
  then have "contig i ?ents" by simp
  with assms(1) len have "ms_wf (ms\<lparr>ms_ents := ?ents\<rparr>)"
    by (simp add: ms_wf_def ms_base_def)
  with len ms_Compact_eq[OF assms] show ?thesis by (simp add: ms_base_def)
qed

text \<open>
  Appending: entries before the first new one stay, the new ones replace everything from there
  on, and whatever is already compacted is ignored.
\<close>

lemma ms_Append_eq:
  assumes "ms_wf ms" "contig s es" "es \<noteq> []" "s \<le> Suc (ms_li ms)" "s + length es < 2 ^ 64"
    and "ms_fi ms < s + length es"
  shows "ms_Append es ms = Some (ms\<lparr>ms_ents :=
    take (max s (ms_fi ms) - ms_base ms) (ms_ents ms) @ drop (ms_fi ms - s) es\<rparr>)"
proof -
  obtain n where ne: "length (ms_ents ms) = Suc n" and bound: "ms_base ms + Suc n < 2 ^ 64"
    using assms(1) by (cases "ms_ents ms") (auto simp: ms_wf_def)
  obtain en0 er where es: "es = en0 # er" "e_Index en0 = s"
    using assms(2,3) by (cases es) auto
  have last: "u64_sub (u64_add s (length es)) 1 = s + length es - 1"
    using assms(5) es by (simp add: u64_simps)
  have fi: "u64_sub (ms_fi ms) s = ms_fi ms - s" if "s < ms_fi ms"
    using that bound ne by (intro u64_sub_exact) auto
  have dn: "ms_fi ms - s < length es" using assms(6) es by (cases "s \<le> ms_fi ms") auto
  have idx: "e_Index (drop (ms_fi ms - s) es ! 0) = max s (ms_fi ms)"
    using dn assms(2) by (simp add: contig_nth)
  have off: "u64_sub (max s (ms_fi ms)) (ms_base ms) = max s (ms_fi ms) - ms_base ms"
    using bound ne assms(5) by (intro u64_sub_exact) auto
  have len: "max s (ms_fi ms) - ms_base ms \<le> length (ms_ents ms)"
    using assms(4) ne by auto
  have trunc: "(if s < ms_fi ms then slice_from es (u64_sub (ms_fi ms) s) else Some es) =
      Some (drop (ms_fi ms - s) es)"
    using fi dn by auto
  have nlt: "\<not> s + length es - 1 < ms_fi ms" using assms(6) by linarith
  have "ms_Append es ms = do {
      entries' \<leftarrow> (if s < ms_fi ms then slice_from es (u64_sub (ms_fi ms) s) else Some es);
      en0' \<leftarrow> at entries' 0;
      e0 \<leftarrow> at (ms_ents ms) 0;
      let offset = u64_sub (e_Index en0') (e_Index e0);
      if length (ms_ents ms) > offset then do {
        kept \<leftarrow> slice (ms_ents ms) 0 offset;
        Some (ms\<lparr>ms_ents := kept @ entries'\<rparr>)
      }
      else if length (ms_ents ms) = offset then Some (ms\<lparr>ms_ents := ms_ents ms @ entries'\<rparr>)
      else None }"
    using es last nlt ms_firstIndex_eq[OF assms(1)]
    by (simp add: ms_Append_def Let_def del: length_Cons)
  also have "\<dots> = Some (ms\<lparr>ms_ents :=
    take (max s (ms_fi ms) - ms_base ms) (ms_ents ms) @ drop (ms_fi ms - s) es\<rparr>)"
  proof -
    define m where "m = max s (ms_fi ms) - ms_base ms"
    define d where "d = drop (ms_fi ms - s) es"
    have d0: "at d 0 = Some (d ! 0)" using dn by (auto simp: d_def intro: at_Some)
    have e0: "at (ms_ents ms) 0 = Some (ms_ents ms ! 0)" using ne by (intro at_Some) simp
    have m: "u64_sub (e_Index (d ! 0)) (e_Index (ms_ents ms ! 0)) = m"
      unfolding d_def idx ms_nth_0[OF assms(1)] off m_def ..
    have "m \<le> length (ms_ents ms)" using len by (simp only: m_def)
    then show ?thesis
      unfolding trunc m_def[symmetric] d_def[symmetric]
      by (cases "m < length (ms_ents ms)") (simp_all add: d0 e0 m Let_def)
  qed
  finally show ?thesis .
qed

text \<open>
  The slice that \<open>Append\<close> builds: it starts where the old one did, is contiguous, ends with the
  last new entry, and changes over from the old to the new entries at the first new index.
\<close>

lemma ms_Append_ents:
  assumes "ms_wf ms" "contig s es" "s \<le> Suc (ms_li ms)" "ms_fi ms < s + length es"
  defines "k \<equiv> max s (ms_fi ms) - ms_base ms"
  defines "ents \<equiv> take k (ms_ents ms) @ drop (ms_fi ms - s) es"
  shows "ms_base ms + length ents = s + length es" "ents \<noteq> []" "e_Index (hd ents) = ms_base ms"
    "\<And>j. ents ! j = (if j < k then ms_ents ms ! j else es ! (ms_base ms + j - s))"
    "contig (ms_base ms) ents"
proof -
  obtain n where ne: "length (ms_ents ms) = Suc n"
    using assms(1) by (cases "ms_ents ms") (auto simp: ms_wf_def)
  have k: "0 < k" "k \<le> length (ms_ents ms)" "ms_base ms + k = max s (ms_fi ms)"
    using assms(3) ne by (auto simp: k_def)
  have dn: "ms_fi ms - s \<le> length es" using assms(4) by linarith
  show "e_Index (hd ents) = ms_base ms"
    using k ne by (cases "ms_ents ms"; cases k) (auto simp: ms_base_def ents_def)
  show len: "ms_base ms + length ents = s + length es"
    using k assms(4) by (auto simp: ents_def max_def split: if_splits)
  show nth: "ents ! j = (if j < k then ms_ents ms ! j else es ! (ms_base ms + j - s))" for j
  proof (cases "j < k")
    case False
    have "ms_fi ms - s + (j - k) = ms_base ms + j - s" using False k by linarith
    then show ?thesis using False k dn by (simp add: ents_def nth_append)
  qed (use k in \<open>simp add: ents_def nth_append\<close>)
  have "e_Index (ents ! j) = ms_base ms + j" if "j < length ents" for j
  proof (cases "j < k")
    case False
    then have "ms_base ms + j - s < length es" "s + (ms_base ms + j - s) = ms_base ms + j"
      using that len k by linarith+
    then show ?thesis using False assms(2) by (simp add: nth contig_nth)
  qed (use k ms_ents_nth[OF assms(1)] in \<open>simp add: nth\<close>)
  then show "contig (ms_base ms) ents" by (simp add: contig_nth)
  show "ents \<noteq> []" using k ne by (auto simp: ents_def)
qed

section \<open>Properties\<close>

text \<open>
  C25 (refinement): on a well-formed memory storage, \<open>Append\<close> of a contiguous run that leaves no
  gap returns without a panic and is the append of the abstract log: the entries below the first
  new index stay, the new entries follow, everything after them is dropped, and what lies at or
  below the compaction point is ignored. The invariant and the first index are kept.
\<close>

theorem ms_Append_refines:
  assumes "ms_wf ms" "contig s es" "es \<noteq> []" "s \<le> Suc (ms_li ms)" "s + length es < 2 ^ 64"
    and "ms_fi ms < s + length es"
  shows "\<exists>ms'. ms_Append es ms = Some ms' \<and> ms_wf ms' \<and> ms_base ms' = ms_base ms \<and>
    (\<forall>i. ms_log ms' i =
       (if i < ms_fi ms then None else if i < s then ms_log ms i
        else if i < s + length es then Some (es ! (i - s)) else None))"
proof -
  define k where "k = max s (ms_fi ms) - ms_base ms"
  define ents where "ents = take k (ms_ents ms) @ drop (ms_fi ms - s) es"
  note e = ms_Append_ents[OF assms(1,2,4,6), folded k_def, folded ents_def]
  have li: "ms_li ms + 1 = ms_base ms + length (ms_ents ms)" and meta:
      "\<exists>md cs. sn_Metadata (ms_snapshot ms) = Some md \<and> sm_ConfState md = Some cs"
    using assms(1) by (auto simp: ms_wf_def Suc_le_eq)
  have k: "ms_base ms + k = max s (ms_fi ms)" using li by (auto simp: k_def)
  have base': "ms_base (ms\<lparr>ms_ents := ents\<rparr>) = ms_base ms" using e(3) by (simp add: ms_base_def)
  have wf: "ms_wf (ms\<lparr>ms_ents := ents\<rparr>)"
    using e(1,2,5) assms(5) meta by (auto simp: ms_wf_def base')
  have log: "ms_log (ms\<lparr>ms_ents := ents\<rparr>) i =
      (if i < ms_fi ms then None else if i < s then ms_log ms i
       else if i < s + length es then Some (es ! (i - s)) else None)" for i
  proof (cases "ms_fi ms \<le> i \<and> i < s + length es")
    case True
    then have "ms_log (ms\<lparr>ms_ents := ents\<rparr>) i = Some (ents ! (i - ms_base ms))"
      using e(1) by (auto simp: ms_log_def base')
    also have "\<dots> = Some (if i < s then ms_ents ms ! (i - ms_base ms) else es ! (i - s))"
    proof -
      have "i - ms_base ms < k \<longleftrightarrow> i < s" using True k by linarith
      then show ?thesis using True by (simp add: e(4))
    qed
    finally show ?thesis using True assms(4) by (auto simp: ms_log_def)
  qed (use e(1) assms(3) in \<open>auto simp: ms_log_def base'\<close>)
  show ?thesis
    using wf log base' ms_Append_eq[OF assms] by (auto simp: ents_def k_def)
qed

theorem ms_Append_refines_witness:
  "\<exists>ms'. ms_Append [zero_Entry\<lparr>e_Index := 2, e_Term := 3\<rparr>]
       (NewMemoryStorage\<lparr>ms_ents := [zero_Entry, zero_Entry\<lparr>e_Index := 1\<rparr>,
          zero_Entry\<lparr>e_Index := 2\<rparr>, zero_Entry\<lparr>e_Index := 3\<rparr>]\<rparr>) = Some ms' \<and>
     ms_log ms' 2 = Some (zero_Entry\<lparr>e_Index := 2, e_Term := 3\<rparr>) \<and> ms_log ms' 3 = None"
  using ms_Append_refines[of "NewMemoryStorage\<lparr>ms_ents := [zero_Entry, zero_Entry\<lparr>e_Index := 1\<rparr>,
      zero_Entry\<lparr>e_Index := 2\<rparr>, zero_Entry\<lparr>e_Index := 3\<rparr>]\<rparr>" 2
      "[zero_Entry\<lparr>e_Index := 2, e_Term := 3\<rparr>]"]
  by (auto simp: ms_wf_def ms_base_def NewMemoryStorage_def zero_Entry_def)

text \<open>
  \<open>Compact\<close> of an available index returns without error or panic, removes
  exactly the entries up to that index, keeps the later ones and the invariant, and the term of
  the compacted index can still be asked for.
\<close>

theorem ms_Compact_keeps_suffix:
  assumes "ms_wf ms" "ms_fi ms \<le> i" "i \<le> ms_li ms"
  shows "\<exists>ms'. ms_Compact i ms = Some (None, ms') \<and> ms_wf ms' \<and> ms_fi ms' = Suc i \<and>
    (\<forall>j. ms_log ms' j = (if j \<le> i then None else ms_log ms j)) \<and> ms_Term ms' i = ms_Term ms i"
proof -
  obtain ms' where ms': "ms_Compact i ms = Some (None, ms')" "ms_wf ms'" "ms_base ms' = i"
      "ms_li ms' = ms_li ms"
    using ms_Compact_wf[OF assms] by blast
  then have ents: "ms_ents ms' =
      zero_Entry\<lparr>e_Index := i, e_Term := e_Term (ms_ents ms ! (i - ms_base ms))\<rparr> #
      drop (Suc (i - ms_base ms)) (ms_ents ms)"
    using ms_Compact_eq[OF assms] by auto
  have "ms_log ms' j = (if j \<le> i then None else ms_log ms j)" for j
  proof (cases "i < j \<and> j \<le> ms_li ms")
    case True
    then have cap: "Suc (i - ms_base ms) \<le> length (ms_ents ms)" using assms(2) by linarith
    from True obtain d where d: "j - i = Suc d" by (cases "j - i") auto
    then have "Suc (i - ms_base ms) + d = j - ms_base ms" using assms(2) True by linarith
    then have "ms_ents ms' ! (j - i) = ms_ents ms ! (j - ms_base ms)"
      using True assms(2) cap by (simp add: ents d)
    then show ?thesis using True assms(2) ms'(3,4) by (simp add: ms_log_def)
  next
    case False
    then show ?thesis using assms(2) ms'(4) by (auto simp: ms_log_def ms'(3))
  qed
  moreover have "ms_Term ms' i = ms_Term ms i"
    using ms_Term_nth[OF ms'(2), of i] ms_Term_nth[OF assms(1), of i] assms(2,3) ms'(3,4)
    by (simp add: ents)
  ultimately show ?thesis using ms' by auto
qed

theorem ms_Compact_keeps_suffix_witness:
  "\<exists>ms'. ms_Compact 2
       (NewMemoryStorage\<lparr>ms_ents := [zero_Entry, zero_Entry\<lparr>e_Index := 1\<rparr>,
          zero_Entry\<lparr>e_Index := 2\<rparr>, zero_Entry\<lparr>e_Index := 3\<rparr>]\<rparr>) = Some (None, ms') \<and>
     ms_fi ms' = 3 \<and> ms_log ms' 3 = Some (zero_Entry\<lparr>e_Index := 3\<rparr>) \<and> ms_log ms' 2 = None"
proof -
  define ms where "ms = NewMemoryStorage\<lparr>ms_ents := [zero_Entry, zero_Entry\<lparr>e_Index := 1\<rparr>,
      zero_Entry\<lparr>e_Index := 2\<rparr>, zero_Entry\<lparr>e_Index := 3\<rparr>]\<rparr>"
  have "ms_wf ms" "ms_fi ms \<le> 2" "2 \<le> ms_li ms" "ms_log ms 3 = Some (zero_Entry\<lparr>e_Index := 3\<rparr>)"
    by (simp_all add: ms_def ms_wf_def ms_base_def NewMemoryStorage_def zero_Entry_def ms_log_def)
  then show ?thesis
    using ms_Compact_keeps_suffix[of ms 2] unfolding ms_def[symmetric] by auto
qed

end
