(* ===== verification/Raft_Log.thy ===== *)
theory Raft_Log
  imports Memory_Storage
begin

text \<open>
  \<open>RaftLog\<close> of \<open>raft/log.go\<close>. The receiver of the \<open>Storage\<close> interface value lives in the field
  \<open>storage\<close>, its method table in \<open>storage_ops\<close>. \<open>log_wf\<close> is the invariant of the structure;
  \<open>log_view\<close> and \<open>term_view\<close> read it as a map from indices to entries and terms.
\<close>

section \<open>Definitions\<close>

record 's RaftLog =
  storage_ops :: "'s StorageOps"
  storage :: 's
  committed :: u64
  applied :: u64
  stabled :: u64
  entries :: "Entry list"
  pendingSnapshot :: "Snapshot option"
  lastIdxOfSnapshot :: u64
  lastTermOfSnapshot :: u64

text \<open>
  A result used although the call reported an error is the zero value that the storages return
  beside an error.
\<close>

definition value_or :: "'a \<Rightarrow> raft_error + 'a \<Rightarrow> 'a" where
  "value_or z r = (case r of Inl err \<Rightarrow> z | Inr x \<Rightarrow> x)"

definition errPanic :: "raft_error + 'a \<Rightarrow> 'a option" where
  "errPanic r = (case r of Inl err \<Rightarrow> None | Inr x \<Rightarrow> Some x)"

definition newLog :: "'s StorageOps \<Rightarrow> 's \<Rightarrow> 's RaftLog option" where
  "newLog ops st = do {
     r1 \<leftarrow> so_FirstIndex ops st;
     r2 \<leftarrow> so_LastIndex ops st;
     r3 \<leftarrow> so_Entries ops st (value_or 0 r1) (u64_add (value_or 0 r2) 1);
     firstIdx \<leftarrow> errPanic r1;
     lastIdx \<leftarrow> errPanic r2;
     ents \<leftarrow> errPanic r3;
     t \<leftarrow> so_Term ops st (u64_sub firstIdx 1);
     r4 \<leftarrow> so_InitialState ops st;
     init \<leftarrow> errPanic r4;
     Some \<lparr>storage_ops = ops, storage = st, committed = hs_Commit (fst init),
       applied = u64_sub firstIdx 1, stabled = lastIdx, entries = ents, pendingSnapshot = None,
       lastIdxOfSnapshot = u64_sub firstIdx 1, lastTermOfSnapshot = value_or 0 t\<rparr>
   }"

definition realIdx :: "'s RaftLog \<Rightarrow> u64 \<Rightarrow> int option" where
  "realIdx l logicalIdx =
     (if logicalIdx \<le> lastIdxOfSnapshot l then Some (-1)
      else let i = u64_sub (u64_sub logicalIdx (lastIdxOfSnapshot l)) 1 in
        if i \<ge> length (entries l) then None else Some (u64_to_int i))"

text \<open>Indexing and slicing with a signed \<open>int\<close> panics on a negative value.\<close>

definition at_int :: "'a list \<Rightarrow> int \<Rightarrow> 'a option" where
  "at_int xs i = (if i < 0 then None else at xs (nat i))"

definition slice_from_int :: "'a list \<Rightarrow> int \<Rightarrow> 'a list option" where
  "slice_from_int xs i = (if i < 0 then None else slice_from xs (nat i))"

definition slice_to_int :: "'a list \<Rightarrow> int \<Rightarrow> 'a list option" where
  "slice_to_int xs i = (if i < 0 then None else slice xs 0 (nat i))"

definition LastIndex :: "'s RaftLog \<Rightarrow> u64" where
  "LastIndex l = (if entries l = [] then lastIdxOfSnapshot l else e_Index (last (entries l)))"

text \<open>The error of \<open>Term\<close> is always nil; the panic of \<open>realIdx\<close> comes through.\<close>

definition Term :: "'s RaftLog \<Rightarrow> u64 \<Rightarrow> u64 option" where
  "Term l i = do {
     r \<leftarrow> realIdx l i;
     if r = -1 then Some (lastTermOfSnapshot l)
     else do { e \<leftarrow> at_int (entries l) r; Some (e_Term e) }
   }"

definition maybeCompact :: "'s RaftLog \<Rightarrow> 's RaftLog option" where
  "maybeCompact l = do {
     r \<leftarrow> so_FirstIndex (storage_ops l) (storage l);
     storageFirstIdx \<leftarrow> errPanic r;
     if lastIdxOfSnapshot l < u64_sub storageFirstIdx 1 then do {
       t \<leftarrow> Term l (u64_sub storageFirstIdx 1);
       i \<leftarrow> realIdx l storageFirstIdx;
       ents \<leftarrow> slice_from_int (entries l) i;
       Some (l\<lparr>lastTermOfSnapshot := t, entries := ents,
               lastIdxOfSnapshot := u64_sub storageFirstIdx 1\<rparr>)
     }
     else Some l
   }"

definition hasUnstableEnts :: "'s RaftLog \<Rightarrow> bool" where
  "hasUnstableEnts l \<longleftrightarrow> stabled l < LastIndex l"

text \<open>The loops of \<open>unstableEntries\<close> and \<open>nextEnts\<close>: append \<open>entries[idx]\<close> while \<open>idx \<le> hi\<close>.\<close>

function copy_ents :: "Entry list \<Rightarrow> int \<Rightarrow> int \<Rightarrow> Entry list \<Rightarrow> Entry list option" where
  "copy_ents es idx hi ents =
     (if idx \<le> hi then do { e \<leftarrow> at_int es idx; copy_ents es (idx + 1) hi (ents @ [e]) }
      else Some ents)"
  by pat_completeness auto

termination
  by (relation "measure (\<lambda>(es, idx, hi, ents). nat (hi + 1 - idx))") auto

declare copy_ents.simps [simp del]

definition unstableEntries :: "'s RaftLog \<Rightarrow> Entry list option" where
  "unstableEntries l = do {
     i \<leftarrow> realIdx l (stabled l);
     hi \<leftarrow> realIdx l (LastIndex l);
     copy_ents (entries l) (i + 1) hi []
   }"

definition hasNextEnts :: "'s RaftLog \<Rightarrow> bool option" where
  "hasNextEnts l = do {
     appliedIdx \<leftarrow> realIdx l (applied l);
     commitIdx \<leftarrow> realIdx l (committed l);
     Some (appliedIdx < commitIdx)
   }"

definition nextEnts :: "'s RaftLog \<Rightarrow> Entry list option" where
  "nextEnts l = do {
     appliedIdx \<leftarrow> realIdx l (applied l);
     commitIdx \<leftarrow> realIdx l (committed l);
     copy_ents (entries l) (appliedIdx + 1) commitIdx []
   }"

definition AppendEntry :: "Entry \<Rightarrow> 's RaftLog \<Rightarrow> 's RaftLog" where
  "AppendEntry entry l = l\<lparr>entries := entries l @ [entry]\<rparr>"

definition Max_int :: "int \<Rightarrow> int \<Rightarrow> int" where
  "Max_int x y = (if x > y then x else y)"

definition Min_int :: "int \<Rightarrow> int \<Rightarrow> int" where
  "Min_int x y = (if x < y then x else y)"

section \<open>Invariant and views\<close>

definition log_wf :: "'s RaftLog \<Rightarrow> bool" where
  "log_wf l \<longleftrightarrow> contig (Suc (lastIdxOfSnapshot l)) (entries l) \<and>
     Suc (lastIdxOfSnapshot l + length (entries l)) < 2 ^ 63 \<and>
     committed l \<le> lastIdxOfSnapshot l + length (entries l) \<and>
     applied l \<le> lastIdxOfSnapshot l + length (entries l) \<and>
     stabled l \<le> lastIdxOfSnapshot l + length (entries l)"

definition log_view :: "'s RaftLog \<Rightarrow> u64 \<Rightarrow> Entry option" where
  "log_view l i =
     (if lastIdxOfSnapshot l < i \<and> i \<le> lastIdxOfSnapshot l + length (entries l)
      then Some (entries l ! (i - lastIdxOfSnapshot l - 1)) else None)"

definition term_view :: "'s RaftLog \<Rightarrow> u64 \<Rightarrow> u64 option" where
  "term_view l i =
     (if i = lastIdxOfSnapshot l then Some (lastTermOfSnapshot l)
      else map_option e_Term (log_view l i))"

text \<open>The entries of the half-open index range \<open>(lo, hi]\<close>.\<close>

definition log_range :: "'s RaftLog \<Rightarrow> u64 \<Rightarrow> u64 \<Rightarrow> Entry list" where
  "log_range l lo hi = map (\<lambda>i. the (log_view l i)) [Suc lo..<Suc hi]"

section \<open>The operations on well-formed logs\<close>

lemma LastIndex_eq: "log_wf l \<Longrightarrow> LastIndex l = lastIdxOfSnapshot l + length (entries l)"
  by (cases "entries l" rule: rev_cases) (auto simp: LastIndex_def log_wf_def contig_append)

lemma realIdx_le: "i \<le> lastIdxOfSnapshot l \<Longrightarrow> realIdx l i = Some (-1)"
  by (simp add: realIdx_def)

lemma realIdx_gt:
  assumes "log_wf l" "lastIdxOfSnapshot l < i" "i \<le> lastIdxOfSnapshot l + length (entries l)"
  shows "realIdx l i = Some (int (i - lastIdxOfSnapshot l - 1))"
proof -
  have b: "Suc (lastIdxOfSnapshot l + length (entries l)) < 2 ^ 63" using assms(1) by (simp add: log_wf_def)
  have "u64_sub i (lastIdxOfSnapshot l) = i - lastIdxOfSnapshot l"
    using assms b by (intro u64_sub_exact) auto
  moreover have "u64_sub (i - lastIdxOfSnapshot l) 1 = i - lastIdxOfSnapshot l - 1"
    using assms b by (intro u64_sub_exact) auto
  ultimately show ?thesis
    using assms b by (auto simp: realIdx_def Let_def u64_to_int_def)
qed

lemma realIdx_eq:
  assumes "log_wf l" "i \<le> LastIndex l"
  shows "realIdx l i = Some (int i - int (lastIdxOfSnapshot l) - 1 + int (lastIdxOfSnapshot l - i))"
  using assms realIdx_gt[OF assms(1), of i] realIdx_le[of i l]
  by (cases "i \<le> lastIdxOfSnapshot l") (auto simp: LastIndex_eq)

lemma realIdx_panics:
  assumes "log_wf l" "LastIndex l < i" "i < 2 ^ 64"
  shows "realIdx l i = None"
proof -
  have i: "lastIdxOfSnapshot l + length (entries l) < i" using assms(1,2) by (simp add: LastIndex_eq)
  have "u64_sub i (lastIdxOfSnapshot l) = i - lastIdxOfSnapshot l"
    using i assms(3) by (intro u64_sub_exact) auto
  moreover have "u64_sub (i - lastIdxOfSnapshot l) 1 = i - lastIdxOfSnapshot l - 1"
    using i assms(3) by (intro u64_sub_exact) auto
  ultimately show ?thesis using i by (auto simp: realIdx_def Let_def)
qed

lemma Term_eq:
  assumes "log_wf l" "lastIdxOfSnapshot l \<le> i" "i \<le> LastIndex l"
  shows "Term l i = term_view l i"
proof (cases "i = lastIdxOfSnapshot l")
  case True
  then show ?thesis by (simp add: Term_def realIdx_le term_view_def)
next
  case False
  then have "lastIdxOfSnapshot l < i" "i \<le> lastIdxOfSnapshot l + length (entries l)"
    using assms by (auto simp: LastIndex_eq)
  moreover from this have "nat (int (i - lastIdxOfSnapshot l - 1)) = i - lastIdxOfSnapshot l - 1"
    "i - lastIdxOfSnapshot l - 1 < length (entries l)" by auto
  ultimately show ?thesis
    using False realIdx_gt[OF assms(1), of i]
    by (simp add: Term_def term_view_def log_view_def at_int_def del: of_nat_diff)
qed

lemma copy_ents_eq:
  assumes "0 \<le> i" "h < int (length es)" "i \<le> h + 1"
  shows "copy_ents es i h acc = Some (acc @ drop (nat i) (take (nat (h + 1)) es))"
  using assms
proof (induction "nat (h + 1 - i)" arbitrary: i acc)
  case 0
  then have "i = h + 1" by simp
  then show ?case by (simp add: copy_ents.simps[of es "h + 1" h])
next
  case (Suc n)
  then have i: "i \<le> h" by simp
  then have lt: "nat i < length es" using Suc.prems by simp
  then have "copy_ents es i h acc = copy_ents es (i + 1) h (acc @ [es ! nat i])"
    using i Suc.prems by (simp add: copy_ents.simps[of es i h] at_int_def)
  also have "\<dots> = Some ((acc @ [es ! nat i]) @ drop (nat (i + 1)) (take (nat (h + 1)) es))"
    using Suc.hyps(2) Suc.prems i by (intro Suc.hyps(1)) auto
  also have "(acc @ [es ! nat i]) @ drop (nat (i + 1)) (take (nat (h + 1)) es) =
      acc @ drop (nat i) (take (nat (h + 1)) es)"
  proof -
    have "drop (nat i) (take (nat (h + 1)) es) = es ! nat i # drop (nat (i + 1)) (take (nat (h + 1)) es)"
      using i lt Suc.prems by (subst Cons_nth_drop_Suc[symmetric]) (auto simp: nat_add_distrib)
    then show ?thesis by simp
  qed
  finally show ?case .
qed

lemma log_range_drop:
  assumes "lastIdxOfSnapshot l \<le> lo" "hi \<le> lastIdxOfSnapshot l + length (entries l)"
  shows "log_range l lo hi =
    drop (lo - lastIdxOfSnapshot l) (take (hi - lastIdxOfSnapshot l) (entries l))"
proof (rule nth_equalityI)
  show "length (log_range l lo hi) =
      length (drop (lo - lastIdxOfSnapshot l) (take (hi - lastIdxOfSnapshot l) (entries l)))"
    using assms by (simp add: log_range_def del: upt_Suc)
  fix i assume "i < length (log_range l lo hi)"
  then have i: "i < hi - lo" by (simp add: log_range_def del: upt_Suc)
  have idx: "Suc (lo + i) - lastIdxOfSnapshot l - 1 = lo - lastIdxOfSnapshot l + i"
    using assms(1) by linarith
  have "log_range l lo hi ! i = the (log_view l (Suc lo + i))"
    using i by (simp add: log_range_def del: upt_Suc)
  also have "\<dots> = entries l ! (lo - lastIdxOfSnapshot l + i)"
    using i assms idx by (simp add: log_view_def)
  finally show "log_range l lo hi ! i =
      drop (lo - lastIdxOfSnapshot l) (take (hi - lastIdxOfSnapshot l) (entries l)) ! i"
    using i assms by simp
qed

lemma log_range_empty: "hi \<le> lo \<Longrightarrow> log_range l lo hi = []"
  by (simp add: log_range_def)

text \<open>Both reading loops return the range \<open>(lo, hi]\<close>, cut off at the snapshot.\<close>

lemma copy_range:
  assumes "log_wf l" "lo \<le> LastIndex l" "hi \<le> LastIndex l"
    "realIdx l lo = Some i" "realIdx l hi = Some j" "lo \<le> hi"
  shows "copy_ents (entries l) (i + 1) j [] =
    Some (log_range l (max lo (lastIdxOfSnapshot l)) (max hi (lastIdxOfSnapshot l)))"
proof -
  let ?b = "lastIdxOfSnapshot l"
  have i: "i + 1 = int (max lo ?b - ?b)" using assms(1,2,4) by (auto simp: realIdx_eq)
  have j: "j + 1 = int (max hi ?b - ?b)" using assms(1,3,5) by (auto simp: realIdx_eq)
  have le: "hi - ?b \<le> length (entries l)" using assms(1,3) by (auto simp: LastIndex_eq)
  have n: "nat (i + 1) = max lo ?b - ?b" "nat (j + 1) = max hi ?b - ?b" unfolding i j by simp_all
  have "max lo ?b - ?b \<le> max hi ?b - ?b" "max hi ?b - ?b \<le> length (entries l)"
    using assms(6) le by auto
  then have "0 \<le> i + 1" "j < int (length (entries l))" "i + 1 \<le> j + 1"
    using i j by linarith+
  then have "copy_ents (entries l) (i + 1) j [] =
      Some (drop (max lo ?b - ?b) (take (max hi ?b - ?b) (entries l)))"
    using copy_ents_eq[of "i + 1" j "entries l" "[]"] n by simp
  also have "\<dots> = Some (log_range l (max lo ?b) (max hi ?b))"
    using le by (subst log_range_drop) auto
  finally show ?thesis .
qed

lemma nextEnts_range:
  assumes "log_wf l" "applied l \<le> committed l"
  shows "nextEnts l =
    Some (log_range l (max (applied l) (lastIdxOfSnapshot l)) (max (committed l) (lastIdxOfSnapshot l)))"
proof -
  have b: "applied l \<le> LastIndex l" "committed l \<le> LastIndex l"
    using assms(1) by (auto simp: LastIndex_eq) (auto simp: log_wf_def)
  show ?thesis
    using copy_range[OF assms(1) b realIdx_eq[OF assms(1) b(1)] realIdx_eq[OF assms(1) b(2)] assms(2)]
      realIdx_eq[OF assms(1) b(1)] realIdx_eq[OF assms(1) b(2)]
    by (simp add: nextEnts_def)
qed

lemma unstableEntries_range:
  assumes "log_wf l"
  shows "unstableEntries l = Some (log_range l (max (stabled l) (lastIdxOfSnapshot l)) (LastIndex l))"
proof -
  have b: "stabled l \<le> LastIndex l" using assms by (auto simp: LastIndex_eq) (auto simp: log_wf_def)
  have "max (LastIndex l) (lastIdxOfSnapshot l) = LastIndex l" using assms by (simp add: LastIndex_eq)
  then show ?thesis
    using copy_range[OF assms b order.refl realIdx_eq[OF assms b] realIdx_eq[OF assms order.refl] b]
      realIdx_eq[OF assms b] realIdx_eq[OF assms order.refl]
    by (simp add: unstableEntries_def)
qed

lemma AppendEntry_wf:
  assumes "log_wf l" "e_Index e = Suc (LastIndex l)" "Suc (Suc (LastIndex l)) < 2 ^ 63"
  shows "log_wf (AppendEntry e l)"
  using assms LastIndex_eq[OF assms(1)] by (auto simp: log_wf_def AppendEntry_def contig_append)

lemma AppendEntry_view:
  assumes "log_wf l"
  shows "log_view (AppendEntry e l) = (log_view l)(Suc (LastIndex l) \<mapsto> e)"
proof
  fix i
  have "i - Suc (lastIdxOfSnapshot l) < length (entries l)"
    if "lastIdxOfSnapshot l < i" "i \<le> lastIdxOfSnapshot l + length (entries l)"
    using that by linarith
  then show "log_view (AppendEntry e l) i = ((log_view l)(Suc (LastIndex l) \<mapsto> e)) i"
    by (auto simp: AppendEntry_def log_view_def nth_append LastIndex_eq[OF assms])
qed

lemma LastIndex_AppendEntry: "LastIndex (AppendEntry e l) = e_Index e"
  by (simp add: LastIndex_def AppendEntry_def)

section \<open>Recovery from a storage\<close>

context raft_storage
begin

lemma newLog_recovers:
  assumes s: "inv s" and init: "so_InitialState ops s = Some (Inr (hs, cs))"
    and commit: "hs_Commit hs \<le> li s" and bound: "Suc (li s) < 2 ^ 63"
  shows "\<exists>l. newLog ops s = Some l \<and> log_wf l \<and> LastIndex l = li s \<and> stabled l = li s \<and>
    lastIdxOfSnapshot l = fi s - 1 \<and> applied l = fi s - 1 \<and> committed l = hs_Commit hs \<and>
    storage_ops l = ops \<and> storage l = s \<and> pendingSnapshot l = None \<and>
    (\<forall>i. fi s - 1 \<le> i \<and> i \<le> li s \<longrightarrow> map_option Inr (term_view l i) = so_Term ops s i)"
proof -
  have r: "0 < fi s" "fi s \<le> Suc (li s)" using range[OF s] by auto
  obtain es where es: "so_Entries ops s (fi s) (Suc (li s)) = Some (Inr es)"
      "length es = Suc (li s) - fi s" "contig (fi s) es"
    using Entries[OF s order.refl r(2) order.refl] by blast
  obtain t where t: "so_Term ops s (fi s - 1) = Some (Inr t)" using Term_before[OF s] by blast
  have u: "u64_add (li s) 1 = Suc (li s)" "u64_sub (fi s) 1 = fi s - 1"
    using r bound by (auto simp: u64_simps)
  define l where "l = \<lparr>storage_ops = ops, storage = s, committed = hs_Commit hs,
    applied = fi s - 1, stabled = li s, entries = es, pendingSnapshot = None,
    lastIdxOfSnapshot = fi s - 1, lastTermOfSnapshot = t\<rparr>"
  have new: "newLog ops s = Some l"
    using FirstIndex[OF s] LastIndex[OF s] es(1) t init u
    by (simp add: newLog_def value_or_def errPanic_def l_def)
  have wf: "log_wf l" using es r commit bound by (auto simp: log_wf_def l_def)
  have "map_option Inr (term_view l i) = so_Term ops s i" if i: "fi s - 1 \<le> i" "i \<le> li s" for i
  proof (cases "i = fi s - 1")
    case True
    then show ?thesis using t by (simp add: term_view_def l_def)
  next
    case False
    then have "fi s \<le> i" using i by simp
    then show ?thesis
      using False i r es(2) Term[OF s order.refl, of i "Suc (li s)" es] es(1)
      by (auto simp: term_view_def log_view_def l_def)
  qed
  then show ?thesis using new wf LastIndex_eq[OF wf] es(2) r by (auto simp: l_def)
qed

end

section \<open>Compaction\<close>

lemma maybeCompact_eq:
  assumes "log_wf l" "so_FirstIndex (storage_ops l) (storage l) = Some (Inr fi)"
    and "Suc (lastIdxOfSnapshot l) < fi" "fi \<le> LastIndex l"
  shows "maybeCompact l = Some (l\<lparr>lastTermOfSnapshot := the (term_view l (fi - 1)),
    entries := drop (fi - 1 - lastIdxOfSnapshot l) (entries l), lastIdxOfSnapshot := fi - 1\<rparr>)"
proof -
  have b: "fi < 2 ^ 63" using assms(1,4) by (auto simp: LastIndex_eq log_wf_def)
  have u: "u64_sub fi 1 = fi - 1" using assms(3) b by (intro u64_sub_exact) auto
  have le: "fi \<le> lastIdxOfSnapshot l + length (entries l)" using assms(1,4) by (simp add: LastIndex_eq)
  have t: "Term l (fi - 1) = term_view l (fi - 1)"
    using assms by (intro Term_eq) auto
  have "\<exists>t'. term_view l (fi - 1) = Some t'"
    using assms(3) le by (auto simp: term_view_def log_view_def)
  then obtain t' where v: "term_view l (fi - 1) = Some t'" ..
  have i: "realIdx l fi = Some (int (fi - lastIdxOfSnapshot l - 1))"
    using assms(3) le by (intro realIdx_gt[OF assms(1)]) auto
  have c: "fi - lastIdxOfSnapshot l - 1 = fi - 1 - lastIdxOfSnapshot l" by simp
  have "slice_from_int (entries l) (int (fi - lastIdxOfSnapshot l - 1)) =
      Some (drop (fi - 1 - lastIdxOfSnapshot l) (entries l))"
    unfolding c using assms(3) le by (simp add: slice_from_int_def del: of_nat_diff)
  then show ?thesis
    using assms(2,3) u t v i by (auto simp: maybeCompact_def errPanic_def)
qed

lemma maybeCompact_view:
  assumes "log_wf l" "so_FirstIndex (storage_ops l) (storage l) = Some (Inr fi)"
    and "Suc (lastIdxOfSnapshot l) < fi" "fi \<le> LastIndex l"
  shows "\<exists>l'. maybeCompact l = Some l' \<and> log_wf l' \<and> lastIdxOfSnapshot l' = fi - 1 \<and>
    (\<forall>i \<ge> fi. log_view l' i = log_view l i) \<and> (\<forall>i \<ge> fi - 1. term_view l' i = term_view l i)"
proof -
  define l' where "l' = l\<lparr>lastTermOfSnapshot := the (term_view l (fi - 1)),
    entries := drop (fi - 1 - lastIdxOfSnapshot l) (entries l), lastIdxOfSnapshot := fi - 1\<rparr>"
  have le: "fi \<le> lastIdxOfSnapshot l + length (entries l)" using assms(1,4) by (simp add: LastIndex_eq)
  have len: "fi - 1 + length (drop (fi - 1 - lastIdxOfSnapshot l) (entries l)) =
      lastIdxOfSnapshot l + length (entries l)"
    using le assms(3) by simp
  have "contig (Suc (fi - 1)) (drop (fi - 1 - lastIdxOfSnapshot l) (entries l))"
    using contig_drop[of "Suc (lastIdxOfSnapshot l)" "entries l" "fi - 1 - lastIdxOfSnapshot l"]
      assms(1,3) le by (simp add: log_wf_def)
  then have wf: "log_wf l'" using assms(1) len by (simp add: log_wf_def l'_def)
  have view: "log_view l' i = log_view l i" if "fi \<le> i" for i
  proof -
    have "fi - 1 - lastIdxOfSnapshot l + (i - (fi - 1) - 1) = i - lastIdxOfSnapshot l - 1"
      using that assms(3) by linarith
    then show ?thesis using that assms(3) len le by (auto simp: log_view_def l'_def)
  qed
  have "term_view l' i = term_view l i" if "fi - 1 \<le> i" for i
  proof (cases "i = fi - 1")
    case True
    have "\<exists>t. term_view l (fi - 1) = Some t"
      using assms(3) le by (auto simp: term_view_def log_view_def)
    moreover have "lastIdxOfSnapshot l' = fi - 1" "lastTermOfSnapshot l' = the (term_view l (fi - 1))"
      by (simp_all add: l'_def)
    ultimately show ?thesis using True by (auto simp: term_view_def[of l'])
  next
    case False
    then show ?thesis using that view[of i] assms(3) by (auto simp: term_view_def l'_def)
  qed
  with view wf show ?thesis using maybeCompact_eq[OF assms] by (auto simp: l'_def)
qed

lemma maybeCompact_idle:
  assumes "so_FirstIndex (storage_ops l) (storage l) = Some (Inr fi)"
    and "0 < fi" "fi < 2 ^ 64" "fi \<le> Suc (lastIdxOfSnapshot l)"
  shows "maybeCompact l = Some l"
proof -
  have "u64_sub fi 1 = fi - 1" using assms by (intro u64_sub_exact) auto
  moreover have "\<not> lastIdxOfSnapshot l < fi - 1" using assms by linarith
  ultimately show ?thesis using assms(1) by (simp add: maybeCompact_def errPanic_def)
qed

section \<open>Properties\<close>

text \<open>
  A log recovered by \<open>newLog\<close> from a well-formed memory storage whose hard state
  commits no more than it stores is well formed, ends where the storage ends, counts every entry
  as stable and every compacted entry as applied, and gives each available index the term that
  the storage gives it. In particular \<open>newLog\<close> does not panic.
\<close>

theorem newLog_MemoryStorage:
  assumes "ms_wf ms" "hs_Commit (ms_hardState ms) \<le> ms_li ms" "Suc (ms_li ms) < 2 ^ 63"
  shows "\<exists>l. newLog memory_storage_ops ms = Some l \<and> log_wf l \<and> LastIndex l = ms_li ms \<and>
    stabled l = ms_li ms \<and> lastIdxOfSnapshot l = ms_base ms \<and> applied l = ms_base ms \<and>
    committed l = hs_Commit (ms_hardState ms) \<and>
    (\<forall>i. ms_base ms \<le> i \<and> i \<le> ms_li ms \<longrightarrow> map_option Inr (term_view l i) = ms_Term ms i)"
proof -
  obtain cs where "so_InitialState memory_storage_ops ms = Some (Inr (ms_hardState ms, cs))"
    using assms(1) by (auto simp: ms_wf_def memory_storage_ops_def ms_InitialState_def)
  from ms.newLog_recovers[OF assms(1) this assms(2,3)] show ?thesis
    by (auto simp: memory_storage_ops_def)
qed

theorem newLog_MemoryStorage_witness:
  "\<exists>l. newLog memory_storage_ops NewMemoryStorage = Some l \<and> log_wf l \<and> LastIndex l = 0"
  using newLog_MemoryStorage[of NewMemoryStorage]
  by (auto simp: ms_wf_def ms_base_def NewMemoryStorage_def zero_Entry_def zero_HardState_def)

text \<open>
  On a well-formed log whose applied index lies between the snapshot and the
  committed index, \<open>nextEnts\<close> returns exactly the entries after the applied up to the committed
  index, in order, and \<open>hasNextEnts\<close> says whether there is one.
\<close>

theorem nextEnts_exact:
  assumes "log_wf l" "lastIdxOfSnapshot l \<le> applied l" "applied l \<le> committed l"
  shows "nextEnts l = Some (log_range l (applied l) (committed l)) \<and>
    hasNextEnts l = Some (applied l < committed l)"
proof -
  have "applied l \<le> LastIndex l" "committed l \<le> LastIndex l"
    using assms(1) by (auto simp: LastIndex_eq) (auto simp: log_wf_def)
  moreover have "max (applied l) (lastIdxOfSnapshot l) = applied l"
    "max (committed l) (lastIdxOfSnapshot l) = committed l" using assms by simp_all
  ultimately show ?thesis
    using nextEnts_range[OF assms(1,3)] assms by (auto simp: hasNextEnts_def realIdx_eq)
qed

theorem nextEnts_exact_witness:
  "nextEnts \<lparr>storage_ops = memory_storage_ops, storage = NewMemoryStorage, committed = 6, applied = 5,
     stabled = 6, entries = [zero_Entry\<lparr>e_Index := 5\<rparr>, zero_Entry\<lparr>e_Index := 6\<rparr>, zero_Entry\<lparr>e_Index := 7\<rparr>],
     pendingSnapshot = None, lastIdxOfSnapshot = 4, lastTermOfSnapshot = 1\<rparr>
   = Some [zero_Entry\<lparr>e_Index := 6\<rparr>]"
  using nextEnts_exact[of "\<lparr>storage_ops = memory_storage_ops, storage = NewMemoryStorage, committed = 6,
     applied = 5, stabled = 6,
     entries = [zero_Entry\<lparr>e_Index := 5\<rparr>, zero_Entry\<lparr>e_Index := 6\<rparr>, zero_Entry\<lparr>e_Index := 7\<rparr>],
     pendingSnapshot = None, lastIdxOfSnapshot = 4, lastTermOfSnapshot = 1\<rparr>"]
  by (simp add: log_wf_def log_range_def log_view_def zero_Entry_def)

text \<open>
  C22 (functional): on a well-formed log that persisted at least its snapshot, \<open>unstableEntries\<close>
  returns exactly the entries after the stabled index, and \<open>hasUnstableEnts\<close> says whether there
  is one.
\<close>

theorem unstableEntries_exact:
  assumes "log_wf l" "lastIdxOfSnapshot l \<le> stabled l"
  shows "unstableEntries l = Some (log_range l (stabled l) (LastIndex l)) \<and>
    (hasUnstableEnts l \<longleftrightarrow> log_range l (stabled l) (LastIndex l) \<noteq> [])"
  using unstableEntries_range[OF assms(1)] assms(2)
  by (auto simp: hasUnstableEnts_def log_range_def max_def)

theorem unstableEntries_exact_witness:
  "unstableEntries \<lparr>storage_ops = memory_storage_ops, storage = NewMemoryStorage, committed = 6, applied = 5,
     stabled = 6, entries = [zero_Entry\<lparr>e_Index := 5\<rparr>, zero_Entry\<lparr>e_Index := 6\<rparr>, zero_Entry\<lparr>e_Index := 7\<rparr>],
     pendingSnapshot = None, lastIdxOfSnapshot = 4, lastTermOfSnapshot = 1\<rparr>
   = Some [zero_Entry\<lparr>e_Index := 7\<rparr>]"
  using unstableEntries_exact[of "\<lparr>storage_ops = memory_storage_ops, storage = NewMemoryStorage,
     committed = 6, applied = 5, stabled = 6,
     entries = [zero_Entry\<lparr>e_Index := 5\<rparr>, zero_Entry\<lparr>e_Index := 6\<rparr>, zero_Entry\<lparr>e_Index := 7\<rparr>],
     pendingSnapshot = None, lastIdxOfSnapshot = 4, lastTermOfSnapshot = 1\<rparr>"]
  by (simp add: log_wf_def log_range_def log_view_def LastIndex_def zero_Entry_def)

text \<open>
  When the storage has been compacted to a first index inside the log,
  \<open>maybeCompact\<close> returns a well-formed log that starts there, with the same entries from that
  index on and the same terms from the index before it on.
\<close>

theorem maybeCompact_keeps_view:
  assumes "log_wf l" "so_FirstIndex (storage_ops l) (storage l) = Some (Inr fi)"
    and "Suc (lastIdxOfSnapshot l) < fi" "fi \<le> LastIndex l"
  shows "\<exists>l'. maybeCompact l = Some l' \<and> log_wf l' \<and> lastIdxOfSnapshot l' = fi - 1 \<and>
    LastIndex l' = LastIndex l \<and>
    (\<forall>i \<ge> fi. log_view l' i = log_view l i) \<and> (\<forall>i \<ge> fi - 1. term_view l' i = term_view l i)"
proof -
  have "fi - Suc 0 + (length (entries l) - (fi - Suc (lastIdxOfSnapshot l))) =
      lastIdxOfSnapshot l + length (entries l)"
    using assms by (simp add: LastIndex_eq)
  then show ?thesis
    using maybeCompact_view[OF assms] maybeCompact_eq[OF assms] assms(1) by (auto simp: LastIndex_eq)
qed

theorem maybeCompact_keeps_view_witness:
  "\<exists>l'. maybeCompact \<lparr>storage_ops = memory_storage_ops,
       storage = NewMemoryStorage\<lparr>ms_ents := [zero_Entry\<lparr>e_Index := 5\<rparr>]\<rparr>, committed = 6, applied = 5, stabled = 6,
       entries = [zero_Entry\<lparr>e_Index := 5\<rparr>, zero_Entry\<lparr>e_Index := 6\<rparr>, zero_Entry\<lparr>e_Index := 7\<rparr>],
       pendingSnapshot = None, lastIdxOfSnapshot = 4, lastTermOfSnapshot = 1\<rparr> = Some l' \<and>
     lastIdxOfSnapshot l' = 5 \<and> LastIndex l' = 7"
  using maybeCompact_keeps_view[of "\<lparr>storage_ops = memory_storage_ops,
       storage = NewMemoryStorage\<lparr>ms_ents := [zero_Entry\<lparr>e_Index := 5\<rparr>]\<rparr>, committed = 6, applied = 5, stabled = 6,
       entries = [zero_Entry\<lparr>e_Index := 5\<rparr>, zero_Entry\<lparr>e_Index := 6\<rparr>, zero_Entry\<lparr>e_Index := 7\<rparr>],
       pendingSnapshot = None, lastIdxOfSnapshot = 4, lastTermOfSnapshot = 1\<rparr>" 6]
  by (auto simp: log_wf_def LastIndex_def memory_storage_ops_def ms_FirstIndex_def ms_firstIndex_def
      u64_simps zero_Entry_def)

end
