(* ===== verification/Raft.thy ===== *)
theory Raft
  imports Raft_Log
begin

text \<open>
  The state machine of \<open>raft/raft.go\<close>: the state of a peer, one definition per method, and \<open>Step\<close>
  and \<open>tick\<close>, its two entry points. A panic is \<open>None\<close>. The map \<open>Prs\<close> of pointers is a finite map,
  reading an absent peer through the nil pointer panics. The numbers drawn by \<open>rand.Int\<close> are a
  field of the state, the stream still to be drawn. Log messages and \<open>String\<close> are left out.
\<close>

section \<open>State\<close>

datatype StateType = StateFollower | StateCandidate | StateLeader

record 's Config =
  c_ID :: u64
  c_peers :: "u64 list option"
  c_ElectionTick :: int
  c_HeartbeatTick :: int
  c_Storage :: "('s StorageOps \<times> 's) option"
  c_Applied :: u64

record Progress =
  p_Match :: u64
  p_Next :: u64

record 's Raft =
  r_id :: u64
  r_Term :: u64
  r_Vote :: u64
  VoteTotal :: u64
  VoteReceived :: u64
  r_RaftLog :: "'s RaftLog"
  Prs :: "(u64, Progress) fmap"
  r_State :: StateType
  votes :: "(u64, bool) fmap"
  msgs :: "Message list"
  r_Lead :: u64
  heartbeatTimeout :: int
  electionTimeout :: int
  electionTimeoutRandom :: int
  heartbeatElapsed :: int
  electionElapsed :: int
  leadTransferee :: u64
  PendingConfIndex :: u64
  peers :: "u64 list"
  rand_src :: "nat \<Rightarrow> nat"

record SoftState =
  ss_Lead :: u64
  ss_RaftState :: StateType

definition None_id :: u64 where
  "None_id = 0"

definition Config_validate :: "'s Config \<Rightarrow> string option" where
  "Config_validate c =
     (if c_ID c = None_id then Some ''cannot use none as id''
      else if c_HeartbeatTick c \<le> 0 then Some ''heartbeat tick must be greater than 0''
      else if c_ElectionTick c \<le> c_HeartbeatTick c
        then Some ''election tick must be greater than heartbeat tick''
      else if c_Storage c = None then Some ''storage cannot be nil''
      else None)"

text \<open>
  \<open>rand.Int() % n\<close>: the next number of the stream, which is not negative, so that Go's truncating
  remainder is the remainder by the absolute value; a zero divisor panics.
\<close>

definition rand_mod :: "(nat \<Rightarrow> nat) \<Rightarrow> int \<Rightarrow> int option" where
  "rand_mod src n = (if n = 0 then None else Some (int (src 0) mod \<bar>n\<bar>))"

definition rand_next :: "(nat \<Rightarrow> nat) \<Rightarrow> nat \<Rightarrow> nat" where
  "rand_next src = (\<lambda>i. src (Suc i))"

definition send :: "Message \<Rightarrow> 's Raft \<Rightarrow> 's Raft" where
  "send m r = r\<lparr>msgs := msgs r @ [m]\<rparr>"

text \<open>\<open>Prs[p]\<close>, dereferenced, and an assignment through it.\<close>

definition get_pr :: "u64 \<Rightarrow> 's Raft \<Rightarrow> Progress option" where
  "get_pr p r = fmlookup (Prs r) p"

definition set_pr :: "u64 \<Rightarrow> Progress \<Rightarrow> 's Raft \<Rightarrow> 's Raft" where
  "set_pr p pr r = r\<lparr>Prs := fmupd p pr (Prs r)\<rparr>"

definition newRaft :: "'s Config \<Rightarrow> (nat \<Rightarrow> nat) \<Rightarrow> 's Raft option" where
  "newRaft c src = (case Config_validate c of Some err \<Rightarrow> None | None \<Rightarrow> do {
     st \<leftarrow> c_Storage c;
     rnd \<leftarrow> rand_mod src (c_ElectionTick c);
     l \<leftarrow> newLog (fst st) (snd st);
     res \<leftarrow> so_InitialState (fst st) (snd st);
     init \<leftarrow> errPanic res;
     let ps = (case c_peers c of None \<Rightarrow> cs_Nodes (snd init) | Some ps \<Rightarrow> ps);
     let l = (case c_peers c of
               None \<Rightarrow> l\<lparr>applied := raft_max (c_Applied c) (applied l)\<rparr> | Some _ \<Rightarrow> l);
     let l = l\<lparr>committed := hs_Commit (fst init)\<rparr>;
     let pr = \<lparr>p_Match = lastIdxOfSnapshot l, p_Next = u64_add (LastIndex l) 1\<rparr>;
     Some \<lparr>r_id = c_ID c, r_Term = hs_Term (fst init), r_Vote = hs_Vote (fst init), VoteTotal = 0,
       VoteReceived = 0, r_RaftLog = l, Prs = fold (\<lambda>p. fmupd p pr) ps fmempty,
       r_State = StateFollower, votes = fmempty, msgs = [], r_Lead = 0,
       heartbeatTimeout = c_HeartbeatTick c, electionTimeout = c_ElectionTick c,
       electionTimeoutRandom = c_ElectionTick c + rnd, heartbeatElapsed = 0, electionElapsed = 0,
       leadTransferee = 0, PendingConfIndex = 0, peers = ps, rand_src = rand_next src\<rparr>
   })"

definition raft_SoftState :: "'s Raft \<Rightarrow> SoftState" where
  "raft_SoftState r = \<lparr>ss_Lead = r_Lead r, ss_RaftState = r_State r\<rparr>"

definition raft_HardState :: "'s Raft \<Rightarrow> HardState" where
  "raft_HardState r =
     \<lparr>hs_Term = r_Term r, hs_Vote = r_Vote r, hs_Commit = committed (r_RaftLog r)\<rparr>"

definition containsPeer :: "u64 \<Rightarrow> 's Raft \<Rightarrow> bool" where
  "containsPeer peer r \<longleftrightarrow> peer \<in> set (peers r)"

section \<open>Sending\<close>

definition sendHeartbeat :: "u64 \<Rightarrow> 's Raft \<Rightarrow> 's Raft" where
  "sendHeartbeat to r =
     send (zero_Message\<lparr>m_MsgType := MsgHeartbeat, m_To := to, m_From := r_id r, m_Term := r_Term r\<rparr>) r"

definition sendHeartbeats :: "'s Raft \<Rightarrow> 's Raft" where
  "sendHeartbeats r =
     fold (\<lambda>p r. if p = r_id r then r else sendHeartbeat p r) (peers r) r"

definition requestVote :: "u64 \<Rightarrow> 's Raft \<Rightarrow> 's Raft option" where
  "requestVote to r = do {
     let lastIdx = LastIndex (r_RaftLog r);
     lastTerm \<leftarrow> Term (r_RaftLog r) lastIdx;
     Some (send (zero_Message\<lparr>m_MsgType := MsgRequestVote, m_To := to, m_From := r_id r,
       m_Term := r_Term r, m_LogTerm := lastTerm, m_Index := lastIdx\<rparr>) r)
   }"

definition requestVotes :: "'s Raft \<Rightarrow> 's Raft option" where
  "requestVotes r =
     foldM (\<lambda>p r. if p = r_id r then Some r else requestVote p r) (peers r) r"

definition needSnapshot :: "u64 \<Rightarrow> 's Raft \<Rightarrow> bool" where
  "needSnapshot nextIdx r \<longleftrightarrow> nextIdx \<le> lastIdxOfSnapshot (r_RaftLog r)"

definition sendSnapshot :: "u64 \<Rightarrow> 's Raft \<Rightarrow> 's Raft option" where
  "sendSnapshot to r = do {
     res \<leftarrow> so_Snapshot (storage_ops (r_RaftLog r)) (storage (r_RaftLog r));
     let r = r\<lparr>r_RaftLog := (r_RaftLog r)\<lparr>storage := snd res\<rparr>\<rparr>;
     case fst res of
       Inl err \<Rightarrow> Some r
     | Inr snapshot \<Rightarrow> do {
         let m = zero_Message\<lparr>m_MsgType := MsgSnapshot, m_To := to, m_From := r_id r,
               m_Term := r_Term r, m_Snapshot := Some snapshot\<rparr>;
         pr \<leftarrow> get_pr to r;
         md \<leftarrow> sn_Metadata snapshot;
         Some (send m (set_pr to (pr\<lparr>p_Next := u64_add (sm_Index md) 1\<rparr>) r))
       }
   }"

text \<open>The loop that collects the entries from \<open>nextIdx\<close> to the last index.\<close>

definition collect_entries :: "'s RaftLog \<Rightarrow> u64 \<Rightarrow> u64 \<Rightarrow> Entry list option" where
  "collect_entries l nextIdx lastIdx =
     foldM (\<lambda>i ents. do {
         j \<leftarrow> realIdx l i;
         e \<leftarrow> at_int (entries l) j;
         Some (ents @ [e])
       }) [nextIdx..<Suc lastIdx] []"

definition sendAppend :: "u64 \<Rightarrow> 's Raft \<Rightarrow> (bool \<times> 's Raft) option" where
  "sendAppend to r = do {
     let lastIdx = LastIndex (r_RaftLog r);
     pr \<leftarrow> get_pr to r;
     let nextIdx = p_Next pr;
     if needSnapshot nextIdx r then do { r \<leftarrow> sendSnapshot to r; Some (True, r) }
     else if nextIdx > lastIdx then Some (False, r)
     else do {
       ents \<leftarrow> collect_entries (r_RaftLog r) nextIdx lastIdx;
       t \<leftarrow> Term (r_RaftLog r) (u64_sub nextIdx 1);
       Some (True, send (zero_Message\<lparr>m_MsgType := MsgAppend, m_To := to, m_From := r_id r,
         m_Term := r_Term r, m_LogTerm := t, m_Index := u64_sub nextIdx 1,
         m_Commit := committed (r_RaftLog r), m_Entries := ents\<rparr>) r)
     }
   }"

definition broadCastAE :: "'s Raft \<Rightarrow> 's Raft option" where
  "broadCastAE r =
     foldM (\<lambda>p r. if p = r_id r then Some r else map_option snd (sendAppend p r)) (peers r) r"

section \<open>Proposals and roles\<close>

definition propose_entry :: "Entry \<Rightarrow> 's Raft \<Rightarrow> 's Raft" where
  "propose_entry entry r =
     (let entry = entry\<lparr>e_Term := r_Term r, e_Index := u64_add (LastIndex (r_RaftLog r)) 1\<rparr> in
      if e_EntryType entry = EntryConfChange \<and> PendingConfIndex r \<noteq> None_id then r
      else let r = (if e_EntryType entry = EntryConfChange
                    then r\<lparr>PendingConfIndex := e_Index entry\<rparr> else r) in
        r\<lparr>r_RaftLog := AppendEntry entry (r_RaftLog r)\<rparr>)"

definition handleMsgPropose :: "Message \<Rightarrow> 's Raft \<Rightarrow> 's Raft option" where
  "handleMsgPropose m r = do {
     let r = fold propose_entry (m_Entries m) r;
     let lastIdx = LastIndex (r_RaftLog r);
     pr \<leftarrow> get_pr (r_id r) r;
     let r = set_pr (r_id r) (pr\<lparr>p_Match := lastIdx, p_Next := u64_add lastIdx 1\<rparr>) r;
     Some (if length (peers r) = 1
           then r\<lparr>r_RaftLog := (r_RaftLog r)\<lparr>committed := lastIdx\<rparr>\<rparr> else r)
   }"

definition becomeFollower :: "u64 \<Rightarrow> u64 \<Rightarrow> 's Raft \<Rightarrow> 's Raft option" where
  "becomeFollower t lead r = do {
     rnd \<leftarrow> rand_mod (rand_src r) (electionTimeout r);
     Some (r\<lparr>r_Term := t, r_Lead := lead, r_State := StateFollower, r_Vote := 0,
       electionElapsed := 0, electionTimeoutRandom := electionTimeout r + rnd,
       rand_src := rand_next (rand_src r)\<rparr>)
   }"

definition becomeLeader :: "'s Raft \<Rightarrow> 's Raft option" where
  "becomeLeader r = do {
     let r = r\<lparr>r_State := StateLeader, leadTransferee := None_id, heartbeatElapsed := 0,
               r_Lead := r_id r\<rparr>;
     let entry = zero_Entry\<lparr>e_Term := r_Term r, e_Index := u64_add (LastIndex (r_RaftLog r)) 1\<rparr>;
     r \<leftarrow> handleMsgPropose (zero_Message\<lparr>m_MsgType := MsgAppend, m_To := r_id r, m_From := r_id r,
             m_Entries := [entry], m_Term := r_Term r\<rparr>) r;
     broadCastAE r
   }"

definition becomeCandidate :: "'s Raft \<Rightarrow> 's Raft option" where
  "becomeCandidate r = do {
     rnd \<leftarrow> rand_mod (rand_src r) (electionTimeout r);
     let r = r\<lparr>r_Term := u64_add (r_Term r) 1, VoteReceived := 1, VoteTotal := 1,
       r_Vote := r_id r, votes := fmupd (r_id r) True (votes r), r_State := StateCandidate,
       electionElapsed := 0, electionTimeoutRandom := electionTimeout r + rnd,
       rand_src := rand_next (rand_src r)\<rparr>;
     if length (peers r) = 1 then becomeLeader r else Some r
   }"

definition tick :: "'s Raft \<Rightarrow> 's Raft option" where
  "tick r = do {
     let r = r\<lparr>electionElapsed := electionElapsed r + 1, heartbeatElapsed := heartbeatElapsed r + 1\<rparr>;
     if r_State r = StateLeader then
       Some (if heartbeatElapsed r \<ge> heartbeatTimeout r
             then sendHeartbeats (r\<lparr>heartbeatElapsed := 0\<rparr>) else r)
     else if electionElapsed r \<ge> electionTimeoutRandom r then
       do { r \<leftarrow> becomeCandidate r; requestVotes r }
     else Some r
   }"

section \<open>Votes\<close>

definition handleVoteRequest :: "Message \<Rightarrow> 's Raft \<Rightarrow> 's Raft option" where
  "handleVoteRequest m r = do {
     let response = zero_Message\<lparr>m_MsgType := MsgRequestVoteResponse, m_To := m_From m,
           m_From := r_id r, m_Reject := True\<rparr>;
     if (r_Term r = m_Term m \<and> r_State r = StateFollower \<and> (r_Vote r = 0 \<or> r_Vote r = m_From m)) \<or>
        m_Term m > r_Term r
     then do {
       let lastIndex = LastIndex (r_RaftLog r);
       lastTerm \<leftarrow> Term (r_RaftLog r) lastIndex;
       r \<leftarrow> becomeFollower (m_Term m) 0 r;
       if m_LogTerm m > lastTerm \<or> (m_LogTerm m = lastTerm \<and> m_Index m \<ge> lastIndex)
       then let r = r\<lparr>r_Vote := m_From m\<rparr> in
         Some (send (response\<lparr>m_Reject := False, m_Term := r_Term r\<rparr>) r)
       else Some (send (response\<lparr>m_Term := r_Term r\<rparr>) r)
     }
     else Some (send (response\<lparr>m_Term := r_Term r\<rparr>) r)
   }"

definition handleVoteResponse :: "Message \<Rightarrow> 's Raft \<Rightarrow> 's Raft option" where
  "handleVoteResponse m r =
     (if m_Term m = r_Term r then
        let r = r\<lparr>VoteTotal := u64_add (VoteTotal r) 1\<rparr>;
            r = (if \<not> m_Reject m then r\<lparr>VoteReceived := u64_add (VoteReceived r) 1\<rparr> else r) in
        if \<not> m_Reject m \<and> VoteReceived r > length (peers r) div 2 then becomeLeader r
        else if VoteTotal r = length (peers r) then becomeFollower (r_Term r) 0 r
        else Some r
      else if m_Term m > r_Term r then becomeFollower (m_Term m) 0 (r\<lparr>r_Term := m_Term m\<rparr>)
      else Some r)"

text \<open>\<open>Step\<close> on the local message \<open>MsgHup\<close>, which two handlers below send to themselves.\<close>

definition Step_Hup :: "'s Raft \<Rightarrow> 's Raft option" where
  "Step_Hup r =
     (if r_State r = StateLeader then Some r else do { r \<leftarrow> becomeCandidate r; requestVotes r })"

definition handleMsgTimeOut :: "'s Raft \<Rightarrow> 's Raft option" where
  "handleMsgTimeOut r =
     (if r_State r = StateCandidate \<or> \<not> containsPeer (r_id r) r then Some r else Step_Hup r)"

definition msg_TimeoutNow :: "u64 \<Rightarrow> 's Raft \<Rightarrow> Message" where
  "msg_TimeoutNow to r = zero_Message\<lparr>m_MsgType := MsgTimeoutNow, m_To := to, m_From := r_id r\<rparr>"

definition handleLeaderTransfer :: "Message \<Rightarrow> 's Raft \<Rightarrow> 's Raft option" where
  "handleLeaderTransfer m r =
     (if r_State r \<noteq> StateLeader then (if r_Lead r \<noteq> None_id then Step_Hup r else Some r)
      else let transfereeId = m_From m in
        if \<not> containsPeer transfereeId r then Some r
        else if transfereeId = r_id r then Some r
        else if leadTransferee r \<noteq> None_id \<and> leadTransferee r = transfereeId then Some r
        else do {
          let r = r\<lparr>leadTransferee := transfereeId\<rparr>;
          pr \<leftarrow> get_pr transfereeId r;
          if LastIndex (r_RaftLog r) = p_Match pr then Some (send (msg_TimeoutNow transfereeId r) r)
          else map_option snd (sendAppend transfereeId r)
        })"

section \<open>Replication\<close>

text \<open>The search for the last entry of the conflicting term, with its \<open>break\<close>.\<close>

fun search_conflict :: "Entry list \<Rightarrow> u64 \<Rightarrow> bool \<times> u64 \<Rightarrow> bool \<times> u64" where
  "search_conflict [] t res = res"
| "search_conflict (e # es) t res =
     (let res = (if e_Term e = t then (True, u64_add (e_Index e) 1) else res) in
      if e_Term e > t then res else search_conflict es t res)"

text \<open>The loop that counts the peers whose match index has reached \<open>idx\<close> and lists them.\<close>

definition count_matched :: "u64 \<Rightarrow> u64 \<Rightarrow> 's Raft \<Rightarrow> (nat \<times> u64 list) option" where
  "count_matched from idx r =
     foldM (\<lambda>p (counts, ps).
         if p = from \<or> p = r_id r then Some (counts, ps)
         else do {
           pr \<leftarrow> get_pr p r;
           Some (if p_Match pr \<ge> idx then (counts + 1, ps @ [p]) else (counts, ps))
         }) (peers r) (2, [from])"

definition handleAppendAccepted :: "Message \<Rightarrow> 's Raft \<Rightarrow> 's Raft option" where
  "handleAppendAccepted m r = do {
     pr \<leftarrow> get_pr (m_From m) r;
     if m_Index m \<le> p_Match pr then Some r
     else do {
       let r = set_pr (m_From m) (pr\<lparr>p_Match := m_Index m, p_Next := u64_add (m_Index m) 1\<rparr>) r;
       let r = (if m_From m = leadTransferee r \<and> m_Index m = LastIndex (r_RaftLog r)
                then send (msg_TimeoutNow (m_From m) r) r else r);
       let msg = zero_Message\<lparr>m_MsgType := MsgAppend, m_Term := r_Term r, m_From := r_id r,
             m_To := m_From m, m_CommitUse := True\<rparr>;
       if m_Index m \<le> committed (r_RaftLog r) then Some (send (msg\<lparr>m_Commit := m_Index m\<rparr>) r)
       else do {
         i \<leftarrow> realIdx (r_RaftLog r) (m_Index m);
         e \<leftarrow> at_int (entries (r_RaftLog r)) i;
         if e_Term e < r_Term r then Some r
         else do {
           res \<leftarrow> count_matched (m_From m) (m_Index m) r;
           if fst res > length (peers r) div 2 then
             Some (fold (\<lambda>p. send (msg\<lparr>m_To := p, m_Commit := m_Index m\<rparr>)) (snd res)
               (r\<lparr>r_RaftLog := (r_RaftLog r)\<lparr>committed := m_Index m\<rparr>\<rparr>))
           else Some r
         }
       }
     }
   }"

definition handleAppendRejected :: "Message \<Rightarrow> 's Raft \<Rightarrow> 's Raft option" where
  "handleAppendRejected m r = do {
     pr \<leftarrow> get_pr (m_From m) r;
     let next = (if m_ConflictTerm m \<noteq> 0 then
           (case search_conflict (entries (r_RaftLog r)) (m_ConflictTerm m) (False, 0) of
              (searched, nextIdx) \<Rightarrow> if searched then nextIdx else u64_add (m_Index m) 1)
         else raft_max (u64_add (m_Index m) 1) (u64_add (p_Match pr) 1));
     map_option snd (sendAppend (m_From m) (set_pr (m_From m) (pr\<lparr>p_Next := next\<rparr>) r))
   }"

definition handleMsgAppendResponse :: "Message \<Rightarrow> 's Raft \<Rightarrow> 's Raft option" where
  "handleMsgAppendResponse m r =
     (if \<not> m_Reject m then handleAppendAccepted m r else handleAppendRejected m r)"

text \<open>
  The parts of \<open>handleAppendEntries\<close>: where the message attaches to the log (the entries kept and
  the entries dropped), what a rejection reports, and the merge of the new entries with the
  dropped ones.
\<close>

fun find_entry :: "u64 \<Rightarrow> u64 \<Rightarrow> Entry list \<Rightarrow> nat option" where
  "find_entry idx t [] = None"
| "find_entry idx t (e # es) =
     (if e_Index e = idx \<and> e_Term e = t then Some 0 else map_option Suc (find_entry idx t es))"

definition ae_attach :: "Message \<Rightarrow> 's RaftLog \<Rightarrow> (Entry list \<times> Entry list) option" where
  "ae_attach m l =
     (if m_Index m = lastIdxOfSnapshot l \<and> m_LogTerm m = lastTermOfSnapshot l
      then Some ([], entries l)
      else case find_entry (m_Index m) (m_LogTerm m) (entries l) of
        None \<Rightarrow> None
      | Some i \<Rightarrow> Some (take (i + 1) (entries l), drop (i + 1) (entries l)))"

definition ae_conflict :: "Message \<Rightarrow> 's RaftLog \<Rightarrow> Message \<Rightarrow> Message option" where
  "ae_conflict m l reply =
     (if m_Index m > LastIndex l then Some (reply\<lparr>m_Index := LastIndex l, m_ConflictTerm := 0\<rparr>)
      else if entries l = [] then Some (reply\<lparr>m_ConflictTerm := lastTermOfSnapshot l\<rparr>)
      else do {
        i \<leftarrow> realIdx l (m_Index m);
        let index = Max_int (u64_to_int (lastIdxOfSnapshot l)) i;
        ct \<leftarrow> (if index = u64_to_int (lastIdxOfSnapshot l) then Some (lastTermOfSnapshot l)
               else do { e \<leftarrow> at_int (entries l) index; Some (e_Term e) });
        let reply = reply\<lparr>m_ConflictTerm := ct\<rparr>;
        Some (case find (\<lambda>e. e_Term e = ct) (entries l) of
                None \<Rightarrow> reply
              | Some e \<Rightarrow> reply\<lparr>m_Index := u64_sub (e_Index e) 1\<rparr>)
      })"

fun ae_compare :: "Entry list \<Rightarrow> Entry list \<Rightarrow> bool \<Rightarrow> u64 \<Rightarrow> bool \<times> u64" where
  "ae_compare (d # ds) (e # es) sub stab =
     (if e_Index d \<noteq> e_Index e \<or> e_Term d \<noteq> e_Term e
      then (False, raft_min stab (u64_sub (e_Index d) 1))
      else ae_compare ds es sub stab)"
| "ae_compare _ _ sub stab = (sub, stab)"

definition ae_merge :: "Message \<Rightarrow> Entry list \<Rightarrow> Entry list \<Rightarrow> 's RaftLog \<Rightarrow> 's RaftLog" where
  "ae_merge m kept dropped l =
     (if m_Entries m \<noteq> [] then
        (case ae_compare dropped (m_Entries m) (\<not> length dropped \<le> length (m_Entries m)) (stabled l) of
           (sub, stab) \<Rightarrow>
             l\<lparr>stabled := stab, entries := kept @ (if sub then dropped else m_Entries m)\<rparr>)
      else l\<lparr>entries := kept @ dropped\<rparr>)"

definition handleAppendEntries :: "Message \<Rightarrow> 's Raft \<Rightarrow> 's Raft option" where
  "handleAppendEntries m r =
     (if m_CommitUse m then
        (let l = r_RaftLog r in
         if m_Commit m > LastIndex l then None
         else Some (r\<lparr>r_RaftLog := l\<lparr>committed := raft_max (committed l) (m_Commit m)\<rparr>\<rparr>))
      else let reply = zero_Message\<lparr>m_MsgType := MsgAppendResponse, m_From := r_id r,
             m_To := m_From m, m_Reject := True\<rparr> in
        if m_Term m < r_Term r then Some (send (reply\<lparr>m_Term := r_Term r\<rparr>) r)
        else do {
          let r = r\<lparr>r_Term := m_Term m, r_Lead := m_From m\<rparr>;
          let reply = reply\<lparr>m_Term := r_Term r\<rparr>;
          r \<leftarrow> (if r_State r \<noteq> StateFollower then becomeFollower (m_Term m) (m_From m) r else Some r);
          let l = r_RaftLog r;
          case ae_attach m l of
            None \<Rightarrow> do { reply \<leftarrow> ae_conflict m l reply; Some (send reply r) }
          | Some (kept, dropped) \<Rightarrow> do {
              let l = ae_merge m kept dropped l;
              let reply = reply\<lparr>m_Reject := False, m_Index := LastIndex l\<rparr>;
              let lastNewEntIndex =
                (if m_Entries m \<noteq> [] then e_Index (last (m_Entries m)) else m_Index m);
              if m_Commit m > committed l then do {
                let l = l\<lparr>committed := raft_max (raft_min (m_Commit m) lastNewEntIndex) (committed l)\<rparr>;
                if committed l > LastIndex l then None
                else Some (send reply (r\<lparr>r_RaftLog := l\<rparr>))
              }
              else Some (send reply (r\<lparr>r_RaftLog := l\<rparr>))
            }
        })"

section \<open>Heartbeats and snapshots\<close>

definition handleHeartbeat :: "Message \<Rightarrow> 's Raft \<Rightarrow> 's Raft option" where
  "handleHeartbeat m r = do {
     let msg = zero_Message\<lparr>m_MsgType := MsgHeartbeatResponse, m_Reject := False,
           m_To := m_From m, m_From := r_id r\<rparr>;
     if m_Term m < r_Term r then Some (send (msg\<lparr>m_Reject := True, m_Term := r_Term r\<rparr>) r)
     else do {
       r \<leftarrow> becomeFollower (m_Term m) (m_From m) r;
       Some (send (msg\<lparr>m_Index := LastIndex (r_RaftLog r)\<rparr>) r)
     }
   }"

definition handleHeartbeatResponse :: "Message \<Rightarrow> 's Raft \<Rightarrow> 's Raft option" where
  "handleHeartbeatResponse m r =
     (if m_Reject m then becomeFollower (m_Term m) 0 r
      else if m_Index m = 0 then sendSnapshot (m_From m) r
      else if m_Index m < LastIndex (r_RaftLog r) then map_option snd (sendAppend (m_From m) r)
      else Some r)"

definition handleSnapshot :: "Message \<Rightarrow> 's Raft \<Rightarrow> 's Raft option" where
  "handleSnapshot m r = do {
     snap \<leftarrow> m_Snapshot m;
     metaData \<leftarrow> sn_Metadata snap;
     if sm_Index metaData \<le> LastIndex (r_RaftLog r) then Some r
     else do {
       let l = (r_RaftLog r)\<lparr>lastIdxOfSnapshot := sm_Index metaData,
             lastTermOfSnapshot := sm_Term metaData, committed := sm_Index metaData,
             applied := sm_Index metaData, stabled := sm_Index metaData,
             pendingSnapshot := Some snap, entries := []\<rparr>;
       cs \<leftarrow> sm_ConfState metaData;
       let pr = \<lparr>p_Match = lastIdxOfSnapshot l, p_Next = u64_add (lastIdxOfSnapshot l) 1\<rparr>;
       let r = r\<lparr>r_RaftLog := l, peers := cs_Nodes cs,
                 Prs := fold (\<lambda>p. fmupd p pr) (cs_Nodes cs) (Prs r)\<rparr>;
       r \<leftarrow> becomeFollower (m_Term m) (m_From m) r;
       Some (send (zero_Message\<lparr>m_MsgType := MsgAppendResponse, m_From := r_id r, m_To := m_From m,
         m_Reject := False, m_Term := r_Term r, m_Index := LastIndex (r_RaftLog r)\<rparr>) r)
     }
   }"

section \<open>Membership\<close>

definition addNode :: "u64 \<Rightarrow> 's Raft \<Rightarrow> 's Raft" where
  "addNode nid r =
     (if containsPeer nid r then r\<lparr>PendingConfIndex := None_id\<rparr>
      else r\<lparr>peers := peers r @ [nid],
             Prs := fmupd nid \<lparr>p_Match = 0, p_Next = LastIndex (r_RaftLog r)\<rparr> (Prs r),
             PendingConfIndex := None_id\<rparr>)"

text \<open>
  \<open>removePeer\<close> ranges over the slice it shortens: \<open>arr\<close> is the backing array, of which the loop
  reads all \<open>length arr\<close> cells while \<open>r.peers\<close> is its prefix of length \<open>len\<close>, and \<open>append\<close> moves
  the rest of that prefix one cell down inside the array.
\<close>

function removePeer_loop :: "u64 \<Rightarrow> nat \<Rightarrow> u64 list \<Rightarrow> nat \<Rightarrow> u64 list option" where
  "removePeer_loop nid idx arr len =
     (if idx < length arr then
        if arr ! idx = nid then
          if idx + 1 \<le> len then
            removePeer_loop nid (idx + 1)
              (take idx arr @ drop (idx + 1) (take len arr) @ drop (len - 1) arr) (len - 1)
          else None
        else removePeer_loop nid (idx + 1) arr len
      else Some (take len arr))"
  by pat_completeness auto

termination
  by (relation "measure (\<lambda>(nid, idx, arr, len). length arr - idx)") (auto simp: min_def)

declare removePeer_loop.simps [simp del]

definition removePeer :: "u64 \<Rightarrow> 's Raft \<Rightarrow> 's Raft option" where
  "removePeer nid r = do {
     ps \<leftarrow> removePeer_loop nid 0 (peers r) (length (peers r));
     Some (r\<lparr>peers := ps\<rparr>)
   }"

definition count_reached :: "u64 \<Rightarrow> 's Raft \<Rightarrow> nat option" where
  "count_reached idx r =
     foldM (\<lambda>p matched. do {
         pr \<leftarrow> get_pr p r;
         Some (if p_Match pr \<ge> idx then matched + 1 else matched)
       }) (peers r) 0"

definition recommit :: "'s Raft \<Rightarrow> (bool \<times> 's Raft) option" where
  "recommit r =
     foldM (\<lambda>idx (newCommit, r). do {
         matched \<leftarrow> count_reached idx r;
         t \<leftarrow> Term (r_RaftLog r) idx;
         Some (if t = r_Term r \<and> matched > length (peers r) div 2
               then (True, r\<lparr>r_RaftLog := (r_RaftLog r)\<lparr>committed := idx\<rparr>\<rparr>)
               else (newCommit, r))
       }) [u64_add (committed (r_RaftLog r)) 1..<Suc (LastIndex (r_RaftLog r))] (False, r)"

definition removeNode :: "u64 \<Rightarrow> 's Raft \<Rightarrow> 's Raft option" where
  "removeNode nid r =
     (if \<not> containsPeer nid r then Some r
      else do {
        r \<leftarrow> removePeer nid (r\<lparr>Prs := fmdrop nid (Prs r)\<rparr>);
        r \<leftarrow> (if r_State r = StateLeader then do {
                res \<leftarrow> recommit r;
                if fst res then broadCastAE (snd res) else Some (snd res)
              } else Some r);
        Some (r\<lparr>PendingConfIndex := None_id\<rparr>)
      })"

section \<open>The entry point\<close>

definition Step :: "Message \<Rightarrow> 's Raft \<Rightarrow> 's Raft option" where
  "Step m r =
     (case r_State r of
        StateFollower \<Rightarrow>
          (case m_MsgType m of
             MsgSnapshot \<Rightarrow> handleSnapshot m r
           | MsgAppend \<Rightarrow> handleAppendEntries m r
           | MsgHup \<Rightarrow> do { r \<leftarrow> becomeCandidate r; requestVotes r }
           | MsgRequestVote \<Rightarrow> handleVoteRequest m r
           | MsgHeartbeat \<Rightarrow> handleHeartbeat m r
           | MsgTimeoutNow \<Rightarrow> handleMsgTimeOut r
           | MsgTransferLeader \<Rightarrow> handleLeaderTransfer m r
           | _ \<Rightarrow> Some r)
      | StateCandidate \<Rightarrow>
          (case m_MsgType m of
             MsgSnapshot \<Rightarrow> handleSnapshot m r
           | MsgAppend \<Rightarrow> handleAppendEntries m r
           | MsgHup \<Rightarrow> do { r \<leftarrow> becomeCandidate r; requestVotes r }
           | MsgRequestVoteResponse \<Rightarrow> handleVoteResponse m r
           | MsgRequestVote \<Rightarrow> handleVoteRequest m r
           | MsgHeartbeat \<Rightarrow> handleHeartbeat m r
           | MsgTimeoutNow \<Rightarrow> handleMsgTimeOut r
           | MsgTransferLeader \<Rightarrow> handleLeaderTransfer m r
           | _ \<Rightarrow> Some r)
      | StateLeader \<Rightarrow>
          (case m_MsgType m of
             MsgSnapshot \<Rightarrow> handleSnapshot m r
           | MsgBeat \<Rightarrow> Some (sendHeartbeats (r\<lparr>heartbeatElapsed := 0\<rparr>))
           | MsgAppend \<Rightarrow> handleAppendEntries m r
           | MsgPropose \<Rightarrow> do { r \<leftarrow> handleMsgPropose m r; broadCastAE r }
           | MsgAppendResponse \<Rightarrow> handleMsgAppendResponse m r
           | MsgRequestVote \<Rightarrow> handleVoteRequest m r
           | MsgHeartbeat \<Rightarrow> handleHeartbeat m r
           | MsgHeartbeatResponse \<Rightarrow> handleHeartbeatResponse m r
           | MsgTransferLeader \<Rightarrow> handleLeaderTransfer m r
           | _ \<Rightarrow> Some r))"

lemma Step_Hup_eq: "m_MsgType m = MsgHup \<Longrightarrow> Step m r = Step_Hup r"
  by (simp add: Step_def Step_Hup_def split: StateType.split)

end
