(* ===== verification/Raft_Frame.thy ===== *)
theory Raft_Frame
  imports Raft
begin

text \<open>
  What the operations of a peer may change. \<open>sends\<close> is the effect of everything that only sends:
  messages are appended, \<open>Next\<close> indices and the receiver of the storage may move, nothing else.
\<close>

section \<open>Operations that only send\<close>

definition same_match :: "(u64, Progress) fmap \<Rightarrow> (u64, Progress) fmap \<Rightarrow> bool" where
  "same_match prs prs' \<longleftrightarrow>
     (\<forall>p. map_option p_Match (fmlookup prs' p) = map_option p_Match (fmlookup prs p))"

definition sends :: "'s Raft \<Rightarrow> 's Raft \<Rightarrow> bool" where
  "sends r r' \<longleftrightarrow> (\<exists>ms prs st. same_match (Prs r) prs \<and>
     r' = r\<lparr>msgs := msgs r @ ms, Prs := prs, r_RaftLog := (r_RaftLog r)\<lparr>storage := st\<rparr>\<rparr>)"

lemma same_match_refl [simp]: "same_match prs prs"
  by (simp add: same_match_def)

lemma same_match_upd:
  "fmlookup prs p = Some pr \<Longrightarrow> p_Match pr' = p_Match pr \<Longrightarrow> same_match prs (fmupd p pr' prs)"
  by (simp add: same_match_def)

lemma same_match_dom: "same_match prs prs' \<Longrightarrow> fmlookup prs' p = None \<longleftrightarrow> fmlookup prs p = None"
  by (metis same_match_def map_option_is_None)

lemma sends_refl [simp]: "sends r r"
  unfolding sends_def
  by (intro exI[of _ "[]"] exI[of _ "Prs r"] exI[of _ "storage (r_RaftLog r)"]) simp

lemma sends_send [simp]: "sends r (send m r)"
  unfolding sends_def send_def
  by (intro exI[of _ "[m]"] exI[of _ "Prs r"] exI[of _ "storage (r_RaftLog r)"]) simp

lemma sends_trans:
  assumes "sends r1 r2" "sends r2 r3"
  shows "sends r1 r3"
proof -
  from assms obtain ms prs st ms' prs' st'
    where r2: "same_match (Prs r1) prs"
        "r2 = r1\<lparr>msgs := msgs r1 @ ms, Prs := prs, r_RaftLog := (r_RaftLog r1)\<lparr>storage := st\<rparr>\<rparr>"
      and r3: "same_match (Prs r2) prs'"
        "r3 = r2\<lparr>msgs := msgs r2 @ ms', Prs := prs', r_RaftLog := (r_RaftLog r2)\<lparr>storage := st'\<rparr>\<rparr>"
    unfolding sends_def by blast
  have "same_match (Prs r1) prs'" using r2 r3(1) by (simp add: same_match_def)
  moreover have "r3 = r1\<lparr>msgs := msgs r1 @ (ms @ ms'), Prs := prs',
      r_RaftLog := (r_RaftLog r1)\<lparr>storage := st'\<rparr>\<rparr>"
    using r2(2) r3(2) by simp
  ultimately show ?thesis unfolding sends_def by blast
qed

lemma sends_foldM:
  assumes "foldM f xs r = Some r'" "\<And>x r r'. f x r = Some r' \<Longrightarrow> sends r r'"
  shows "sends r r'"
  using foldM_invariant[where P = "sends r", OF assms(1)] assms(2) sends_trans by fastforce

lemma sends_fold:
  assumes "\<And>x r. sends r (f x r)"
  shows "sends r (fold f xs r)"
  using sends_foldM[of "\<lambda>x r. Some (f x r)" xs r] assms by (simp add: foldM_pure)

lemma sends_frame:
  assumes "sends r r'"
  shows "r_id r' = r_id r" "r_Term r' = r_Term r" "r_Vote r' = r_Vote r" "VoteTotal r' = VoteTotal r"
    "VoteReceived r' = VoteReceived r" "r_State r' = r_State r" "r_Lead r' = r_Lead r"
    "electionTimeout r' = electionTimeout r" "peers r' = peers r" "rand_src r' = rand_src r"
    "electionElapsed r' = electionElapsed r" "electionTimeoutRandom r' = electionTimeoutRandom r"
    "leadTransferee r' = leadTransferee r" "PendingConfIndex r' = PendingConfIndex r"
    "committed (r_RaftLog r') = committed (r_RaftLog r)" "applied (r_RaftLog r') = applied (r_RaftLog r)"
    "stabled (r_RaftLog r') = stabled (r_RaftLog r)" "entries (r_RaftLog r') = entries (r_RaftLog r)"
    "lastIdxOfSnapshot (r_RaftLog r') = lastIdxOfSnapshot (r_RaftLog r)"
    "lastTermOfSnapshot (r_RaftLog r') = lastTermOfSnapshot (r_RaftLog r)"
    "pendingSnapshot (r_RaftLog r') = pendingSnapshot (r_RaftLog r)"
    "storage_ops (r_RaftLog r') = storage_ops (r_RaftLog r)"
    "same_match (Prs r) (Prs r')" "\<exists>ms. msgs r' = msgs r @ ms"
  using assms by (auto simp: sends_def)

lemma sends_sendHeartbeats [frame]: "sends r (sendHeartbeats r)"
  unfolding sendHeartbeats_def by (rule sends_fold) (simp add: sendHeartbeat_def)

lemma sends_requestVotes [frame]: "requestVotes r = Some r' \<Longrightarrow> sends r r'"
  unfolding requestVotes_def
  by (erule sends_foldM) (auto simp: requestVote_def Let_def split: if_splits elim!: bind_SomeE)

lemma sends_storage_next:
  assumes "get_pr to r = Some pr"
  shows "sends r (send m (set_pr to (pr\<lparr>p_Next := n\<rparr>) (r\<lparr>r_RaftLog := (r_RaftLog r)\<lparr>storage := st\<rparr>\<rparr>)))"
  unfolding sends_def send_def set_pr_def
  by (intro exI[of _ "[m]"] exI[of _ "fmupd to (pr\<lparr>p_Next := n\<rparr>) (Prs r)"] exI[of _ st])
    (use assms in \<open>auto simp: get_pr_def intro: same_match_upd\<close>)

lemma sends_storage: "sends r (r\<lparr>r_RaftLog := (r_RaftLog r)\<lparr>storage := st\<rparr>\<rparr>)"
  unfolding sends_def by (intro exI[of _ "[]"] exI[of _ "Prs r"] exI[of _ st]) simp

lemma sends_sendSnapshot [frame]:
  assumes "sendSnapshot to r = Some r'"
  shows "sends r r'"
  using assms
  by (auto simp: sendSnapshot_def Let_def get_pr_def split: sum.splits elim!: bind_SomeE
      intro!: sends_storage sends_storage_next)

lemma sends_sendAppend [frame]:
  assumes "sendAppend to r = Some (b, r')"
  shows "sends r r'"
  using assms sends_sendSnapshot[of to r]
  by (auto simp: sendAppend_def Let_def split: if_splits elim!: bind_SomeE)

lemma sends_broadCastAE [frame]: "broadCastAE r = Some r' \<Longrightarrow> sends r r'"
  unfolding broadCastAE_def
  by (erule sends_foldM) (auto split: if_splits dest: sends_sendAppend)

end
