(* ===== verification/Raft_Inv.thy ===== *)
theory Raft_Inv
  imports Raft_Frame
begin

text \<open>
  The invariant \<open>raft_ok\<close> of a peer and its preservation. Over any storage that meets the contract
  \<open>raft_storage\<close>, every message that satisfies \<open>msg_ok\<close> is handled without a panic, the invariant
  is kept and the committed index does not move back.
\<close>

section \<open>The invariant\<close>

definition log_ok :: "'s RaftLog \<Rightarrow> bool" where
  "log_ok l \<longleftrightarrow> log_wf l \<and> lastIdxOfSnapshot l \<le> applied l \<and> applied l \<le> committed l \<and>
     lastIdxOfSnapshot l \<le> stabled l"

definition raft_ok :: "'s StorageOps \<Rightarrow> ('s \<Rightarrow> bool) \<Rightarrow> 's Raft \<Rightarrow> bool" where
  "raft_ok ops st_inv r \<longleftrightarrow> log_ok (r_RaftLog r) \<and> storage_ops (r_RaftLog r) = ops \<and>
     st_inv (storage (r_RaftLog r)) \<and> 0 < electionTimeout r \<and>
     (\<forall>p \<in> set (peers r). fmlookup (Prs r) p \<noteq> None)"

text \<open>
  What a message has to satisfy. A message from a peer in the configuration has it; the entries of
  an append carry consecutive indices and, by the safety of Raft, agree with the committed part of
  the log; the other bounds keep indices away from the end of the integer range.
\<close>

definition append_ok :: "'s RaftLog \<Rightarrow> Message \<Rightarrow> bool" where
  "append_ok l m \<longleftrightarrow>
     (if m_CommitUse m then m_Commit m \<le> LastIndex l
      else contig (Suc (m_Index m)) (m_Entries m) \<and> Suc (m_Index m + length (m_Entries m)) < 2 ^ 63 \<and>
        (\<forall>e \<in> set (m_Entries m). lastIdxOfSnapshot l < e_Index e \<and> e_Index e \<le> committed l \<longrightarrow>
           term_view l (e_Index e) = Some (e_Term e)))"

definition snapshot_ok :: "Message \<Rightarrow> bool" where
  "snapshot_ok m \<longleftrightarrow>
     (case m_Snapshot m of None \<Rightarrow> False | Some snap \<Rightarrow>
      case sn_Metadata snap of None \<Rightarrow> False | Some md \<Rightarrow>
        sm_ConfState md \<noteq> None \<and> Suc (sm_Index md) < 2 ^ 63)"

definition msg_ok :: "'s Raft \<Rightarrow> Message \<Rightarrow> bool" where
  "msg_ok r m \<longleftrightarrow>
     Suc (Suc (LastIndex (r_RaftLog r) + length (m_Entries m))) < 2 ^ 63 \<and>
     (case m_MsgType m of
        MsgAppend \<Rightarrow> append_ok (r_RaftLog r) m
      | MsgSnapshot \<Rightarrow> snapshot_ok m
      | MsgAppendResponse \<Rightarrow> get_pr (m_From m) r \<noteq> None \<and>
          (m_Reject m \<or> m_Index m \<le> LastIndex (r_RaftLog r))
      | MsgHeartbeatResponse \<Rightarrow> get_pr (m_From m) r \<noteq> None
      | MsgHup \<Rightarrow> r_id r \<in> set (peers r)
      | MsgPropose \<Rightarrow> r_id r \<in> set (peers r)
      | MsgRequestVoteResponse \<Rightarrow> r_id r \<in> set (peers r)
      | MsgTimeoutNow \<Rightarrow> r_id r \<in> set (peers r)
      | MsgTransferLeader \<Rightarrow> r_id r \<in> set (peers r)
      | _ \<Rightarrow> True)"

lemma log_ok_wf: "log_ok l \<Longrightarrow> log_wf l"
  by (simp add: log_ok_def)

lemma log_okE:
  assumes "log_ok l"
  shows "lastIdxOfSnapshot l \<le> applied l" "applied l \<le> committed l" "committed l \<le> LastIndex l"
    "lastIdxOfSnapshot l \<le> stabled l" "stabled l \<le> LastIndex l"
    "LastIndex l = lastIdxOfSnapshot l + length (entries l)" "Suc (LastIndex l) < 2 ^ 63"
  using assms LastIndex_eq[OF log_ok_wf[OF assms]] by (auto simp: log_ok_def log_wf_def)

lemma log_ok_storage [simp]: "log_ok (l\<lparr>storage := st\<rparr>) = log_ok l"
  by (simp add: log_ok_def log_wf_def)

lemma Term_returns:
  assumes "log_wf l" "lastIdxOfSnapshot l \<le> i" "i \<le> LastIndex l"
  shows "\<exists>t. Term l i = Some t"
  using Term_eq[OF assms] assms by (auto simp: term_view_def log_view_def LastIndex_eq)

lemma collect_entries_eq:
  assumes "log_wf l" "lastIdxOfSnapshot l < i" "i \<le> Suc (LastIndex l)"
  shows "collect_entries l i (LastIndex l) = Some (log_range l (i - 1) (LastIndex l))"
proof -
  define f where "f = (\<lambda>i ents. do { j \<leftarrow> realIdx l i; e \<leftarrow> at_int (entries l) j; Some (ents @ [e]) })"
  have step: "f j ents = Some (ents @ [the (log_view l j)])" if "j \<in> set [i..<Suc (LastIndex l)]" for j ents
  proof -
    have j: "lastIdxOfSnapshot l < j" "j \<le> lastIdxOfSnapshot l + length (entries l)"
      using that assms by (auto simp: LastIndex_eq)
    then have "j - lastIdxOfSnapshot l - 1 < length (entries l)" by linarith
    then show ?thesis
      using j realIdx_gt[OF assms(1) j]
      by (simp add: f_def at_int_def log_view_def del: of_nat_diff)
  qed
  have "foldM f js acc = Some (acc @ map (\<lambda>j. the (log_view l j)) js)"
    if "set js \<subseteq> set [i..<Suc (LastIndex l)]" for js acc
    using that by (induction js arbitrary: acc) (simp_all add: step del: set_upt upt_Suc)
  from this[of "[i..<Suc (LastIndex l)]" "[]"] show ?thesis
    using assms(2) by (simp add: collect_entries_def f_def log_range_def del: upt_Suc)
qed

section \<open>Operations that only send\<close>

context raft_storage
begin

lemma sends_ok:
  assumes "raft_ok ops inv r" "sends r r'" "inv (storage (r_RaftLog r'))"
  shows "raft_ok ops inv r'"
proof -
  have "log_ok (r_RaftLog r')" using assms(1,2) by (auto simp: raft_ok_def sends_def)
  then show ?thesis
    using assms sends_frame(8,9,22,23)[OF assms(2)] same_match_dom[of "Prs r" "Prs r'"]
    by (auto simp: raft_ok_def)
qed

lemma send_ok [simp]: "raft_ok ops inv (send m r) = raft_ok ops inv r"
  by (simp add: raft_ok_def send_def)

lemma sendSnapshot_ok:
  assumes "raft_ok ops inv r" "get_pr to r \<noteq> None"
  shows "\<exists>r'. sendSnapshot to r = Some r' \<and> sends r r' \<and> raft_ok ops inv r'"
proof -
  obtain res st where s: "so_Snapshot ops (storage (r_RaftLog r)) = Some (res, st)" "inv st"
      "\<forall>sn. res = Inr sn \<longrightarrow> sn_Metadata sn \<noteq> None"
    using Snapshot assms(1) unfolding raft_ok_def by meson
  have "\<exists>r'. sendSnapshot to r = Some r' \<and> storage (r_RaftLog r') = st"
    using s assms by (cases res)
      (auto simp: sendSnapshot_def raft_ok_def get_pr_def Let_def send_def set_pr_def)
  then show ?thesis using s(2) assms(1) sends_ok sends_sendSnapshot by metis
qed

lemma sendAppend_ok:
  assumes "raft_ok ops inv r" "get_pr to r \<noteq> None"
  shows "\<exists>b r'. sendAppend to r = Some (b, r') \<and> sends r r' \<and> raft_ok ops inv r'"
proof -
  let ?l = "r_RaftLog r"
  obtain pr where pr: "get_pr to r = Some pr" using assms(2) by blast
  have ok: "log_ok ?l" and wf: "log_wf ?l" using assms(1) by (auto simp: raft_ok_def log_ok_def)
  consider "needSnapshot (p_Next pr) r" | "\<not> needSnapshot (p_Next pr) r" "LastIndex ?l < p_Next pr"
    | "\<not> needSnapshot (p_Next pr) r" "p_Next pr \<le> LastIndex ?l" by linarith
  then show ?thesis
  proof cases
    case 1
    then show ?thesis using sendSnapshot_ok[OF assms] pr by (auto simp: sendAppend_def)
  next
    case 2
    then show ?thesis using assms(1) pr by (auto simp: sendAppend_def)
  next
    case 3
    then have i: "lastIdxOfSnapshot ?l < p_Next pr" by (simp add: needSnapshot_def)
    then have "u64_sub (p_Next pr) 1 = p_Next pr - 1"
      using 3 log_okE(7)[OF ok] by (intro u64_sub_exact) auto
    moreover have "lastIdxOfSnapshot ?l \<le> p_Next pr - 1" "p_Next pr - 1 \<le> LastIndex ?l"
      using 3(2) i by linarith+
    then obtain t where "Term ?l (p_Next pr - 1) = Some t" using Term_returns[OF wf] by blast
    ultimately show ?thesis
      using collect_entries_eq[OF wf i] 3 pr assms(1) by (auto simp: sendAppend_def Let_def)
  qed
qed

lemma broadCastAE_ok:
  assumes "raft_ok ops inv r"
  shows "\<exists>r'. broadCastAE r = Some r' \<and> sends r r' \<and> raft_ok ops inv r'"
proof -
  let ?P = "\<lambda>r'. raft_ok ops inv r' \<and> sends r r'"
  have "\<exists>r2. (if p = r_id r1 then Some r1 else map_option snd (sendAppend p r1)) = Some r2 \<and> ?P r2"
    if "p \<in> set (peers r)" "?P r1" for p r1
  proof (cases "p = r_id r1")
    case False
    have "get_pr p r1 \<noteq> None" using that sends_frame(9) by (fastforce simp: raft_ok_def get_pr_def)
    then show ?thesis using sendAppend_ok[of r1 p] that False by (fastforce intro: sends_trans)
  qed (use that in auto)
  then have "\<exists>r'. foldM (\<lambda>p r. if p = r_id r then Some r else map_option snd (sendAppend p r)) (peers r) r = Some r' \<and> ?P r'"
    using assms by (intro foldM_total) auto
  then show ?thesis unfolding broadCastAE_def by blast
qed

lemma requestVotes_ok:
  assumes "raft_ok ops inv r"
  shows "\<exists>r'. requestVotes r = Some r' \<and> sends r r' \<and> raft_ok ops inv r'"
proof -
  let ?P = "\<lambda>r'. raft_ok ops inv r' \<and> sends r r'"
  have "\<exists>r2. (if p = r_id r1 then Some r1 else requestVote p r1) = Some r2 \<and> ?P r2"
    if "?P r1" for p r1
  proof (cases "p = r_id r1")
    case False
    have "log_wf (r_RaftLog r1)" using that by (auto simp: raft_ok_def log_ok_def)
    then obtain t where "Term (r_RaftLog r1) (LastIndex (r_RaftLog r1)) = Some t"
      using Term_returns LastIndex_eq by fastforce
    then show ?thesis using that False by (auto simp: requestVote_def intro: sends_trans)
  qed (use that in auto)
  then have "\<exists>r'. foldM (\<lambda>p r. if p = r_id r then Some r else requestVote p r) (peers r) r = Some r' \<and> ?P r'"
    using assms by (intro foldM_total) auto
  then show ?thesis unfolding requestVotes_def by blast
qed

lemma sendHeartbeats_ok: "raft_ok ops inv r \<Longrightarrow> raft_ok ops inv (sendHeartbeats r)"
  unfolding sendHeartbeats_def
  by (rule fold_invariant[where Q = "\<lambda>_. True" and P = "raft_ok ops inv"]) (auto simp: sendHeartbeat_def)

section \<open>Roles\<close>

lemma becomeFollower_ok:
  assumes "raft_ok ops inv r"
  shows "\<exists>rnd src. 0 \<le> rnd \<and> rnd < electionTimeout r \<and> becomeFollower t lead r =
    Some (r\<lparr>r_Term := t, r_Lead := lead, r_State := StateFollower, r_Vote := 0, electionElapsed := 0,
      electionTimeoutRandom := electionTimeout r + rnd, rand_src := src\<rparr>)"
  using assms
  by (intro exI[of _ "int (rand_src r 0) mod electionTimeout r"] exI[of _ "rand_next (rand_src r)"])
    (simp add: becomeFollower_def rand_mod_def raft_ok_def)

end

text \<open>The invariant reads only the log, the peers, their progress and the election timeout.\<close>

lemma raft_ok_cong:
  assumes "r_RaftLog r' = r_RaftLog r" "Prs r' = Prs r" "peers r' = peers r"
    "electionTimeout r' = electionTimeout r"
  shows "raft_ok ops st_inv r' = raft_ok ops st_inv r"
  using assms by (simp add: raft_ok_def)

lemma log_ok_append:
  assumes "log_ok l" "contig (Suc (LastIndex l)) es" "Suc (LastIndex l + length es) < 2 ^ 63"
  shows "log_ok (l\<lparr>entries := entries l @ es\<rparr>)"
    "LastIndex (l\<lparr>entries := entries l @ es\<rparr>) = LastIndex l + length es"
proof -
  show "log_ok (l\<lparr>entries := entries l @ es\<rparr>)"
    using assms log_okE(6)[OF assms(1)] by (auto simp: log_ok_def log_wf_def contig_append)
  from log_okE(6)[OF this] show "LastIndex (l\<lparr>entries := entries l @ es\<rparr>) = LastIndex l + length es"
    using log_okE(6)[OF assms(1)] by simp
qed

text \<open>
  What proposing appends: entries of the current term with the next indices; a configuration
  change is skipped while one is pending.
\<close>

lemma propose_entry_effect:
  assumes "log_ok (r_RaftLog r)" "Suc (Suc (LastIndex (r_RaftLog r))) < 2 ^ 63"
  shows "\<exists>es pci. propose_entry e r = r\<lparr>PendingConfIndex := pci,
      r_RaftLog := (r_RaftLog r)\<lparr>entries := entries (r_RaftLog r) @ es\<rparr>\<rparr> \<and> length es \<le> 1 \<and>
      contig (Suc (LastIndex (r_RaftLog r))) es \<and> (\<forall>e \<in> set es. e_Term e = r_Term r)"
proof -
  define l where "l = r_RaftLog r"
  define e' where "e' = e\<lparr>e_Term := r_Term r, e_Index := Suc (LastIndex l)\<rparr>"
  have u: "u64_add (LastIndex l) 1 = Suc (LastIndex l)"
    using assms(2) by (subst u64_add_exact) (auto simp: l_def)
  have e': "e_EntryType e' = e_EntryType e" "e_Term e' = r_Term r" "e_Index e' = Suc (LastIndex l)"
    by (simp_all add: e'_def)
  have def: "propose_entry e r =
      (if e_EntryType e = EntryConfChange \<and> PendingConfIndex r \<noteq> None_id then r
       else if e_EntryType e = EntryConfChange
       then r\<lparr>PendingConfIndex := Suc (LastIndex l), r_RaftLog := AppendEntry e' l\<rparr>
       else r\<lparr>r_RaftLog := AppendEntry e' l\<rparr>)"
    unfolding propose_entry_def Let_def l_def[symmetric] u e'_def[symmetric] e' by (simp add: l_def)
  have one: "length [e'] \<le> 1 \<and> contig (Suc (LastIndex l)) [e'] \<and> (\<forall>e \<in> set [e']. e_Term e = r_Term r)"
    using e' by simp
  consider "propose_entry e r = r"
    | "propose_entry e r = r\<lparr>PendingConfIndex := Suc (LastIndex l), r_RaftLog := AppendEntry e' l\<rparr>"
    | "propose_entry e r = r\<lparr>r_RaftLog := AppendEntry e' l\<rparr>"
    using def by metis
  then show ?thesis
  proof cases
    case 1
    then show ?thesis
      by (intro exI[of _ "[]"] exI[of _ "PendingConfIndex r"]) simp
  next
    case 2
    show ?thesis unfolding 2 AppendEntry_def l_def[symmetric]
      by (rule exI[of _ "[e']"], rule exI[of _ "Suc (LastIndex l)"]) (use one in simp)
  next
    case 3
    show ?thesis unfolding 3 AppendEntry_def l_def[symmetric]
      by (rule exI[of _ "[e']"], rule exI[of _ "PendingConfIndex r"]) (use one in simp)
  qed
qed

lemma fold_propose_effect:
  assumes "log_ok (r_RaftLog r)" "Suc (LastIndex (r_RaftLog r) + length ms) < 2 ^ 63"
  shows "\<exists>es pci. fold propose_entry ms r = r\<lparr>PendingConfIndex := pci,
      r_RaftLog := (r_RaftLog r)\<lparr>entries := entries (r_RaftLog r) @ es\<rparr>\<rparr> \<and> length es \<le> length ms \<and>
      contig (Suc (LastIndex (r_RaftLog r))) es \<and> (\<forall>e \<in> set es. e_Term e = r_Term r)"
  using assms
proof (induction ms arbitrary: r)
  case Nil
  show ?case by (intro exI[of _ "[]"] exI[of _ "PendingConfIndex r"]) simp
next
  case (Cons m ms)
  let ?l = "r_RaftLog r"
  have "Suc (Suc (LastIndex ?l)) < 2 ^ 63" using Cons.prems(2) by simp
  from propose_entry_effect[OF Cons.prems(1) this, of m]
  obtain es pci where e: "propose_entry m r = r\<lparr>PendingConfIndex := pci,
        r_RaftLog := ?l\<lparr>entries := entries ?l @ es\<rparr>\<rparr>" "length es \<le> 1"
      "contig (Suc (LastIndex ?l)) es" "\<forall>e \<in> set es. e_Term e = r_Term r"
    by (elim exE conjE) (rule that)
  define r1 where "r1 = propose_entry m r"
  have l1: "r_RaftLog r1 = ?l\<lparr>entries := entries ?l @ es\<rparr>" by (simp add: r1_def e(1))
  have b: "Suc (LastIndex ?l + length es) < 2 ^ 63" using Cons.prems(2) e(2) by simp
  have ok: "log_ok (r_RaftLog r1)" and last: "LastIndex (r_RaftLog r1) = LastIndex ?l + length es"
    using log_ok_append[OF Cons.prems(1) e(3) b] by (simp_all add: l1)
  have "Suc (LastIndex (r_RaftLog r1) + length ms) < 2 ^ 63" using Cons.prems(2) e(2) last by simp
  from Cons.IH[OF ok this] obtain es' pci' where e': "fold propose_entry ms r1 =
        r1\<lparr>PendingConfIndex := pci', r_RaftLog := (r_RaftLog r1)\<lparr>entries := entries (r_RaftLog r1) @ es'\<rparr>\<rparr>"
      "length es' \<le> length ms" "contig (Suc (LastIndex (r_RaftLog r1))) es'"
      "\<forall>e \<in> set es'. e_Term e = r_Term r1"
    by (elim exE conjE) (rule that)
  show ?case
  proof (intro exI[of _ "es @ es'"] exI[of _ pci'] conjI)
    show "fold propose_entry (m # ms) r = r\<lparr>PendingConfIndex := pci',
        r_RaftLog := ?l\<lparr>entries := entries ?l @ es @ es'\<rparr>\<rparr>"
      using e'(1) by (simp add: r1_def e(1))
    have "r_Term r1 = r_Term r" by (simp add: r1_def e(1))
    then show "\<forall>e \<in> set (es @ es'). e_Term e = r_Term r" using e(4) e'(4) by auto
    show "contig (Suc (LastIndex ?l)) (es @ es')" using e(3) e'(3) last by (simp add: contig_append)
  qed (use e(2) e'(2) in simp)
qed

text \<open>
  \<open>log_grows t l l'\<close>: the log is extended by entries of term \<open>t\<close>, keeps what it had, and does not
  take back a commit. \<open>same_role\<close> collects what an operation of a leader leaves alone.
\<close>

definition log_grows :: "u64 \<Rightarrow> 's RaftLog \<Rightarrow> 's RaftLog \<Rightarrow> bool" where
  "log_grows t l l' \<longleftrightarrow> lastIdxOfSnapshot l' = lastIdxOfSnapshot l \<and>
     lastTermOfSnapshot l' = lastTermOfSnapshot l \<and> committed l \<le> committed l' \<and>
     (\<exists>es. entries l' = entries l @ es \<and> (\<forall>e \<in> set es. e_Term e = t))"

definition same_role :: "'s Raft \<Rightarrow> 's Raft \<Rightarrow> bool" where
  "same_role r r' \<longleftrightarrow> r_id r' = r_id r \<and> r_Term r' = r_Term r \<and> r_Vote r' = r_Vote r \<and>
     r_State r' = r_State r \<and> r_Lead r' = r_Lead r \<and> peers r' = peers r \<and>
     electionTimeout r' = electionTimeout r \<and> VoteReceived r' = VoteReceived r"

lemma log_grows_refl [simp]: "log_grows t l l"
  by (simp add: log_grows_def)

lemma log_grows_trans:
  assumes "log_grows t l1 l2" "log_grows t l2 l3"
  shows "log_grows t l1 l3"
proof -
  from assms obtain es es' where "entries l2 = entries l1 @ es" "\<forall>e \<in> set es. e_Term e = t"
      "entries l3 = entries l2 @ es'" "\<forall>e \<in> set es'. e_Term e = t"
    unfolding log_grows_def by blast
  then show ?thesis using assms unfolding log_grows_def by (intro conjI exI[of _ "es @ es'"]) auto
qed

lemma same_role_refl [simp]: "same_role r r"
  by (simp add: same_role_def)

lemma same_role_trans: "same_role r1 r2 \<Longrightarrow> same_role r2 r3 \<Longrightarrow> same_role r1 r3"
  by (simp add: same_role_def)

lemma sends_log_grows: "sends r r' \<Longrightarrow> log_grows t (r_RaftLog r) (r_RaftLog r')"
  by (auto simp: sends_def log_grows_def)

lemma sends_same_role: "sends r r' \<Longrightarrow> same_role r r'"
  by (auto simp: sends_def same_role_def)

lemma sends_LastIndex: "sends r r' \<Longrightarrow> LastIndex (r_RaftLog r') = LastIndex (r_RaftLog r)"
  by (auto simp: sends_def LastIndex_def)

context raft_storage
begin

lemma set_pr_ok: "raft_ok ops inv r \<Longrightarrow> raft_ok ops inv (set_pr p pr r)"
  by (auto simp: raft_ok_def set_pr_def)

lemma committed_ok:
  assumes "raft_ok ops inv r" "committed (r_RaftLog r) \<le> c" "c \<le> LastIndex (r_RaftLog r)"
  shows "raft_ok ops inv (r\<lparr>r_RaftLog := (r_RaftLog r)\<lparr>committed := c\<rparr>\<rparr>)"
proof -
  have "log_ok (r_RaftLog r)" using assms(1) by (simp add: raft_ok_def)
  from log_okE(6)[OF this] show ?thesis
    using assms by (auto simp: raft_ok_def log_ok_def log_wf_def)
qed

lemma handleMsgPropose_ok:
  assumes ok: "raft_ok ops inv r" and self: "get_pr (r_id r) r \<noteq> None"
    and bound: "Suc (LastIndex (r_RaftLog r) + length (m_Entries m)) < 2 ^ 63"
  shows "\<exists>r'. handleMsgPropose m r = Some r' \<and> raft_ok ops inv r' \<and> same_role r r' \<and>
    log_grows (r_Term r) (r_RaftLog r) (r_RaftLog r')"
proof -
  have lok: "log_ok (r_RaftLog r)" using ok by (simp add: raft_ok_def)
  from fold_propose_effect[OF lok bound]
  obtain es pci where e: "fold propose_entry (m_Entries m) r = r\<lparr>PendingConfIndex := pci,
        r_RaftLog := (r_RaftLog r)\<lparr>entries := entries (r_RaftLog r) @ es\<rparr>\<rparr>"
      "length es \<le> length (m_Entries m)" "contig (Suc (LastIndex (r_RaftLog r))) es"
      "\<forall>e \<in> set es. e_Term e = r_Term r"
    by (elim exE conjE) (rule that)
  define r1 where "r1 = fold propose_entry (m_Entries m) r"
  have lok1: "log_ok (r_RaftLog r1)"
    using log_ok_append(1)[OF lok e(3)] e(1,2) bound by (simp add: r1_def)
  have ok1: "raft_ok ops inv r1" using ok lok1 by (simp add: raft_ok_def r1_def e(1))
  have role1: "same_role r r1" by (simp add: same_role_def r1_def e(1))
  have grow1: "log_grows (r_Term r) (r_RaftLog r) (r_RaftLog r1)"
    using e(4) by (auto simp: log_grows_def r1_def e(1))
  obtain pr where pr: "get_pr (r_id r1) r1 = Some pr" using self by (auto simp: r1_def e(1) get_pr_def)
  define r2 where "r2 = set_pr (r_id r1) (pr\<lparr>p_Match := LastIndex (r_RaftLog r1),
    p_Next := u64_add (LastIndex (r_RaftLog r1)) 1\<rparr>) r1"
  have l2: "r_RaftLog r2 = r_RaftLog r1" by (simp add: r2_def set_pr_def)
  have ok2: "raft_ok ops inv r2" unfolding r2_def by (rule set_pr_ok[OF ok1])
  have role2: "same_role r r2" using role1 by (simp add: r2_def set_pr_def same_role_def)
  have res: "handleMsgPropose m r = Some (if length (peers r2) = 1
      then r2\<lparr>r_RaftLog := (r_RaftLog r2)\<lparr>committed := LastIndex (r_RaftLog r2)\<rparr>\<rparr> else r2)"
    unfolding handleMsgPropose_def Let_def r1_def[symmetric] pr r2_def[symmetric] l2
    by (simp add: r2_def[symmetric, simplified] l2)
  have c: "committed (r_RaftLog r2) \<le> LastIndex (r_RaftLog r2)" using log_okE(3)[OF lok1] l2 by simp
  show ?thesis
  proof (cases "length (peers r2) = 1")
    case True
    have "log_grows (r_Term r) (r_RaftLog r) ((r_RaftLog r2)\<lparr>committed := LastIndex (r_RaftLog r2)\<rparr>)"
      using grow1 c unfolding l2 log_grows_def by auto
    moreover have "same_role r (r2\<lparr>r_RaftLog := (r_RaftLog r2)\<lparr>committed := LastIndex (r_RaftLog r2)\<rparr>\<rparr>)"
      using role2 by (simp add: same_role_def)
    ultimately show ?thesis using res True committed_ok[OF ok2 c order.refl] by simp
  next
    case False
    then show ?thesis using res ok2 role2 grow1 l2 by simp
  qed
qed

lemma becomeLeader_ok:
  assumes ok: "raft_ok ops inv r" and self: "r_id r \<in> set (peers r)"
    and bound: "Suc (Suc (LastIndex (r_RaftLog r))) < 2 ^ 63"
  shows "\<exists>r'. becomeLeader r = Some r' \<and> raft_ok ops inv r' \<and>
    same_role (r\<lparr>r_State := StateLeader, r_Lead := r_id r\<rparr>) r' \<and>
    log_grows (r_Term r) (r_RaftLog r) (r_RaftLog r')"
proof -
  define r1 where "r1 = r\<lparr>r_State := StateLeader, leadTransferee := None_id, heartbeatElapsed := 0,
    r_Lead := r_id r\<rparr>"
  define m where "m = zero_Message\<lparr>m_MsgType := MsgAppend, m_To := r_id r1, m_From := r_id r1,
    m_Entries := [zero_Entry\<lparr>e_Term := r_Term r1, e_Index := u64_add (LastIndex (r_RaftLog r1)) 1\<rparr>],
    m_Term := r_Term r1\<rparr>"
  have ok1: "raft_ok ops inv r1" using ok by (simp add: raft_ok_def r1_def)
  have "get_pr (r_id r1) r1 \<noteq> None" using ok self by (simp add: raft_ok_def r1_def get_pr_def)
  moreover have "Suc (LastIndex (r_RaftLog r1) + length (m_Entries m)) < 2 ^ 63"
    using bound by (simp add: r1_def m_def)
  ultimately obtain r2 where r2: "handleMsgPropose m r1 = Some r2" "raft_ok ops inv r2"
      "same_role r1 r2" "log_grows (r_Term r1) (r_RaftLog r1) (r_RaftLog r2)"
    using handleMsgPropose_ok[OF ok1] by blast
  obtain r3 where r3: "broadCastAE r2 = Some r3" "sends r2 r3" "raft_ok ops inv r3"
    using broadCastAE_ok[OF r2(2)] by blast
  have "becomeLeader r = Some r3"
    using r2(1) r3(1) by (simp add: becomeLeader_def Let_def r1_def m_def)
  moreover have "same_role (r\<lparr>r_State := StateLeader, r_Lead := r_id r\<rparr>) r3"
    using same_role_trans[OF r2(3) sends_same_role[OF r3(2)]] by (simp add: same_role_def r1_def)
  moreover have "log_grows (r_Term r) (r_RaftLog r) (r_RaftLog r3)"
    using log_grows_trans[OF r2(4) sends_log_grows[OF r3(2)]] by (simp add: r1_def)
  ultimately show ?thesis using r3(3) by blast
qed

lemma becomeCandidate_ok:
  assumes ok: "raft_ok ops inv r" and self: "r_id r \<in> set (peers r)"
    and bound: "Suc (Suc (LastIndex (r_RaftLog r))) < 2 ^ 63"
  shows "\<exists>r'. becomeCandidate r = Some r' \<and> raft_ok ops inv r' \<and> r_Term r' = u64_add (r_Term r) 1 \<and>
    r_id r' = r_id r \<and> peers r' = peers r \<and> r_Vote r' = r_id r \<and> VoteReceived r' = 1 \<and>
    r_State r' = (if length (peers r) = 1 then StateLeader else StateCandidate) \<and>
    log_grows (r_Term r') (r_RaftLog r) (r_RaftLog r')"
proof -
  obtain rnd where rnd: "rand_mod (rand_src r) (electionTimeout r) = Some rnd"
    using ok by (auto simp: rand_mod_def raft_ok_def)
  define r1 where "r1 = r\<lparr>r_Term := u64_add (r_Term r) 1, VoteReceived := 1, VoteTotal := 1,
       r_Vote := r_id r, votes := fmupd (r_id r) True (votes r), r_State := StateCandidate,
       electionElapsed := 0, electionTimeoutRandom := electionTimeout r + rnd,
       rand_src := rand_next (rand_src r)\<rparr>"
  have eq: "becomeCandidate r = (if length (peers r1) = 1 then becomeLeader r1 else Some r1)"
    unfolding becomeCandidate_def rnd Let_def r1_def by simp
  have ok1: "raft_ok ops inv r1" using ok by (simp add: raft_ok_def r1_def)
  have f: "r_Term r1 = u64_add (r_Term r) 1" "r_id r1 = r_id r" "peers r1 = peers r" "r_Vote r1 = r_id r"
      "VoteReceived r1 = 1" "r_State r1 = StateCandidate" "r_RaftLog r1 = r_RaftLog r"
    by (simp_all add: r1_def)
  show ?thesis
  proof (cases "length (peers r) = 1")
    case True
    obtain r2 where r2: "becomeLeader r1 = Some r2" "raft_ok ops inv r2"
        "same_role (r1\<lparr>r_State := StateLeader, r_Lead := r_id r1\<rparr>) r2"
        "log_grows (r_Term r1) (r_RaftLog r1) (r_RaftLog r2)"
      using becomeLeader_ok[OF ok1] self bound f(2,3,7) by auto
    then show ?thesis using eq True f by (simp add: same_role_def)
  qed (use eq ok1 f in simp)
qed

end

end
