(* ===== verification/Raft_Append.thy ===== *)
theory Raft_Append
  imports Raft_Inv
begin

text \<open>
  The follower's side of replication. The reference \<open>ref_append\<close> is the receiver rule of the Raft
  paper: delete an existing entry that conflicts with a new one and everything after it, then
  append what is not in the log yet. \<open>handleAppendEntries\<close> is shown to implement it, to keep the
  invariant of the log and, for requests that agree with the committed part, to keep its terms.
\<close>

section \<open>The reference\<close>

fun ref_append :: "Entry list \<Rightarrow> Entry list \<Rightarrow> Entry list" where
  "ref_append ds [] = ds"
| "ref_append [] es = es"
| "ref_append (d # ds) (e # es) = (if e_Term d = e_Term e then d # ref_append ds es else e # es)"

text \<open>The position of the first conflict.\<close>

fun diff_at :: "Entry list \<Rightarrow> Entry list \<Rightarrow> nat option" where
  "diff_at (d # ds) (e # es) = (if e_Term d \<noteq> e_Term e then Some 0 else map_option Suc (diff_at ds es))"
| "diff_at _ _ = None"

lemma diff_at_Some:
  "diff_at ds es = Some k \<Longrightarrow>
     k < length ds \<and> k < length es \<and> e_Term (ds ! k) \<noteq> e_Term (es ! k) \<and>
     (\<forall>j < k. e_Term (ds ! j) = e_Term (es ! j))"
  by (induction ds es arbitrary: k rule: diff_at.induct)
    (auto simp: nth_Cons less_Suc_eq_0_disj split: if_splits nat.splits)

lemma diff_at_None:
  "diff_at ds es = None \<Longrightarrow> j < length ds \<Longrightarrow> j < length es \<Longrightarrow> e_Term (ds ! j) = e_Term (es ! j)"
  by (induction ds es arbitrary: j rule: diff_at.induct)
    (auto simp: nth_Cons split: if_splits nat.splits)

lemma ae_compare_eq:
  "contig i ds \<Longrightarrow> contig i es \<Longrightarrow> 0 < i \<Longrightarrow> i + length ds < 2 ^ 64 \<Longrightarrow>
     ae_compare ds es b st =
       (case diff_at ds es of None \<Rightarrow> (b, st) | Some k \<Rightarrow> (False, min st (i + k - 1)))"
  by (induction ds es b st arbitrary: i rule: ae_compare.induct)
    (auto simp: u64_simps split: option.splits)

lemma ref_append_eq:
  assumes "contig i ds" "contig i es"
    and "\<forall>d \<in> set ds. \<forall>e \<in> set es. e_Index d = e_Index e \<and> e_Term d = e_Term e \<longrightarrow> d = e"
  shows "ref_append ds es =
    (if diff_at ds es = None \<and> length es < length ds then ds else es)"
  using assms
proof (induction ds es arbitrary: i rule: ref_append.induct)
  case (3 d ds e es)
  then show ?case by (cases "e_Term d = e_Term e") auto
qed auto

section \<open>Attaching and merging\<close>

lemma find_entry_eq:
  "contig b es \<Longrightarrow> find_entry idx t es =
     (if b \<le> idx \<and> idx < b + length es \<and> e_Term (es ! (idx - b)) = t then Some (idx - b) else None)"
proof (induction es arbitrary: b)
  case (Cons e es)
  consider "idx < b" | "idx = b" | "b < idx" by linarith
  then show ?case
  proof cases
    case 3
    then have "idx - b = Suc (idx - Suc b)" by simp
    then show ?thesis using Cons 3 by auto
  qed (use Cons in auto)
qed simp

lemma ae_attach_eq:
  assumes "log_wf l"
  shows "ae_attach m l =
    (if term_view l (m_Index m) = Some (m_LogTerm m)
     then Some (take (m_Index m - lastIdxOfSnapshot l) (entries l),
                drop (m_Index m - lastIdxOfSnapshot l) (entries l))
     else None)"
proof -
  have "contig (Suc (lastIdxOfSnapshot l)) (entries l)" using assms by (simp add: log_wf_def)
  note f = find_entry_eq[OF this, of "m_Index m" "m_LogTerm m"]
  consider "m_Index m = lastIdxOfSnapshot l" | "m_Index m < lastIdxOfSnapshot l"
    | "lastIdxOfSnapshot l < m_Index m" by linarith
  then show ?thesis
  proof cases
    case 3
    then have "Suc (m_Index m - Suc (lastIdxOfSnapshot l)) = m_Index m - lastIdxOfSnapshot l"
      by simp
    then show ?thesis using f 3 by (auto simp: ae_attach_def term_view_def log_view_def)
  qed (use f in \<open>auto simp: ae_attach_def term_view_def log_view_def\<close>)
qed

lemma term_view_range:
  assumes "term_view l i = Some t" "log_wf l"
  shows "lastIdxOfSnapshot l \<le> i" "i \<le> LastIndex l"
  using assms by (auto simp: term_view_def log_view_def LastIndex_eq split: if_splits)

text \<open>
  The merge, described by its result: the tail after the attachment point is either the old tail
  or the new entries, according to the first conflict.
\<close>

definition merge_tail :: "Entry list \<Rightarrow> Entry list \<Rightarrow> Entry list" where
  "merge_tail ds es = (if diff_at ds es = None \<and> length es < length ds then ds else es)"

lemma ae_merge_eq:
  assumes "log_wf l" "term_view l (m_Index m) = Some t" "contig (Suc (m_Index m)) (m_Entries m)"
  defines "k \<equiv> m_Index m - lastIdxOfSnapshot l"
  shows "ae_merge m (take k (entries l)) (drop k (entries l)) l =
    l\<lparr>stabled := (case diff_at (drop k (entries l)) (m_Entries m) of None \<Rightarrow> stabled l
                  | Some j \<Rightarrow> min (stabled l) (m_Index m + j)),
      entries := take k (entries l) @ merge_tail (drop k (entries l)) (m_Entries m)\<rparr>"
proof -
  have r: "lastIdxOfSnapshot l \<le> m_Index m" "m_Index m \<le> lastIdxOfSnapshot l + length (entries l)"
    using term_view_range[OF assms(2,1)] assms(1) by (simp_all add: LastIndex_eq)
  have "contig (Suc (lastIdxOfSnapshot l) + k) (drop k (entries l))"
    using assms(1) r by (intro contig_drop) (auto simp: log_wf_def k_def)
  then have c: "contig (Suc (m_Index m)) (drop k (entries l))" using r by (simp add: k_def)
  have b: "Suc (m_Index m) + length (drop k (entries l)) < 2 ^ 64"
    using assms(1) r by (auto simp: log_wf_def k_def)
  note ac = ae_compare_eq[OF c assms(3) _ b]
  show ?thesis
  proof (cases "m_Entries m = []")
    case True
    then have "diff_at (drop k (entries l)) (m_Entries m) = None"
        "merge_tail (drop k (entries l)) (m_Entries m) = drop k (entries l)"
      by (cases "drop k (entries l)"; simp add: merge_tail_def)+
    then show ?thesis using True by (simp add: ae_merge_def)
  next
    case False
    then show ?thesis
      using ac by (auto simp: ae_merge_def merge_tail_def split: option.splits)
  qed
qed

text \<open>
  Under \<open>append_ok\<close> a conflict lies above the committed index, so the merged log is well formed,
  reaches at least as far as the new entries, and has the committed terms it had.
\<close>

lemma conflict_above_commit:
  assumes "log_ok l" "append_ok l m" "\<not> m_CommitUse m" "term_view l (m_Index m) = Some t"
    and "diff_at (drop (m_Index m - lastIdxOfSnapshot l) (entries l)) (m_Entries m) = Some j"
  shows "committed l \<le> m_Index m + j"
proof (rule ccontr)
  let ?k = "m_Index m - lastIdxOfSnapshot l"
  assume less: "\<not> committed l \<le> m_Index m + j"
  have wf: "log_wf l" using assms(1) by (rule log_ok_wf)
  have r: "lastIdxOfSnapshot l \<le> m_Index m" using term_view_range[OF assms(4) wf] by simp
  note d = diff_at_Some[OF assms(5)]
  have e: "m_Entries m ! j \<in> set (m_Entries m)" "e_Index (m_Entries m ! j) = Suc (m_Index m) + j"
    using d assms(2,3) by (auto simp: append_ok_def contig_nth)
  have "term_view l (Suc (m_Index m) + j) = Some (e_Term (m_Entries m ! j))"
    using assms(2,3) e less r by (auto simp: append_ok_def)
  moreover have "term_view l (Suc (m_Index m) + j) = Some (e_Term (drop ?k (entries l) ! j))"
  proof -
    have "Suc (m_Index m) + j - lastIdxOfSnapshot l - 1 = ?k + j" using r by linarith
    then show ?thesis using d r by (auto simp: term_view_def log_view_def)
  qed
  ultimately show False using d by simp
qed

definition merged :: "Message \<Rightarrow> 's RaftLog \<Rightarrow> 's RaftLog" where
  "merged m l = ae_merge m (take (m_Index m - lastIdxOfSnapshot l) (entries l))
     (drop (m_Index m - lastIdxOfSnapshot l) (entries l)) l"

lemma merged_ok:
  assumes ok: "log_ok l" and ap: "append_ok l m" "\<not> m_CommitUse m"
    and tv: "term_view l (m_Index m) = Some t"
  shows "log_ok (merged m l)" "committed (merged m l) = committed l"
    "applied (merged m l) = applied l" "lastIdxOfSnapshot (merged m l) = lastIdxOfSnapshot l"
    "storage_ops (merged m l) = storage_ops l" "storage (merged m l) = storage l"
    "m_Index m + length (m_Entries m) \<le> LastIndex (merged m l)"
proof -
  let ?b = "lastIdxOfSnapshot l" and ?k = "m_Index m - lastIdxOfSnapshot l"
  let ?ds = "drop ?k (entries l)" and ?es = "m_Entries m"
  have wf: "log_wf l" using ok by (rule log_ok_wf)
  have r: "?b \<le> m_Index m" "m_Index m \<le> ?b + length (entries l)"
    using term_view_range[OF tv wf] by (simp_all add: LastIndex_eq[OF wf])
  have c: "contig (Suc (m_Index m)) ?es" "Suc (m_Index m + length ?es) < 2 ^ 63"
    using ap by (auto simp: append_ok_def)
  have ce: "contig (Suc ?b) (entries l)" "Suc (?b + length (entries l)) < 2 ^ 63"
    using wf by (simp_all add: log_wf_def)
  have cd: "contig (Suc ?b + ?k) ?ds" using ce r by (intro contig_drop) auto
  define X where "X = merge_tail ?ds ?es"
  have cX: "contig (Suc (m_Index m)) X" "m_Index m + length ?es \<le> m_Index m + length X"
      "Suc (m_Index m + length X) < 2 ^ 63"
    using c cd r ce(2) by (auto simp: X_def merge_tail_def)
  have eq: "merged m l = l\<lparr>stabled := (case diff_at ?ds ?es of None \<Rightarrow> stabled l
      | Some j \<Rightarrow> min (stabled l) (m_Index m + j)), entries := take ?k (entries l) @ X\<rparr>"
    unfolding merged_def X_def using ae_merge_eq[OF wf tv c(1)] .
  have len: "?b + length (take ?k (entries l) @ X) = m_Index m + length X" using r by simp
  have ct: "contig (Suc ?b) (take ?k (entries l) @ X)"
    using ce cX(1) r by (simp add: contig_append contig_take)
  have bounds: "committed l \<le> m_Index m + length X \<and>
      (case diff_at ?ds ?es of None \<Rightarrow> stabled l | Some j \<Rightarrow> min (stabled l) (m_Index m + j)) \<le> m_Index m + length X"
  proof (cases "diff_at ?ds ?es")
    case None
    then have "?b + length (entries l) \<le> m_Index m + length X" using r by (auto simp: X_def merge_tail_def)
    then show ?thesis using None log_okE(3,5,6)[OF ok] by simp
  next
    case (Some j)
    then show ?thesis
      using conflict_above_commit[OF ok ap tv Some] diff_at_Some[OF Some]
      by (auto simp: X_def merge_tail_def)
  qed
  have "?b \<le> (case diff_at ?ds ?es of None \<Rightarrow> stabled l | Some j \<Rightarrow> min (stabled l) (m_Index m + j))"
    using log_okE(4)[OF ok] r by (auto split: option.splits)
  then show lok: "log_ok (merged m l)"
    using ok bounds ct cX(3) len unfolding eq log_ok_def log_wf_def by auto
  show "m_Index m + length ?es \<le> LastIndex (merged m l)"
    using log_okE(6)[OF lok] len cX(2) by (simp add: eq)
qed (auto simp: merged_def ae_merge_def split: prod.splits)

lemma merged_committed_terms:
  assumes ok: "log_ok l" and ap: "append_ok l m" "\<not> m_CommitUse m"
    and tv: "term_view l (m_Index m) = Some t" and i: "i \<le> committed l"
  shows "term_view (merged m l) i = term_view l i"
proof -
  let ?b = "lastIdxOfSnapshot l" and ?k = "m_Index m - lastIdxOfSnapshot l"
  let ?ds = "drop ?k (entries l)" and ?es = "m_Entries m"
  have wf: "log_wf l" using ok by (rule log_ok_wf)
  have r: "?b \<le> m_Index m" "m_Index m \<le> ?b + length (entries l)"
    using term_view_range[OF tv wf] by (simp_all add: LastIndex_eq[OF wf])
  have c: "contig (Suc (m_Index m)) ?es" using ap by (auto simp: append_ok_def)
  have last: "committed l \<le> ?b + length (entries l)" "committed l \<le> LastIndex (merged m l)"
    using log_okE(3,6)[OF ok] log_okE(3)[OF merged_ok(1)[OF ok ap tv]] merged_ok(2)[OF ok ap tv] by auto
  have ents: "entries (merged m l) = take ?k (entries l) @ merge_tail ?ds ?es"
    unfolding merged_def ae_merge_eq[OF wf tv c] by simp
  have base: "lastIdxOfSnapshot (merged m l) = ?b" "lastTermOfSnapshot (merged m l) = lastTermOfSnapshot l"
    unfolding merged_def ae_merge_eq[OF wf tv c] by simp_all
  have lm: "LastIndex (merged m l) = ?b + length (entries (merged m l))"
    using log_okE(6)[OF merged_ok(1)[OF ok ap tv]] base by simp
  have "e_Term (entries (merged m l) ! n) = e_Term (entries l ! n)" if n: "?b + n < committed l" for n
  proof (cases "n < ?k")
    case False
    then obtain j where j: "n = ?k + j" using le_Suc_ex not_less by blast
    have lenn: "n < length (entries l)" "n < length (entries (merged m l))"
      using n last lm by linarith+
    then have jd: "j < length ?ds" "j < length (merge_tail ?ds ?es)"
      using j r by (auto simp: ents)
    have "e_Term (merge_tail ?ds ?es ! j) = e_Term (?ds ! j)"
    proof (cases "diff_at ?ds ?es")
      case None
      then show ?thesis using diff_at_None[OF None, of j] jd by (auto simp: merge_tail_def)
    next
      case (Some q)
      then have "j < q" using conflict_above_commit[OF ok ap tv Some] n j r by linarith
      then show ?thesis using diff_at_Some[OF Some] Some by (simp add: merge_tail_def)
    qed
    moreover have "length (take ?k (entries l)) = ?k" using r by simp
    then have "entries (merged m l) ! n = merge_tail ?ds ?es ! j"
      unfolding ents j by (metis nth_append_length_plus)
    moreover have "?ds ! j = entries l ! n" using j r by simp
    ultimately show ?thesis by simp
  qed (use r in \<open>simp add: ents nth_append\<close>)
  then show ?thesis
    using i last lm base by (auto simp: term_view_def log_view_def)
qed

section \<open>The handler\<close>

lemma ae_conflict_returns:
  assumes "log_wf l"
  shows "\<exists>reply'. ae_conflict m l reply = Some reply' \<and> m_Reject reply' = m_Reject reply \<and>
    m_MsgType reply' = m_MsgType reply \<and> m_To reply' = m_To reply \<and> m_Term reply' = m_Term reply"
proof (cases "LastIndex l < m_Index m \<or> entries l = []")
  case True
  then show ?thesis by (auto simp: ae_conflict_def)
next
  case False
  then have idx: "m_Index m \<le> LastIndex l" by simp
  define b where "b = u64_to_int (lastIdxOfSnapshot l)"
  have b0: "0 \<le> b" using assms by (auto simp: b_def u64_to_int_def log_wf_def)
  obtain i where i: "realIdx l (m_Index m) = Some i" "i < int (length (entries l))"
    using realIdx_eq[OF assms idx] idx False by (auto simp: LastIndex_eq[OF assms])
  show ?thesis
  proof (cases "Max_int b i = b")
    case True
    then show ?thesis
      using False i(1) by (auto simp: ae_conflict_def b_def Let_def split: option.splits)
  next
    case neq: False
    then have "\<exists>e. at_int (entries l) (Max_int b i) = Some e"
      using b0 i(2) by (auto simp: Max_int_def at_int_def)
    then show ?thesis
      using False i(1) neq by (auto simp: ae_conflict_def b_def Let_def split: option.splits)
  qed
qed

context raft_storage
begin

lemma handleAppendEntries_accept:
  assumes ok: "raft_ok ops inv r" and ap: "append_ok (r_RaftLog r) m" "\<not> m_CommitUse m"
    and t: "r_Term r \<le> m_Term m"
    and tv: "term_view (r_RaftLog r) (m_Index m) = Some (m_LogTerm m)"
  defines "l' \<equiv> (merged m (r_RaftLog r))\<lparr>committed := max (committed (r_RaftLog r))
      (min (m_Commit m) (m_Index m + length (m_Entries m)))\<rparr>"
  shows "\<exists>r'. handleAppendEntries m r = Some r' \<and> raft_ok ops inv r' \<and> r_RaftLog r' = l' \<and>
    r_Term r' = m_Term m \<and> r_State r' = StateFollower \<and> r_id r' = r_id r \<and> peers r' = peers r \<and>
    r_Lead r' = m_From m \<and>
    msgs r' = msgs r @ [zero_Message\<lparr>m_MsgType := MsgAppendResponse, m_From := r_id r,
      m_To := m_From m, m_Term := m_Term m, m_Index := LastIndex l'\<rparr>]"
proof -
  define r1 where "r1 = r\<lparr>r_Term := m_Term m, r_Lead := m_From m\<rparr>"
  have ok1: "raft_ok ops inv r1" using ok by (simp add: raft_ok_def r1_def)
  have "\<exists>r2. (if r_State r1 \<noteq> StateFollower then becomeFollower (m_Term m) (m_From m) r1 else Some r1) =
      Some r2 \<and> r_RaftLog r2 = r_RaftLog r \<and> Prs r2 = Prs r \<and> peers r2 = peers r \<and>
      electionTimeout r2 = electionTimeout r \<and> r_Term r2 = m_Term m \<and> r_State r2 = StateFollower \<and>
      r_Lead r2 = m_From m \<and> r_id r2 = r_id r \<and> msgs r2 = msgs r"
    using becomeFollower_ok[OF ok1, of "m_Term m" "m_From m"] by (cases "r_State r1") (auto simp: r1_def)
  then obtain r2 where r2: "(if r_State r1 \<noteq> StateFollower
        then becomeFollower (m_Term m) (m_From m) r1 else Some r1) = Some r2"
      and l2: "r_RaftLog r2 = r_RaftLog r" and f2: "Prs r2 = Prs r" "peers r2 = peers r"
        "electionTimeout r2 = electionTimeout r" "r_Term r2 = m_Term m" "r_State r2 = StateFollower"
        "r_Lead r2 = m_From m" "r_id r2 = r_id r" "msgs r2 = msgs r" by blast
  let ?l = "r_RaftLog r"
  have lok: "log_ok ?l" using ok by (simp add: raft_ok_def)
  note mg = merged_ok[OF lok ap tv]
  have at: "ae_attach m ?l = Some (take (m_Index m - lastIdxOfSnapshot ?l) (entries ?l),
      drop (m_Index m - lastIdxOfSnapshot ?l) (entries ?l))"
    using ae_attach_eq[OF log_ok_wf[OF lok]] tv by simp
  have last: "(if m_Entries m \<noteq> [] then e_Index (last (m_Entries m)) else m_Index m) =
      m_Index m + length (m_Entries m)"
    using ap by (cases "m_Entries m" rule: rev_cases) (auto simp: append_ok_def contig_append)
  have c: "max (min (m_Commit m) (m_Index m + length (m_Entries m))) (committed ?l) \<le> LastIndex (merged m ?l)"
    using mg(7) log_okE(3)[OF mg(1)] mg(2) by auto
  define rep where "rep = zero_Message\<lparr>m_MsgType := MsgAppendResponse, m_From := r_id r,
      m_To := m_From m, m_Term := m_Term m, m_Index := LastIndex (merged m ?l)\<rparr>"
  have L: "LastIndex ((merged m ?l)\<lparr>committed := cc\<rparr>) = LastIndex (merged m ?l)" for cc
    by (simp add: LastIndex_def)
  have l': "l' = (if committed ?l < m_Commit m then (merged m ?l)\<lparr>committed :=
      max (min (m_Commit m) (m_Index m + length (m_Entries m))) (committed ?l)\<rparr> else merged m ?l)"
    using mg(2) unfolding l'_def by (auto simp: max.commute)
  have "handleAppendEntries m r = Some (send rep (r2\<lparr>r_RaftLog := l'\<rparr>))"
    using ap(2) t r2 at last c l2 mg(2) unfolding l'
    by (simp add: handleAppendEntries_def Let_def r1_def[symmetric] merged_def[symmetric] L rep_def
        f2 zero_Message_def not_less) (auto simp: r1_def)
  moreover have "raft_ok ops inv (r2\<lparr>r_RaftLog := merged m ?l\<rparr>)"
    using ok mg f2 by (simp add: raft_ok_def)
  then have "raft_ok ops inv (r2\<lparr>r_RaftLog := l'\<rparr>)"
    using committed_ok[of "r2\<lparr>r_RaftLog := merged m ?l\<rparr>"] c mg(2) unfolding l' by auto
  moreover have "LastIndex l' = LastIndex (merged m ?l)" unfolding l'_def by (rule L)
  ultimately show ?thesis
    using f2 by (intro exI[of _ "send rep (r2\<lparr>r_RaftLog := l'\<rparr>)"] conjI)
      (simp_all only: send_ok, simp_all add: send_def rep_def)
qed

lemma handleAppendEntries_reject:
  assumes ok: "raft_ok ops inv r" and ap: "\<not> m_CommitUse m"
    and rej: "m_Term m < r_Term r \<or> term_view (r_RaftLog r) (m_Index m) \<noteq> Some (m_LogTerm m)"
  shows "\<exists>r' reply. handleAppendEntries m r = Some r' \<and> raft_ok ops inv r' \<and>
    r_RaftLog r' = r_RaftLog r \<and> r_Term r' = max (r_Term r) (m_Term m) \<and> msgs r' = msgs r @ [reply] \<and>
    m_Reject reply \<and> m_To reply = m_From m \<and> m_Term reply = r_Term r' \<and> peers r' = peers r \<and>
    r_id r' = r_id r"
proof (cases "m_Term m < r_Term r")
  case True
  define reply where "reply = zero_Message\<lparr>m_MsgType := MsgAppendResponse, m_From := r_id r,
    m_To := m_From m, m_Reject := True, m_Term := r_Term r\<rparr>"
  have "handleAppendEntries m r = Some (send reply r)"
    using True ap by (simp add: handleAppendEntries_def reply_def)
  then show ?thesis
    using ok True by (intro exI[of _ "send reply r"] exI[of _ reply] conjI)
      (simp_all only: send_ok, simp_all add: send_def reply_def)
next
  case False
  define r1 where "r1 = r\<lparr>r_Term := m_Term m, r_Lead := m_From m\<rparr>"
  have ok1: "raft_ok ops inv r1" using ok by (simp add: raft_ok_def r1_def)
  have "\<exists>r2. (if r_State r1 \<noteq> StateFollower then becomeFollower (m_Term m) (m_From m) r1 else Some r1) =
      Some r2 \<and> raft_ok ops inv r2 \<and> r_RaftLog r2 = r_RaftLog r \<and> r_Term r2 = m_Term m \<and>
      msgs r2 = msgs r \<and> peers r2 = peers r \<and> r_id r2 = r_id r"
    using becomeFollower_ok[OF ok1, of "m_Term m" "m_From m"] ok1
    by (cases "r_State r1") (auto simp: r1_def raft_ok_def)
  then obtain r2 where r2: "(if r_State r1 \<noteq> StateFollower
        then becomeFollower (m_Term m) (m_From m) r1 else Some r1) = Some r2" "raft_ok ops inv r2"
      "r_RaftLog r2 = r_RaftLog r" "r_Term r2 = m_Term m" "msgs r2 = msgs r" "peers r2 = peers r"
      "r_id r2 = r_id r" by blast
  have wf: "log_wf (r_RaftLog r)" using ok by (simp add: raft_ok_def log_ok_def)
  define reply where "reply = zero_Message\<lparr>m_MsgType := MsgAppendResponse, m_From := r_id r,
    m_To := m_From m, m_Reject := True, m_Term := m_Term m\<rparr>"
  obtain reply' where rep: "ae_conflict m (r_RaftLog r) reply = Some reply'" "m_Reject reply'"
      "m_To reply' = m_From m" "m_Term reply' = m_Term m"
    using ae_conflict_returns[OF wf, of m reply] by (auto simp: reply_def)
  have "handleAppendEntries m r = Some (send reply' r2)"
    using ap False rej r2(1,3) rep(1) ae_attach_eq[OF wf, of m]
    by (simp add: handleAppendEntries_def Let_def r1_def[symmetric] reply_def) (auto simp: r1_def)
  then show ?thesis
    using r2 rep False by (intro exI[of _ "send reply' r2"] exI[of _ reply'] conjI)
      (simp_all only: send_ok, simp_all add: send_def)
qed

lemma handleAppendEntries_commit:
  assumes ok: "raft_ok ops inv r" and ap: "append_ok (r_RaftLog r) m" "m_CommitUse m"
  shows "\<exists>r'. handleAppendEntries m r = Some r' \<and> raft_ok ops inv r' \<and>
    r' = r\<lparr>r_RaftLog := (r_RaftLog r)\<lparr>committed := max (committed (r_RaftLog r)) (m_Commit m)\<rparr>\<rparr>"
proof -
  have "committed (r_RaftLog r) \<le> LastIndex (r_RaftLog r)" "m_Commit m \<le> LastIndex (r_RaftLog r)"
    using ok ap log_okE(3) by (auto simp: raft_ok_def append_ok_def)
  then show ?thesis
    using committed_ok[OF ok, of "max (committed (r_RaftLog r)) (m_Commit m)"] ap(2)
    by (simp add: handleAppendEntries_def Let_def)
qed

lemma handleAppendEntries_ok:
  assumes ok: "raft_ok ops inv r" and ap: "append_ok (r_RaftLog r) m"
  shows "\<exists>r'. handleAppendEntries m r = Some r' \<and> raft_ok ops inv r' \<and>
    committed (r_RaftLog r) \<le> committed (r_RaftLog r') \<and>
    (\<forall>i \<le> committed (r_RaftLog r). term_view (r_RaftLog r') i = term_view (r_RaftLog r) i)"
proof -
  have cc: "term_view (l\<lparr>committed := c\<rparr>) i = term_view l i" for l :: "'a RaftLog" and c i
    by (simp add: term_view_def log_view_def)
  consider "m_CommitUse m"
    | "\<not> m_CommitUse m" "m_Term m < r_Term r \<or> term_view (r_RaftLog r) (m_Index m) \<noteq> Some (m_LogTerm m)"
    | "\<not> m_CommitUse m" "r_Term r \<le> m_Term m" "term_view (r_RaftLog r) (m_Index m) = Some (m_LogTerm m)"
    by linarith
  then show ?thesis
  proof cases
    case 1
    then show ?thesis using handleAppendEntries_commit[OF ok ap] by (auto simp: cc)
  next
    case 2
    then show ?thesis using handleAppendEntries_reject[OF ok 2] by auto
  next
    case 3
    have "log_ok (r_RaftLog r)" using ok by (simp add: raft_ok_def)
    then show ?thesis
      using handleAppendEntries_accept[OF ok ap 3] merged_committed_terms[OF _ ap 3(1,3)]
      by (auto simp: cc)
  qed
qed

end

end
