(* ===== verification/Raft_Step.thy ===== *)
theory Raft_Step
  imports Raft_Append
begin

text \<open>
  The handlers of a peer other than the append handler, and \<open>Step\<close> and \<open>tick\<close> as a whole: over any
  storage that meets its contract they return, keep the invariant and never move the committed
  index back.
\<close>

section \<open>Reading the progress\<close>

text \<open>The loop of the leader's commit rule, as a filter of the configuration.\<close>

lemma count_matched_eq:
  assumes "\<forall>p \<in> set (peers r). fmlookup (Prs r) p \<noteq> None"
  shows "count_matched from idx r =
    (let qs = filter (\<lambda>p. p \<noteq> from \<and> p \<noteq> r_id r \<and> p_Match (the (fmlookup (Prs r) p)) \<ge> idx) (peers r)
     in Some (2 + length qs, from # qs))"
proof -
  define f where "f = (\<lambda>p (counts :: nat, ps). if p = from \<or> p = r_id r then Some (counts, ps)
    else do { pr \<leftarrow> get_pr p r; Some (if p_Match pr \<ge> idx then (counts + 1, ps @ [p]) else (counts, ps)) })"
  define Q where "Q = (\<lambda>p. p \<noteq> from \<and> p \<noteq> r_id r \<and> p_Match (the (fmlookup (Prs r) p)) \<ge> idx)"
  have step: "f p (n, ps) = Some (if Q p then (n + 1, ps @ [p]) else (n, ps))" if "p \<in> set (peers r)" for p n ps
    using that assms by (auto simp: f_def Q_def get_pr_def)
  have "foldM f xs (n, ps) = Some (n + length (filter Q xs), ps @ filter Q xs)"
    if "set xs \<subseteq> set (peers r)" for xs n ps
    using that by (induction xs arbitrary: n ps) (auto simp: step)
  from this[of "peers r" 2 "[from]"] show ?thesis
    by (simp add: count_matched_def f_def Q_def Let_def)
qed

lemma send_RaftLog [simp]: "r_RaftLog (send m r) = r_RaftLog r"
  by (simp add: send_def)

lemma fold_send: "fold (\<lambda>p. send (f p)) ps r = r\<lparr>msgs := msgs r @ map f ps\<rparr>"
  by (induction ps arbitrary: r) (simp_all add: send_def)

section \<open>Handlers\<close>

context raft_storage
begin

lemma handleVoteRequest_ok:
  assumes ok: "raft_ok ops inv r"
  shows "\<exists>r'. handleVoteRequest m r = Some r' \<and> raft_ok ops inv r' \<and> r_RaftLog r' = r_RaftLog r"
proof -
  have wf: "log_wf (r_RaftLog r)" using ok by (simp add: raft_ok_def log_ok_def)
  obtain t where t: "Term (r_RaftLog r) (LastIndex (r_RaftLog r)) = Some t"
    using Term_returns[OF wf, of "LastIndex (r_RaftLog r)"] by (auto simp: LastIndex_eq[OF wf])
  obtain r1 where r1: "becomeFollower (m_Term m) 0 r = Some r1" "raft_ok ops inv r1"
      "r_RaftLog r1 = r_RaftLog r"
    using becomeFollower_ok[OF ok, of "m_Term m" 0] ok by (auto simp: raft_ok_def)
  have v: "raft_ok ops inv (r1\<lparr>r_Vote := x\<rparr>)" for x using r1(2) by (simp add: raft_ok_def)
  show ?thesis
    using ok r1 t v by (auto simp: handleVoteRequest_def Let_def)
qed

lemma handleVoteResponse_ok:
  assumes ok: "raft_ok ops inv r" and self: "r_id r \<in> set (peers r)"
    and bound: "Suc (Suc (LastIndex (r_RaftLog r))) < 2 ^ 63"
  shows "\<exists>r'. handleVoteResponse m r = Some r' \<and> raft_ok ops inv r' \<and>
    committed (r_RaftLog r) \<le> committed (r_RaftLog r')"
proof -
  define r1 where "r1 = r\<lparr>VoteTotal := u64_add (VoteTotal r) 1\<rparr>"
  define r2 where "r2 = (if \<not> m_Reject m then r1\<lparr>VoteReceived := u64_add (VoteReceived r1) 1\<rparr> else r1)"
  have f: "raft_ok ops inv r2" "r_id r2 = r_id r" "peers r2 = peers r" "r_RaftLog r2 = r_RaftLog r"
    using ok by (simp_all add: r2_def r1_def raft_ok_def)
  have eq: "handleVoteResponse m r =
     (if m_Term m = r_Term r then
        if \<not> m_Reject m \<and> VoteReceived r2 > length (peers r2) div 2 then becomeLeader r2
        else if VoteTotal r2 = length (peers r2) then becomeFollower (r_Term r2) 0 r2
        else Some r2
      else if m_Term m > r_Term r then becomeFollower (m_Term m) 0 (r\<lparr>r_Term := m_Term m\<rparr>)
      else Some r)"
    unfolding handleVoteResponse_def Let_def r1_def[symmetric] r2_def[symmetric] ..
  have "\<exists>r'. becomeLeader r2 = Some r' \<and> raft_ok ops inv r' \<and>
      committed (r_RaftLog r) \<le> committed (r_RaftLog r')"
    using becomeLeader_ok[OF f(1)] self bound f by (auto simp: log_grows_def)
  moreover have "\<exists>r'. becomeFollower t 0 r3 = Some r' \<and> raft_ok ops inv r' \<and>
      committed (r_RaftLog r) \<le> committed (r_RaftLog r')"
    if "raft_ok ops inv r3" "r_RaftLog r3 = r_RaftLog r" for r3 t
    using becomeFollower_ok[OF that(1), of t 0] that by (auto simp: raft_ok_def)
  moreover have "raft_ok ops inv (r\<lparr>r_Term := m_Term m\<rparr>)" using ok by (simp add: raft_ok_def)
  ultimately show ?thesis unfolding eq using f ok by auto
qed

lemma Step_Hup_ok:
  assumes ok: "raft_ok ops inv r" and self: "r_id r \<in> set (peers r)"
    and bound: "Suc (Suc (LastIndex (r_RaftLog r))) < 2 ^ 63"
  shows "\<exists>r'. (do { r1 \<leftarrow> becomeCandidate r; requestVotes r1 }) = Some r' \<and> raft_ok ops inv r' \<and>
    committed (r_RaftLog r) \<le> committed (r_RaftLog r')"
proof -
  obtain r1 where r1: "becomeCandidate r = Some r1" "raft_ok ops inv r1"
      "log_grows (r_Term r1) (r_RaftLog r) (r_RaftLog r1)"
    using becomeCandidate_ok[OF assms] by blast
  obtain r2 where "requestVotes r1 = Some r2" "sends r1 r2" "raft_ok ops inv r2"
    using requestVotes_ok[OF r1(2)] by blast
  then show ?thesis using r1 sends_frame(15) by (fastforce simp: log_grows_def)
qed

lemma handleLeaderTransfer_ok:
  assumes ok: "raft_ok ops inv r" and self: "r_id r \<in> set (peers r)"
    and bound: "Suc (Suc (LastIndex (r_RaftLog r))) < 2 ^ 63"
  shows "\<exists>r'. handleLeaderTransfer m r = Some r' \<and> raft_ok ops inv r' \<and>
    committed (r_RaftLog r) \<le> committed (r_RaftLog r')"
proof (cases "r_State r = StateLeader \<and> containsPeer (m_From m) r")
  case True
  define r1 where "r1 = r\<lparr>leadTransferee := m_From m\<rparr>"
  have f: "raft_ok ops inv r1" "r_RaftLog r1 = r_RaftLog r" "r_id r1 = r_id r"
    using ok by (simp_all add: r1_def raft_ok_def)
  obtain pr where pr: "get_pr (m_From m) r1 = Some pr"
    using ok True by (auto simp: r1_def get_pr_def raft_ok_def containsPeer_def)
  obtain b r2 where r2: "sendAppend (m_From m) r1 = Some (b, r2)" "sends r1 r2" "raft_ok ops inv r2"
    using sendAppend_ok[OF f(1)] pr by blast
  have c: "committed (r_RaftLog r2) = committed (r_RaftLog r)" using sends_frame(15)[OF r2(2)] f by simp
  show ?thesis
    using True ok f pr r2 c by (auto simp: handleLeaderTransfer_def Let_def r1_def[symmetric])
next
  case False
  then show ?thesis
    using ok Step_Hup_ok[OF assms] by (auto simp: handleLeaderTransfer_def Step_Hup_def)
qed

lemma handleAppendRejected_ok:
  assumes ok: "raft_ok ops inv r" and pr: "get_pr (m_From m) r \<noteq> None"
  shows "\<exists>r'. handleAppendRejected m r = Some r' \<and> raft_ok ops inv r' \<and>
    committed (r_RaftLog r) = committed (r_RaftLog r')"
proof -
  obtain p where p: "get_pr (m_From m) r = Some p" using pr by blast
  have "\<exists>r'. map_option snd (sendAppend (m_From m) (set_pr (m_From m) (p\<lparr>p_Next := n\<rparr>) r)) = Some r' \<and>
      raft_ok ops inv r' \<and> committed (r_RaftLog r) = committed (r_RaftLog r')" for n
  proof -
    let ?r1 = "set_pr (m_From m) (p\<lparr>p_Next := n\<rparr>) r"
    have ok1: "raft_ok ops inv ?r1" by (rule set_pr_ok[OF ok])
    moreover have "get_pr (m_From m) ?r1 \<noteq> None" by (simp add: get_pr_def set_pr_def)
    ultimately obtain b r2 where "sendAppend (m_From m) ?r1 = Some (b, r2)" "sends ?r1 r2" "raft_ok ops inv r2"
      using sendAppend_ok by blast
    then show ?thesis using sends_frame(15)[of ?r1 r2] by (simp add: set_pr_def)
  qed
  then show ?thesis using p by (simp add: handleAppendRejected_def Let_def)
qed

text \<open>
  An accepted append either leaves the committed index alone or moves it up to the acknowledged
  index, and then the entry there is not of an older term and the peers counted are a majority.
\<close>

lemma handleAppendAccepted_ok:
  assumes ok: "raft_ok ops inv r" and pr: "get_pr (m_From m) r \<noteq> None"
    and idx: "m_Index m \<le> LastIndex (r_RaftLog r)"
  shows "\<exists>r'. handleAppendAccepted m r = Some r' \<and> raft_ok ops inv r' \<and> same_role r r' \<and>
    entries (r_RaftLog r') = entries (r_RaftLog r) \<and>
    lastIdxOfSnapshot (r_RaftLog r') = lastIdxOfSnapshot (r_RaftLog r) \<and>
    lastTermOfSnapshot (r_RaftLog r') = lastTermOfSnapshot (r_RaftLog r) \<and>
    (committed (r_RaftLog r') = committed (r_RaftLog r) \<or>
     (committed (r_RaftLog r') = m_Index m \<and> committed (r_RaftLog r) < m_Index m \<and>
      (\<exists>t. term_view (r_RaftLog r) (m_Index m) = Some t \<and> r_Term r \<le> t) \<and>
      (\<exists>p. fmlookup (Prs r') (m_From m) = Some p \<and> p_Match p = m_Index m) \<and>
      length (peers r) < 2 * (2 + length (filter (\<lambda>p. p \<noteq> m_From m \<and> p \<noteq> r_id r \<and>
        p_Match (the (fmlookup (Prs r') p)) \<ge> m_Index m) (peers r)))))"
proof -
  obtain p where p: "get_pr (m_From m) r = Some p" using pr by blast
  define r1 where "r1 = set_pr (m_From m) (p\<lparr>p_Match := m_Index m, p_Next := u64_add (m_Index m) 1\<rparr>) r"
  define r2 where "r2 = (if m_From m = leadTransferee r1 \<and> m_Index m = LastIndex (r_RaftLog r1)
    then send (msg_TimeoutNow (m_From m) r1) r1 else r1)"
  define msg where "msg = zero_Message\<lparr>m_MsgType := MsgAppend, m_Term := r_Term r2, m_From := r_id r2,
    m_To := m_From m, m_CommitUse := True\<rparr>"
  have ok1: "raft_ok ops inv r1" unfolding r1_def by (rule set_pr_ok[OF ok])
  have ok2: "raft_ok ops inv r2" using ok1 by (simp add: r2_def)
  have f2: "r_RaftLog r2 = r_RaftLog r" "same_role r r2" "peers r2 = peers r" "r_id r2 = r_id r"
      "r_Term r2 = r_Term r" "Prs r2 = Prs r1"
    by (auto simp: r2_def r1_def set_pr_def send_def same_role_def)
  have pf: "\<exists>q. fmlookup (Prs r1) (m_From m) = Some q \<and> p_Match q = m_Index m"
    by (simp add: r1_def set_pr_def)
  have eq: "handleAppendAccepted m r =
    (if m_Index m \<le> p_Match p then Some r
     else if m_Index m \<le> committed (r_RaftLog r2) then Some (send (msg\<lparr>m_Commit := m_Index m\<rparr>) r2)
     else do {
         i \<leftarrow> realIdx (r_RaftLog r2) (m_Index m);
         e \<leftarrow> at_int (entries (r_RaftLog r2)) i;
         if e_Term e < r_Term r2 then Some r2
         else do {
           res \<leftarrow> count_matched (m_From m) (m_Index m) r2;
           if fst res > length (peers r2) div 2 then
             Some (fold (\<lambda>p. send (msg\<lparr>m_To := p, m_Commit := m_Index m\<rparr>)) (snd res)
               (r2\<lparr>r_RaftLog := (r_RaftLog r2)\<lparr>committed := m_Index m\<rparr>\<rparr>))
           else Some r2
         }
       })"
    unfolding handleAppendAccepted_def p Option.bind.simps(2) Let_def r1_def[symmetric]
      r2_def[symmetric] msg_def[symmetric] ..
  consider "m_Index m \<le> p_Match p" | "\<not> m_Index m \<le> p_Match p" "m_Index m \<le> committed (r_RaftLog r)"
    | "\<not> m_Index m \<le> p_Match p" "committed (r_RaftLog r) < m_Index m" by linarith
  then show ?thesis
  proof cases
    case 1
    then show ?thesis using eq ok by simp
  next
    case 2
    then have "handleAppendAccepted m r = Some (send (msg\<lparr>m_Commit := m_Index m\<rparr>) r2)"
      using eq f2 by simp
    moreover have "same_role r (send x r2)" "r_RaftLog (send x r2) = r_RaftLog r" for x
      using f2 by (simp_all add: send_def same_role_def)
    ultimately show ?thesis using ok2 by auto
  next
    case 3
    have lok: "log_ok (r_RaftLog r)" using ok by (simp add: raft_ok_def)
    have b: "lastIdxOfSnapshot (r_RaftLog r) < m_Index m" using 3 log_okE(1,2)[OF lok] by linarith
    define e where "e = entries (r_RaftLog r) ! (m_Index m - lastIdxOfSnapshot (r_RaftLog r) - 1)"
    have k: "m_Index m - lastIdxOfSnapshot (r_RaftLog r) - 1 < length (entries (r_RaftLog r))"
      using b idx log_okE(6)[OF lok] by linarith
    have i: "realIdx (r_RaftLog r2) (m_Index m) = Some (int (m_Index m - lastIdxOfSnapshot (r_RaftLog r) - 1))"
      using realIdx_gt[OF log_ok_wf[OF lok] b] idx log_okE(6)[OF lok] f2 by simp
    have at: "at_int (entries (r_RaftLog r2)) (int (m_Index m - lastIdxOfSnapshot (r_RaftLog r) - 1)) = Some e"
      using k f2 by (simp add: at_int_def e_def del: of_nat_diff)
    have tv: "term_view (r_RaftLog r) (m_Index m) = Some (e_Term e)"
      using b k by (auto simp: term_view_def log_view_def e_def)
    define qs where "qs = filter (\<lambda>p. p \<noteq> m_From m \<and> p \<noteq> r_id r \<and>
      p_Match (the (fmlookup (Prs r2) p)) \<ge> m_Index m) (peers r)"
    have cm: "count_matched (m_From m) (m_Index m) r2 = Some (2 + length qs, m_From m # qs)"
      using count_matched_eq[of r2] ok2 f2 by (simp add: raft_ok_def qs_def Let_def)
    have eq3: "handleAppendAccepted m r = (if e_Term e < r_Term r then Some r2
      else if 2 + length qs > length (peers r) div 2 then
        Some (r2\<lparr>r_RaftLog := (r_RaftLog r2)\<lparr>committed := m_Index m\<rparr>,
          msgs := msgs r2 @ map (\<lambda>p. msg\<lparr>m_To := p, m_Commit := m_Index m\<rparr>) (m_From m # qs)\<rparr>)
      else Some r2)"
      unfolding eq using 3 i at cm f2 by (simp add: fold_send send_def)
    have ok3: "raft_ok ops inv (r2\<lparr>r_RaftLog := (r_RaftLog r2)\<lparr>committed := m_Index m\<rparr>, msgs := x\<rparr>)" for x
      using committed_ok[OF ok2, of "m_Index m"] 3 idx f2 by (simp add: raft_ok_def)
    have role3: "same_role r (r2\<lparr>r_RaftLog := y, msgs := x\<rparr>)" for x y
      using f2(2) by (simp add: same_role_def)
    have maj: "length (peers r) < 2 * (2 + length qs)" if "2 + length qs > length (peers r) div 2"
      using that by presburger
    show ?thesis
      using eq3 ok2 ok3 role3 f2 3 tv maj pf unfolding qs_def
      by (cases "e_Term e < r_Term r") (auto simp: not_less)
  qed
qed

lemma handleHeartbeat_ok:
  assumes ok: "raft_ok ops inv r"
  shows "\<exists>r'. handleHeartbeat m r = Some r' \<and> raft_ok ops inv r' \<and> r_RaftLog r' = r_RaftLog r"
proof -
  obtain r1 where r1: "becomeFollower (m_Term m) (m_From m) r = Some r1" "raft_ok ops inv r1"
      "r_RaftLog r1 = r_RaftLog r"
    using becomeFollower_ok[OF ok, of "m_Term m" "m_From m"] ok by (auto simp: raft_ok_def)
  show ?thesis using r1 ok by (auto simp: handleHeartbeat_def Let_def)
qed

lemma handleHeartbeatResponse_ok:
  assumes ok: "raft_ok ops inv r" and pr: "get_pr (m_From m) r \<noteq> None"
  shows "\<exists>r'. handleHeartbeatResponse m r = Some r' \<and> raft_ok ops inv r' \<and>
    committed (r_RaftLog r') = committed (r_RaftLog r)"
proof -
  obtain r1 where r1: "becomeFollower (m_Term m) 0 r = Some r1" "raft_ok ops inv r1"
      "r_RaftLog r1 = r_RaftLog r"
    using becomeFollower_ok[OF ok, of "m_Term m" 0] ok by (auto simp: raft_ok_def)
  obtain r2 where r2: "sendSnapshot (m_From m) r = Some r2" "sends r r2" "raft_ok ops inv r2"
    using sendSnapshot_ok[OF ok pr] by blast
  obtain b r3 where r3: "sendAppend (m_From m) r = Some (b, r3)" "sends r r3" "raft_ok ops inv r3"
    using sendAppend_ok[OF ok pr] by blast
  show ?thesis
    using ok r1 r2 r3 sends_frame(15)[OF r2(2)] sends_frame(15)[OF r3(2)]
    by (auto simp: handleHeartbeatResponse_def)
qed

lemma handleSnapshot_ok:
  assumes ok: "raft_ok ops inv r" and sn: "snapshot_ok m"
  shows "\<exists>r'. handleSnapshot m r = Some r' \<and> raft_ok ops inv r' \<and>
    committed (r_RaftLog r) \<le> committed (r_RaftLog r')"
proof -
  obtain snap md cs where s: "m_Snapshot m = Some snap" "sn_Metadata snap = Some md"
      "sm_ConfState md = Some cs" "Suc (sm_Index md) < 2 ^ 63"
    using sn by (auto simp: snapshot_ok_def split: option.splits)
  show ?thesis
  proof (cases "sm_Index md \<le> LastIndex (r_RaftLog r)")
    case True
    then show ?thesis using ok s by (simp add: handleSnapshot_def)
  next
    case False
    define l where "l = (r_RaftLog r)\<lparr>lastIdxOfSnapshot := sm_Index md,
             lastTermOfSnapshot := sm_Term md, committed := sm_Index md,
             applied := sm_Index md, stabled := sm_Index md, pendingSnapshot := Some snap, entries := []\<rparr>"
    define r1 where "r1 = r\<lparr>r_RaftLog := l, peers := cs_Nodes cs,
      Prs := fold (\<lambda>p. fmupd p \<lparr>p_Match = lastIdxOfSnapshot l, p_Next = u64_add (lastIdxOfSnapshot l) 1\<rparr>)
        (cs_Nodes cs) (Prs r)\<rparr>"
    have "log_ok l" using s(4) by (simp add: log_ok_def log_wf_def l_def)
    then have ok1: "raft_ok ops inv r1"
      using ok by (simp add: raft_ok_def r1_def l_def fmlookup_fold_upd)
    obtain r2 where r2: "becomeFollower (m_Term m) (m_From m) r1 = Some r2" "raft_ok ops inv r2"
        "r_RaftLog r2 = l"
      using becomeFollower_ok[OF ok1, of "m_Term m" "m_From m"] ok1 by (auto simp: raft_ok_def r1_def)
    have "\<exists>x. handleSnapshot m r = Some (send x r2)"
      using False s r2(1) unfolding handleSnapshot_def Let_def
      by (simp add: l_def[symmetric] r1_def[symmetric, simplified]) (rule exI, rule refl)
    moreover have "committed (r_RaftLog r) \<le> committed l"
      using False ok log_okE(3) by (fastforce simp: raft_ok_def l_def)
    ultimately show ?thesis using r2 by auto
  qed
qed

lemma raft_ok_heartbeatElapsed [simp]:
  "raft_ok ops inv (r\<lparr>heartbeatElapsed := n\<rparr>) = raft_ok ops inv r"
  by (simp add: raft_ok_def)

lemma beat_ok:
  assumes "raft_ok ops inv r"
  shows "raft_ok ops inv (sendHeartbeats (r\<lparr>heartbeatElapsed := n\<rparr>))"
    "committed (r_RaftLog (sendHeartbeats (r\<lparr>heartbeatElapsed := n\<rparr>))) = committed (r_RaftLog r)"
  using assms sendHeartbeats_ok sends_frame(15)[OF sends_sendHeartbeats[of "r\<lparr>heartbeatElapsed := n\<rparr>"]]
  by auto

lemma propose_ok:
  assumes ok: "raft_ok ops inv r" and self: "r_id r \<in> set (peers r)"
    and bound: "Suc (LastIndex (r_RaftLog r) + length (m_Entries m)) < 2 ^ 63"
  shows "\<exists>r'. (do { r1 \<leftarrow> handleMsgPropose m r; broadCastAE r1 }) = Some r' \<and> raft_ok ops inv r' \<and>
    same_role r r' \<and> log_grows (r_Term r) (r_RaftLog r) (r_RaftLog r')"
proof -
  have "get_pr (r_id r) r \<noteq> None" using ok self by (auto simp: raft_ok_def get_pr_def)
  then obtain r1 where r1: "handleMsgPropose m r = Some r1" "raft_ok ops inv r1" "same_role r r1"
      "log_grows (r_Term r) (r_RaftLog r) (r_RaftLog r1)"
    using handleMsgPropose_ok[OF ok _ bound] by blast
  obtain r2 where r2: "broadCastAE r1 = Some r2" "sends r1 r2" "raft_ok ops inv r2"
    using broadCastAE_ok[OF r1(2)] by blast
  show ?thesis
    using r1 r2 same_role_trans[OF r1(3) sends_same_role[OF r2(2)]]
      log_grows_trans[OF r1(4) sends_log_grows[OF r2(2)]] by auto
qed

text \<open>Every message that is admissible is handled.\<close>

lemma Step_ok:
  assumes ok: "raft_ok ops inv r" and m: "msg_ok r m"
  shows "\<exists>r'. Step m r = Some r' \<and> raft_ok ops inv r' \<and>
    committed (r_RaftLog r) \<le> committed (r_RaftLog r')"
proof -
  let ?P = "\<lambda>x. \<exists>r'. x = Some r' \<and> raft_ok ops inv r' \<and>
    committed (r_RaftLog r) \<le> committed (r_RaftLog r')"
  have b: "Suc (Suc (LastIndex (r_RaftLog r))) < 2 ^ 63"
      "Suc (LastIndex (r_RaftLog r) + length (m_Entries m)) < 2 ^ 63"
    using m by (simp_all add: msg_ok_def)
  have stay: "?P (Some r)" using ok by simp
  have vote: "?P (handleVoteRequest m r)" using handleVoteRequest_ok[OF ok, of m] by auto
  have hb: "?P (handleHeartbeat m r)" using handleHeartbeat_ok[OF ok, of m] by auto
  have ap: "?P (handleAppendEntries m r)" if "m_MsgType m = MsgAppend"
    using that m handleAppendEntries_ok[OF ok, of m] by (auto simp: msg_ok_def)
  have sn: "?P (handleSnapshot m r)" if "m_MsgType m = MsgSnapshot"
    using that m handleSnapshot_ok[OF ok, of m] by (auto simp: msg_ok_def)
  have self: "r_id r \<in> set (peers r)"
    if "m_MsgType m \<in> {MsgHup, MsgPropose, MsgRequestVoteResponse, MsgTimeoutNow, MsgTransferLeader}"
    using that m by (auto simp: msg_ok_def)
  have hup: "?P (do { r1 \<leftarrow> becomeCandidate r; requestVotes r1 })"
    if "r_id r \<in> set (peers r)" using Step_Hup_ok[OF ok that b(1)] .
  have tmo: "?P (handleMsgTimeOut r)" if "r_id r \<in> set (peers r)"
    using hup[OF that] stay by (auto simp: handleMsgTimeOut_def Step_Hup_def)
  have tl: "?P (handleLeaderTransfer m r)" if "r_id r \<in> set (peers r)"
    using handleLeaderTransfer_ok[OF ok that b(1)] .
  have vr: "?P (handleVoteResponse m r)" if "r_id r \<in> set (peers r)"
    using handleVoteResponse_ok[OF ok that b(1)] .
  have prp: "?P (do { r1 \<leftarrow> handleMsgPropose m r; broadCastAE r1 })" if "r_id r \<in> set (peers r)"
    using propose_ok[OF ok that b(2)] by (auto simp: log_grows_def)
  have ar: "?P (handleMsgAppendResponse m r)" if "m_MsgType m = MsgAppendResponse"
    using that m handleAppendAccepted_ok[OF ok, of m] handleAppendRejected_ok[OF ok, of m]
    by (fastforce simp: msg_ok_def handleMsgAppendResponse_def)
  have hr: "?P (handleHeartbeatResponse m r)" if "m_MsgType m = MsgHeartbeatResponse"
    using that m handleHeartbeatResponse_ok[OF ok, of m] by (fastforce simp: msg_ok_def)
  show ?thesis
    by (cases "m_MsgType m"; cases "r_State r")
      (simp_all add: Step_def ok beat_ok[OF ok] vote hb ap sn self hup tmo tl vr prp ar hr)
qed

lemma tick_ok:
  assumes ok: "raft_ok ops inv r" and self: "r_id r \<in> set (peers r)"
    and bound: "Suc (Suc (LastIndex (r_RaftLog r))) < 2 ^ 63"
  shows "\<exists>r'. tick r = Some r' \<and> raft_ok ops inv r' \<and>
    committed (r_RaftLog r) \<le> committed (r_RaftLog r')"
proof -
  define r1 where "r1 = r\<lparr>electionElapsed := electionElapsed r + 1, heartbeatElapsed := heartbeatElapsed r + 1\<rparr>"
  have f: "raft_ok ops inv r1" "r_RaftLog r1 = r_RaftLog r" "r_id r1 = r_id r" "peers r1 = peers r"
    using ok by (simp_all add: r1_def raft_ok_def)
  have eq: "tick r = (if r_State r1 = StateLeader then
       Some (if heartbeatElapsed r1 \<ge> heartbeatTimeout r1
             then sendHeartbeats (r1\<lparr>heartbeatElapsed := 0\<rparr>) else r1)
     else if electionElapsed r1 \<ge> electionTimeoutRandom r1 then
       do { r \<leftarrow> becomeCandidate r1; requestVotes r }
     else Some r1)"
    unfolding tick_def Let_def r1_def ..
  show ?thesis
    unfolding eq using Step_Hup_ok[OF f(1)] self bound f beat_ok[OF f(1), of 0] by auto
qed

end

end
