(* ===== verification/Raw_Node.thy ===== *)
theory Raw_Node
  imports Raft_Step
begin

text \<open>
  \<open>RawNode\<close> of \<open>raft/rawnode.go\<close>: the wrapper through which the store drives a peer. \<open>Ready\<close> hands
  out what has to be persisted, applied and sent, \<open>Advance\<close> records that it has been. The encoding
  of a configuration change is generated code and a parameter of \<open>ProposeConfChange\<close>.
\<close>

section \<open>Definitions\<close>

record Ready =
  rd_SoftState :: "SoftState option"
  rd_HardState :: HardState
  rd_Entries :: "Entry list"
  rd_Snapshot :: Snapshot
  rd_CommittedEntries :: "Entry list"
  rd_Messages :: "Message list"

record 's RawNode =
  rn_Raft :: "'s Raft"
  prevSoftState :: SoftState
  prevHardState :: HardState

definition SoftState_equal :: "SoftState \<Rightarrow> SoftState \<Rightarrow> bool" where
  "SoftState_equal st curSt \<longleftrightarrow> ss_RaftState st = ss_RaftState curSt \<and> ss_Lead st = ss_Lead curSt"

definition IsHardStEmpty :: "Ready \<Rightarrow> bool" where
  "IsHardStEmpty rd \<longleftrightarrow> hs_Term (rd_HardState rd) = 0"

definition NewRawNode :: "'s Config \<Rightarrow> (nat \<Rightarrow> nat) \<Rightarrow> 's RawNode option" where
  "NewRawNode config src = do {
     raft \<leftarrow> newRaft config src;
     Some \<lparr>rn_Raft = raft, prevSoftState = raft_SoftState raft, prevHardState = raft_HardState raft\<rparr>
   }"

definition rn_lift :: "('s Raft \<Rightarrow> 's Raft option) \<Rightarrow> 's RawNode \<Rightarrow> 's RawNode option" where
  "rn_lift f rn = do { r \<leftarrow> f (rn_Raft rn); Some (rn\<lparr>rn_Raft := r\<rparr>) }"

definition rn_Tick :: "'s RawNode \<Rightarrow> 's RawNode option" where
  "rn_Tick rn = rn_lift tick rn"

definition Campaign :: "'s RawNode \<Rightarrow> 's RawNode option" where
  "Campaign rn = rn_lift (Step (zero_Message\<lparr>m_MsgType := MsgHup\<rparr>)) rn"

definition Propose :: "bytes option \<Rightarrow> 's RawNode \<Rightarrow> 's RawNode option" where
  "Propose data rn =
     rn_lift (Step (zero_Message\<lparr>m_MsgType := MsgPropose, m_From := r_id (rn_Raft rn),
       m_Entries := [zero_Entry\<lparr>e_Data := data\<rparr>]\<rparr>)) rn"

definition ProposeConfChange ::
  "(ConfChange \<Rightarrow> raft_error + bytes) \<Rightarrow> ConfChange \<Rightarrow> 's RawNode \<Rightarrow> (raft_error option \<times> 's RawNode) option" where
  "ProposeConfChange marshal cc rn =
     (case marshal cc of
        Inl err \<Rightarrow> Some (Some err, rn)
      | Inr data \<Rightarrow> map_option (Pair None)
          (rn_lift (Step (zero_Message\<lparr>m_MsgType := MsgPropose,
             m_Entries := [zero_Entry\<lparr>e_EntryType := EntryConfChange, e_Data := Some data\<rparr>]\<rparr>)) rn))"

definition nodes :: "'s Raft \<Rightarrow> u64 list" where
  "nodes r = sorted_list_of_fset (fmdom (Prs r))"

definition ApplyConfChange :: "ConfChange \<Rightarrow> 's RawNode \<Rightarrow> (ConfState \<times> 's RawNode) option" where
  "ApplyConfChange cc rn = do {
     r \<leftarrow> (if cc_NodeId cc = None_id then Some (rn_Raft rn)
          else case cc_ChangeType cc of
            AddNode \<Rightarrow> Some (addNode (cc_NodeId cc) (rn_Raft rn))
          | RemoveNode \<Rightarrow> removeNode (cc_NodeId cc) (rn_Raft rn));
     Some (\<lparr>cs_Nodes = nodes r\<rparr>, rn\<lparr>rn_Raft := r\<rparr>)
   }"

definition rn_Step :: "Message \<Rightarrow> 's RawNode \<Rightarrow> (raft_error option \<times> 's RawNode) option" where
  "rn_Step m rn =
     (if IsLocalMsg (m_MsgType m) then Some (Some ErrStepLocalMsg, rn)
      else if get_pr (m_From m) (rn_Raft rn) \<noteq> None \<or> \<not> IsResponseMsg (m_MsgType m)
      then map_option (Pair None) (rn_lift (Step m) rn)
      else Some (Some ErrStepPeerNotFound, rn))"

definition rn_Ready :: "'s RawNode \<Rightarrow> (Ready \<times> 's RawNode) option" where
  "rn_Ready rn = do {
     let r = rn_Raft rn;
     ents \<leftarrow> unstableEntries (r_RaftLog r);
     cents \<leftarrow> nextEnts (r_RaftLog r);
     let soft = raft_SoftState r;
     let hard = raft_HardState r;
     let pend = pendingSnapshot (r_RaftLog r);
     let rd = \<lparr>rd_SoftState = (if SoftState_equal (prevSoftState rn) soft then None else Some soft),
               rd_HardState = (if HardState_Equal (prevHardState rn) hard then zero_HardState else hard),
               rd_Entries = ents,
               rd_Snapshot = (if IsEmptySnap pend then zero_Snapshot else the pend),
               rd_CommittedEntries = cents,
               rd_Messages = msgs r\<rparr>;
     let l = (r_RaftLog r)\<lparr>pendingSnapshot := (if IsEmptySnap pend then pend else None)\<rparr>;
     Some (rd, rn\<lparr>rn_Raft := r\<lparr>msgs := [], r_RaftLog := l\<rparr>,
       prevSoftState := (if SoftState_equal (prevSoftState rn) soft then prevSoftState rn else soft),
       prevHardState := (if HardState_Equal (prevHardState rn) hard then prevHardState rn else hard)\<rparr>)
   }"

text \<open>The last condition of \<open>HasReady\<close> is a short-circuit disjunction, evaluated from the left.\<close>

definition HasReady :: "'s RawNode \<Rightarrow> bool option" where
  "HasReady rn =
     (let r = rn_Raft rn; hard = raft_HardState r in
      if \<not> SoftState_equal (raft_SoftState r) (prevSoftState rn) then Some True
      else if \<not> HardState_IsEmpty hard \<and> \<not> HardState_Equal hard (prevHardState rn) then Some True
      else if \<not> IsEmptySnap (pendingSnapshot (r_RaftLog r)) then Some True
      else if msgs r \<noteq> [] \<or> hasUnstableEnts (r_RaftLog r) then Some True
      else hasNextEnts (r_RaftLog r))"

definition Advance :: "Ready \<Rightarrow> 's RawNode \<Rightarrow> 's RawNode option" where
  "Advance rd rn = do {
     let l = r_RaftLog (rn_Raft rn);
     let l = (if rd_Entries rd \<noteq> [] then l\<lparr>stabled := e_Index (last (rd_Entries rd))\<rparr> else l);
     let l = (if rd_CommittedEntries rd \<noteq> []
              then l\<lparr>applied := e_Index (last (rd_CommittedEntries rd))\<rparr> else l);
     l \<leftarrow> maybeCompact l;
     Some (rn\<lparr>rn_Raft := (rn_Raft rn)\<lparr>r_RaftLog := l\<rparr>\<rparr>)
   }"

definition GetProgress :: "'s RawNode \<Rightarrow> (u64, Progress) fmap" where
  "GetProgress rn = (if r_State (rn_Raft rn) = StateLeader then Prs (rn_Raft rn) else fmempty)"

definition TransferLeader :: "u64 \<Rightarrow> 's RawNode \<Rightarrow> 's RawNode option" where
  "TransferLeader transferee rn =
     rn_lift (Step (zero_Message\<lparr>m_MsgType := MsgTransferLeader, m_From := transferee\<rparr>)) rn"

section \<open>Ready and Advance\<close>

lemma log_range_last:
  assumes "log_wf l" "lastIdxOfSnapshot l \<le> lo" "lo < hi" "hi \<le> LastIndex l"
  shows "log_range l lo hi \<noteq> [] \<and> e_Index (last (log_range l lo hi)) = hi"
proof -
  have "log_range l lo hi = log_range l lo (hi - 1) @ [the (log_view l hi)]"
    using assms(3) by (simp add: log_range_def less_eq_Suc_le[symmetric])
  moreover have "e_Index (the (log_view l hi)) = hi"
    using assms by (auto simp: log_view_def LastIndex_eq log_wf_def contig_nth)
  ultimately show ?thesis by simp
qed

text \<open>Compaction of a log whose storage has dropped no more than what is applied.\<close>

lemma maybeCompact_ok:
  assumes ok: "log_ok l" and first: "so_FirstIndex (storage_ops l) (storage l) = Some (Inr fi)"
    and fi: "0 < fi" "fi \<le> Suc (applied l)" "fi \<le> Suc (stabled l)"
    "fi \<le> LastIndex l \<or> fi \<le> Suc (lastIdxOfSnapshot l)"
  shows "\<exists>l'. maybeCompact l = Some l' \<and> log_ok l' \<and> LastIndex l' = LastIndex l \<and>
    committed l' = committed l \<and> applied l' = applied l \<and> stabled l' = stabled l \<and>
    storage_ops l' = storage_ops l \<and> storage l' = storage l \<and> pendingSnapshot l' = pendingSnapshot l"
proof (cases "fi \<le> Suc (lastIdxOfSnapshot l)")
  case True
  have "fi < 2 ^ 64" using True log_okE(6,7)[OF ok] by simp
  then show ?thesis using maybeCompact_idle[OF first fi(1) _ True] ok by simp
next
  case False
  have wf: "log_wf l" using ok by (rule log_ok_wf)
  have pre: "Suc (lastIdxOfSnapshot l) < fi" "fi \<le> LastIndex l" using False fi(4) by auto
  obtain l' where l': "maybeCompact l = Some l'" "log_wf l'" "lastIdxOfSnapshot l' = fi - 1"
    using maybeCompact_view[OF wf first pre] by blast
  have eq: "l' = l\<lparr>lastTermOfSnapshot := the (term_view l (fi - 1)),
      entries := drop (fi - 1 - lastIdxOfSnapshot l) (entries l), lastIdxOfSnapshot := fi - 1\<rparr>"
    using l'(1) maybeCompact_eq[OF wf first pre] by simp
  have "log_ok l'" using l'(2,3) ok fi by (auto simp: log_ok_def eq)
  moreover have "LastIndex l' = LastIndex l"
    using LastIndex_eq[OF l'(2)] LastIndex_eq[OF wf] pre by (simp add: eq)
  ultimately show ?thesis using l'(1) eq by simp
qed

context raft_storage
begin

lemma Ready_Advance:
  assumes ok: "raft_ok ops inv (rn_Raft rn)"
  defines "l \<equiv> r_RaftLog (rn_Raft rn)"
  assumes first: "fi (storage l) \<le> Suc (committed l)"
    "fi (storage l) \<le> LastIndex l \<or> fi (storage l) \<le> Suc (lastIdxOfSnapshot l)"
  shows "\<exists>rd rn1 rn2. rn_Ready rn = Some (rd, rn1) \<and> Advance rd rn1 = Some rn2 \<and>
    rd_Entries rd = log_range l (stabled l) (LastIndex l) \<and>
    rd_CommittedEntries rd = log_range l (applied l) (committed l) \<and>
    rd_Messages rd = msgs (rn_Raft rn) \<and>
    raft_ok ops inv (rn_Raft rn2) \<and> committed (r_RaftLog (rn_Raft rn2)) = committed l \<and>
    applied (r_RaftLog (rn_Raft rn2)) = committed l \<and> stabled (r_RaftLog (rn_Raft rn2)) = LastIndex l \<and>
    HasReady rn2 = Some False"
proof -
  have lok: "log_ok l" and st: "storage_ops l = ops" "inv (storage l)"
    using ok by (simp_all add: raft_ok_def l_def)
  note L = log_okE[OF lok] and wf = log_ok_wf[OF lok]
  have u: "unstableEntries l = Some (log_range l (stabled l) (LastIndex l))"
    using unstableEntries_range[OF wf] L(4) by (simp add: max_def)
  have n: "nextEnts l = Some (log_range l (applied l) (committed l))"
    using nextEnts_range[OF wf L(2)] L(1) order.trans[OF L(1,2)] by (simp add: max_absorb1)
  obtain rd rn1 where r1: "rn_Ready rn = Some (rd, rn1)"
    and rd: "rd_Entries rd = log_range l (stabled l) (LastIndex l)"
      "rd_CommittedEntries rd = log_range l (applied l) (committed l)" "rd_Messages rd = msgs (rn_Raft rn)"
    using u n by (simp add: rn_Ready_def l_def Let_def)
  define ps where "ps = (if IsEmptySnap (pendingSnapshot l) then pendingSnapshot l else None)"
  have f1: "r_RaftLog (rn_Raft rn1) = l\<lparr>pendingSnapshot := ps\<rparr>" "msgs (rn_Raft rn1) = []"
      "Prs (rn_Raft rn1) = Prs (rn_Raft rn)" "peers (rn_Raft rn1) = peers (rn_Raft rn)"
      "electionTimeout (rn_Raft rn1) = electionTimeout (rn_Raft rn)"
    using r1 u n by (auto simp: rn_Ready_def l_def[symmetric] Let_def ps_def)
  have prev: "SoftState_equal (raft_SoftState (rn_Raft rn1)) (prevSoftState rn1)"
      "prevHardState rn1 = raft_HardState (rn_Raft rn1)"
    using r1 u n
    by (auto simp: rn_Ready_def l_def[symmetric] Let_def SoftState_equal_def raft_SoftState_def raft_HardState_def)
  define l2 where "l2 = l\<lparr>pendingSnapshot := ps, stabled := LastIndex l, applied := committed l\<rparr>"
  have st2: "(if rd_Entries rd \<noteq> [] then l\<lparr>pendingSnapshot := ps, stabled := e_Index (last (rd_Entries rd))\<rparr>
      else l\<lparr>pendingSnapshot := ps\<rparr>) = l\<lparr>pendingSnapshot := ps, stabled := LastIndex l\<rparr>"
    using log_range_last[OF wf L(4) _ order.refl] L(5)
    by (cases "stabled l = LastIndex l") (auto simp: rd log_range_empty)
  have ap2: "(if rd_CommittedEntries rd \<noteq> []
      then l\<lparr>pendingSnapshot := ps, stabled := LastIndex l, applied := e_Index (last (rd_CommittedEntries rd))\<rparr>
      else l\<lparr>pendingSnapshot := ps, stabled := LastIndex l\<rparr>) = l2"
    using log_range_last[OF wf L(1) _ L(3)] L(2)
    by (cases "applied l = committed l") (auto simp: rd log_range_empty l2_def)
  have lok2: "log_ok l2" using lok L by (auto simp: log_ok_def log_wf_def l2_def)
  have last2: "LastIndex l2 = LastIndex l" by (simp add: l2_def LastIndex_def)
  have "\<exists>l3. maybeCompact l2 = Some l3 \<and> log_ok l3 \<and> LastIndex l3 = LastIndex l2 \<and>
    committed l3 = committed l2 \<and> applied l3 = applied l2 \<and> stabled l3 = stabled l2 \<and>
    storage_ops l3 = storage_ops l2 \<and> storage l3 = storage l2 \<and> pendingSnapshot l3 = pendingSnapshot l2"
    using FirstIndex[OF st(2)] range[OF st(2)] first L(3) st(1) last2
    by (intro maybeCompact_ok[OF lok2]) (auto simp: l2_def)
  then obtain l3 where l3: "maybeCompact l2 = Some l3" "log_ok l3" "LastIndex l3 = LastIndex l"
      "committed l3 = committed l" "applied l3 = committed l" "stabled l3 = LastIndex l"
      "storage_ops l3 = ops" "storage l3 = storage l" "pendingSnapshot l3 = ps"
    using last2 st(1) by (auto simp: l2_def)
  define rn2 where "rn2 = rn1\<lparr>rn_Raft := (rn_Raft rn1)\<lparr>r_RaftLog := l3\<rparr>\<rparr>"
  have adv: "Advance rd rn1 = Some rn2"
    unfolding Advance_def Let_def f1(1) st2 ap2 l3(1) Option.bind.simps(2) rn2_def ..
  have ok2: "raft_ok ops inv (rn_Raft rn2)" using ok f1 l3 st by (simp add: raft_ok_def rn2_def)
  have "realIdx l3 (committed l) = realIdx l3 (applied l3)" "\<exists>i. realIdx l3 (applied l3) = Some i"
    using l3(5) realIdx_eq[OF log_ok_wf[OF l3(2)]] log_okE(2,3)[OF l3(2)] by auto
  then have "hasNextEnts l3 = Some False" using l3(4,5) by (auto simp: hasNextEnts_def)
  moreover have "IsEmptySnap ps" by (simp add: ps_def IsEmptySnap_def)
  moreover have "raft_HardState (rn_Raft rn2) = prevHardState rn2"
      "SoftState_equal (raft_SoftState (rn_Raft rn2)) (prevSoftState rn2)"
    using prev l3(4) f1(1) by (auto simp: rn2_def raft_HardState_def raft_SoftState_def)
  ultimately have "HasReady rn2 = Some False"
    using f1(2) l3 by (simp add: HasReady_def Let_def rn2_def hasUnstableEnts_def)
  then show ?thesis using r1 adv rd ok2 l3 by (auto simp: rn2_def)
qed

end

end
