(* ===== verification/Raft_Safety.thy ===== *)
theory Raft_Safety
  imports Raw_Node "HOL-Library.Code_Target_Nat"
begin

text \<open>
  The properties of the consensus module, stated over the memory storage where they need one. The
  state \<open>demo_raft\<close> of a freshly created peer serves as the concrete state of the witnesses.
\<close>

section \<open>A freshly created peer\<close>

definition demo_config :: "u64 \<Rightarrow> u64 list \<Rightarrow> MemoryStorage Config" where
  "demo_config i ps = \<lparr>c_ID = i, c_peers = Some ps, c_ElectionTick = 10, c_HeartbeatTick = 1,
     c_Storage = Some (memory_storage_ops, NewMemoryStorage), c_Applied = 0\<rparr>"

definition demo_log :: "MemoryStorage RaftLog" where
  "demo_log = \<lparr>storage_ops = memory_storage_ops, storage = NewMemoryStorage, committed = 0,
     applied = 0, stabled = 0, entries = [], pendingSnapshot = None, lastIdxOfSnapshot = 0,
     lastTermOfSnapshot = 0\<rparr>"

definition demo_raft :: "u64 \<Rightarrow> u64 list \<Rightarrow> MemoryStorage Raft" where
  "demo_raft i ps = \<lparr>r_id = i, r_Term = 0, r_Vote = 0, VoteTotal = 0, VoteReceived = 0,
     r_RaftLog = demo_log, Prs = fold (\<lambda>p. fmupd p \<lparr>p_Match = 0, p_Next = 1\<rparr>) ps fmempty,
     r_State = StateFollower, votes = fmempty, msgs = [], r_Lead = 0, heartbeatTimeout = 1,
     electionTimeout = 10, electionTimeoutRandom = 10, heartbeatElapsed = 0, electionElapsed = 0,
     leadTransferee = 0, PendingConfIndex = 0, peers = ps, rand_src = (\<lambda>_. 0)\<rparr>"

lemma newLog_demo: "newLog memory_storage_ops NewMemoryStorage = Some demo_log"
  by (simp add: newLog_def demo_log_def memory_storage_ops_def ms_FirstIndex_def ms_firstIndex_def
      ms_LastIndex_def ms_lastIndex_def ms_Entries_def ms_Term_def ms_InitialState_def
      NewMemoryStorage_def zero_Entry_def zero_HardState_def value_or_def errPanic_def
      u64_add_def u64_sub_def u64_to_int_def Let_def)

lemma newRaft_demo: "i \<noteq> 0 \<Longrightarrow> newRaft (demo_config i ps) (\<lambda>_. 0) = Some (demo_raft i ps)"
  by (simp add: newRaft_def demo_config_def Config_validate_def None_id_def rand_mod_def newLog_demo
      demo_raft_def rand_next_def)
    (simp add: memory_storage_ops_def ms_InitialState_def NewMemoryStorage_def errPanic_def
      zero_HardState_def demo_log_def LastIndex_def u64_add_def)

lemma demo_raft_ok: "raft_ok memory_storage_ops ms_wf (demo_raft i ps)"
  using NewMemoryStorage_wf
  by (simp add: raft_ok_def demo_raft_def demo_log_def log_ok_def log_wf_def fmlookup_fold_upd)

section \<open>Creation\<close>

context raft_storage
begin

lemma newRaft_ok:
  assumes st: "c_Storage c = Some (ops, s)" "inv s" "so_InitialState ops s = Some (Inr (hs, cs))"
    and bound: "Suc (li s) < 2 ^ 63" "fi s - 1 \<le> hs_Commit hs" "hs_Commit hs \<le> li s" "c_Applied c \<le> hs_Commit hs"
    and valid: "Config_validate c = None"
  shows "\<exists>r. newRaft c src = Some r \<and> raft_ok ops inv r \<and> r_State r = StateFollower \<and> r_id r = c_ID c \<and>
    raft_HardState r = hs \<and> LastIndex (r_RaftLog r) = li s \<and> storage (r_RaftLog r) = s \<and> PendingConfIndex r = 0 \<and>
    stabled (r_RaftLog r) = li s \<and> msgs r = [] \<and> pendingSnapshot (r_RaftLog r) = None \<and>
    peers r = (case c_peers c of None \<Rightarrow> cs_Nodes cs | Some ps \<Rightarrow> ps)"
proof -
  from newLog_recovers[OF st(2,3) bound(3,1)]
  obtain l where l: "newLog ops s = Some l" "log_wf l" "LastIndex l = li s"
      "stabled l = li s" "lastIdxOfSnapshot l = fi s - 1" "applied l = fi s - 1"
      "committed l = hs_Commit hs" "storage_ops l = ops" "storage l = s" "pendingSnapshot l = None"
    by auto
  have bl: "fi s - 1 \<le> li s" using bound(2,3) by linarith
  define l' where "l' = (case c_peers c of
      None \<Rightarrow> l\<lparr>applied := raft_max (c_Applied c) (applied l)\<rparr> | Some _ \<Rightarrow> l)"
  have l': "log_ok (l'\<lparr>committed := hs_Commit hs\<rparr>)"
    using l bound bl LastIndex_eq[OF l(2)]
    by (auto simp: l'_def log_ok_def log_wf_def split: option.splits)
  have LI: "LastIndex l' = li s" "LastIndex (l'\<lparr>committed := x\<rparr>) = li s" for x
    using l(3) by (auto simp: l'_def LastIndex_def split: option.splits)
  have sto: "storage_ops l' = ops" "storage l' = s" "stabled l' = li s" "pendingSnapshot l' = None"
    using l by (auto simp: l'_def split: option.splits)
  have el: "0 < c_ElectionTick c" using valid by (auto simp: Config_validate_def split: if_splits)
  then obtain rnd where rnd: "rand_mod src (c_ElectionTick c) = Some rnd" by (auto simp: rand_mod_def)
  show ?thesis
    using valid rnd l(1) l' sto LI st el
    by (simp add: newRaft_def errPanic_def raft_ok_def raft_HardState_def fmlookup_fold_upd
        l'_def[symmetric] Let_def split: option.splits)
qed

end

text \<open>
  A peer created by \<open>newRaft\<close> from a valid configuration over a well-formed memory
  storage, whose hard state commits at least the compacted and at most the stored entries, is in
  the invariant: its log is well formed, it has a progress for every peer of the configuration it
  was given, and it starts as a follower in the stored term with the stored vote. A configuration
  that does not validate makes it panic.
\<close>

theorem newRaft_establishes:
  assumes "c_Storage c = Some (memory_storage_ops, ms)" "ms_wf ms" "Suc (ms_li ms) < 2 ^ 63"
    and "ms_base ms \<le> hs_Commit (ms_hardState ms)" "hs_Commit (ms_hardState ms) \<le> ms_li ms"
    and "c_Applied c \<le> hs_Commit (ms_hardState ms)"
  shows "(Config_validate c = None \<longrightarrow> (\<exists>r. newRaft c src = Some r \<and>
      raft_ok memory_storage_ops ms_wf r \<and> r_State r = StateFollower \<and> r_id r = c_ID c \<and>
      raft_HardState r = ms_hardState ms \<and> LastIndex (r_RaftLog r) = ms_li ms)) \<and>
    (Config_validate c \<noteq> None \<longrightarrow> newRaft c src = None)"
proof -
  obtain cs where init: "so_InitialState memory_storage_ops ms = Some (Inr (ms_hardState ms, cs))"
    using assms(2) by (auto simp: ms_wf_def memory_storage_ops_def ms_InitialState_def)
  have base: "ms_fi ms - 1 = ms_base ms" by simp
  show ?thesis
    using ms.newRaft_ok[OF assms(1,2) init assms(3) _ assms(5,6)] assms(4)
    by (cases "Config_validate c") (auto simp: newRaft_def)
qed

theorem newRaft_establishes_witness:
  "\<exists>r. newRaft (demo_config 1 [1, 2, 3]) (\<lambda>_. 7) = Some r \<and> raft_ok memory_storage_ops ms_wf r \<and>
     r_State r = StateFollower"
  using newRaft_establishes[of "demo_config 1 [1, 2, 3]" NewMemoryStorage "\<lambda>_. 7"] NewMemoryStorage_wf
  by (auto simp: demo_config_def NewMemoryStorage_def ms_base_def zero_Entry_def zero_HardState_def
      Config_validate_def None_id_def)

section \<open>Steps\<close>

text \<open>
  C2 (safety): \<open>RawNode.Step\<close> never panics. Over a memory storage, for a peer in the invariant, a
  message that is local, that is a response of an unknown peer, or that is admissible is handled:
  the call returns, with the errors for the first two kinds and none for the third, the peer is in
  the invariant again and its committed index has not moved back.
\<close>

theorem rn_Step_safe:
  assumes "raft_ok memory_storage_ops ms_wf (rn_Raft rn)"
    and "IsLocalMsg (m_MsgType m) \<or>
      IsResponseMsg (m_MsgType m) \<and> get_pr (m_From m) (rn_Raft rn) = None \<or> msg_ok (rn_Raft rn) m"
  shows "\<exists>err rn'. rn_Step m rn = Some (err, rn') \<and> raft_ok memory_storage_ops ms_wf (rn_Raft rn') \<and>
    committed (r_RaftLog (rn_Raft rn)) \<le> committed (r_RaftLog (rn_Raft rn')) \<and>
    err = (if IsLocalMsg (m_MsgType m) then Some ErrStepLocalMsg
           else if IsResponseMsg (m_MsgType m) \<and> get_pr (m_From m) (rn_Raft rn) = None
           then Some ErrStepPeerNotFound else None)"
  using assms ms.Step_ok[OF assms(1), of m]
  by (auto simp: rn_Step_def rn_lift_def)

theorem rn_Step_safe_witness:
  "\<exists>err rn'. rn_Step (zero_Message\<lparr>m_MsgType := MsgAppend, m_From := 2, m_Term := 1, m_Commit := 1,
       m_Entries := [zero_Entry\<lparr>e_Term := 1, e_Index := 1\<rparr>]\<rparr>)
     \<lparr>rn_Raft = demo_raft 1 [1, 2, 3], prevSoftState = \<lparr>ss_Lead = 0, ss_RaftState = StateFollower\<rparr>,
      prevHardState = zero_HardState\<rparr> = Some (err, rn') \<and> err = None"
  using rn_Step_safe[of "\<lparr>rn_Raft = demo_raft 1 [1, 2, 3],
      prevSoftState = \<lparr>ss_Lead = 0, ss_RaftState = StateFollower\<rparr>, prevHardState = zero_HardState\<rparr>"
      "zero_Message\<lparr>m_MsgType := MsgAppend, m_From := 2, m_Term := 1, m_Commit := 1,
       m_Entries := [zero_Entry\<lparr>e_Term := 1, e_Index := 1\<rparr>]\<rparr>"] demo_raft_ok[of 1 "[1, 2, 3]"]
  by (auto simp: msg_ok_def append_ok_def zero_Message_def zero_Entry_def demo_raft_def demo_log_def
      LastIndex_def IsLocalMsg_def IsResponseMsg_def)

section \<open>Replication\<close>

lemma merged_entries:
  assumes "log_wf l" "term_view l (m_Index m) = Some t" "contig (Suc (m_Index m)) (m_Entries m)"
    and "\<forall>d \<in> set (entries l). \<forall>e \<in> set (m_Entries m).
      e_Index d = e_Index e \<and> e_Term d = e_Term e \<longrightarrow> d = e"
  shows "entries (merged m l) = take (m_Index m - lastIdxOfSnapshot l) (entries l) @
    ref_append (drop (m_Index m - lastIdxOfSnapshot l) (entries l)) (m_Entries m)"
proof -
  let ?k = "m_Index m - lastIdxOfSnapshot l"
  have r: "lastIdxOfSnapshot l \<le> m_Index m" "m_Index m \<le> lastIdxOfSnapshot l + length (entries l)"
    using term_view_range[OF assms(2,1)] by (simp_all add: LastIndex_eq[OF assms(1)])
  have "contig (Suc (lastIdxOfSnapshot l) + ?k) (drop ?k (entries l))"
    using assms(1) r by (intro contig_drop) (auto simp: log_wf_def)
  then have "contig (Suc (m_Index m)) (drop ?k (entries l))" using r by simp
  moreover have "\<forall>d \<in> set (drop ?k (entries l)). \<forall>e \<in> set (m_Entries m).
      e_Index d = e_Index e \<and> e_Term d = e_Term e \<longrightarrow> d = e"
    using assms(4) by (blast dest: in_set_dropD)
  ultimately have "ref_append (drop ?k (entries l)) (m_Entries m) = merge_tail (drop ?k (entries l)) (m_Entries m)"
    unfolding merge_tail_def by (intro ref_append_eq[OF _ assms(3)])
  then show ?thesis unfolding merged_def ae_merge_eq[OF assms(1-3)] by simp
qed

text \<open>
  C1 (refinement): the append handler implements the receiver rule of Raft. For a peer in the
  invariant and an admissible append request of a term that is not stale, whose entries agree with
  the log wherever index and term agree (the log matching property): if the log has the previous
  entry the request names, the entries after it become \<open>ref_append\<close> of the old ones and the new
  ones, the committed index becomes the larger of the old one and the smaller of the leader's
  commit and the last new index, and the reply accepts with the new last index; otherwise the log
  is left alone and the reply rejects. The peer is a follower of the request's term in both cases
  unless it already followed.
\<close>

theorem handleAppendEntries_refines:
  assumes "raft_ok memory_storage_ops ms_wf r" "append_ok (r_RaftLog r) m" "\<not> m_CommitUse m"
    and "r_Term r \<le> m_Term m"
    and "\<forall>d \<in> set (entries (r_RaftLog r)). \<forall>e \<in> set (m_Entries m).
      e_Index d = e_Index e \<and> e_Term d = e_Term e \<longrightarrow> d = e"
  shows "\<exists>r' reply. handleAppendEntries m r = Some r' \<and> raft_ok memory_storage_ops ms_wf r' \<and>
    r_Term r' = m_Term m \<and> msgs r' = msgs r @ [reply] \<and> m_To reply = m_From m \<and>
    (if term_view (r_RaftLog r) (m_Index m) = Some (m_LogTerm m)
     then let k = m_Index m - lastIdxOfSnapshot (r_RaftLog r) in
       entries (r_RaftLog r') = take k (entries (r_RaftLog r)) @
         ref_append (drop k (entries (r_RaftLog r))) (m_Entries m) \<and>
       committed (r_RaftLog r') = max (committed (r_RaftLog r))
         (min (m_Commit m) (m_Index m + length (m_Entries m))) \<and>
       \<not> m_Reject reply \<and> m_Index reply = LastIndex (r_RaftLog r')
     else r_RaftLog r' = r_RaftLog r \<and> m_Reject reply)"
proof (cases "term_view (r_RaftLog r) (m_Index m) = Some (m_LogTerm m)")
  case True
  have "log_wf (r_RaftLog r)" "contig (Suc (m_Index m)) (m_Entries m)"
    using assms(1,2,3) by (auto simp: raft_ok_def log_ok_def append_ok_def)
  from merged_entries[OF this(1) True this(2) assms(5)]
    ms.handleAppendEntries_accept[OF assms(1-4) True] True
  show ?thesis by (auto simp: Let_def zero_Message_def)
next
  case False
  then show ?thesis
    using ms.handleAppendEntries_reject[OF assms(1,3)] assms(4) by (fastforce simp: max_def)
qed

theorem handleAppendEntries_refines_witness:
  "\<exists>r'. handleAppendEntries (zero_Message\<lparr>m_MsgType := MsgAppend, m_From := 2, m_Term := 3, m_Commit := 1,
       m_Entries := [zero_Entry\<lparr>e_Term := 3, e_Index := 1\<rparr>]\<rparr>)
     ((demo_raft 1 [1, 2, 3])\<lparr>r_RaftLog := demo_log\<lparr>entries :=
       [zero_Entry\<lparr>e_Term := 1, e_Index := 1\<rparr>, zero_Entry\<lparr>e_Term := 1, e_Index := 2\<rparr>]\<rparr>\<rparr>) = Some r' \<and>
     entries (r_RaftLog r') = [zero_Entry\<lparr>e_Term := 3, e_Index := 1\<rparr>] \<and> committed (r_RaftLog r') = 1"
proof -
  define r where "r = (demo_raft 1 [1, 2, 3])\<lparr>r_RaftLog := demo_log\<lparr>entries :=
       [zero_Entry\<lparr>e_Term := 1, e_Index := 1\<rparr>, zero_Entry\<lparr>e_Term := 1, e_Index := 2\<rparr>]\<rparr>\<rparr>"
  define m where "m = zero_Message\<lparr>m_MsgType := MsgAppend, m_From := 2, m_Term := 3, m_Commit := 1,
       m_Entries := [zero_Entry\<lparr>e_Term := 3, e_Index := 1\<rparr>]\<rparr>"
  have ok: "raft_ok memory_storage_ops ms_wf r"
    using demo_raft_ok[of 1 "[1, 2, 3]"]
    by (simp add: r_def raft_ok_def demo_log_def log_ok_def log_wf_def demo_raft_def zero_Entry_def)
  have ap: "append_ok (r_RaftLog r) m" "\<not> m_CommitUse m" "r_Term r \<le> m_Term m"
    by (simp_all add: r_def m_def append_ok_def zero_Message_def zero_Entry_def demo_log_def demo_raft_def)
  have lm: "\<forall>d \<in> set (entries (r_RaftLog r)). \<forall>e \<in> set (m_Entries m).
      e_Index d = e_Index e \<and> e_Term d = e_Term e \<longrightarrow> d = e"
    by (simp add: r_def m_def zero_Message_def zero_Entry_def demo_log_def)
  have tv: "term_view (r_RaftLog r) (m_Index m) = Some (m_LogTerm m)"
    by (simp add: r_def m_def term_view_def demo_log_def zero_Message_def)
  from handleAppendEntries_refines[OF ok ap lm] tv show ?thesis
    unfolding r_def[symmetric] m_def[symmetric]
    by (auto simp: Let_def r_def m_def demo_log_def zero_Entry_def zero_Message_def)
qed

text \<open>
  An append request conflicts with the committed part of a log if it has an entry there whose term is
  not the one in the log.
\<close>

definition conflicts :: "'s RaftLog \<Rightarrow> Message \<Rightarrow> bool" where
  "conflicts l m \<longleftrightarrow> (\<exists>e \<in> set (m_Entries m). lastIdxOfSnapshot l < e_Index e \<and> e_Index e \<le> committed l \<and>
     term_view l (e_Index e) \<noteq> Some (e_Term e))"

text \<open>What an accepted request does to the log when it returns.\<close>

lemma handleAppendEntries_attached:
  assumes "\<not> m_CommitUse m" "r_Term r \<le> m_Term m" "log_wf (r_RaftLog r)"
    and tv: "term_view (r_RaftLog r) (m_Index m) = Some (m_LogTerm m)" and run: "handleAppendEntries m r = Some r'"
  shows "\<exists>c. r_RaftLog r' = (merged m (r_RaftLog r))\<lparr>committed := c\<rparr>"
proof -
  have at: "ae_attach m (r_RaftLog r) = Some (take (m_Index m - lastIdxOfSnapshot (r_RaftLog r)) (entries (r_RaftLog r)),
      drop (m_Index m - lastIdxOfSnapshot (r_RaftLog r)) (entries (r_RaftLog r)))"
    using ae_attach_eq[OF assms(3)] tv by simp
  have "r_RaftLog r' = (merged m (r_RaftLog r))\<lparr>committed := committed (r_RaftLog r')\<rparr>"
    using run assms(1,2) at
    by (auto simp: handleAppendEntries_def Let_def merged_def[symmetric] send_def becomeFollower_def split: if_splits elim!: bind_SomeE)
  then show ?thesis by blast
qed

lemma conflict_overwrites:
  assumes ok: "log_ok l" and tv: "term_view l (m_Index m) = Some t" and c: "contig (Suc (m_Index m)) (m_Entries m)"
    and conf: "conflicts l m"
  shows "\<exists>i \<le> committed l. log_view ((merged m l)\<lparr>committed := cc\<rparr>) i \<noteq> log_view l i"
proof -
  let ?b = "lastIdxOfSnapshot l" and ?k = "m_Index m - lastIdxOfSnapshot l"
  let ?ds = "drop ?k (entries l)" and ?es = "m_Entries m"
  have wf: "log_wf l" using ok by (rule log_ok_wf)
  have r: "?b \<le> m_Index m" "m_Index m \<le> ?b + length (entries l)"
    using term_view_range[OF tv wf] by (simp_all add: LastIndex_eq[OF wf])
  have last: "committed l \<le> ?b + length (entries l)" using log_okE(3,6)[OF ok] by simp
  have view: "log_view l (Suc (m_Index m) + j) = Some (?ds ! j)" if "Suc (m_Index m) + j \<le> committed l" for j
    using that last r by (auto simp: log_view_def)
  obtain j where j: "j < length ?es" "Suc (m_Index m) + j \<le> committed l" "e_Term (?ds ! j) \<noteq> e_Term (?es ! j)"
    using conf c r view by (auto simp: conflicts_def in_set_conv_nth contig_nth term_view_def)
  have "j < length ?ds" using j(2) last r by simp
  with j obtain q where q: "diff_at ?ds ?es = Some q" "q \<le> j"
    using diff_at_None diff_at_Some by (metis not_le_imp_less option.exhaust)
  note d = diff_at_Some[OF q(1)]
  have ents: "entries (merged m l) = take ?k (entries l) @ ?es" "lastIdxOfSnapshot (merged m l) = ?b"
    unfolding merged_def ae_merge_eq[OF wf tv c] using q(1) by (simp_all add: merge_tail_def)
  have "length (take ?k (entries l)) = ?k" using r by simp
  then have "(take ?k (entries l) @ ?es) ! (?k + q) = ?es ! q" by (metis nth_append_length_plus)
  moreover have "Suc (m_Index m) + q - ?b - 1 = ?k + q" using r by linarith
  ultimately have "log_view ((merged m l)\<lparr>committed := cc\<rparr>) (Suc (m_Index m) + q) = Some (?es ! q)"
    using d r by (simp add: log_view_def ents)
  moreover have "log_view l (Suc (m_Index m) + q) = Some (?ds ! q)" using q(2) j(2) by (intro view) simp
  ultimately show ?thesis using d q(2) j(2) by (intro exI[of _ "Suc (m_Index m) + q"]) auto
qed

lemma merged_committed_entries:
  assumes ok: "log_ok l" and ap: "append_ok l m" "\<not> m_CommitUse m" and tv: "term_view l (m_Index m) = Some t"
    and lm: "\<forall>d \<in> set (entries l). \<forall>e \<in> set (m_Entries m). e_Index d = e_Index e \<and> e_Term d = e_Term e \<longrightarrow> d = e"
    and i: "i \<le> committed l"
  shows "log_view (merged m l) i = log_view l i"
proof -
  let ?b = "lastIdxOfSnapshot l"
  have wf: "log_wf l" and wf': "log_wf (merged m l)" using ok merged_ok(1)[OF ok ap tv] by (simp_all add: log_ok_def)
  have c: "contig (Suc (m_Index m)) (m_Entries m)" using ap by (auto simp: append_ok_def)
  have base: "lastIdxOfSnapshot (merged m l) = ?b" by (rule merged_ok(4)[OF ok ap tv])
  have len: "i \<le> ?b + length (entries l)" "i \<le> ?b + length (entries (merged m l))"
    using i log_okE(3,6)[OF ok] log_okE(3,6)[OF merged_ok(1)[OF ok ap tv]] merged_ok(2,4)[OF ok ap tv] by simp_all
  show ?thesis
  proof (cases "i \<le> ?b")
    case True
    then show ?thesis by (simp add: log_view_def base)
  next
    case False
    let ?n = "i - ?b - 1"
    have n: "?n < length (entries l)" "?n < length (entries (merged m l))" using False len by auto
    have v: "log_view l i = Some (entries l ! ?n)" "log_view (merged m l) i = Some (entries (merged m l) ! ?n)"
      using False n by (auto simp: log_view_def base)
    have idx: "e_Index (entries l ! ?n) = i" "e_Index (entries (merged m l) ! ?n) = i"
      using False n wf wf' base by (auto simp: log_wf_def contig_nth)
    have terms: "e_Term (entries (merged m l) ! ?n) = e_Term (entries l ! ?n)"
      using merged_committed_terms[OF ok ap tv i] v False by (simp add: term_view_def base)
    have "entries (merged m l) ! ?n \<in> set (entries l) \<union> set (m_Entries m)"
      using nth_mem[OF n(2)] unfolding merged_def ae_merge_eq[OF wf tv c]
      by (auto simp: merge_tail_def dest: in_set_takeD in_set_dropD split: if_splits)
    then have "entries (merged m l) ! ?n = entries l ! ?n"
    proof
      assume "entries (merged m l) ! ?n \<in> set (m_Entries m)"
      then show ?thesis using lm n(1) idx terms by (metis nth_mem)
    next
      assume "entries (merged m l) ! ?n \<in> set (entries l)"
      then obtain k where k: "k < length (entries l)" "entries l ! k = entries (merged m l) ! ?n" by (auto simp: in_set_conv_nth)
      then have "Suc ?b + k = i" using idx(2) wf by (auto simp: log_wf_def contig_nth)
      then show ?thesis using k by auto
    qed
    then show ?thesis using v by simp
  qed
qed

text \<open>
  C5 (safety): when committed entries survive an append. Take a peer in the invariant and any append request
  (not a commit notice) with consecutive entries within the range of indices, whose entries equal those of the
  log wherever index and term agree (log matching). Unless the request is accepted and conflicts with the
  committed part of the log, the handler returns, the invariant is kept, the committed index does not decrease and every
  entry up to it is the one it was. An accepted request that does conflict is not refused: whenever
  the handler returns, some committed entry has been replaced. The handler itself has no check that
  protects them, they are safe exactly as long as leaders do not send such requests.
\<close>

theorem handleAppendEntries_committed:
  assumes ok: "raft_ok memory_storage_ops ms_wf r" and m: "\<not> m_CommitUse m" "contig (Suc (m_Index m)) (m_Entries m)"
      "Suc (m_Index m + length (m_Entries m)) < 2 ^ 63"
    and lm: "\<forall>d \<in> set (entries (r_RaftLog r)). \<forall>e \<in> set (m_Entries m). e_Index d = e_Index e \<and> e_Term d = e_Term e \<longrightarrow> d = e"
  shows "if r_Term r \<le> m_Term m \<and> term_view (r_RaftLog r) (m_Index m) = Some (m_LogTerm m) \<and> conflicts (r_RaftLog r) m
    then \<forall>r'. handleAppendEntries m r = Some r' \<longrightarrow>
      (\<exists>i \<le> committed (r_RaftLog r). log_view (r_RaftLog r') i \<noteq> log_view (r_RaftLog r) i)
    else \<exists>r'. handleAppendEntries m r = Some r' \<and> raft_ok memory_storage_ops ms_wf r' \<and>
      committed (r_RaftLog r) \<le> committed (r_RaftLog r') \<and>
      (\<forall>i \<le> committed (r_RaftLog r). log_view (r_RaftLog r') i = log_view (r_RaftLog r) i)"
proof -
  let ?l = "r_RaftLog r"
  have lok: "log_ok ?l" using ok by (simp add: raft_ok_def)
  have cc: "log_view (l\<lparr>committed := c\<rparr>) = log_view l" for l :: "MemoryStorage RaftLog" and c by (simp add: log_view_def fun_eq_iff)
  consider "m_Term m < r_Term r \<or> term_view ?l (m_Index m) \<noteq> Some (m_LogTerm m)"
    | "r_Term r \<le> m_Term m" "term_view ?l (m_Index m) = Some (m_LogTerm m)" "conflicts ?l m"
    | "r_Term r \<le> m_Term m" "term_view ?l (m_Index m) = Some (m_LogTerm m)" "\<not> conflicts ?l m" by linarith
  then show ?thesis
  proof cases
    case 1
    then show ?thesis using ms.handleAppendEntries_reject[OF ok m(1)] by auto
  next
    case 2
    then show ?thesis
      using handleAppendEntries_attached[OF m(1) 2(1) log_ok_wf[OF lok] 2(2)] conflict_overwrites[OF lok 2(2) m(2) 2(3)] by (auto simp: 2)
  next
    case 3
    have ap: "append_ok ?l m" using m 3(3) by (auto simp: append_ok_def conflicts_def)
    then show ?thesis
      using ms.handleAppendEntries_accept[OF ok ap m(1) 3(1,2)] merged_committed_entries[OF lok ap m(1) 3(2) lm] 3(3)
      by (auto simp: cc)
  qed
qed

text \<open>A follower with one committed entry of term 1, and requests of term 2 that agree or conflict with it.\<close>

definition demo_committed :: "MemoryStorage Raft" where
  "demo_committed = (demo_raft 1 [1, 2, 3])\<lparr>r_Term := 1, r_RaftLog := demo_log\<lparr>
     entries := [zero_Entry\<lparr>e_Term := 1, e_Index := 1, e_Data := Some [7]\<rparr>], committed := 1\<rparr>\<rparr>"

definition demo_request :: "Entry list \<Rightarrow> Message" where
  "demo_request es = zero_Message\<lparr>m_MsgType := MsgAppend, m_From := 2, m_Term := 2, m_Entries := es\<rparr>"

theorem handleAppendEntries_committed_witness:
  "(\<exists>r'. handleAppendEntries (demo_request [zero_Entry\<lparr>e_Term := 1, e_Index := 1, e_Data := Some [7]\<rparr>,
       zero_Entry\<lparr>e_Term := 2, e_Index := 2\<rparr>]) demo_committed = Some r' \<and>
     log_view (r_RaftLog r') 1 = Some (zero_Entry\<lparr>e_Term := 1, e_Index := 1, e_Data := Some [7]\<rparr>)) \<and>
   (\<exists>r'. handleAppendEntries (demo_request [zero_Entry\<lparr>e_Term := 2, e_Index := 1\<rparr>]) demo_committed = Some r' \<and>
     (\<exists>i \<le> 1. log_view (r_RaftLog r') i \<noteq> log_view (r_RaftLog demo_committed) i))"
proof -
  have ok: "raft_ok memory_storage_ops ms_wf demo_committed"
    using demo_raft_ok[of 1 "[1, 2, 3]"]
    by (simp add: demo_committed_def raft_ok_def demo_log_def log_ok_def log_wf_def demo_raft_def zero_Entry_def)
  let ?e = "zero_Entry\<lparr>e_Term := 1, e_Index := 1, e_Data := Some [7]\<rparr>" and ?f = "zero_Entry\<lparr>e_Term := 2, e_Index := 2\<rparr>"
    and ?g = "zero_Entry\<lparr>e_Term := 2, e_Index := 1\<rparr>"
  have f: "committed (r_RaftLog demo_committed) = 1" "entries (r_RaftLog demo_committed) = [?e]" "r_Term demo_committed = 1"
      "term_view (r_RaftLog demo_committed) 0 = Some 0" "log_view (r_RaftLog demo_committed) 1 = Some ?e"
      "lastIdxOfSnapshot (r_RaftLog demo_committed) = 0" "term_view (r_RaftLog demo_committed) 1 = Some 1"
    by (simp_all add: demo_committed_def demo_log_def term_view_def log_view_def)
  have m: "\<not> m_CommitUse (demo_request es)" "m_Index (demo_request es) = 0" "m_LogTerm (demo_request es) = 0"
      "m_Term (demo_request es) = 2" "m_Entries (demo_request es) = es" for es
    by (simp_all add: demo_request_def zero_Message_def)
  have ix: "e_Index ?e = 1" "e_Term ?e = 1" "e_Index ?f = 2" "e_Term ?f = 2" "e_Index ?g = 1" "e_Term ?g = 2" by simp_all
  have nc: "\<not> conflicts (r_RaftLog demo_committed) (demo_request [?e, ?f])" and cf: "conflicts (r_RaftLog demo_committed) (demo_request [?g])"
    by (simp_all add: conflicts_def m f f(7)[unfolded One_nat_def])
  obtain r1 where r1: "handleAppendEntries (demo_request [?e, ?f]) demo_committed = Some r1" "log_view (r_RaftLog r1) 1 = Some ?e"
    using handleAppendEntries_committed[OF ok m(1), of "[?e, ?f]"] nc unfolding m f(1,2) f(5)[symmetric] by auto
  obtain r2 where r2: "handleAppendEntries (demo_request [?g]) demo_committed = Some r2"
  proof -
    have "\<not> Option.is_none (handleAppendEntries (demo_request [?g]) demo_committed)" by code_simp
    then show ?thesis using that by (auto simp: Option.is_none_def)
  qed
  have "\<exists>i \<le> 1. log_view (r_RaftLog r2) i \<noteq> log_view (r_RaftLog demo_committed) i"
    using handleAppendEntries_committed[OF ok m(1), of "[?g]"] cf r2 unfolding m f(1,2,3,4) by auto
  with r1 r2 show ?thesis by blast
qed

text \<open>
  C4 (safety): the leader's commit rule. When an accepted append moves the committed index of a peer in the
  invariant, whose configuration has no duplicates and contains the peer and, as another member,
  the acknowledging follower, it moves up to exactly the acknowledged index; the entry there is not of an
  older term than the leader's, and is of the leader's own term if its log has no entry of a
  later one; and a strict majority of the configuration, counting the leader
  itself, has a match index that reaches it. (The handler counts the leader and the sender without looking
  them up in the configuration, so both memberships are needed.)
\<close>

theorem commit_needs_majority:
  assumes "raft_ok memory_storage_ops ms_wf r" "get_pr (m_From m) r \<noteq> None"
    and "m_Index m \<le> LastIndex (r_RaftLog r)" "handleAppendAccepted m r = Some r'"
    and "distinct (peers r)" "r_id r \<in> set (peers r)" "m_From m \<in> set (peers r)" "m_From m \<noteq> r_id r"
    and "committed (r_RaftLog r') \<noteq> committed (r_RaftLog r)"
  shows "committed (r_RaftLog r') = m_Index m \<and> committed (r_RaftLog r) < m_Index m \<and>
    (\<exists>t. term_view (r_RaftLog r) (m_Index m) = Some t \<and> r_Term r \<le> t \<and>
      ((\<forall>e \<in> set (entries (r_RaftLog r)). e_Term e \<le> r_Term r) \<longrightarrow> t = r_Term r)) \<and>
    length (peers r) < 2 * card {p \<in> set (peers r). p = r_id r \<or>
      (\<exists>pr. fmlookup (Prs r') p = Some pr \<and> m_Index m \<le> p_Match pr)}"
proof -
  let ?Q = "\<lambda>p. p \<noteq> m_From m \<and> p \<noteq> r_id r \<and> p_Match (the (fmlookup (Prs r') p)) \<ge> m_Index m"
  let ?S = "{p \<in> set (peers r). p = r_id r \<or>
      (\<exists>pr. fmlookup (Prs r') p = Some pr \<and> m_Index m \<le> p_Match pr)}"
  have post: "raft_ok memory_storage_ops ms_wf r'" "same_role r r'"
      "committed (r_RaftLog r') = m_Index m" "committed (r_RaftLog r) < m_Index m"
      "\<exists>t. term_view (r_RaftLog r) (m_Index m) = Some t \<and> r_Term r \<le> t"
      "\<exists>p. fmlookup (Prs r') (m_From m) = Some p \<and> p_Match p = m_Index m"
      "length (peers r) < 2 * (2 + length (filter ?Q (peers r)))"
    using ms.handleAppendAccepted_ok[OF assms(1-3)] assms(4,9) by auto
  have dom: "\<forall>p \<in> set (peers r). fmlookup (Prs r') p \<noteq> None"
    using post(1,2) by (auto simp: raft_ok_def same_role_def)
  have "{m_From m, r_id r} \<union> set (filter ?Q (peers r)) \<subseteq> ?S"
    using assms(6,7) post(6) dom by fastforce
  then have "card ({m_From m, r_id r} \<union> set (filter ?Q (peers r))) \<le> card ?S"
    by (intro card_mono) auto
  moreover have "card ({m_From m, r_id r} \<union> set (filter ?Q (peers r))) = 2 + length (filter ?Q (peers r))"
  proof -
    have "card (set (filter ?Q (peers r))) = length (filter ?Q (peers r))"
      using assms(5) by (intro distinct_card distinct_filter)
    then show ?thesis using assms(8) by (subst card_Un_disjoint) auto
  qed
  moreover have "t = r_Term r" if "term_view (r_RaftLog r) (m_Index m) = Some t" "r_Term r \<le> t"
      "\<forall>e \<in> set (entries (r_RaftLog r)). e_Term e \<le> r_Term r" for t
  proof -
    have "lastIdxOfSnapshot (r_RaftLog r) < m_Index m"
      using assms(1) log_okE(1,2)[of "r_RaftLog r"] post(4) by (auto simp: raft_ok_def)
    then have "\<exists>e \<in> set (entries (r_RaftLog r)). t = e_Term e"
      using that(1) by (auto simp: term_view_def log_view_def split: if_splits)
    then show ?thesis using that(2,3) by force
  qed
  moreover obtain t where t: "term_view (r_RaftLog r) (m_Index m) = Some t" "r_Term r \<le> t" using post(5) by blast
  ultimately have "(\<forall>e \<in> set (entries (r_RaftLog r)). e_Term e \<le> r_Term r) \<longrightarrow> t = r_Term r"
    "length (peers r) < 2 * card ?S" using post(7) by auto
  with t show ?thesis using post(3,4) by (intro conjI exI[of _ t])
qed

definition demo_leader :: "MemoryStorage Raft" where
  "demo_leader = (demo_raft 1 [1, 2, 3])\<lparr>r_Term := 1, r_State := StateLeader,
     r_RaftLog := demo_log\<lparr>entries := [zero_Entry\<lparr>e_Term := 1, e_Index := 1\<rparr>]\<rparr>\<rparr>"

definition demo_ack :: Message where
  "demo_ack = zero_Message\<lparr>m_MsgType := MsgAppendResponse, m_From := 2, m_To := 1, m_Term := 1, m_Index := 1\<rparr>"

lemma demo_leader_ok: "raft_ok memory_storage_ops ms_wf demo_leader"
  using demo_raft_ok[of 1 "[1, 2, 3]"]
  by (simp add: demo_leader_def raft_ok_def demo_log_def log_ok_def log_wf_def demo_raft_def zero_Entry_def)

theorem commit_needs_majority_witness:
  "\<exists>r'. handleAppendAccepted demo_ack demo_leader = Some r' \<and> committed (r_RaftLog r') = 1 \<and>
     3 < 2 * card {p \<in> {1, 2, 3}. p = 1 \<or> (\<exists>pr. fmlookup (Prs r') p = Some pr \<and> 1 \<le> p_Match pr)}"
proof -
  have "\<not> Option.is_none (handleAppendAccepted demo_ack demo_leader)" by code_simp
  then obtain r' where r': "handleAppendAccepted demo_ack demo_leader = Some r'"
    by (auto simp: Option.is_none_def)
  have "committed (r_RaftLog (the (handleAppendAccepted demo_ack demo_leader))) = 1" by code_simp
  then have "committed (r_RaftLog r') \<noteq> committed (r_RaftLog demo_leader)"
    using r' by (simp add: demo_leader_def demo_log_def)
  with commit_needs_majority[OF demo_leader_ok _ _ r'] r' show ?thesis
    by (simp add: demo_leader_def demo_raft_def demo_ack_def zero_Message_def get_pr_def LastIndex_def)
qed

section \<open>Elections\<close>

text \<open>
  C23 (functional): the vote handler of a peer with a well-formed log answers every request with
  one message to the sender, in the peer's resulting term. It grants exactly when the request is
  of a newer term, or of the same term at a follower that has not voted for anybody else, and the
  candidate's last entry is at least as up to date as the peer's (a later term, or the same term
  and no smaller index); a grant is recorded as the vote, and the log is left alone.
\<close>

theorem handleVoteRequest_grants_iff:
  assumes "log_wf (r_RaftLog r)" "0 < electionTimeout r"
  shows "\<exists>r' resp lastTerm. handleVoteRequest m r = Some r' \<and> msgs r' = msgs r @ [resp] \<and>
    m_To resp = m_From m \<and> m_Term resp = r_Term r' \<and> r_Term r \<le> r_Term r' \<and>
    r_RaftLog r' = r_RaftLog r \<and> term_view (r_RaftLog r) (LastIndex (r_RaftLog r)) = Some lastTerm \<and>
    (\<not> m_Reject resp \<longleftrightarrow>
      (r_Term r < m_Term m \<or>
       r_Term r = m_Term m \<and> r_State r = StateFollower \<and> (r_Vote r = 0 \<or> r_Vote r = m_From m)) \<and>
      (lastTerm < m_LogTerm m \<or> lastTerm = m_LogTerm m \<and> LastIndex (r_RaftLog r) \<le> m_Index m)) \<and>
    (\<not> m_Reject resp \<longrightarrow> r_Vote r' = m_From m \<and> r_Term r' = m_Term m)"
proof -
  obtain t where t: "Term (r_RaftLog r) (LastIndex (r_RaftLog r)) = Some t"
    using Term_returns[OF assms(1), of "LastIndex (r_RaftLog r)"] by (auto simp: LastIndex_eq[OF assms(1)])
  then have tv: "term_view (r_RaftLog r) (LastIndex (r_RaftLog r)) = Some t"
    using Term_eq[OF assms(1), of "LastIndex (r_RaftLog r)"] by (simp add: LastIndex_eq[OF assms(1)])
  show ?thesis
    using assms(2) t tv
    by (auto simp: handleVoteRequest_def Let_def becomeFollower_def rand_mod_def send_def zero_Message_def)
qed

theorem handleVoteRequest_grants_iff_witness:
  "\<exists>r' resp. handleVoteRequest (zero_Message\<lparr>m_MsgType := MsgRequestVote, m_From := 2, m_Term := 1\<rparr>)
     (demo_raft 1 [1, 2, 3]) = Some r' \<and> msgs r' = [resp] \<and> \<not> m_Reject resp"
  using handleVoteRequest_grants_iff[of "demo_raft 1 [1, 2, 3]"
      "zero_Message\<lparr>m_MsgType := MsgRequestVote, m_From := 2, m_Term := 1\<rparr>"]
  by (auto simp: demo_raft_def demo_log_def log_wf_def zero_Message_def term_view_def LastIndex_def)

end
