(* ===== verification/Raft_Roles.thy ===== *)
theory Raft_Roles
  imports Raft_Safety
begin

text \<open>
  Terms and roles over a step: when the term may move, and what a leader does to its own log.
\<close>

section \<open>Terms and roles after each operation\<close>

lemma same_role_propose: "same_role r (fold propose_entry es r)"
proof (induction es arbitrary: r)
  case (Cons e es)
  have "same_role r (propose_entry e r)" by (simp add: propose_entry_def Let_def same_role_def)
  then show ?case using Cons.IH[of "propose_entry e r"] same_role_trans by (auto simp: same_role_def)
qed simp

lemma same_role_handleMsgPropose:
  assumes "handleMsgPropose m r = Some r'"
  shows "same_role r r'"
  using assms same_role_propose[of r "m_Entries m"]
  by (auto simp: handleMsgPropose_def Let_def set_pr_def same_role_def elim!: bind_SomeE)

lemma becomeLeader_role:
  assumes "becomeLeader r = Some r'"
  shows "same_role (r\<lparr>r_State := StateLeader, r_Lead := r_id r\<rparr>) r'"
proof -
  define r1 where "r1 = r\<lparr>r_State := StateLeader, leadTransferee := None_id, heartbeatElapsed := 0,
    r_Lead := r_id r\<rparr>"
  obtain m r2 where r2: "handleMsgPropose m r1 = Some r2" "broadCastAE r2 = Some r'"
    using assms unfolding becomeLeader_def Let_def r1_def by (elim bind_SomeE)
  have "same_role r1 r'"
    using same_role_trans[OF same_role_handleMsgPropose[OF r2(1)] sends_same_role[OF sends_broadCastAE[OF r2(2)]]] .
  then show ?thesis by (simp add: r1_def same_role_def)
qed

lemma becomeFollower_role:
  assumes "becomeFollower t lead r = Some r'"
  shows "r_Term r' = t" "r_State r' = StateFollower" "r_RaftLog r' = r_RaftLog r" "r_id r' = r_id r"
    "peers r' = peers r" "msgs r' = msgs r" "r_Vote r' = 0" "r_Lead r' = lead"
  using assms by (auto simp: becomeFollower_def elim!: bind_SomeE)

lemma becomeCandidate_role:
  assumes "becomeCandidate r = Some r'"
  shows "r_Term r' = u64_add (r_Term r) 1 \<and> r_id r' = r_id r \<and> peers r' = peers r \<and> r_Vote r' = r_id r \<and>
    r_State r' = (if length (peers r) = 1 then StateLeader else StateCandidate)"
proof -
  obtain rnd where rnd: "rand_mod (rand_src r) (electionTimeout r) = Some rnd"
    using assms unfolding becomeCandidate_def by (elim bind_SomeE)
  define r1 where "r1 = r\<lparr>r_Term := u64_add (r_Term r) 1, VoteReceived := 1, VoteTotal := 1,
       r_Vote := r_id r, votes := fmupd (r_id r) True (votes r), r_State := StateCandidate,
       electionElapsed := 0, electionTimeoutRandom := electionTimeout r + rnd,
       rand_src := rand_next (rand_src r)\<rparr>"
  have "(if length (peers r1) = 1 then becomeLeader r1 else Some r1) = Some r'"
    using assms unfolding becomeCandidate_def rnd Option.bind.simps(2) Let_def r1_def .
  moreover have "r_Term r1 = u64_add (r_Term r) 1" "r_id r1 = r_id r" "peers r1 = peers r"
      "r_Vote r1 = r_id r" "r_State r1 = StateCandidate" by (simp_all add: r1_def)
  ultimately show ?thesis
    using becomeLeader_role[of r1 r'] by (auto simp: same_role_def split: if_splits)
qed

lemma campaign_role:
  assumes "do { r1 \<leftarrow> becomeCandidate r; requestVotes r1 } = Some r'"
  shows "r_Term r' = u64_add (r_Term r) 1 \<and>
    r_State r' = (if length (peers r) = 1 then StateLeader else StateCandidate)"
proof -
  obtain r1 where "becomeCandidate r = Some r1" "requestVotes r1 = Some r'"
    using assms by (rule bind_SomeE)
  then show ?thesis
    using becomeCandidate_role sends_same_role[OF sends_requestVotes] by (fastforce simp: same_role_def)
qed

lemma sendAppend_role: "map_option snd (sendAppend p r) = Some r' \<Longrightarrow> same_role r r'"
  by (auto dest: sends_sendAppend sends_same_role)

lemma send_role [simp]: "same_role r (send m r)"
  by (simp add: send_def same_role_def)

lemma handleAppendAccepted_role:
  assumes "handleAppendAccepted m r = Some r'"
  shows "same_role r r'"
  using assms
  by (auto simp: handleAppendAccepted_def Let_def fold_send same_role_def set_pr_def send_def
      split: if_splits elim!: bind_SomeE)

lemma handleAppendRejected_role:
  assumes "handleAppendRejected m r = Some r'"
  shows "same_role r r'"
proof -
  obtain pr n where "map_option snd (sendAppend (m_From m) (set_pr (m_From m) (pr\<lparr>p_Next := n\<rparr>) r)) = Some r'"
    using assms unfolding handleAppendRejected_def Let_def by (elim bind_SomeE)
  from sendAppend_role[OF this] show ?thesis by (simp add: same_role_def set_pr_def)
qed

lemma handleLeaderTransfer_role:
  assumes "handleLeaderTransfer m r = Some r'"
  shows "same_role r r' \<or> r_State r \<noteq> StateLeader \<and> r_Term r' = u64_add (r_Term r) 1 \<and>
    r_State r' = (if length (peers r) = 1 then StateLeader else StateCandidate)"
proof (cases "r_State r = StateLeader")
  case True
  then have "same_role r r' \<or> (\<exists>pr. same_role (r\<lparr>leadTransferee := m_From m\<rparr>) r')"
    using assms sendAppend_role
    by (fastforce simp: handleLeaderTransfer_def Let_def split: if_splits elim!: bind_SomeE)
  then show ?thesis by (auto simp: same_role_def)
next
  case False
  then show ?thesis
    using assms campaign_role by (auto simp: handleLeaderTransfer_def Step_Hup_def split: if_splits)
qed

lemma handleVoteResponse_term:
  assumes "handleVoteResponse m r = Some r'"
  shows "r_Term r \<le> r_Term r'"
proof -
  have "r_Term r'' = r_Term r1" if "becomeLeader r1 = Some r''" for r1 r'' :: "'a Raft"
    using becomeLeader_role[OF that] by (simp add: same_role_def)
  then show ?thesis
    using assms by (auto simp: handleVoteResponse_def Let_def becomeFollower_role(1) split: if_splits)
qed

text \<open>A leader that stays one has only sent something.\<close>

lemma leader_after_append:
  assumes "handleAppendEntries m r = Some r'" "r_State r = StateLeader" "r_State r' = StateLeader"
    "\<not> m_CommitUse m"
  shows "sends r r'"
  using assms by (auto simp: handleAppendEntries_def Let_def becomeFollower_role(2) send_def
      split: if_splits option.splits elim!: bind_SomeE intro: sends_send[unfolded send_def])

lemma leader_after_snapshot:
  assumes "handleSnapshot m r = Some r'" "r_State r = StateLeader" "r_State r' = StateLeader"
  shows "sends r r'"
  using assms by (auto simp: handleSnapshot_def Let_def becomeFollower_role(2) send_def
      split: if_splits elim!: bind_SomeE)

lemma leader_after_vote_request:
  assumes "handleVoteRequest m r = Some r'" "r_State r = StateLeader" "r_State r' = StateLeader"
  shows "sends r r'"
  using assms by (auto simp: handleVoteRequest_def Let_def becomeFollower_role(2) send_def
      split: if_splits elim!: bind_SomeE intro: sends_send[unfolded send_def])

lemma leader_after_heartbeat:
  assumes "handleHeartbeat m r = Some r'" "r_State r = StateLeader" "r_State r' = StateLeader"
  shows "sends r r'"
  using assms by (auto simp: handleHeartbeat_def Let_def becomeFollower_role(2) send_def
      split: if_splits elim!: bind_SomeE intro: sends_send[unfolded send_def])

lemma leader_after_heartbeat_response:
  assumes "handleHeartbeatResponse m r = Some r'" "r_State r = StateLeader" "r_State r' = StateLeader"
  shows "sends r r'"
  using assms sends_sendSnapshot[of "m_From m" r r'] sends_sendAppend[of "m_From m" r]
  by (auto simp: handleHeartbeatResponse_def becomeFollower_role(2) split: if_splits)

lemma leader_after_transfer:
  assumes "handleLeaderTransfer m r = Some r'" "r_State r = StateLeader"
  shows "sends r r' \<or> sends (r\<lparr>leadTransferee := m_From m\<rparr>) r'"
  using assms sends_sendAppend[of "m_From m" "r\<lparr>leadTransferee := m_From m\<rparr>"]
  by (auto simp: handleLeaderTransfer_def Let_def split: if_splits elim!: bind_SomeE)

lemma leader_after_rejection:
  assumes "handleAppendRejected m r = Some r'"
  shows "\<exists>prs. sends (r\<lparr>Prs := prs\<rparr>) r'"
proof -
  obtain pr n where "map_option snd (sendAppend (m_From m) (set_pr (m_From m) (pr\<lparr>p_Next := n\<rparr>) r)) = Some r'"
    using assms unfolding handleAppendRejected_def Let_def by (elim bind_SomeE)
  then show ?thesis unfolding set_pr_def by (auto dest: sends_sendAppend)
qed

section \<open>Properties\<close>

text \<open>
  C24 (safety): the term of a peer never decreases in a step, apart from the two messages whose
  handlers take over the sender's term unchecked: a snapshot, and a rejecting heartbeat response
  of a smaller term. (The step must not exhaust the range of terms.)
\<close>

theorem Step_term_monotone:
  assumes "Step m r = Some r'" "Suc (r_Term r) < 2 ^ 64" "m_MsgType m \<noteq> MsgSnapshot"
    and "m_MsgType m = MsgHeartbeatResponse \<Longrightarrow> m_Reject m \<Longrightarrow> r_Term r \<le> m_Term m"
  shows "r_Term r \<le> r_Term r'"
proof -
  have up: "r_Term r \<le> u64_add (r_Term r) 1" using assms(2) by (subst u64_add_exact) auto
  have camp: "r_Term r \<le> r_Term r'" if "do { r1 \<leftarrow> becomeCandidate r; requestVotes r1 } = Some r'"
    using campaign_role[OF that] up by simp
  have ae: "r_Term r \<le> r_Term r'" if "handleAppendEntries m r = Some r'"
    using that by (auto simp: handleAppendEntries_def Let_def send_def becomeFollower_role(1)
        split: if_splits option.splits elim!: bind_SomeE)
  have vq: "r_Term r \<le> r_Term r'" if "handleVoteRequest m r = Some r'"
    using that by (auto simp: handleVoteRequest_def Let_def send_def becomeFollower_role(1)
        split: if_splits elim!: bind_SomeE)
  have vp: "r_Term r \<le> r_Term r'" if "handleVoteResponse m r = Some r'"
    by (rule handleVoteResponse_term[OF that])
  have hb: "r_Term r \<le> r_Term r'" if "handleHeartbeat m r = Some r'"
    using that by (auto simp: handleHeartbeat_def Let_def send_def becomeFollower_role(1)
        split: if_splits elim!: bind_SomeE)
  have hr: "r_Term r \<le> r_Term r'" if "m_MsgType m = MsgHeartbeatResponse" "handleHeartbeatResponse m r = Some r'"
    using that assms(4) sendAppend_role sends_same_role[OF sends_sendSnapshot]
    by (fastforce simp: handleHeartbeatResponse_def becomeFollower_role(1) same_role_def split: if_splits)
  have tl: "r_Term r \<le> r_Term r'" if "handleLeaderTransfer m r = Some r'"
    using handleLeaderTransfer_role[OF that] up by (auto simp: same_role_def)
  have to: "r_Term r \<le> r_Term r'" if "handleMsgTimeOut r = Some r'"
    using that camp by (auto simp: handleMsgTimeOut_def Step_Hup_def split: if_splits)
  have ar: "r_Term r \<le> r_Term r'" if "handleMsgAppendResponse m r = Some r'"
    using that handleAppendAccepted_role handleAppendRejected_role
    by (fastforce simp: handleMsgAppendResponse_def same_role_def split: if_splits)
  have prp: "r_Term r \<le> r_Term r'" if "do { r1 \<leftarrow> handleMsgPropose m r; broadCastAE r1 } = Some r'"
    using that same_role_handleMsgPropose sends_same_role[OF sends_broadCastAE]
    by (fastforce simp: same_role_def elim!: bind_SomeE)
  have beat: "r_Term r = r_Term (sendHeartbeats (r\<lparr>heartbeatElapsed := 0\<rparr>))"
    using sends_frame(2)[OF sends_sendHeartbeats[of "r\<lparr>heartbeatElapsed := 0\<rparr>"]] by simp
  show ?thesis
    using assms(1,3) camp ae vq vp hb hr tl to ar prp beat
    by (cases "m_MsgType m"; cases "r_State r") (auto simp: Step_def)
qed

theorem Step_term_monotone_witness:
  "\<exists>r'. Step demo_ack demo_leader = Some r' \<and> 1 \<le> r_Term r'"
proof -
  have "\<not> Option.is_none (Step demo_ack demo_leader)" by code_simp
  then obtain r' where "Step demo_ack demo_leader = Some r'" by (auto simp: Option.is_none_def)
  then show ?thesis
    using Step_term_monotone[of demo_ack demo_leader r']
    by (simp add: demo_leader_def demo_ack_def zero_Message_def)
qed

text \<open>The two messages that move a leader's own log or committed index.\<close>

lemma leader_append_response:
  assumes "raft_ok memory_storage_ops ms_wf r" "msg_ok r m" "m_MsgType m = MsgAppendResponse"
    and h: "handleMsgAppendResponse m r = Some r'"
  shows "r_Term r' = r_Term r \<and> log_grows (r_Term r) (r_RaftLog r) (r_RaftLog r')"
proof (cases "m_Reject m")
  case True
  then obtain prs where s: "sends (r\<lparr>Prs := prs\<rparr>) r'"
    using h leader_after_rejection[of m r r'] by (auto simp: handleMsgAppendResponse_def)
  show ?thesis using sends_same_role[OF s] sends_log_grows[OF s] by (simp add: same_role_def)
next
  case False
  then show ?thesis
    using h ms.handleAppendAccepted_ok[OF assms(1), of m] assms(2,3)
    by (auto simp: handleMsgAppendResponse_def msg_ok_def same_role_def log_grows_def)
qed

lemma leader_append:
  assumes "raft_ok memory_storage_ops ms_wf r" "msg_ok r m" "m_MsgType m = MsgAppend"
    and "handleAppendEntries m r = Some r'" "r_State r = StateLeader" "r_State r' = StateLeader"
  shows "r_Term r' = r_Term r \<and> log_grows (r_Term r) (r_RaftLog r) (r_RaftLog r')"
proof (cases "m_CommitUse m")
  case True
  then show ?thesis
    using ms.handleAppendEntries_commit[OF assms(1), of m] assms(2,3,4)
    by (auto simp: msg_ok_def log_grows_def)
next
  case False
  from leader_after_append[OF assms(4-6) this] show ?thesis
    using sends_same_role sends_log_grows by (fastforce simp: same_role_def)
qed

text \<open>
  C10 (safety): a leader appends only. If a peer in the invariant is a leader before and after an
  admissible step, its term is the same, its log is the old log followed by entries of that term,
  and its committed index has not moved back.
\<close>

theorem leader_appends_only:
  assumes "raft_ok memory_storage_ops ms_wf r" "msg_ok r m" "Step m r = Some r'"
    and "r_State r = StateLeader" "r_State r' = StateLeader"
  shows "r_Term r' = r_Term r \<and> log_grows (r_Term r) (r_RaftLog r) (r_RaftLog r')"
proof -
  let ?G = "r_Term r' = r_Term r \<and> log_grows (r_Term r) (r_RaftLog r) (r_RaftLog r')"
  have snd: ?G if "sends r1 r'" "r_Term r1 = r_Term r" "r_RaftLog r1 = r_RaftLog r" for r1
    using sends_same_role[OF that(1)] sends_log_grows[OF that(1)] that(2,3) by (simp add: same_role_def)
  note step = assms(3,4,5)
  show ?thesis
  proof (cases "m_MsgType m")
    case MsgPropose
    then have "do { r1 \<leftarrow> handleMsgPropose m r; broadCastAE r1 } = Some r'" "r_id r \<in> set (peers r)"
        "Suc (LastIndex (r_RaftLog r) + length (m_Entries m)) < 2 ^ 63"
      using assms(2) step by (simp_all add: Step_def msg_ok_def)
    then show ?thesis using ms.propose_ok[OF assms(1), of m] by (auto simp: same_role_def)
  next
    case MsgAppendResponse
    then show ?thesis using leader_append_response[OF assms(1,2)] step by (simp add: Step_def)
  next
    case MsgAppend
    then show ?thesis using leader_append[OF assms(1,2)] step by (simp add: Step_def)
  next
    case MsgTransferLeader
    then have "sends r r' \<or> sends (r\<lparr>leadTransferee := m_From m\<rparr>) r'"
      using step leader_after_transfer by (simp add: Step_def)
    then show ?thesis using snd[of r] snd[of "r\<lparr>leadTransferee := m_From m\<rparr>"] by auto
  next
    case MsgBeat
    then have "sends (r\<lparr>heartbeatElapsed := 0\<rparr>) r'"
      using step sends_sendHeartbeats[of "r\<lparr>heartbeatElapsed := 0\<rparr>"] by (simp add: Step_def)
    from snd[OF this] show ?thesis by simp
  next
    case MsgSnapshot
    then show ?thesis using step snd[OF leader_after_snapshot[OF _ step(2,3)]] by (simp add: Step_def)
  next
    case MsgRequestVote
    then show ?thesis using step snd[OF leader_after_vote_request[OF _ step(2,3)]] by (simp add: Step_def)
  next
    case MsgHeartbeat
    then show ?thesis using step snd[OF leader_after_heartbeat[OF _ step(2,3)]] by (simp add: Step_def)
  next
    case MsgHeartbeatResponse
    then show ?thesis using step snd[OF leader_after_heartbeat_response[OF _ step(2,3)]] by (simp add: Step_def)
  qed (use step in \<open>auto simp: Step_def\<close>)
qed

theorem leader_appends_only_witness:
  "\<exists>r'. Step (zero_Message\<lparr>m_MsgType := MsgPropose, m_Entries := [zero_Entry]\<rparr>) demo_leader = Some r' \<and>
     log_grows 1 (r_RaftLog demo_leader) (r_RaftLog r')"
proof -
  define m where "m = zero_Message\<lparr>m_MsgType := MsgPropose, m_Entries := [zero_Entry]\<rparr>"
  have "\<not> Option.is_none (Step m demo_leader)" "r_State (the (Step m demo_leader)) = StateLeader"
    unfolding m_def by code_simp+
  then obtain r' where r': "Step m demo_leader = Some r'" "r_State r' = StateLeader"
    by (auto simp: Option.is_none_def)
  have "msg_ok demo_leader m" "r_State demo_leader = StateLeader" "r_Term demo_leader = 1"
    by (simp_all add: m_def msg_ok_def demo_leader_def demo_raft_def LastIndex_def zero_Message_def zero_Entry_def)
  with leader_appends_only[OF demo_leader_ok _ r'(1)] r' show ?thesis
    unfolding m_def[symmetric] by auto
qed

end
