(* ===== verification/Raft_Network.thy ===== *)
theory Raft_Network
  imports Raft_Safety
begin

text \<open>
  Peers in a network, and what the vote bookkeeping means for elections: a heartbeat of the current
  term erases a vote, and with it the guarantee of one leader in a term.
\<close>

section \<open>Runs\<close>

text \<open>
  A network of peers: a message that some peer has sent may be delivered at any time, any number
  of times and in any order; a peer may be told to campaign or to send its heartbeats.
\<close>

inductive net_reach :: "(u64 \<Rightarrow> MemoryStorage Raft) \<Rightarrow> (u64 \<Rightarrow> MemoryStorage Raft) \<Rightarrow> bool"
  for N0 :: "u64 \<Rightarrow> MemoryStorage Raft" where
  net_start: "net_reach N0 N0"
| net_local: "net_reach N0 N \<Longrightarrow> mt = MsgHup \<or> mt = MsgBeat \<Longrightarrow>
    Step (zero_Message\<lparr>m_MsgType := mt\<rparr>) (N i) = Some r \<Longrightarrow> net_reach N0 (N(i := r))"
| net_deliver: "net_reach N0 N \<Longrightarrow> m \<in> set (msgs (N j)) \<Longrightarrow> Step m (N (m_To m)) = Some r \<Longrightarrow>
    net_reach N0 (N(m_To m := r))"

definition local_msg :: "MessageType \<Rightarrow> Message" where
  "local_msg mt = zero_Message\<lparr>m_MsgType := mt\<rparr>"

text \<open>
  A run of three new peers: peers 1 and 2 campaign in term 1, peer 3 votes for 1, which becomes
  leader and sends a heartbeat; the heartbeat makes peer 3 forget its vote, so that it votes for
  2 in the same term.
\<close>

definition n1a :: "MemoryStorage Raft" where
  "n1a = the (Step (local_msg MsgHup) (demo_raft 1 [1, 2, 3]))"
definition n2a :: "MemoryStorage Raft" where
  "n2a = the (Step (local_msg MsgHup) (demo_raft 2 [1, 2, 3]))"
definition n3a :: "MemoryStorage Raft" where
  "n3a = the (Step (msgs n1a ! 1) (demo_raft 3 [1, 2, 3]))"
definition n1b :: "MemoryStorage Raft" where
  "n1b = the (Step (msgs n3a ! 0) n1a)"
definition n1c :: "MemoryStorage Raft" where
  "n1c = the (Step (local_msg MsgBeat) n1b)"
definition n3b :: "MemoryStorage Raft" where
  "n3b = the (Step (msgs n1c ! 5) n3a)"
definition n3c :: "MemoryStorage Raft" where
  "n3c = the (Step (msgs n2a ! 1) n3b)"
definition n2b :: "MemoryStorage Raft" where
  "n2b = the (Step (msgs n3c ! 2) n2a)"

lemma run_msgs:
  "map m_MsgType (msgs n1c) = [MsgRequestVote, MsgRequestVote, MsgAppend, MsgAppend, MsgHeartbeat, MsgHeartbeat]"
  "map m_To (msgs n1c) = [2, 3, 2, 3, 2, 3]"
  "map m_To (msgs n1a) = [2, 3]" "map m_To (msgs n2a) = [1, 3]" "map m_To (msgs n3c) = [1, 1, 2]"
  "map m_To (msgs n3a) = [1]"
  by code_simp+

lemma run_returns:
  "\<not> Option.is_none (Step (local_msg MsgHup) (demo_raft 1 [1, 2, 3]))"
  "\<not> Option.is_none (Step (local_msg MsgHup) (demo_raft 2 [1, 2, 3]))"
  "\<not> Option.is_none (Step (msgs n1a ! 1) (demo_raft 3 [1, 2, 3]))"
  "\<not> Option.is_none (Step (msgs n3a ! 0) n1a)"
  "\<not> Option.is_none (Step (local_msg MsgBeat) n1b)"
  "\<not> Option.is_none (Step (msgs n1c ! 5) n3a)"
  "\<not> Option.is_none (Step (msgs n2a ! 1) n3b)"
  "\<not> Option.is_none (Step (msgs n3c ! 2) n2a)"
  by code_simp+

lemma run_leaders:
  "r_State n1c = StateLeader" "r_State n2b = StateLeader" "r_Term n1c = 1" "r_Term n2b = 1"
  by code_simp+

lemma run_steps:
  "Step (zero_Message\<lparr>m_MsgType := MsgHup\<rparr>) (demo_raft 1 [1, 2, 3]) = Some n1a"
  "Step (zero_Message\<lparr>m_MsgType := MsgHup\<rparr>) (demo_raft 2 [1, 2, 3]) = Some n2a"
  "Step (msgs n1a ! 1) (demo_raft 3 [1, 2, 3]) = Some n3a"
  "Step (msgs n3a ! 0) n1a = Some n1b"
  "Step (zero_Message\<lparr>m_MsgType := MsgBeat\<rparr>) n1b = Some n1c"
  "Step (msgs n1c ! 5) n3a = Some n3b" "Step (msgs n2a ! 1) n3b = Some n3c"
  "Step (msgs n3c ! 2) n2a = Some n2b"
  using run_returns
  by (auto simp: n1a_def n2a_def n3a_def n1b_def n1c_def n3b_def n3c_def n2b_def local_msg_def
      Option.is_none_def)

lemma run_nth:
  "m_To (msgs n1a ! 1) = 3" "msgs n1a ! 1 \<in> set (msgs n1a)"
  "m_To (msgs n3a ! 0) = 1" "msgs n3a ! 0 \<in> set (msgs n3a)"
  "m_To (msgs n1c ! 5) = 3" "msgs n1c ! 5 \<in> set (msgs n1c)"
  "m_To (msgs n2a ! 1) = 3" "msgs n2a ! 1 \<in> set (msgs n2a)"
  "m_To (msgs n3c ! 2) = 2" "msgs n3c ! 2 \<in> set (msgs n3c)"
proof -
  have nth: "m_To (ms ! k) = ts ! k \<and> ms ! k \<in> set ms" if "map m_To ms = ts" "k < length ts" for ms ts k
    using that by (metis length_map nth_map nth_mem)
  show "m_To (msgs n1a ! 1) = 3" "msgs n1a ! 1 \<in> set (msgs n1a)"
    using nth[OF run_msgs(3), of 1] by auto
  show "m_To (msgs n3a ! 0) = 1" "msgs n3a ! 0 \<in> set (msgs n3a)"
    using nth[OF run_msgs(6), of 0] by auto
  show "m_To (msgs n1c ! 5) = 3" "msgs n1c ! 5 \<in> set (msgs n1c)"
    using nth[OF run_msgs(2), of 5] by auto
  show "m_To (msgs n2a ! 1) = 3" "msgs n2a ! 1 \<in> set (msgs n2a)"
    using nth[OF run_msgs(4), of 1] by auto
  show "m_To (msgs n3c ! 2) = 2" "msgs n3c ! 2 \<in> set (msgs n3c)"
    using nth[OF run_msgs(5), of 2] by auto
qed

section \<open>Properties\<close>

text \<open>
  C8 (safety): election safety does not hold. Three newly created peers that only ever handle
  messages that were sent, each delivered unchanged, reach a state in which two of them are
  leaders of the same term: handling a heartbeat (or a vote request) of its own term resets a
  follower's vote, and it votes a second time.
\<close>

theorem two_leaders_in_one_term:
  "\<exists>N. net_reach (\<lambda>i. demo_raft i [1, 2, 3]) N \<and> r_State (N 1) = StateLeader \<and>
     r_State (N 2) = StateLeader \<and> r_Term (N 1) = r_Term (N 2)"
proof -
  let ?N0 = "\<lambda>i. demo_raft i [1, 2, 3]"
  have s1: "net_reach ?N0 (?N0(1 := n1a))" (is "net_reach _ ?N1")
    using run_steps(1) by (intro net_local[OF net_start, where mt = MsgHup]) auto
  have s2: "net_reach ?N0 (?N1(2 := n2a))" (is "net_reach _ ?N2")
    using run_steps(2) by (intro net_local[OF s1, where mt = MsgHup]) auto
  have s3: "net_reach ?N0 (?N2(3 := n3a))" (is "net_reach _ ?N3")
    using net_deliver[OF s2, of "msgs n1a ! 1" 1 n3a] run_steps(3) run_nth(1,2) by simp
  have s4: "net_reach ?N0 (?N3(1 := n1b))" (is "net_reach _ ?N4")
    using net_deliver[OF s3, of "msgs n3a ! 0" 3 n1b] run_steps(4) run_nth(3,4) by simp
  have s5: "net_reach ?N0 (?N4(1 := n1c))" (is "net_reach _ ?N5")
    using run_steps(5) by (intro net_local[OF s4, where mt = MsgBeat]) auto
  have s6: "net_reach ?N0 (?N5(3 := n3b))" (is "net_reach _ ?N6")
    using net_deliver[OF s5, of "msgs n1c ! 5" 1 n3b] run_steps(6) run_nth(5,6) by simp
  have s7: "net_reach ?N0 (?N6(3 := n3c))" (is "net_reach _ ?N7")
    using net_deliver[OF s6, of "msgs n2a ! 1" 2 n3c] run_steps(7) run_nth(7,8) by simp
  have s8: "net_reach ?N0 (?N7(2 := n2b))"
    using net_deliver[OF s7, of "msgs n3c ! 2" 3 n2b] run_steps(8) run_nth(9,10) by simp
  then show ?thesis using run_leaders by (intro exI[of _ "?N7(2 := n2b)"]) simp
qed

end
