(* ===== verification/Raft_Votes.thy ===== *)
theory Raft_Votes
  imports Raft_Roles Raft_Network
begin

text \<open>
  Elections seen from the candidate: which votes a leader has counted. \<open>candidacy\<close> follows a candidate through
  its term and records the sender of every granting response it handles, repetitions included. A
  leader has counted a majority of responses; they come from a majority of peers if none is
  repeated, and the last property shows that a repeated one is counted again.
\<close>

section \<open>A candidate in its term\<close>

definition grants :: "u64 \<Rightarrow> Message \<Rightarrow> bool" where
  "grants t m \<longleftrightarrow> m_MsgType m = MsgRequestVoteResponse \<and> \<not> m_Reject m \<and> m_Term m = t"

inductive candidacy :: "'s Raft \<Rightarrow> u64 list \<Rightarrow> 's Raft \<Rightarrow> bool" for r0 :: "'s Raft" where
  cand_start: "candidacy r0 [] r0"
| cand_step: "candidacy r0 vs r \<Longrightarrow> r_State r = StateCandidate \<Longrightarrow> r_Term r = r_Term r0 \<Longrightarrow> Step m r = Some r' \<Longrightarrow>
    candidacy r0 (if grants (r_Term r0) m then vs @ [m_From m] else vs) r'"
| cand_tick: "candidacy r0 vs r \<Longrightarrow> r_State r = StateCandidate \<Longrightarrow> r_Term r = r_Term r0 \<Longrightarrow> tick r = Some r' \<Longrightarrow>
    candidacy r0 vs r'"

text \<open>The candidate's configuration, term and votes are as they were.\<close>

definition same_votes :: "'s Raft \<Rightarrow> 's Raft \<Rightarrow> bool" where
  "same_votes r r' \<longleftrightarrow> r_State r' = r_State r \<and> r_Term r' = r_Term r \<and> peers r' = peers r \<and> VoteReceived r' = VoteReceived r"

lemma same_votes_refl [simp]: "same_votes r r"
  by (simp add: same_votes_def)

lemma stays_candidate:
  assumes "r_State r = StateCandidate"
  shows "handleAppendEntries m r = Some r' \<Longrightarrow> r_State r' = StateFollower \<or> same_votes r r'"
    "handleSnapshot m r = Some r' \<Longrightarrow> r_State r' = StateFollower \<or> same_votes r r'"
    "handleVoteRequest m r = Some r' \<Longrightarrow> r_State r' = StateFollower \<or> same_votes r r'"
    "handleHeartbeat m r = Some r' \<Longrightarrow> r_State r' = StateFollower \<or> same_votes r r'"
  using assms
  by (auto simp: handleAppendEntries_def handleSnapshot_def handleVoteRequest_def handleHeartbeat_def Let_def send_def
      becomeFollower_role(2) same_votes_def split: if_splits option.splits elim!: bind_SomeE)

text \<open>A new campaign is one of another term.\<close>

lemma campaign_term:
  assumes "do { r1 \<leftarrow> becomeCandidate r; requestVotes r1 } = Some r'" "length (peers r) \<noteq> 1"
  shows "r_State r' = StateCandidate" "r_Term r' \<noteq> r_Term r" "VoteReceived r' = 1" "peers r' = peers r" "r_id r' = r_id r"
proof -
  obtain r1 where r1: "becomeCandidate r = Some r1" "sends r1 r'" using assms(1) by (auto elim!: bind_SomeE dest: sends_requestVotes)
  have "VoteReceived r1 = 1" using r1(1) assms(2) by (auto simp: becomeCandidate_def Let_def elim!: bind_SomeE)
  moreover have "u64_add (r_Term r) 1 \<noteq> r_Term r"
  proof (cases "Suc (r_Term r) < 2 ^ 64")
    case False
    then have "r_Term r = 2 ^ 64 - 1 \<or> 2 ^ 64 \<le> r_Term r" by linarith
    then show ?thesis
    proof
      assume "2 ^ 64 \<le> r_Term r"
      moreover have "u64_add (r_Term r) 1 < 2 ^ 64" by (simp add: u64_add_def)
      ultimately show ?thesis by linarith
    qed (simp add: u64_add_def)
  qed (simp add: u64_add_def)
  ultimately show "r_State r' = StateCandidate" "r_Term r' \<noteq> r_Term r" "VoteReceived r' = 1" "peers r' = peers r" "r_id r' = r_id r"
    using becomeCandidate_role[OF r1(1)] sends_frame[OF r1(2)] assms(2) by simp_all
qed

lemma candidate_response:
  assumes "handleVoteResponse m r = Some r'" "m_MsgType m = MsgRequestVoteResponse"
  shows "r_State r' = StateFollower \<or> r_Term r' = r_Term r \<and> peers r' = peers r \<and>
    VoteReceived r' = (if grants (r_Term r) m then u64_add (VoteReceived r) 1 else VoteReceived r) \<and>
    (r_State r' = r_State r \<or> length (peers r) div 2 < VoteReceived r')"
proof -
  define r1 where "r1 = r\<lparr>VoteTotal := u64_add (VoteTotal r) 1\<rparr>"
  define r2 where "r2 = (if \<not> m_Reject m then r1\<lparr>VoteReceived := u64_add (VoteReceived r1) 1\<rparr> else r1)"
  have f: "r_Term r2 = r_Term r" "peers r2 = peers r" "r_State r2 = r_State r"
      "VoteReceived r2 = (if \<not> m_Reject m then u64_add (VoteReceived r) 1 else VoteReceived r)"
    by (simp_all add: r2_def r1_def)
  have eq: "(if m_Term m = r_Term r then
        if \<not> m_Reject m \<and> VoteReceived r2 > length (peers r2) div 2 then becomeLeader r2
        else if VoteTotal r2 = length (peers r2) then becomeFollower (r_Term r2) 0 r2
        else Some r2
      else if m_Term m > r_Term r then becomeFollower (m_Term m) 0 (r\<lparr>r_Term := m_Term m\<rparr>)
      else Some r) = Some r'"
    using assms(1) unfolding handleVoteResponse_def Let_def r1_def[symmetric] r2_def[symmetric] .
  show ?thesis
    using eq f assms(2) becomeLeader_role[of r2 r'] by (auto simp: grants_def same_role_def becomeFollower_role(2) split: if_splits)
qed

text \<open>One step of a candidate with other peers: it steps down, campaigns again, or counts what it got.\<close>

lemma candidate_step:
  assumes "Step m r = Some r'" "r_State r = StateCandidate" "length (peers r) \<noteq> 1"
  shows "r_State r' = StateFollower \<or> r_State r' = StateCandidate \<and> r_Term r' \<noteq> r_Term r \<or>
    r_Term r' = r_Term r \<and> peers r' = peers r \<and>
    VoteReceived r' = (if grants (r_Term r) m then u64_add (VoteReceived r) 1 else VoteReceived r) \<and>
    (r_State r' = StateCandidate \<or> length (peers r) div 2 < VoteReceived r')"
proof -
  note camp = campaign_term(1,2)[OF _ assms(3)]
  have "handleMsgTimeOut r = Some r" using assms(2) by (simp add: handleMsgTimeOut_def)
  moreover have "r_State r' = StateCandidate \<and> r_Term r' \<noteq> r_Term r \<or> r' = r" if "handleLeaderTransfer m r = Some r'"
    using that camp assms(2) by (auto simp: handleLeaderTransfer_def Step_Hup_def split: if_splits)
  ultimately show ?thesis
    using assms(1,2) stays_candidate[OF assms(2), of m r'] camp candidate_response[of m r r']
    by (cases "m_MsgType m") (auto simp: Step_def same_votes_def grants_def)
qed

lemma candidate_tick:
  assumes "tick r = Some r'" "r_State r = StateCandidate" "length (peers r) \<noteq> 1"
  shows "r_State r' = StateCandidate \<and> r_Term r' \<noteq> r_Term r \<or> same_votes r r'"
proof -
  define r1 where "r1 = r\<lparr>electionElapsed := electionElapsed r + 1, heartbeatElapsed := heartbeatElapsed r + 1\<rparr>"
  have f: "r_State r1 = StateCandidate" "peers r1 = peers r" "r_Term r1 = r_Term r" "same_votes r r1"
    using assms(2) by (simp_all add: r1_def same_votes_def)
  have "(if electionElapsed r1 \<ge> electionTimeoutRandom r1 then do { r1 \<leftarrow> becomeCandidate r1; requestVotes r1 } else Some r1) = Some r'"
    using assms(1) f(1) unfolding tick_def Let_def r1_def[symmetric] by simp
  then show ?thesis using campaign_term(1,2)[of r1 r'] f assms(3) by (auto split: if_splits)
qed

text \<open>The counter is the number of recorded responses and the candidate's own vote, up to wrap-around.\<close>

definition counted :: "'s Raft \<Rightarrow> u64 list \<Rightarrow> 's Raft \<Rightarrow> bool" where
  "counted r0 vs r \<longleftrightarrow> r_Term r = r_Term r0 \<and> peers r = peers r0 \<and> VoteReceived r = Suc (length vs) mod 2 ^ 64 \<and>
     (r_State r = StateCandidate \<or> length (peers r0) div 2 < VoteReceived r)"

lemma candidacy_counted:
  assumes "candidacy r0 vs r" "r_State r0 = StateCandidate" "VoteReceived r0 = 1" "length (peers r0) \<noteq> 1"
  shows "r_State r = StateFollower \<or> r_State r = StateCandidate \<and> r_Term r \<noteq> r_Term r0 \<or> counted r0 vs r"
  using assms
proof (induction rule: candidacy.induct)
  case cand_start
  then show ?case by (simp add: counted_def)
next
  case (cand_step vs r m r')
  then have c: "counted r0 vs r" by auto
  have "length (peers r) \<noteq> 1" using c cand_step.prems by (simp add: counted_def)
  from candidate_step[OF cand_step.hyps(4,2) this] c cand_step.hyps(3) show ?case
    by (auto simp: counted_def u64_add_def mod_Suc_eq)
next
  case (cand_tick vs r r')
  then have c: "counted r0 vs r" by auto
  have "length (peers r) \<noteq> 1" using c cand_tick.prems by (simp add: counted_def)
  from candidate_tick[OF cand_tick.hyps(4,2) this] c cand_tick.hyps(2,3) show ?case
    by (auto simp: counted_def same_votes_def)
qed

section \<open>Properties\<close>

text \<open>
  C9 (safety): what a leader was elected by. Take a peer with other peers in its configuration that campaigns,
  then handles any messages and ticks, in any order, as a candidate of that term, and is a leader in the end. The
  term is the one it campaigned in, its configuration is the same, and its own vote and the granting responses of
  that term which it handled are more than half as many as its configuration has members. So if no two of these
  responses come from the same peer, and none from itself, more than half as many peers as the configuration
  has members have voted for it.
\<close>

theorem leader_counted_majority:
  assumes "do { r1 \<leftarrow> becomeCandidate r; requestVotes r1 } = Some r0" "length (peers r) \<noteq> 1"
    and "candidacy r0 vs r'" "r_State r' = StateLeader"
  shows "r_Term r' = r_Term r0 \<and> peers r' = peers r \<and> length (peers r) < 2 * length (r_id r # vs) \<and>
    (distinct (r_id r # vs) \<longrightarrow> length (peers r) < 2 * card (set (r_id r # vs)))"
proof -
  note c = campaign_term[OF assms(1,2)]
  have cnt: "counted r0 vs r'" using candidacy_counted[OF assms(3) c(1,3)] assms(2,4) c(4) by simp
  have "Suc (length vs) mod 2 ^ 64 \<le> Suc (length vs)" by (rule mod_less_eq_dividend)
  then have "length (peers r) div 2 < Suc (length vs)" using cnt assms(4) c(4) by (auto simp: counted_def)
  then have "length (peers r) < 2 * Suc (length vs)" by (simp add: div_less_iff_less_mult)
  moreover have "card (set (r_id r # vs)) = Suc (length vs)" if "distinct (r_id r # vs)" using distinct_card[OF that] by simp
  ultimately show ?thesis using cnt c(4) by (auto simp: counted_def)
qed

lemma demo_grant: "grants (r_Term n1a) (msgs n3a ! 0)" "m_From (msgs n3a ! 0) = 3" "r_State n1a = StateCandidate"
    "r_State n1b = StateLeader" "length (peers (demo_raft 1 [1, 2, 3])) \<noteq> 1" "r_id (demo_raft 1 [1, 2, 3]) = 1"
  unfolding grants_def by code_simp+

theorem leader_counted_majority_witness:
  "candidacy n1a [3] n1b \<and> r_State n1b = StateLeader \<and> 3 < 2 * card {1, 3 :: u64} \<and> r_Term n1b = r_Term n1a"
proof -
  have "candidacy n1a [3] n1b"
    using candidacy.cand_step[OF candidacy.cand_start, of n1a "msgs n3a ! 0" n1b] run_steps(4) demo_grant by simp
  moreover have "do { r1 \<leftarrow> becomeCandidate (demo_raft 1 [1, 2, 3]); requestVotes r1 } = Some n1a"
    using run_steps(1) by (simp add: Step_def demo_raft_def)
  ultimately show ?thesis
    using leader_counted_majority[of "demo_raft 1 [1, 2, 3]" n1a "[3]" n1b] demo_grant by simp
qed

text \<open>The same response again is counted again.\<close>

lemma repeated_grant:
  assumes "grants (r_Term r) m" "r_State r = StateCandidate" "length (peers r) < 2 ^ 64"
    and "VoteReceived r = Suc k" "VoteTotal r = Suc k" "Suc k < length (peers r) div 2"
  shows "Step m r = Some (r\<lparr>VoteTotal := Suc (Suc k), VoteReceived := Suc (Suc k)\<rparr>)"
proof -
  have "u64_add (Suc k) 1 = Suc (Suc k)" using assms(3,6) by (subst u64_add_exact) auto
  moreover have "Suc (Suc k) \<noteq> length (peers r)" using assms(6) by linarith
  ultimately show ?thesis using assms by (simp add: Step_def grants_def handleVoteResponse_def Let_def)
qed

lemma repeated_grants:
  assumes "grants (r_Term r) m" "r_State r = StateCandidate" "length (peers r) < 2 ^ 64"
    and "VoteReceived r = 1" "VoteTotal r = 1" "Suc k \<le> length (peers r) div 2"
  shows "foldM Step (replicate k m) r = Some (r\<lparr>VoteTotal := Suc k, VoteReceived := Suc k\<rparr>)"
  using assms(6)
proof (induction k)
  case 0
  then show ?case using assms(4,5) by simp
next
  case (Suc k)
  have "replicate (Suc k) m = replicate k m @ [m]" by (simp add: replicate_append_same)
  then show ?case
    using Suc assms(1-3) repeated_grant[of "r\<lparr>VoteTotal := Suc k, VoteReceived := Suc k\<rparr>" m k] by (simp add: foldM_append)
qed

text \<open>
  C18 (safety): the distinctness in the property before is needed. Responses are counted without looking at
  their sender: a candidate that has just campaigned, in the invariant and in a configuration of any size,
  becomes leader of its term by handling one and the same granting response half as
  many times as there are members. With four or more members its own vote and that one are no majority.
\<close>

theorem one_vote_elects:
  assumes "raft_ok memory_storage_ops ms_wf r" "r_id r \<in> set (peers r)" "Suc (Suc (LastIndex (r_RaftLog r))) < 2 ^ 63"
    and "r_State r = StateCandidate" "VoteReceived r = 1" "VoteTotal r = 1" "grants (r_Term r) m"
    and "1 < length (peers r)" "length (peers r) < 2 ^ 64"
  shows "\<exists>r'. foldM Step (replicate (length (peers r) div 2) m) r = Some r' \<and> r_State r' = StateLeader \<and> r_Term r' = r_Term r"
proof -
  obtain k where k: "length (peers r) div 2 = Suc k" using assms(8) by (cases "length (peers r) div 2") auto
  define r1 where "r1 = r\<lparr>VoteTotal := Suc k, VoteReceived := Suc k\<rparr>"
  have r1: "foldM Step (replicate k m) r = Some r1"
    unfolding r1_def using repeated_grants[OF assms(7,4,9,5,6), of k] k by simp
  define r2 where "r2 = r1\<lparr>VoteTotal := Suc (Suc k), VoteReceived := Suc (Suc k)\<rparr>"
  have "u64_add (Suc k) 1 = Suc (Suc k)" using assms(9) k by (subst u64_add_exact) auto
  then have "Step m r1 = becomeLeader r2"
    using assms(4,7) k by (simp add: Step_def grants_def handleVoteResponse_def Let_def r1_def r2_def)
  moreover have "raft_ok memory_storage_ops ms_wf r2" using assms(1) by (simp add: raft_ok_def r2_def r1_def)
  then obtain r' where "becomeLeader r2 = Some r'" "same_role (r2\<lparr>r_State := StateLeader, r_Lead := r_id r2\<rparr>) r'"
    using ms.becomeLeader_ok[of r2] assms(2,3) by (auto simp: r2_def r1_def)
  moreover have "replicate (Suc k) m = replicate k m @ [m]" by (simp add: replicate_append_same)
  ultimately show ?thesis using r1 unfolding k by (auto simp: foldM_append same_role_def r2_def r1_def)
qed

theorem one_vote_elects_witness:
  "\<exists>r'. foldM Step (replicate 2 (zero_Message\<lparr>m_MsgType := MsgRequestVoteResponse, m_From := 2, m_Term := 1\<rparr>))
       ((demo_raft 1 [1, 2, 3, 4, 5])\<lparr>r_Term := 1, r_State := StateCandidate, VoteReceived := 1, VoteTotal := 1\<rparr>) = Some r' \<and>
     r_State r' = StateLeader"
proof -
  define r where "r = (demo_raft 1 [1, 2, 3, 4, 5])\<lparr>r_Term := 1, r_State := StateCandidate, VoteReceived := 1, VoteTotal := 1\<rparr>"
  define m where "m = zero_Message\<lparr>m_MsgType := MsgRequestVoteResponse, m_From := 2, m_Term := 1\<rparr>"
  have "raft_ok memory_storage_ops ms_wf r" using demo_raft_ok[of 1 "[1, 2, 3, 4, 5]"] by (simp add: raft_ok_def r_def)
  moreover have "r_id r \<in> set (peers r)" "Suc (Suc (LastIndex (r_RaftLog r))) < 2 ^ 63" "r_State r = StateCandidate"
      "VoteReceived r = 1" "VoteTotal r = 1" "grants (r_Term r) m" "length (peers r) = 5"
    by (simp_all add: r_def m_def demo_raft_def demo_log_def LastIndex_def grants_def zero_Message_def)
  ultimately show ?thesis using one_vote_elects[of r m] unfolding r_def[symmetric] m_def[symmetric] by fastforce
qed

end
