(* ===== verification/Raft_Driver.thy ===== *)
theory Raft_Driver
  imports Raft_Safety
begin

text \<open>
  How the store drives a peer: draining it with \<open>Ready\<close> and \<open>Advance\<close>, ticking it until it
  campaigns, the messages it replicates with, and membership changes.
\<close>

section \<open>Draining\<close>

text \<open>
  C21 (liveness): one round of \<open>Ready\<close> and \<open>Advance\<close> drains a peer. For a peer in the invariant
  whose memory storage has compacted no more than the committed entries and no more than the log
  has, \<open>Ready\<close> returns exactly the entries after the stabled index, exactly the entries between the
  applied and the committed index, and all pending messages; after \<open>Advance\<close> the invariant holds,
  everything committed is applied, everything is stable, and \<open>HasReady\<close> is false.
\<close>

theorem Ready_Advance_drains:
  assumes "raft_ok memory_storage_ops ms_wf (rn_Raft rn)"
    and "ms_base (storage (r_RaftLog (rn_Raft rn))) \<le> committed (r_RaftLog (rn_Raft rn))"
    and "ms_base (storage (r_RaftLog (rn_Raft rn))) < LastIndex (r_RaftLog (rn_Raft rn)) \<or>
      ms_base (storage (r_RaftLog (rn_Raft rn))) \<le> lastIdxOfSnapshot (r_RaftLog (rn_Raft rn))"
  shows "\<exists>rd rn1 rn2. rn_Ready rn = Some (rd, rn1) \<and> Advance rd rn1 = Some rn2 \<and>
    rd_Entries rd = log_range (r_RaftLog (rn_Raft rn)) (stabled (r_RaftLog (rn_Raft rn))) (LastIndex (r_RaftLog (rn_Raft rn))) \<and>
    rd_CommittedEntries rd =
      log_range (r_RaftLog (rn_Raft rn)) (applied (r_RaftLog (rn_Raft rn))) (committed (r_RaftLog (rn_Raft rn))) \<and>
    rd_Messages rd = msgs (rn_Raft rn) \<and> raft_ok memory_storage_ops ms_wf (rn_Raft rn2) \<and>
    committed (r_RaftLog (rn_Raft rn2)) = committed (r_RaftLog (rn_Raft rn)) \<and>
    applied (r_RaftLog (rn_Raft rn2)) = committed (r_RaftLog (rn_Raft rn)) \<and>
    stabled (r_RaftLog (rn_Raft rn2)) = LastIndex (r_RaftLog (rn_Raft rn)) \<and> HasReady rn2 = Some False"
  by (rule ms.Ready_Advance[OF assms(1)]) (use assms(2,3) in auto)

theorem Ready_Advance_drains_witness:
  "\<exists>rd rn1 rn2. rn_Ready \<lparr>rn_Raft = demo_leader\<lparr>r_RaftLog := (r_RaftLog demo_leader)\<lparr>committed := 1\<rparr>\<rparr>,
       prevSoftState = \<lparr>ss_Lead = 0, ss_RaftState = StateFollower\<rparr>, prevHardState = zero_HardState\<rparr> = Some (rd, rn1) \<and>
     Advance rd rn1 = Some rn2 \<and> rd_Entries rd = [zero_Entry\<lparr>e_Term := 1, e_Index := 1\<rparr>] \<and>
     rd_CommittedEntries rd = [zero_Entry\<lparr>e_Term := 1, e_Index := 1\<rparr>] \<and> HasReady rn2 = Some False"
proof -
  define rn where "rn = \<lparr>rn_Raft = demo_leader\<lparr>r_RaftLog := (r_RaftLog demo_leader)\<lparr>committed := 1\<rparr>\<rparr>,
       prevSoftState = \<lparr>ss_Lead = 0, ss_RaftState = StateFollower\<rparr>, prevHardState = zero_HardState\<rparr>"
  have f: "committed (r_RaftLog (rn_Raft rn)) = 1" "LastIndex (r_RaftLog (rn_Raft rn)) = 1"
      "stabled (r_RaftLog (rn_Raft rn)) = 0" "applied (r_RaftLog (rn_Raft rn)) = 0"
      "ms_base (storage (r_RaftLog (rn_Raft rn))) = 0" "lastIdxOfSnapshot (r_RaftLog (rn_Raft rn)) = 0"
      "log_range (r_RaftLog (rn_Raft rn)) 0 1 = [zero_Entry\<lparr>e_Term := 1, e_Index := 1\<rparr>]"
    by (simp_all add: rn_def demo_leader_def demo_log_def demo_raft_def LastIndex_def ms_base_def
        NewMemoryStorage_def zero_Entry_def log_range_def log_view_def)
  have "raft_ok memory_storage_ops ms_wf (rn_Raft rn)"
    using demo_leader_ok by (auto simp: rn_def raft_ok_def log_ok_def log_wf_def demo_leader_def demo_log_def)
  from Ready_Advance_drains[OF this] show ?thesis unfolding rn_def[symmetric] f by auto
qed

section \<open>Ticking\<close>

fun ticks :: "nat \<Rightarrow> 's Raft \<Rightarrow> 's Raft option" where
  "ticks 0 r = Some r"
| "ticks (Suc n) r = do { r \<leftarrow> tick r; ticks n r }"

lemma ticks_quiet:
  assumes "r_State r \<noteq> StateLeader" "electionElapsed r + int n < electionTimeoutRandom r"
  shows "ticks n r = Some (r\<lparr>electionElapsed := electionElapsed r + int n,
    heartbeatElapsed := heartbeatElapsed r + int n\<rparr>)"
  using assms
proof (induction n arbitrary: r)
  case (Suc n)
  let ?r = "r\<lparr>electionElapsed := electionElapsed r + 1, heartbeatElapsed := heartbeatElapsed r + 1\<rparr>"
  have "tick r = Some ?r" using Suc.prems by (simp add: tick_def Let_def)
  moreover have "ticks n ?r = Some (?r\<lparr>electionElapsed := electionElapsed ?r + int n,
      heartbeatElapsed := heartbeatElapsed ?r + int n\<rparr>)"
    using Suc.prems by (intro Suc.IH) auto
  ultimately show ?case by (simp add: algebra_simps)
qed simp

lemma ticks_Suc_last: "ticks (Suc n) r = do { r \<leftarrow> ticks n r; tick r }"
proof (induction n arbitrary: r)
  case (Suc n)
  then show ?case by (cases "tick r") auto
qed (simp split: Option.bind_split)

text \<open>The requests a campaign sends: one to every other peer of the configuration.\<close>

lemma requestVotes_eq:
  assumes "Term (r_RaftLog r) (LastIndex (r_RaftLog r)) = Some t"
  shows "requestVotes r = Some (r\<lparr>msgs := msgs r @ map (\<lambda>p. zero_Message\<lparr>m_MsgType := MsgRequestVote,
    m_To := p, m_From := r_id r, m_Term := r_Term r, m_LogTerm := t, m_Index := LastIndex (r_RaftLog r)\<rparr>)
    (filter (\<lambda>p. p \<noteq> r_id r) (peers r))\<rparr>)"
proof -
  define f where "f = (\<lambda>p (r :: 'a Raft). if p = r_id r then Some r else requestVote p r)"
  define mk where "mk = (\<lambda>p. zero_Message\<lparr>m_MsgType := MsgRequestVote,
    m_To := p, m_From := r_id r, m_Term := r_Term r, m_LogTerm := t, m_Index := LastIndex (r_RaftLog r)\<rparr>)"
  have "foldM f ps (r\<lparr>msgs := ms\<rparr>) = Some (r\<lparr>msgs := ms @ map mk (filter (\<lambda>p. p \<noteq> r_id r) ps)\<rparr>)" for ps ms
  proof (induction ps arbitrary: ms)
    case (Cons p ps)
    have "f p (r\<lparr>msgs := ms\<rparr>) = Some (r\<lparr>msgs := ms @ (if p = r_id r then [] else [mk p])\<rparr>)"
      using assms by (simp add: f_def requestVote_def send_def mk_def)
    then show ?case using Cons.IH by simp
  qed simp
  from this[of "peers r" "msgs r"] show ?thesis by (simp add: requestVotes_def f_def mk_def)
qed

text \<open>
  C22 (liveness): an undisturbed peer campaigns, at its timeout and not earlier. For a follower or candidate with a
  well-formed log and at least two peers that is only ticked, after any number of ticks short of
  its randomised timeout nothing but its two clocks has changed; the tick that reaches the timeout makes it a
  candidate of the next term that has voted for itself and has
  sent exactly one vote request, carrying its last index and term, to every other peer; the next
  timeout drawn is at least the base timeout and less than twice it.
\<close>

theorem election_timeout_fires:
  assumes "log_wf (r_RaftLog r)" "r_State r \<noteq> StateLeader" "length (peers r) \<noteq> 1"
    and "0 < electionTimeout r" "Suc (r_Term r) < 2 ^ 64"
    and "electionElapsed r + int n = electionTimeoutRandom r" "0 < n"
  shows "(\<forall>k < n. ticks k r = Some (r\<lparr>electionElapsed := electionElapsed r + int k, heartbeatElapsed := heartbeatElapsed r + int k\<rparr>)) \<and>
   (\<exists>r' t. ticks n r = Some r' \<and> r_State r' = StateCandidate \<and> r_Term r' = Suc (r_Term r) \<and>
    r_Vote r' = r_id r \<and> VoteReceived r' = 1 \<and> r_RaftLog r' = r_RaftLog r \<and>
    electionTimeout r \<le> electionTimeoutRandom r' \<and> electionTimeoutRandom r' < 2 * electionTimeout r \<and>
    term_view (r_RaftLog r) (LastIndex (r_RaftLog r)) = Some t \<and>
    msgs r' = msgs r @ map (\<lambda>p. zero_Message\<lparr>m_MsgType := MsgRequestVote, m_To := p, m_From := r_id r,
        m_Term := Suc (r_Term r), m_LogTerm := t, m_Index := LastIndex (r_RaftLog r)\<rparr>)
      (filter (\<lambda>p. p \<noteq> r_id r) (peers r)))"
proof -
  have quiet: "ticks k r = Some (r\<lparr>electionElapsed := electionElapsed r + int k, heartbeatElapsed := heartbeatElapsed r + int k\<rparr>)"
    if "k < n" for k using assms(2,6) that by (intro ticks_quiet) auto
  obtain k where k: "n = Suc k" using assms(7) by (cases n) auto
  obtain t where t: "Term (r_RaftLog r) (LastIndex (r_RaftLog r)) = Some t"
    using Term_returns[OF assms(1), of "LastIndex (r_RaftLog r)"] by (auto simp: LastIndex_eq[OF assms(1)])
  then have tv: "term_view (r_RaftLog r) (LastIndex (r_RaftLog r)) = Some t"
    using Term_eq[OF assms(1), of "LastIndex (r_RaftLog r)"] by (simp add: LastIndex_eq[OF assms(1)])
  define r1 where "r1 = r\<lparr>electionElapsed := electionElapsed r + int k, heartbeatElapsed := heartbeatElapsed r + int k\<rparr>"
  have q: "ticks k r = Some r1" unfolding r1_def by (rule quiet) (simp add: k)
  define r2 where "r2 = r1\<lparr>heartbeatElapsed := heartbeatElapsed r1 + 1, r_Term := Suc (r_Term r), VoteReceived := 1, VoteTotal := 1, r_Vote := r_id r,
    votes := fmupd (r_id r) True (votes r), r_State := StateCandidate, electionElapsed := 0,
    electionTimeoutRandom := electionTimeout r + int (rand_src r 0) mod electionTimeout r,
    rand_src := rand_next (rand_src r)\<rparr>"
  have u: "u64_add (r_Term r) 1 = Suc (r_Term r)" using assms(5) by (subst u64_add_exact) auto
  have "tick r1 = requestVotes r2"
    using assms(2,3,4,6) k u by (simp add: tick_def Let_def becomeCandidate_def rand_mod_def r1_def r2_def)
  then have "ticks n r = requestVotes r2" using q unfolding k ticks_Suc_last by simp
  moreover have "requestVotes r2 = Some (r2\<lparr>msgs := msgs r2 @ map (\<lambda>p. zero_Message\<lparr>m_MsgType := MsgRequestVote,
      m_To := p, m_From := r_id r2, m_Term := r_Term r2, m_LogTerm := t, m_Index := LastIndex (r_RaftLog r2)\<rparr>)
    (filter (\<lambda>p. p \<noteq> r_id r2) (peers r2))\<rparr>)"
    using t by (intro requestVotes_eq) (simp add: r2_def r1_def)
  ultimately show ?thesis using quiet tv assms(4) by (simp add: r2_def r1_def)
qed

theorem election_timeout_fires_witness:
  "ticks 9 (demo_raft 1 [1, 2, 3]) = Some ((demo_raft 1 [1, 2, 3])\<lparr>electionElapsed := 9, heartbeatElapsed := 9\<rparr>) \<and>
   (\<exists>r'. ticks 10 (demo_raft 1 [1, 2, 3]) = Some r' \<and> r_State r' = StateCandidate \<and>
     map m_To (msgs r') = [2, 3])"
proof -
  let ?r = "demo_raft 1 [1, 2, 3]"
  have "log_wf (r_RaftLog ?r)" "r_State ?r \<noteq> StateLeader" "length (peers ?r) \<noteq> 1" "0 < electionTimeout ?r" "Suc (r_Term ?r) < 2 ^ 64"
      "electionElapsed ?r = 0" "heartbeatElapsed ?r = 0" "electionTimeoutRandom ?r = 10" "peers ?r = [1, 2, 3]" "msgs ?r = []" "r_id ?r = 1"
    by (simp_all add: demo_raft_def demo_log_def log_wf_def)
  with election_timeout_fires[of ?r 10] show ?thesis by fastforce
qed

section \<open>Replication messages\<close>

text \<open>
  \<open>sendAppend\<close> to a peer with a progress, by a peer in the invariant over a memory
  storage, does one of three things. If the follower's next index is already compacted, it sends
  the storage's snapshot and moves the next index past it; if the next index lies beyond the log,
  it sends nothing and returns false; otherwise it sends exactly the entries from the next index
  to the end, with the index and term of the entry before them and the committed index, and
  changes nothing else.
\<close>

theorem sendAppend_sends:
  assumes "raft_ok memory_storage_ops ms_wf r" "get_pr to r = Some pr"
  shows "if p_Next pr \<le> lastIdxOfSnapshot (r_RaftLog r) then
      (\<exists>md. sn_Metadata (ms_snapshot (storage (r_RaftLog r))) = Some md \<and>
        sendAppend to r = Some (True, send (zero_Message\<lparr>m_MsgType := MsgSnapshot, m_To := to,
            m_From := r_id r, m_Term := r_Term r, m_Snapshot := Some (ms_snapshot (storage (r_RaftLog r)))\<rparr>)
          (set_pr to (pr\<lparr>p_Next := u64_add (sm_Index md) 1\<rparr>) r)))
    else if LastIndex (r_RaftLog r) < p_Next pr then sendAppend to r = Some (False, r)
    else (\<exists>t. term_view (r_RaftLog r) (p_Next pr - 1) = Some t \<and>
      sendAppend to r = Some (True, send (zero_Message\<lparr>m_MsgType := MsgAppend, m_To := to,
        m_From := r_id r, m_Term := r_Term r, m_LogTerm := t, m_Index := p_Next pr - 1,
        m_Commit := committed (r_RaftLog r),
        m_Entries := log_range (r_RaftLog r) (p_Next pr - 1) (LastIndex (r_RaftLog r))\<rparr>) r))"
proof -
  let ?l = "r_RaftLog r"
  have ok: "log_ok ?l" and wf: "log_wf ?l" and st: "storage_ops ?l = memory_storage_ops" "ms_wf (storage ?l)"
    using assms(1) by (auto simp: raft_ok_def log_ok_def)
  consider "p_Next pr \<le> lastIdxOfSnapshot ?l" | "lastIdxOfSnapshot ?l < p_Next pr" "LastIndex ?l < p_Next pr"
    | "lastIdxOfSnapshot ?l < p_Next pr" "p_Next pr \<le> LastIndex ?l" by linarith
  then show ?thesis
  proof cases
    case 1
    obtain md where "sn_Metadata (ms_snapshot (storage ?l)) = Some md" using st(2) by (auto simp: ms_wf_def)
    then show ?thesis
      using 1 assms(2) st by (simp add: sendAppend_def needSnapshot_def sendSnapshot_def
          memory_storage_ops_def ms_Snapshot_def get_pr_def Let_def)
  next
    case 2
    then show ?thesis using assms(2) by (simp add: sendAppend_def needSnapshot_def)
  next
    case 3
    have u: "u64_sub (p_Next pr) 1 = p_Next pr - 1"
      using 3 log_okE(7)[OF ok] by (intro u64_sub_exact) auto
    have b: "lastIdxOfSnapshot ?l \<le> p_Next pr - 1" "p_Next pr - 1 \<le> LastIndex ?l" using 3 by linarith+
    obtain t where "Term ?l (p_Next pr - 1) = Some t" using Term_returns[OF wf b] by blast
    moreover from this have "term_view ?l (p_Next pr - 1) = Some t" using Term_eq[OF wf b] by simp
    ultimately show ?thesis
      using 3 u assms(2) collect_entries_eq[OF wf 3(1)] by (simp add: sendAppend_def needSnapshot_def Let_def)
  qed
qed

theorem sendAppend_sends_witness:
  "\<exists>t. sendAppend 2 demo_leader = Some (True, send (zero_Message\<lparr>m_MsgType := MsgAppend, m_To := 2,
     m_From := 1, m_Term := 1, m_LogTerm := t, m_Index := 0, m_Commit := 0,
     m_Entries := [zero_Entry\<lparr>e_Term := 1, e_Index := 1\<rparr>]\<rparr>) demo_leader)"
  using sendAppend_sends[OF demo_leader_ok, of 2 "\<lparr>p_Match = 0, p_Next = 1\<rparr>"]
  by (auto simp: demo_leader_def demo_raft_def demo_log_def get_pr_def LastIndex_def log_range_def
      log_view_def zero_Entry_def)

section \<open>Membership\<close>

lemma removePeer_loop_absent:
  "nid \<notin> set (drop idx arr) \<Longrightarrow> removePeer_loop nid idx arr len = Some (take len arr)"
proof (induction "length arr - idx" arbitrary: idx)
  case 0
  then show ?case by (simp add: removePeer_loop.simps[of nid idx])
next
  case (Suc n)
  then have lt: "idx < length arr" by simp
  then have d: "drop idx arr = arr ! idx # drop (Suc idx) arr" by (simp add: Cons_nth_drop_Suc)
  then have "removePeer_loop nid idx arr len = removePeer_loop nid (Suc idx) arr len"
    using lt Suc.prems by (simp add: removePeer_loop.simps[of nid idx])
  then show ?case using Suc.hyps(1)[of "Suc idx"] Suc.hyps(2) Suc.prems d by simp
qed

lemma removePeer_loop_eq:
  assumes "distinct ps" "idx \<le> length ps" "nid \<notin> set (take idx ps)"
  shows "removePeer_loop nid idx ps (length ps) = Some (filter (\<lambda>p. p \<noteq> nid) ps)"
  using assms
proof (induction "length ps - idx" arbitrary: idx)
  case 0
  then have "filter (\<lambda>p. p \<noteq> nid) ps = ps" by (auto intro!: filter_True)
  then show ?case using 0 by (simp add: removePeer_loop.simps[of nid idx])
next
  case (Suc n)
  then have lt: "idx < length ps" by simp
  have split: "ps = take idx ps @ ps ! idx # drop (Suc idx) ps" using lt by (simp add: id_take_nth_drop)
  show ?case
  proof (cases "ps ! idx = nid")
    case True
    define arr where "arr = take idx ps @ drop (Suc idx) ps @ drop (length ps - 1) ps"
    have nid: "nid \<notin> set (drop (Suc idx) ps)"
      using Suc.prems(1) True lt by (auto simp: in_set_conv_nth nth_eq_iff_index_eq)
    have last: "drop (length ps - 1) ps = [last ps]"
      using lt by (cases ps rule: rev_cases) auto
    define rest where "rest = drop (Suc idx) ps @ [last ps]"
    have "arr = take idx ps @ rest" by (simp only: arr_def last rest_def)
    then have "drop (Suc idx) arr = drop 1 (drop (Suc idx) ps @ [last ps])"
      unfolding rest_def[symmetric] using lt by simp
    moreover have "nid \<notin> set (drop 1 (drop (Suc idx) ps @ [last ps]))"
    proof (cases "drop (Suc idx) ps = []")
      case False
      then have "last ps = last (drop (Suc idx) ps)" by (simp add: last_drop)
      then have "last ps \<in> set (drop (Suc idx) ps)" using last_in_set[OF False] by simp
      then show ?thesis using nid False by (cases "drop (Suc idx) ps") auto
    qed simp
    ultimately have "removePeer_loop nid (Suc idx) arr (length ps - 1) = Some (take (length ps - 1) arr)"
      by (intro removePeer_loop_absent) simp
    moreover have "removePeer_loop nid idx ps (length ps) = removePeer_loop nid (Suc idx) arr (length ps - 1)"
      using lt True by (simp add: removePeer_loop.simps[of nid idx] arr_def)
    moreover have "take (length ps - 1) arr = take idx ps @ drop (Suc idx) ps"
      using lt by (simp add: arr_def)
    moreover have "filter (\<lambda>p. p \<noteq> nid) ps = take idx ps @ drop (Suc idx) ps"
    proof -
      have "filter (\<lambda>p. p \<noteq> nid) (take idx ps) = take idx ps"
          "filter (\<lambda>p. p \<noteq> nid) (drop (Suc idx) ps) = drop (Suc idx) ps"
        using Suc.prems(3) nid by (auto intro!: filter_True)
      moreover have "filter (\<lambda>p. p \<noteq> nid) ps =
          filter (\<lambda>p. p \<noteq> nid) (take idx ps @ ps ! idx # drop (Suc idx) ps)"
        using split by (rule arg_cong)
      ultimately show ?thesis using True by simp
    qed
    ultimately show ?thesis by simp
  next
    case False
    then have "removePeer_loop nid idx ps (length ps) = removePeer_loop nid (Suc idx) ps (length ps)"
      using lt by (simp add: removePeer_loop.simps[of nid idx])
    moreover have "nid \<notin> set (take (Suc idx) ps)"
      using Suc.prems(3) False lt by (simp add: take_Suc_conv_app_nth)
    ultimately show ?thesis using Suc.hyps(1)[of "Suc idx"] Suc.hyps(2) Suc.prems lt by simp
  qed
qed

lemma count_reached_eq:
  assumes "\<forall>p \<in> set (peers r). fmlookup (Prs r) p \<noteq> None"
  shows "count_reached idx r =
    Some (length (filter (\<lambda>p. idx \<le> p_Match (the (fmlookup (Prs r) p))) (peers r)))"
proof -
  define f where "f = (\<lambda>p (matched :: nat). do { pr \<leftarrow> get_pr p r;
    Some (if p_Match pr \<ge> idx then matched + 1 else matched) })"
  have "foldM f ps n = Some (n + length (filter (\<lambda>p. idx \<le> p_Match (the (fmlookup (Prs r) p))) ps))"
    if "set ps \<subseteq> set (peers r)" for ps n
    using that assms by (induction ps arbitrary: n) (auto simp: f_def get_pr_def)
  from this[of "peers r" 0] show ?thesis by (simp add: count_reached_def f_def)
qed

definition reached :: "'s Raft \<Rightarrow> u64 \<Rightarrow> bool" where
  "reached r idx \<longleftrightarrow> term_view (r_RaftLog r) idx = Some (r_Term r) \<and>
     length (peers r) < 2 * length (filter (\<lambda>p. idx \<le> p_Match (the (fmlookup (Prs r) p))) (peers r))"

lemma Term_committed: "Term (l\<lparr>committed := c\<rparr>) i = Term l i"
proof -
  have "realIdx (l\<lparr>committed := c\<rparr>) i = realIdx l i" by (simp add: realIdx_def)
  then show ?thesis by (cases "realIdx l i") (auto simp: Term_def)
qed

text \<open>
  The loop that commits after a removal returns, and changes only the committed index, which stays
  or becomes an index of the current term that a majority of the new configuration has reached.
\<close>

lemma recommit_ok:
  assumes ok: "log_ok (r_RaftLog r)" and prs: "\<forall>p \<in> set (peers r). fmlookup (Prs r) p \<noteq> None"
  shows "\<exists>nc c. recommit r = Some (nc, r\<lparr>r_RaftLog := (r_RaftLog r)\<lparr>committed := c\<rparr>\<rparr>) \<and>
    (c = committed (r_RaftLog r) \<or> committed (r_RaftLog r) < c \<and> c \<le> LastIndex (r_RaftLog r) \<and> reached r c)"
proof -
  let ?l = "r_RaftLog r"
  define f where "f = (\<lambda>idx (newCommit, r :: 'a Raft). do {
         matched \<leftarrow> count_reached idx r;
         t \<leftarrow> Term (r_RaftLog r) idx;
         Some (if t = r_Term r \<and> matched > length (peers r) div 2
               then (True, r\<lparr>r_RaftLog := (r_RaftLog r)\<lparr>committed := idx\<rparr>\<rparr>)
               else (newCommit, r)) })"
  let ?P = "\<lambda>(nc, r'). \<exists>c. r' = r\<lparr>r_RaftLog := ?l\<lparr>committed := c\<rparr>\<rparr> \<and>
    (c = committed ?l \<or> committed ?l < c \<and> c \<le> LastIndex ?l \<and> reached r c)"
  have c1: "u64_add (committed ?l) 1 = Suc (committed ?l)"
    using log_okE(3,7)[OF ok] by (subst u64_add_exact) auto
  have step: "\<exists>t. f idx s = Some t \<and> ?P t"
    if idx: "idx \<in> set [Suc (committed ?l)..<Suc (LastIndex ?l)]" and P: "?P s" for idx s
  proof -
    obtain nc c where s: "s = (nc, r\<lparr>r_RaftLog := ?l\<lparr>committed := c\<rparr>\<rparr>)"
      using P by (cases s) auto
    have rng: "lastIdxOfSnapshot ?l \<le> idx" "idx \<le> LastIndex ?l" "committed ?l < idx"
      using idx log_okE(1,2)[OF ok] by auto
    obtain t where t: "Term ?l idx = Some t" using Term_returns[OF log_ok_wf[OF ok] rng(1,2)] by blast
    then have tv: "term_view ?l idx = Some t" using Term_eq[OF log_ok_wf[OF ok] rng(1,2)] by simp
    define n where "n = length (filter (\<lambda>p. idx \<le> p_Match (the (fmlookup (Prs r) p))) (peers r))"
    have "Term (?l\<lparr>committed := c\<rparr>) idx = Some t" using t by (simp add: Term_committed)
    moreover have "count_reached idx (r\<lparr>r_RaftLog := ?l\<lparr>committed := c\<rparr>\<rparr>) =
        Some n"
      using count_reached_eq[of "r\<lparr>r_RaftLog := ?l\<lparr>committed := c\<rparr>\<rparr>"] prs by (simp add: n_def)
    ultimately have fs: "f idx s = Some (if t = r_Term r \<and> n > length (peers r) div 2
        then (True, r\<lparr>r_RaftLog := ?l\<lparr>committed := idx\<rparr>\<rparr>) else s)"
      by (simp add: f_def s)
    show ?thesis
    proof (cases "t = r_Term r \<and> n > length (peers r) div 2")
      case True
      then have "length (peers r) < 2 * n" by presburger
      then have "reached r idx" using True tv by (simp add: reached_def n_def)
      then show ?thesis using fs True rng by auto
    next
      case False
      then have "f idx s = Some s" using fs by auto
      then show ?thesis using P by blast
    qed
  qed
  have "?P (False, r)" by (auto intro!: exI[of _ "committed ?l"])
  then have "\<exists>t. foldM f [Suc (committed ?l)..<Suc (LastIndex ?l)] (False, r) = Some t \<and> ?P t"
    by (rule foldM_total[where P = ?P, OF _ step])
  then obtain t where t: "foldM f [Suc (committed ?l)..<Suc (LastIndex ?l)] (False, r) = Some t" "?P t" by blast
  obtain nc c where "t = (nc, r\<lparr>r_RaftLog := ?l\<lparr>committed := c\<rparr>\<rparr>)"
      "c = committed ?l \<or> committed ?l < c \<and> c \<le> LastIndex ?l \<and> reached r c"
    using t(2) by (cases t) blast
  then show ?thesis using t(1) unfolding recommit_def c1 f_def[symmetric] by blast
qed

context raft_storage
begin

text \<open>The second half of \<open>removeNode\<close>: a leader commits anew and, if that moved anything, replicates.\<close>

lemma after_removal_ok:
  assumes ok: "raft_ok ops inv r"
  shows "\<exists>r'. (if r_State r = StateLeader then do {
        res \<leftarrow> recommit r;
        if fst res then broadCastAE (snd res) else Some (snd res)
      } else Some r) = Some r' \<and> raft_ok ops inv r' \<and> peers r' = peers r \<and>
    same_match (Prs r) (Prs r') \<and> entries (r_RaftLog r') = entries (r_RaftLog r) \<and>
    (committed (r_RaftLog r') = committed (r_RaftLog r) \<or>
     r_State r = StateLeader \<and> committed (r_RaftLog r) < committed (r_RaftLog r') \<and>
     reached r (committed (r_RaftLog r')))"
proof (cases "r_State r = StateLeader")
  case leader: True
  have lok: "log_ok (r_RaftLog r)" and prs: "\<forall>p \<in> set (peers r). fmlookup (Prs r) p \<noteq> None"
    using ok by (simp_all add: raft_ok_def)
  obtain nc c where rc: "recommit r = Some (nc, r\<lparr>r_RaftLog := (r_RaftLog r)\<lparr>committed := c\<rparr>\<rparr>)"
      "c = committed (r_RaftLog r) \<or> committed (r_RaftLog r) < c \<and> c \<le> LastIndex (r_RaftLog r) \<and> reached r c"
    using recommit_ok[OF lok prs] by blast
  define r2 where "r2 = r\<lparr>r_RaftLog := (r_RaftLog r)\<lparr>committed := c\<rparr>\<rparr>"
  have ok2: "raft_ok ops inv r2"
    unfolding r2_def using rc(2) log_okE(3)[OF lok] by (intro committed_ok[OF ok]) auto
  obtain r3 where r3: "(if nc then broadCastAE r2 else Some r2) = Some r3" "sends r2 r3"
      "raft_ok ops inv r3"
    using broadCastAE_ok[OF ok2] ok2 by (cases nc) auto
  have f3: "peers r3 = peers r" "committed (r_RaftLog r3) = c" "entries (r_RaftLog r3) = entries (r_RaftLog r)"
      "same_match (Prs r) (Prs r3)"
    using sends_frame(9,15,18,23)[OF r3(2)] by (simp_all add: r2_def)
  then show ?thesis
    using leader rc r3 by (cases nc) (auto simp: r2_def[symmetric])
qed (use ok in simp)

lemma removeNode_ok:
  assumes "raft_ok ops inv r" "distinct (peers r)"
  shows "\<exists>r'. removeNode nid r = Some r' \<and> raft_ok ops inv r' \<and>
    (if nid \<in> set (peers r)
     then peers r' = filter (\<lambda>p. p \<noteq> nid) (peers r) \<and> fmlookup (Prs r') nid = None \<and>
       PendingConfIndex r' = 0 \<and> entries (r_RaftLog r') = entries (r_RaftLog r) \<and>
       (committed (r_RaftLog r') = committed (r_RaftLog r) \<or>
        r_State r = StateLeader \<and> committed (r_RaftLog r) < committed (r_RaftLog r') \<and>
        reached (r\<lparr>peers := filter (\<lambda>p. p \<noteq> nid) (peers r), Prs := fmdrop nid (Prs r)\<rparr>)
          (committed (r_RaftLog r')))
     else r' = r)"
proof (cases "nid \<in> set (peers r)")
  case False
  then show ?thesis using assms(1) by (simp add: removeNode_def containsPeer_def)
next
  case True
  define r1 where "r1 = r\<lparr>peers := filter (\<lambda>p. p \<noteq> nid) (peers r), Prs := fmdrop nid (Prs r)\<rparr>"
  have rp: "removePeer nid (r\<lparr>Prs := fmdrop nid (Prs r)\<rparr>) = Some r1"
    using removePeer_loop_eq[OF assms(2), of 0 nid] by (simp add: removePeer_def r1_def)
  have ok1: "raft_ok ops inv r1" using assms(1) by (auto simp: raft_ok_def r1_def)
  have f1: "r_RaftLog r1 = r_RaftLog r" "r_State r1 = r_State r" "fmlookup (Prs r1) nid = None"
      "peers r1 = filter (\<lambda>p. p \<noteq> nid) (peers r)" by (simp_all add: r1_def)
  have eq: "removeNode nid r = do {
      r2 \<leftarrow> (if r_State r1 = StateLeader then do {
        res \<leftarrow> recommit r1;
        if fst res then broadCastAE (snd res) else Some (snd res)
      } else Some r1);
      Some (r2\<lparr>PendingConfIndex := None_id\<rparr>) }"
    using True rp by (simp add: removeNode_def containsPeer_def)
  obtain r2 where r2: "(if r_State r1 = StateLeader then do {
        res \<leftarrow> recommit r1;
        if fst res then broadCastAE (snd res) else Some (snd res)
      } else Some r1) = Some r2" "raft_ok ops inv r2" "peers r2 = peers r1"
      "same_match (Prs r1) (Prs r2)" "entries (r_RaftLog r2) = entries (r_RaftLog r1)"
      "committed (r_RaftLog r2) = committed (r_RaftLog r1) \<or>
       r_State r1 = StateLeader \<and> committed (r_RaftLog r1) < committed (r_RaftLog r2) \<and>
       reached r1 (committed (r_RaftLog r2))"
    using after_removal_ok[OF ok1] by blast
  have "removeNode nid r = Some (r2\<lparr>PendingConfIndex := None_id\<rparr>)" unfolding eq r2(1) by simp
  moreover have "raft_ok ops inv (r2\<lparr>PendingConfIndex := None_id\<rparr>)"
    using r2(2) by (simp add: raft_ok_def)
  moreover have "fmlookup (Prs r2) nid = None" using same_match_dom[OF r2(4), of nid] f1(3) by simp
  ultimately show ?thesis using r2(3,5,6) f1 True by (auto simp: None_id_def r1_def[symmetric])
qed

end

text \<open>
  Removing a member. For a peer in the invariant over a memory storage whose
  configuration has no duplicates, \<open>removeNode\<close> returns without a panic and keeps the invariant. For
  a member it deletes exactly that peer from the configuration and its progress and clears the
  pending configuration change; a leader's committed index stays or moves up to an index of its own
  term that a majority of the new configuration has reached, everybody else's stays. An unknown
  peer changes nothing, not even the pending configuration change.
\<close>

theorem removeNode_removes:
  assumes "raft_ok memory_storage_ops ms_wf r" "distinct (peers r)"
  shows "\<exists>r'. removeNode nid r = Some r' \<and> raft_ok memory_storage_ops ms_wf r' \<and>
    (if nid \<in> set (peers r)
     then peers r' = filter (\<lambda>p. p \<noteq> nid) (peers r) \<and> fmlookup (Prs r') nid = None \<and>
       PendingConfIndex r' = 0 \<and> entries (r_RaftLog r') = entries (r_RaftLog r) \<and>
       (committed (r_RaftLog r') = committed (r_RaftLog r) \<or>
        r_State r = StateLeader \<and> committed (r_RaftLog r) < committed (r_RaftLog r') \<and>
        reached (r\<lparr>peers := filter (\<lambda>p. p \<noteq> nid) (peers r), Prs := fmdrop nid (Prs r)\<rparr>)
          (committed (r_RaftLog r')))
     else r' = r)"
  by (rule ms.removeNode_ok[OF assms])

theorem removeNode_removes_witness:
  "\<exists>r'. removeNode 2 demo_leader = Some r' \<and> peers r' = [1, 3]"
  using removeNode_removes[OF demo_leader_ok, of 2]
  by (auto simp: demo_leader_def demo_raft_def split: if_splits)

end
