(* ===== verification/Go_Sort.thy ===== *)
theory Go_Sort
  imports Prelude
begin

text \<open>
  Binary search of Go's package \<open>sort\<close> (\<open>sort.Search\<close>, \<open>sort.SearchInts\<close>), on which the
  search inside a B-tree node rests. The search returns the least index at which a monotone
  predicate holds (\<open>sort_Search_least\<close>), on any predicate a value of at most \<open>n\<close>.
\<close>

section \<open>Definitions\<close>

function search_loop :: "(nat \<Rightarrow> bool) \<Rightarrow> nat \<Rightarrow> nat \<Rightarrow> nat" where
  "search_loop f i j =
     (if i < j then
        let h = (i + j) div 2 in
        if f h then search_loop f i h else search_loop f (h + 1) j
      else i)"
  by pat_completeness auto
termination by (relation "measure (\<lambda>(f, i, j). j - i)") auto

declare search_loop.simps [simp del]

definition sort_Search :: "nat \<Rightarrow> (nat \<Rightarrow> bool) \<Rightarrow> nat" where
  "sort_Search n f = search_loop f 0 n"

definition sort_SearchInts :: "int list \<Rightarrow> int \<Rightarrow> nat" where
  "sort_SearchInts a x = sort_Search (length a) (\<lambda>i. a ! i \<ge> x)"

section \<open>The least index\<close>

lemma search_loop_bounds: "i \<le> j \<Longrightarrow> i \<le> search_loop f i j \<and> search_loop f i j \<le> j"
proof (induction f i j rule: search_loop.induct)
  case (1 f i j)
  then show ?case
    by (subst (1 2) search_loop.simps) (force simp: Let_def)
qed

lemma sort_Search_le: "sort_Search n f \<le> n"
  using search_loop_bounds[of 0 n f] by (simp add: sort_Search_def)

lemma search_loop_least:
  assumes "i \<le> k" "k \<le> j" "\<And>m. m < k \<Longrightarrow> \<not> f m" "\<And>m. k \<le> m \<Longrightarrow> m < j \<Longrightarrow> f m"
  shows "search_loop f i j = k"
  using assms
proof (induction f i j rule: search_loop.induct)
  case (1 f i j)
  show ?case
  proof (cases "i < j")
    case True
    define h where "h = (i + j) div 2"
    have h: "i \<le> h" "h < j" using True by (auto simp: h_def)
    show ?thesis
    proof (cases "f h")
      case hit: True
      then have "k \<le> h" using "1.prems"(3)[of h] by (meson not_le)
      then have "search_loop f i h = k"
        using "1.IH"(1)[OF True h_def hit] "1.prems" h by simp
      with True hit show ?thesis
        by (subst search_loop.simps) (simp add: Let_def flip: h_def)
    next
      case miss: False
      then have "h + 1 \<le> k" using "1.prems"(4)[of h] h(2) by (cases "k \<le> h") auto
      then have "search_loop f (h + 1) j = k"
        using "1.IH"(2)[OF True h_def miss] "1.prems" by simp
      with True miss show ?thesis
        by (subst search_loop.simps) (simp add: Let_def flip: h_def)
    qed
  next
    case False
    then show ?thesis using "1.prems" by (subst search_loop.simps) simp
  qed
qed

lemma sort_Search_least:
  assumes "k \<le> n" "\<And>m. m < k \<Longrightarrow> \<not> f m" "\<And>m. k \<le> m \<Longrightarrow> m < n \<Longrightarrow> f m"
  shows "sort_Search n f = k"
  unfolding sort_Search_def using assms by (intro search_loop_least) auto

text \<open>A list cut where the predicate turns true.\<close>

lemma sort_Search_append:
  assumes "\<And>x. x \<in> set xs \<Longrightarrow> \<not> P x" "\<And>y. y \<in> set ys \<Longrightarrow> P y"
  shows "sort_Search (length (xs @ ys)) (\<lambda>i. P ((xs @ ys) ! i)) = length xs"
  by (rule sort_Search_least) (auto simp: nth_append assms)

lemma sort_SearchInts_append:
  assumes "\<And>x. x \<in> set xs \<Longrightarrow> x < k" "\<And>y. y \<in> set ys \<Longrightarrow> k \<le> y"
  shows "sort_SearchInts (xs @ ys) k = length xs"
  unfolding sort_SearchInts_def
  using sort_Search_append[of xs "\<lambda>x. k \<le> x" ys] assms by force

end
