(* ===== verification/BTree.thy ===== *)
theory BTree
  imports Go_Sort
begin

text \<open>
  The B-tree of \<open>scheduler/pkg/btree/btree.go\<close>, which keeps the rank of every item in the
  array \<open>indices\<close> beside the items.

  \<^item> A node is a value: items, children, indices. Ownership of nodes (\<open>copyOnWriteContext\<close>,
    \<open>mutableFor\<close>, the free list) decides which nodes are written in place and which are copied
    first; it does not change the tree a write produces, and is left out.
  \<^item> The method \<open>Less\<close> of an item is the argument \<open>Less\<close>.
  \<^item> An out-of-range access is \<open>None\<close>. \<open>node_insert\<close> and \<open>node_remove\<close> recurse on nodes that
    were split or merged on the way, so they are partial functions, where \<open>None\<close> also stands
    for a call that does not return; both return on every well-formed tree.
  \<^item> An iterator is a function of the item and of the state its closure captures.
\<close>

section \<open>Items, children and indices\<close>

text \<open>The slice operations of \<open>items\<close> and of \<open>children\<close> have the same bodies.\<close>

definition insertAt :: "'b list \<Rightarrow> nat \<Rightarrow> 'b \<Rightarrow> 'b list option" where
  "insertAt s index item =
     (if index \<le> length s then Some (take index s @ item # drop index s) else None)"

definition removeAt :: "'b list \<Rightarrow> nat \<Rightarrow> ('b \<times> 'b list) option" where
  "removeAt s index = do {
     item \<leftarrow> at s index;
     Some (item, take index s @ drop (index + 1) s)
   }"

definition pop :: "'b list \<Rightarrow> ('b \<times> 'b list) option" where
  "pop s = (if s = [] then None else Some (last s, butlast s))"

definition truncate_at :: "'b list \<Rightarrow> nat \<Rightarrow> 'b list option" where
  "truncate_at s index = (if index \<le> length s then Some (take index s) else None)"

definition items_find :: "('a \<Rightarrow> 'a \<Rightarrow> bool) \<Rightarrow> 'a list \<Rightarrow> 'a \<Rightarrow> nat \<times> bool" where
  "items_find Less s item =
     (let i = sort_Search (length s) (\<lambda>i. Less item (s ! i)) in
      if i > 0 \<and> \<not> Less (s ! (i - 1)) item then (i - 1, True) else (i, False))"

definition indices_addAt :: "int list \<Rightarrow> nat \<Rightarrow> int \<Rightarrow> int list" where
  "indices_addAt s index delta = take index s @ map (\<lambda>x. x + delta) (drop index s)"

text \<open>
  The loop of \<open>insertAt\<close> shifts from the right end down to \<open>index\<close>, skipping position 0; past
  the end only the appended \<open>-1\<close> remains.
\<close>

definition indices_insertAt :: "int list \<Rightarrow> nat \<Rightarrow> int \<Rightarrow> int list" where
  "indices_insertAt s index sz =
     (if index = 0 then sz # map (\<lambda>x. x + sz + 1) s
      else if index \<le> length s
        then take index s @ map (\<lambda>x. x + sz + 1) (drop (index - 1) s)
      else s @ [-1])"

definition indices_push :: "int list \<Rightarrow> int \<Rightarrow> int list" where
  "indices_push s sz = (if s = [] then [sz] else s @ [last s + 1 + sz])"

definition indices_split :: "int list \<Rightarrow> nat \<Rightarrow> int \<Rightarrow> int list option" where
  "indices_split s index nextSize = do {
     let s = indices_insertAt s (index + 1) (-1);
     x \<leftarrow> at s index;
     Some (s[index := x - (1 + nextSize)])
   }"

definition indices_merge :: "int list \<Rightarrow> nat \<Rightarrow> int list option" where
  "indices_merge s index =
     (if s = [] then None
      else if index < length s then Some (take index s @ drop (index + 1) s)
      else Some (butlast s))"

definition indices_removeAt :: "int list \<Rightarrow> nat \<Rightarrow> (int \<times> int list) option" where
  "indices_removeAt s index = do {
     x \<leftarrow> at s index;
     let sz = (if index > 0 then x - s ! (index - 1) - 1 else x);
     Some (sz, take index s @ map (\<lambda>y. y - sz - 1) (drop (index + 1) s))
   }"

definition indices_pop :: "int list \<Rightarrow> (int \<times> int list) option" where
  "indices_pop s =
     (if s = [] then None
      else Some (if length s \<noteq> 1 then last s - (s ! (length s - 2) + 1) else last s, butlast s))"

definition indices_find :: "int list \<Rightarrow> int \<Rightarrow> (nat \<times> bool) option" where
  "indices_find s k = do {
     let i = sort_SearchInts s k;
     x \<leftarrow> at s i;
     Some (i, x = k)
   }"

section \<open>Nodes\<close>

datatype 'a node = Node (items: "'a list") (children: "'a node list") (indices: "int list")

definition node_length :: "'a node \<Rightarrow> int" where
  "node_length n = (if indices n = [] then int (length (items n)) else last (indices n))"

text \<open>\<open>initSize\<close> recomputes the indices from the lengths of the children.\<close>

fun sizes_from :: "int \<Rightarrow> 'a node list \<Rightarrow> int list" where
  "sizes_from k [] = []"
| "sizes_from k (c # cs) = (k + node_length c) # sizes_from (k + node_length c + 1) cs"

definition initSize :: "'a node \<Rightarrow> 'a node" where
  "initSize n = Node (items n) (children n) (sizes_from 0 (children n))"

text \<open>\<open>split\<close> returns the item at \<open>i\<close>, the shrunk node and the new right node.\<close>

definition node_split :: "'a node \<Rightarrow> nat \<Rightarrow> ('a \<times> 'a node \<times> 'a node) option" where
  "node_split n i = do {
     item \<leftarrow> at (items n) i;
     nextItems \<leftarrow> slice_from (items n) (i + 1);
     nItems \<leftarrow> truncate_at (items n) i;
     if children n \<noteq> [] then do {
       nextChildren \<leftarrow> slice_from (children n) (i + 1);
       nChildren \<leftarrow> truncate_at (children n) (i + 1);
       nIndices \<leftarrow> truncate_at (indices n) (i + 1);
       Some (item, Node nItems nChildren nIndices, initSize (Node nextItems nextChildren []))
     } else Some (item, Node nItems (children n) (indices n), Node nextItems [] [])
   }"

definition maybeSplitChild :: "'a node \<Rightarrow> nat \<Rightarrow> nat \<Rightarrow> (bool \<times> 'a node) option" where
  "maybeSplitChild n i maxItems = do {
     c \<leftarrow> at (children n) i;
     if length (items c) < maxItems then Some (False, n)
     else do {
       (item, first, second) \<leftarrow> node_split c (maxItems div 2);
       xs \<leftarrow> insertAt (items n) i item;
       cs \<leftarrow> insertAt ((children n)[i := first]) (i + 1) second;
       ix \<leftarrow> indices_split (indices n) i (node_length second);
       Some (True, Node xs cs ix)
     }
   }"

text \<open>
  \<open>insert\<close>: after a split of child \<open>i\<close> the item goes to the left half, to the right half, or
  replaces the item that moved up.
\<close>

partial_function (option) node_insert ::
  "('a \<Rightarrow> 'a \<Rightarrow> bool) \<Rightarrow> nat \<Rightarrow> 'a \<Rightarrow> 'a node \<Rightarrow> ('a node \<times> 'a option) option" where
  "node_insert Less maxItems item n =
     (let (i, found) = items_find Less (items n) item in
      if found then Some (Node ((items n)[i := item]) (children n) (indices n), Some (items n ! i))
      else if children n = [] then do {
        xs \<leftarrow> insertAt (items n) i item;
        Some (Node xs (children n) (indices n), None)
      }
      else do {
        (didSplit, n) \<leftarrow> maybeSplitChild n i maxItems;
        let next = (if \<not> didSplit \<or> Less item (items n ! i) then Some i
          else if Less (items n ! i) item then Some (i + 1) else None);
        (case next of
           None \<Rightarrow> Some (Node ((items n)[i := item]) (children n) (indices n), Some (items n ! i))
         | Some i \<Rightarrow> do {
             c \<leftarrow> at (children n) i;
             (c', out) \<leftarrow> node_insert Less maxItems item c;
             Some (Node (items n) ((children n)[i := c'])
                     (if out = None then indices_addAt (indices n) i 1 else indices n), out)
           })
      })"

declare node_insert.simps [code]

section \<open>Look-ups\<close>

lemma size_child [termination_simp]: "at cs i = Some c \<Longrightarrow> size c < Suc (k + size_list size cs)"
  by (metis at_eq_Some_iff le_imp_less_Suc nth_mem size_list_estimation' order_refl trans_le_add2)

lemma size_last_child [termination_simp]: "cs \<noteq> [] \<Longrightarrow> size (last cs) < Suc (k + size_list size cs)"
  by (metis last_in_set le_imp_less_Suc size_list_estimation' order_refl trans_le_add2)

fun node_getAt :: "'a node \<Rightarrow> int \<Rightarrow> 'a option option" where
  "node_getAt (Node xs cs ix) k =
     (if k \<ge> node_length (Node xs cs ix) \<or> k < 0 then Some None
      else if cs = [] then map_option Some (at xs (nat k))
      else case indices_find ix k of
        None \<Rightarrow> None
      | Some (i, found) \<Rightarrow>
          if found then map_option Some (at xs i)
          else do {
            c \<leftarrow> at cs i;
            node_getAt c (if i = 0 then k else k - ix ! (i - 1) - 1)
          })"

lemma size_hd_child [termination_simp]: "cs \<noteq> [] \<Longrightarrow> size (hd cs) < Suc (k + size_list size cs)"
  by (cases cs) auto

text \<open>The second component is the number of items below the key.\<close>

fun node_getWithIndex ::
  "('a \<Rightarrow> 'a \<Rightarrow> bool) \<Rightarrow> 'a \<Rightarrow> 'a node \<Rightarrow> ('a option \<times> int) option" where
  "node_getWithIndex Less key (Node xs cs ix) =
     (let (i, found) = items_find Less xs key in
      if found then do {
        rk \<leftarrow> (if ix \<noteq> [] then at ix i else Some (int i));
        Some (Some (xs ! i), rk)
      }
      else if cs \<noteq> [] then do {
        c \<leftarrow> at cs i;
        (out, rk) \<leftarrow> node_getWithIndex Less key c;
        if i > 0 then do {
          x \<leftarrow> at ix (i - 1);
          Some (out, rk + x + 1)
        } else Some (out, rk)
      }
      else Some (None, int i))"

fun node_get :: "('a \<Rightarrow> 'a \<Rightarrow> bool) \<Rightarrow> 'a \<Rightarrow> 'a node \<Rightarrow> 'a option option" where
  "node_get Less key (Node xs cs ix) =
     (let (i, found) = items_find Less xs key in
      if found then Some (Some (xs ! i))
      else if cs \<noteq> [] then do {
        c \<leftarrow> at cs i;
        node_get Less key c
      }
      else Some None)"

fun node_min :: "'a node \<Rightarrow> 'a option" where
  "node_min (Node xs [] ix) = (if xs = [] then None else Some (hd xs))"
| "node_min (Node xs (c # cs) ix) = node_min c"

fun node_max :: "'a node \<Rightarrow> 'a option" where
  "node_max (Node xs cs ix) =
     (if cs = [] then (if xs = [] then None else Some (last xs)) else node_max (last cs))"

section \<open>Removal\<close>

datatype toRemove = RemoveItem | RemoveMin | RemoveMax

text \<open>
  The part of \<open>growChildAndRemove\<close> before it calls \<open>remove\<close> again: steal from the left
  sibling, steal from the right sibling, or merge two children.
\<close>

definition steal_left :: "'a node \<Rightarrow> nat \<Rightarrow> 'a node option" where
  "steal_left n i = do {
     child \<leftarrow> at (children n) i;
     stealFrom \<leftarrow> at (children n) (i - 1);
     (stolenItem, sItems) \<leftarrow> pop (items stealFrom);
     x \<leftarrow> at (items n) (i - 1);
     cItems \<leftarrow> insertAt (items child) 0 x;
     rank \<leftarrow> at (indices n) (i - 1);
     if children stealFrom \<noteq> [] then do {
       (moved, sChildren) \<leftarrow> pop (children stealFrom);
       cChildren \<leftarrow> insertAt (children child) 0 moved;
       (stealSize, sIndices) \<leftarrow> indices_pop (indices stealFrom);
       Some (Node ((items n)[i - 1 := stolenItem])
               ((children n)[i := Node cItems cChildren (indices_insertAt (indices child) 0 stealSize),
                             i - 1 := Node sItems sChildren sIndices])
               ((indices n)[i - 1 := rank - 1 - stealSize]))
     } else
       Some (Node ((items n)[i - 1 := stolenItem])
               ((children n)[i := Node cItems (children child) (indices child),
                             i - 1 := Node sItems (children stealFrom) (indices stealFrom)])
               ((indices n)[i - 1 := rank - 1]))
   }"

definition steal_right :: "'a node \<Rightarrow> nat \<Rightarrow> 'a node option" where
  "steal_right n i = do {
     child \<leftarrow> at (children n) i;
     stealFrom \<leftarrow> at (children n) (i + 1);
     (stolenItem, sItems) \<leftarrow> removeAt (items stealFrom) 0;
     x \<leftarrow> at (items n) i;
     rank \<leftarrow> at (indices n) i;
     if children stealFrom \<noteq> [] then do {
       (moved, sChildren) \<leftarrow> removeAt (children stealFrom) 0;
       (stealSize, sIndices) \<leftarrow> indices_removeAt (indices stealFrom) 0;
       Some (Node ((items n)[i := stolenItem])
               ((children n)[i := Node (items child @ [x]) (children child @ [moved])
                                    (indices_push (indices child) stealSize),
                             i + 1 := Node sItems sChildren sIndices])
               ((indices n)[i := rank + 1 + stealSize]))
     } else
       Some (Node ((items n)[i := stolenItem])
               ((children n)[i := Node (items child @ [x]) (children child) (indices child),
                             i + 1 := Node sItems (children stealFrom) (indices stealFrom)])
               ((indices n)[i := rank + 1]))
   }"

definition merge_children :: "'a node \<Rightarrow> nat \<Rightarrow> 'a node option" where
  "merge_children n i = do {
     child \<leftarrow> at (children n) i;
     (mergeItem, xs) \<leftarrow> removeAt (items n) i;
     (mergeChild, cs) \<leftarrow> removeAt (children n) (i + 1);
     let child = Node (items child @ mergeItem # items mergeChild)
       (children child @ children mergeChild)
       (fold (\<lambda>nn ix. indices_push ix (node_length nn)) (children mergeChild) (indices child));
     ix \<leftarrow> indices_merge (indices n) i;
     Some (Node xs (cs[i := child]) ix)
   }"

definition growChild :: "'a node \<Rightarrow> nat \<Rightarrow> nat \<Rightarrow> 'a node option" where
  "growChild n i minItems = do {
     spareLeft \<leftarrow> (if i > 0 then
         map_option (\<lambda>c. length (items c) > minItems) (at (children n) (i - 1))
       else Some False);
     if spareLeft then steal_left n i
     else do {
       spareRight \<leftarrow> (if i < length (items n) then
           map_option (\<lambda>c. length (items c) > minItems) (at (children n) (i + 1))
         else Some False);
       if spareRight then steal_right n i
       else if i \<ge> length (items n) then (if i = 0 then None else merge_children n (i - 1))
       else merge_children n i
     }
   }"

text \<open>The position \<open>remove\<close> works at, and whether the item itself is there.\<close>

definition remove_pos ::
  "('a \<Rightarrow> 'a \<Rightarrow> bool) \<Rightarrow> 'a option \<Rightarrow> toRemove \<Rightarrow> 'a list \<Rightarrow> (nat \<times> bool) option" where
  "remove_pos Less item typ xs =
     (case typ of
        RemoveMax \<Rightarrow> Some (length xs, False)
      | RemoveMin \<Rightarrow> Some (0, False)
      | RemoveItem \<Rightarrow> map_option (items_find Less xs) item)"

definition remove_leaf ::
  "toRemove \<Rightarrow> nat \<Rightarrow> bool \<Rightarrow> 'a node \<Rightarrow> ('a node \<times> 'a option) option" where
  "remove_leaf typ i found n =
     (case typ of
        RemoveMax \<Rightarrow> do {
          (x, xs) \<leftarrow> pop (items n);
          Some (Node xs (children n) (indices n), Some x)
        }
      | RemoveMin \<Rightarrow> do {
          (x, xs) \<leftarrow> removeAt (items n) 0;
          Some (Node xs (children n) (indices n), Some x)
        }
      | RemoveItem \<Rightarrow>
          if found then do {
            (x, xs) \<leftarrow> removeAt (items n) i;
            Some (Node xs (children n) (indices n), Some x)
          }
          else Some (n, None))"

partial_function (option) node_remove ::
  "('a \<Rightarrow> 'a \<Rightarrow> bool) \<Rightarrow> nat \<Rightarrow> 'a option \<Rightarrow> toRemove \<Rightarrow> 'a node \<Rightarrow>
   ('a node \<times> 'a option) option" where
  "node_remove Less minItems item typ n = do {
     (i, found) \<leftarrow> remove_pos Less item typ (items n);
     if children n = [] then remove_leaf typ i found n
     else do {
       child \<leftarrow> at (children n) i;
       if length (items child) \<le> minItems then do {
         n \<leftarrow> growChild n i minItems;
         node_remove Less minItems item typ n
       }
       else if found then do {
         (child', pred) \<leftarrow> node_remove Less minItems None RemoveMax child;
         x \<leftarrow> pred;
         Some (Node ((items n)[i := x]) ((children n)[i := child'])
                 (indices_addAt (indices n) i (-1)), Some (items n ! i))
       }
       else do {
         (child', out) \<leftarrow> node_remove Less minItems item typ child;
         Some (Node (items n) ((children n)[i := child'])
                 (if out \<noteq> None then indices_addAt (indices n) i (-1) else indices n), out)
       }
     }
   }"

declare node_remove.simps [code]

section \<open>Iteration\<close>

type_synonym ('a, 's) ItemIterator = "'a \<Rightarrow> 's \<Rightarrow> bool \<times> 's"

text \<open>
  \<open>iterate\<close> with direction \<open>ascend\<close>. The result holds \<open>hit\<close>, whether to go on, and the state of
  the iterator. \<open>ascend_from\<close> is the loop over the items from position \<open>i\<close>.
\<close>

function (sequential) iterate_ascend ::
    "('a \<Rightarrow> 'a \<Rightarrow> bool) \<Rightarrow> 'a option \<Rightarrow> 'a option \<Rightarrow> bool \<Rightarrow> ('a, 's) ItemIterator \<Rightarrow>
     'a node \<Rightarrow> bool \<Rightarrow> 's \<Rightarrow> (bool \<times> bool \<times> 's) option"
  and ascend_from ::
    "('a \<Rightarrow> 'a \<Rightarrow> bool) \<Rightarrow> 'a option \<Rightarrow> 'a option \<Rightarrow> bool \<Rightarrow> ('a, 's) ItemIterator \<Rightarrow>
     'a node \<Rightarrow> nat \<Rightarrow> bool \<Rightarrow> 's \<Rightarrow> (bool \<times> bool \<times> 's) option" where
  "iterate_ascend Less start stop includeStart iter n hit s =
     ascend_from Less start stop includeStart iter n
       (case start of None \<Rightarrow> 0 | Some x \<Rightarrow> fst (items_find Less (items n) x)) hit s"
| "ascend_from Less start stop includeStart iter (Node xs cs ix) i hit s =
     (if i < length xs then do {
        (hit, ok, s) \<leftarrow> (if cs = [] then Some (hit, True, s) else do {
          c \<leftarrow> at cs i;
          iterate_ascend Less start stop includeStart iter c hit s });
        if \<not> ok then Some (hit, False, s)
        else if \<not> includeStart \<and> \<not> hit \<and> start \<noteq> None \<and> \<not> Less (the start) (xs ! i) then
          ascend_from Less start stop includeStart iter (Node xs cs ix) (i + 1) True s
        else if stop \<noteq> None \<and> \<not> Less (xs ! i) (the stop) then Some (True, False, s)
        else (case iter (xs ! i) s of (more, s) \<Rightarrow>
          if \<not> more then Some (True, False, s)
          else ascend_from Less start stop includeStart iter (Node xs cs ix) (i + 1) True s)
      }
      else if cs \<noteq> [] then
        iterate_ascend Less start stop includeStart iter (last cs) hit s
      else Some (hit, True, s))"
  by pat_completeness auto
termination
  by (relation "measures [\<lambda>x. case x of Inl (_, _, _, _, _, n, _) \<Rightarrow> size n | Inr (_, _, _, _, _, n, _) \<Rightarrow> size n,
       \<lambda>x. case x of Inl _ \<Rightarrow> 1 | Inr _ \<Rightarrow> 0,
       \<lambda>x. case x of Inl _ \<Rightarrow> 0 | Inr (_, _, _, _, _, n, i, _) \<Rightarrow> length (items n) - i]")
    (auto simp: size_child size_last_child)

text \<open>
  Direction \<open>descend\<close>; the loop counter of \<open>descend_from\<close> is one more than the position, so that 0
  ends it.
\<close>

function (sequential) iterate_descend ::
    "('a \<Rightarrow> 'a \<Rightarrow> bool) \<Rightarrow> 'a option \<Rightarrow> 'a option \<Rightarrow> bool \<Rightarrow> ('a, 's) ItemIterator \<Rightarrow>
     'a node \<Rightarrow> bool \<Rightarrow> 's \<Rightarrow> (bool \<times> bool \<times> 's) option"
  and descend_from ::
    "('a \<Rightarrow> 'a \<Rightarrow> bool) \<Rightarrow> 'a option \<Rightarrow> 'a option \<Rightarrow> bool \<Rightarrow> ('a, 's) ItemIterator \<Rightarrow>
     'a node \<Rightarrow> nat \<Rightarrow> bool \<Rightarrow> 's \<Rightarrow> (bool \<times> bool \<times> 's) option" where
  "iterate_descend Less start stop includeStart iter n hit s =
     descend_from Less start stop includeStart iter n
       (case start of
          None \<Rightarrow> length (items n)
        | Some x \<Rightarrow> (case items_find Less (items n) x of
              (index, found) \<Rightarrow> if found then index + 1 else index)) hit s"
| "descend_from Less start stop includeStart iter (Node xs cs ix) 0 hit s =
     (if cs = [] then Some (hit, True, s)
      else iterate_descend Less start stop includeStart iter (hd cs) hit s)"
| "descend_from Less start stop includeStart iter (Node xs cs ix) (Suc i) hit s = do {
     x \<leftarrow> at xs i;
     if start \<noteq> None \<and> \<not> Less x (the start) \<and> (\<not> includeStart \<or> hit \<or> Less (the start) x) then
       descend_from Less start stop includeStart iter (Node xs cs ix) i hit s
     else do {
       (hit, ok, s) \<leftarrow> (if cs = [] then Some (hit, True, s) else do {
         c \<leftarrow> at cs (i + 1);
         iterate_descend Less start stop includeStart iter c hit s });
       if \<not> ok then Some (hit, False, s)
       else if stop \<noteq> None \<and> \<not> Less (the stop) x then Some (hit, False, s)
       else (case iter x s of (more, s) \<Rightarrow>
         if \<not> more then Some (True, False, s)
         else descend_from Less start stop includeStart iter (Node xs cs ix) i True s)
     }
   }"
  by pat_completeness auto
termination
  by (relation "measures [\<lambda>x. case x of Inl (_, _, _, _, _, n, _) \<Rightarrow> size n | Inr (_, _, _, _, _, n, _) \<Rightarrow> size n,
       \<lambda>x. case x of Inl _ \<Rightarrow> 1 | Inr _ \<Rightarrow> 0,
       \<lambda>x. case x of Inl _ \<Rightarrow> 0 | Inr (_, _, _, _, _, n, i, _) \<Rightarrow> i]")
    (auto simp: size_child size_hd_child)

declare iterate_ascend.simps [simp del] ascend_from.simps [simp del]
  iterate_descend.simps [simp del] descend_from.simps [simp del]

section \<open>The tree\<close>

record 'a BTree =
  degree :: nat
  len :: int
  root :: "'a node option"

definition NewBTree :: "int \<Rightarrow> 'a BTree option" where
  "NewBTree d = (if d \<le> 1 then None else Some \<lparr> degree = nat d, len = 0, root = None \<rparr>)"

definition maxItems :: "'a BTree \<Rightarrow> nat" where
  "maxItems t = degree t * 2 - 1"

definition minItems :: "'a BTree \<Rightarrow> nat" where
  "minItems t = degree t - 1"

text \<open>A write takes the item or nil, and returns the new tree with the item it displaced.\<close>

definition ReplaceOrInsert ::
  "('a \<Rightarrow> 'a \<Rightarrow> bool) \<Rightarrow> 'a BTree \<Rightarrow> 'a option \<Rightarrow> ('a BTree \<times> 'a option) option" where
  "ReplaceOrInsert Less t item = do {
     x \<leftarrow> item;
     (case root t of
        None \<Rightarrow> Some (t\<lparr> root := Some (Node [x] [] []), len := len t + 1 \<rparr>, None)
      | Some r \<Rightarrow> do {
          r \<leftarrow> (if length (items r) \<ge> maxItems t then do {
              (item2, oldroot, second) \<leftarrow> node_split r (maxItems t div 2);
              Some (initSize (Node [item2] [oldroot, second] []))
            } else Some r);
          (r, out) \<leftarrow> node_insert Less (maxItems t) x r;
          Some (t\<lparr> root := Some r, len := (if out = None then len t + 1 else len t) \<rparr>, out)
        })
   }"

definition deleteItem ::
  "('a \<Rightarrow> 'a \<Rightarrow> bool) \<Rightarrow> 'a BTree \<Rightarrow> 'a option \<Rightarrow> toRemove \<Rightarrow> ('a BTree \<times> 'a option) option" where
  "deleteItem Less t item typ =
     (case root t of
        None \<Rightarrow> Some (t, None)
      | Some r \<Rightarrow>
          if items r = [] then Some (t, None)
          else do {
            (r, out) \<leftarrow> node_remove Less (minItems t) item typ r;
            let r = (if items r = [] \<and> children r \<noteq> [] then hd (children r) else r);
            Some (t\<lparr> root := Some r, len := (if out \<noteq> None then len t - 1 else len t) \<rparr>, out)
          })"

definition Delete ::
  "('a \<Rightarrow> 'a \<Rightarrow> bool) \<Rightarrow> 'a BTree \<Rightarrow> 'a option \<Rightarrow> ('a BTree \<times> 'a option) option" where
  "Delete Less t item = deleteItem Less t item RemoveItem"

definition DeleteMin :: "('a \<Rightarrow> 'a \<Rightarrow> bool) \<Rightarrow> 'a BTree \<Rightarrow> ('a BTree \<times> 'a option) option" where
  "DeleteMin Less t = deleteItem Less t None RemoveMin"

definition DeleteMax :: "('a \<Rightarrow> 'a \<Rightarrow> bool) \<Rightarrow> 'a BTree \<Rightarrow> ('a BTree \<times> 'a option) option" where
  "DeleteMax Less t = deleteItem Less t None RemoveMax"

text \<open>The scans return the final state of the iterator.\<close>

definition scan_ascend ::
  "('a \<Rightarrow> 'a \<Rightarrow> bool) \<Rightarrow> 'a BTree \<Rightarrow> 'a option \<Rightarrow> 'a option \<Rightarrow> bool \<Rightarrow> ('a, 's) ItemIterator \<Rightarrow> 's \<Rightarrow> 's option" where
  "scan_ascend Less t start stop includeStart iter s =
     (case root t of
        None \<Rightarrow> Some s
      | Some r \<Rightarrow> map_option (snd \<circ> snd) (iterate_ascend Less start stop includeStart iter r False s))"

definition scan_descend ::
  "('a \<Rightarrow> 'a \<Rightarrow> bool) \<Rightarrow> 'a BTree \<Rightarrow> 'a option \<Rightarrow> 'a option \<Rightarrow> bool \<Rightarrow> ('a, 's) ItemIterator \<Rightarrow> 's \<Rightarrow> 's option" where
  "scan_descend Less t start stop includeStart iter s =
     (case root t of
        None \<Rightarrow> Some s
      | Some r \<Rightarrow> map_option (snd \<circ> snd) (iterate_descend Less start stop includeStart iter r False s))"

definition AscendRange where
  "AscendRange Less t greaterOrEqual upper iter s =
     scan_ascend Less t (Some greaterOrEqual) (Some upper) True iter s"

definition AscendLessThan where
  "AscendLessThan Less t pivot iter s = scan_ascend Less t None (Some pivot) False iter s"

definition AscendGreaterOrEqual where
  "AscendGreaterOrEqual Less t pivot iter s = scan_ascend Less t (Some pivot) None True iter s"

definition Ascend where
  "Ascend Less t iter s = scan_ascend Less t None None False iter s"

definition DescendRange where
  "DescendRange Less t lessOrEqual lower iter s =
     scan_descend Less t (Some lessOrEqual) (Some lower) True iter s"

definition DescendLessOrEqual where
  "DescendLessOrEqual Less t pivot iter s = scan_descend Less t (Some pivot) None True iter s"

definition DescendGreaterThan where
  "DescendGreaterThan Less t pivot iter s = scan_descend Less t None (Some pivot) False iter s"

definition Descend where
  "Descend Less t iter s = scan_descend Less t None None False iter s"

definition Get :: "('a \<Rightarrow> 'a \<Rightarrow> bool) \<Rightarrow> 'a BTree \<Rightarrow> 'a \<Rightarrow> 'a option option" where
  "Get Less t key = (case root t of None \<Rightarrow> Some None | Some r \<Rightarrow> node_get Less key r)"

definition GetWithIndex :: "('a \<Rightarrow> 'a \<Rightarrow> bool) \<Rightarrow> 'a BTree \<Rightarrow> 'a \<Rightarrow> ('a option \<times> int) option" where
  "GetWithIndex Less t key =
     (case root t of None \<Rightarrow> Some (None, 0) | Some r \<Rightarrow> node_getWithIndex Less key r)"

definition GetAt :: "'a BTree \<Rightarrow> int \<Rightarrow> 'a option option" where
  "GetAt t k = (case root t of None \<Rightarrow> Some None | Some r \<Rightarrow> node_getAt r k)"

definition BTree_Min :: "'a BTree \<Rightarrow> 'a option" where
  "BTree_Min t = Option.bind (root t) node_min"

definition BTree_Max :: "'a BTree \<Rightarrow> 'a option" where
  "BTree_Max t = Option.bind (root t) node_max"

definition Has :: "('a \<Rightarrow> 'a \<Rightarrow> bool) \<Rightarrow> 'a BTree \<Rightarrow> 'a \<Rightarrow> bool option" where
  "Has Less t key = map_option (\<lambda>x. x \<noteq> None) (Get Less t key)"

definition Len :: "'a BTree \<Rightarrow> int" where
  "Len t = len t"

definition getRootLength :: "'a BTree \<Rightarrow> int" where
  "getRootLength t = (case root t of None \<Rightarrow> 0 | Some r \<Rightarrow> node_length r)"

definition Clear :: "'a BTree \<Rightarrow> 'a BTree" where
  "Clear t = t\<lparr> root := None, len := 0 \<rparr>"

text \<open>The instance of the item interface that the package provides.\<close>

definition Int_Less :: "int \<Rightarrow> int \<Rightarrow> bool" where
  "Int_Less a b \<longleftrightarrow> a < b"

end
