(* ===== verification/BTree_Inv.thy ===== *)
theory BTree_Inv
  imports BTree
begin

text \<open>
  What a B-tree represents and when it is well formed.

  \<^item> \<open>inorder\<close> is the sequence of items of a subtree; \<open>inorder_split\<close> cuts it at any child.
  \<^item> \<open>wf_node\<close> is the balance, size and rank invariant of a subtree of a given height: all leaves
    on one level, item counts between the two bounds, and \<open>indices\<close> equal to the ranks that the
    sizes of the children determine. The rank array's operations are each shown to produce the
    ranks of the changed children.
  \<^item> The locale \<open>item_order\<close> is the contract of the item interface, a strict weak ordering; the
    list operations \<open>ins_list\<close>, \<open>del_list\<close> and \<open>find_list\<close> are the specification of a search tree.
\<close>

section \<open>Specification\<close>

subsection \<open>The items of a subtree\<close>

definition below :: "'a list \<Rightarrow> 'a list list \<Rightarrow> 'a list" where
  "below xs ss = concat (map2 (\<lambda>s x. s @ [x]) ss xs)"

definition above :: "'a list \<Rightarrow> 'a list list \<Rightarrow> 'a list" where
  "above xs ss = concat (map2 (\<lambda>x s. x # s) xs ss)"

fun weave :: "'a list \<Rightarrow> 'a list list \<Rightarrow> 'a list" where
  "weave xs [] = xs"
| "weave xs (s # ss) = s @ above xs ss"

fun inorder :: "'a node \<Rightarrow> 'a list" where
  "inorder (Node xs cs ix) = weave xs (map inorder cs)"

fun ranks :: "int \<Rightarrow> int list \<Rightarrow> int list" where
  "ranks k [] = []"
| "ranks k (s # ss) = (k + s) # ranks (k + s + 1) ss"

abbreviation node_size :: "'a node \<Rightarrow> int" where
  "node_size n \<equiv> int (length (inorder n))"

fun wf_node :: "nat \<Rightarrow> nat \<Rightarrow> nat \<Rightarrow> 'a node \<Rightarrow> bool" where
  "wf_node mn mx 0 (Node xs cs ix) \<longleftrightarrow> cs = [] \<and> ix = [] \<and> length xs \<le> mx"
| "wf_node mn mx (Suc h) (Node xs cs ix) \<longleftrightarrow>
     length cs = Suc (length xs) \<and> length xs \<le> mx \<and> ix = ranks 0 (map node_size cs)
     \<and> (\<forall>c\<in>set cs. wf_node mn mx h c \<and> mn \<le> length (items c))"

text \<open>The tree: no root, or a well-formed root that is not an empty inner node.\<close>

definition tree_items :: "'a BTree \<Rightarrow> 'a list" where
  "tree_items t = (case root t of None \<Rightarrow> [] | Some r \<Rightarrow> inorder r)"

definition wf_tree :: "('a \<Rightarrow> 'a \<Rightarrow> bool) \<Rightarrow> 'a BTree \<Rightarrow> bool" where
  "wf_tree Less t \<longleftrightarrow>
     2 \<le> degree t \<and> len t = int (length (tree_items t)) \<and> sorted_wrt Less (tree_items t)
     \<and> (case root t of None \<Rightarrow> True
        | Some r \<Rightarrow> (\<exists>h. wf_node (degree t - 1) (degree t * 2 - 1) h r) \<and> (children r \<noteq> [] \<longrightarrow> items r \<noteq> []))"

subsection \<open>Sorted lists\<close>

definition ins_list :: "('a \<Rightarrow> 'a \<Rightarrow> bool) \<Rightarrow> 'a \<Rightarrow> 'a list \<Rightarrow> 'a list" where
  "ins_list Less x xs = filter (\<lambda>y. Less y x) xs @ x # filter (\<lambda>y. Less x y) xs"

definition del_list :: "('a \<Rightarrow> 'a \<Rightarrow> bool) \<Rightarrow> 'a \<Rightarrow> 'a list \<Rightarrow> 'a list" where
  "del_list Less x xs = filter (\<lambda>y. Less y x \<or> Less x y) xs"

definition find_list :: "('a \<Rightarrow> 'a \<Rightarrow> bool) \<Rightarrow> 'a \<Rightarrow> 'a list \<Rightarrow> 'a option" where
  "find_list Less x xs = List.find (\<lambda>y. \<not> Less y x \<and> \<not> Less x y) xs"

section \<open>Cutting the item sequence at a child\<close>

lemma below_Nil [simp]: "below [] ss = []" "below xs [] = []"
  by (simp_all add: below_def)

lemma above_Nil [simp]: "above [] ss = []" "above xs [] = []"
  by (simp_all add: above_def)

lemma below_Cons [simp]: "below (x # xs) (s # ss) = s @ x # below xs ss"
  by (simp add: below_def)

lemma above_Cons [simp]: "above (x # xs) (s # ss) = x # s @ above xs ss"
  by (simp add: above_def)

lemma below_append:
  "length xs = length ss \<Longrightarrow> below (xs @ ys) (ss @ ts) = below xs ss @ below ys ts"
  by (simp add: below_def)

lemma above_append:
  "length xs = length ss \<Longrightarrow> above (xs @ ys) (ss @ ts) = above xs ss @ above ys ts"
  by (simp add: above_def)

lemma weave_split:
  "length xs1 = length ss1 \<Longrightarrow>
   weave (xs1 @ xs2) (ss1 @ s # ss2) = below xs1 ss1 @ s @ above xs2 ss2"
proof (induction xs1 ss1 rule: list_induct2)
  case (Cons x xs1 t ss1)
  obtain u us where "ss1 @ s # ss2 = u # us" by (cases ss1) auto
  then show ?case using Cons by simp
qed simp

abbreviation belows :: "'a list \<Rightarrow> 'a node list \<Rightarrow> 'a list" where
  "belows xs cs \<equiv> below xs (map inorder cs)"

abbreviation aboves :: "'a list \<Rightarrow> 'a node list \<Rightarrow> 'a list" where
  "aboves xs cs \<equiv> above xs (map inorder cs)"

lemma inorder_split:
  "length xs1 = length cs1 \<Longrightarrow>
   inorder (Node (xs1 @ xs2) (cs1 @ c # cs2) ix) = belows xs1 cs1 @ inorder c @ aboves xs2 cs2"
  using weave_split[of xs1 "map inorder cs1" xs2 "inorder c" "map inorder cs2"] by simp

lemma set_belows: "length xs = length cs \<Longrightarrow>
  set (belows xs cs) = set xs \<union> (\<Union>c\<in>set cs. set (inorder c))"
  by (induction xs cs rule: list_induct2) auto

lemma set_aboves: "length xs = length cs \<Longrightarrow>
  set (aboves xs cs) = set xs \<union> (\<Union>c\<in>set cs. set (inorder c))"
  by (induction xs cs rule: list_induct2) auto

lemma length_belows: "length xs = length cs \<Longrightarrow>
  int (length (belows xs cs)) = sum_list (map node_size cs) + int (length cs)"
  by (induction xs cs rule: list_induct2) auto

section \<open>Ranks\<close>

lemma length_ranks [simp]: "length (ranks k ss) = length ss"
  by (induction ss arbitrary: k) auto

lemma ranks_Nil_iff [simp]: "ranks k ss = [] \<longleftrightarrow> ss = []"
  by (cases ss) auto

lemma ranks_append: "ranks k (ss @ ts) = ranks k ss @ ranks (k + sum_list ss + int (length ss)) ts"
  by (induction ss arbitrary: k) (auto simp: algebra_simps)

lemma ranks_shift: "map (\<lambda>x. x + d) (ranks k ss) = ranks (k + d) ss"
  by (induction ss arbitrary: k) (auto simp: algebra_simps)

lemma ranks_shift': "map (\<lambda>x. x - d) (ranks k ss) = ranks (k - d) ss"
  using ranks_shift[of "- d" k ss] by simp

lemma last_ranks: "ss \<noteq> [] \<Longrightarrow> last (ranks k ss) = k + sum_list ss + int (length ss) - 1"
  by (cases ss rule: rev_cases) (auto simp: ranks_append)

lemma nth_ranks:
  "ranks k (ss @ s # ts) ! length ss = k + sum_list ss + int (length ss) + s"
  by (simp add: ranks_append nth_append)

lemma addAt_ranks:
  "indices_addAt (ranks k (ss @ s # ts)) (length ss) d = ranks k (ss @ (s + d) # ts)"
  using ranks_shift[of d _ ts]
  by (simp add: indices_addAt_def ranks_append algebra_simps)

lemma insertAt_ranks_0: "indices_insertAt (ranks 0 ss) 0 s = ranks 0 (s # ss)"
  using ranks_shift[of "s + 1" 0 ss] by (simp add: indices_insertAt_def algebra_simps)

lemma push_ranks: "indices_push (ranks 0 ss) s = ranks 0 (ss @ [s])"
  by (simp add: indices_push_def ranks_append last_ranks)

lemma push_all_ranks:
  "fold (\<lambda>c ix. indices_push ix (f c)) cs (ranks 0 ss) = ranks 0 (ss @ map f cs)"
  by (induction cs arbitrary: ss) (auto simp: push_ranks)

lemma pop_ranks: "indices_pop (ranks 0 (ss @ [s])) = Some (s, ranks 0 ss)"
proof (cases ss rule: rev_cases)
  case (snoc us u)
  then show ?thesis by (simp add: indices_pop_def ranks_append nth_append butlast_append)
qed (simp add: indices_pop_def)

lemma removeAt_0_ranks: "indices_removeAt (ranks 0 (s # ss)) 0 = Some (s, ranks 0 ss)"
  using ranks_shift'[of "s + 1" "s + 1" ss] by (simp add: indices_removeAt_def algebra_simps)

lemma merge_ranks:
  "indices_merge (ranks 0 (ss @ s # t # ts)) (length ss) = Some (ranks 0 (ss @ (s + 1 + t) # ts))"
  by (simp add: indices_merge_def ranks_append algebra_simps)

lemma split_ranks:
  "indices_split (ranks 0 (ss @ s # ts)) (length ss) t = Some (ranks 0 (ss @ (s - 1 - t) # t # ts))"
proof -
  define k where "k = sum_list ss + int (length ss)"
  have "indices_insertAt (ranks 0 (ss @ s # ts)) (length ss + 1) (- 1)
      = ranks 0 ss @ (k + s) # (k + s) # ranks (k + s + 1) ts"
    by (simp add: indices_insertAt_def ranks_append k_def)
  then show ?thesis
    by (simp add: indices_split_def at_def nth_append list_update_append ranks_append k_def algebra_simps)
qed

lemma ranks_bounds:
  assumes "\<forall>s\<in>set ss. 0 \<le> s" "x \<in> set (ranks k ss)"
  shows "k \<le> x \<and> x < k + sum_list ss + int (length ss)"
  using assms
proof (induction ss arbitrary: k)
  case (Cons s ss)
  then have "0 \<le> sum_list ss" by (intro sum_list_nonneg) auto
  with Cons.IH[of "k + s + 1"] Cons.prems show ?case by auto
qed simp

lemma find_ranks:
  assumes pos: "\<forall>s\<in>set (ss @ s # ts). 0 \<le> s"
    and k: "sum_list ss + int (length ss) \<le> k" "k \<le> sum_list ss + int (length ss) + s"
  shows "indices_find (ranks 0 (ss @ s # ts)) k
    = Some (length ss, k = sum_list ss + int (length ss) + s)"
proof -
  define m where "m = sum_list ss + int (length ss)"
  have eq: "ranks 0 (ss @ s # ts) = ranks 0 ss @ (m + s) # ranks (m + s + 1) ts"
    by (simp add: ranks_append m_def)
  have "sort_SearchInts (ranks 0 (ss @ s # ts)) k = length (ranks 0 ss)"
    unfolding eq
  proof (rule sort_SearchInts_append)
    show "x < k" if "x \<in> set (ranks 0 ss)" for x
      using ranks_bounds[OF _ that] pos k(1) by auto
    show "k \<le> y" if "y \<in> set ((m + s) # ranks (m + s + 1) ts)" for y
      using ranks_bounds[of ts y "m + s + 1"] that pos k(2) by (auto simp: m_def)
  qed
  then show ?thesis
    by (auto simp: indices_find_def at_def eq nth_append m_def Let_def)
qed

section \<open>Well-formed nodes\<close>

lemma wf_node_0_iff: "wf_node mn mx 0 n \<longleftrightarrow> children n = [] \<and> indices n = [] \<and> length (items n) \<le> mx"
  by (cases n) auto

lemma wf_node_SucE:
  assumes "wf_node mn mx (Suc h) n"
  obtains xs cs where "n = Node xs cs (ranks 0 (map node_size cs))" "length cs = Suc (length xs)"
    "length xs \<le> mx" "\<And>c. c \<in> set cs \<Longrightarrow> wf_node mn mx h c \<and> mn \<le> length (items c)"
  using assms by (cases n) auto

lemma wf_node_items: "wf_node mn mx h n \<Longrightarrow> length (items n) \<le> mx"
  by (cases n; cases h) auto

lemma wf_node_children: "wf_node mn mx h n \<Longrightarrow> children n = [] \<longleftrightarrow> h = 0"
  by (cases n; cases h) auto

lemma sum_belows: "length xs = length cs \<Longrightarrow>
  sum_list (map node_size cs) + int (length cs) = int (length (belows xs cs))"
  by (simp add: length_belows)

text \<open>\<open>length\<close> counts the items of a well-formed subtree.\<close>

lemma node_length_size: "wf_node mn mx h n \<Longrightarrow> node_length n = node_size n"
proof (cases h)
  case (Suc h')
  assume "wf_node mn mx h n"
  with Suc obtain xs cs where n: "n = Node xs cs (ranks 0 (map node_size cs))"
    "length cs = Suc (length xs)" by (auto elim: wf_node_SucE)
  then obtain ds d where cs: "cs = ds @ [d]" "length ds = length xs"
    by (cases cs rule: rev_cases) auto
  have "node_size n = int (length (belows xs ds)) + node_size d"
    using inorder_split[of xs ds "[]" d "[]" "ranks 0 (map node_size cs)"] cs n(1) by simp
  also have "\<dots> = sum_list (map node_size ds) + int (length ds) + node_size d"
    using cs(2) by (simp add: length_belows)
  finally show ?thesis
    by (simp add: node_length_def n(1) cs(1) last_ranks)
qed (cases n, simp add: node_length_def)

lemma sizes_from_ranks:
  "\<forall>c\<in>set cs. wf_node mn mx h c \<Longrightarrow> sizes_from k cs = ranks k (map node_size cs)"
  by (induction cs arbitrary: k) (auto simp: node_length_size)

text \<open>Any position of an inner node cuts it into the items and children on its two sides.\<close>

lemma wf_node_cut:
  assumes "wf_node mn mx (Suc h) n" "i \<le> length (items n)"
  obtains xs1 xs2 cs1 c cs2 where
    "n = Node (xs1 @ xs2) (cs1 @ c # cs2) (ranks 0 (map node_size (cs1 @ c # cs2)))"
    "length xs1 = i" "length cs1 = i" "length cs2 = length xs2"
proof -
  from assms(1) obtain xs cs where n: "n = Node xs cs (ranks 0 (map node_size cs))"
    "length cs = Suc (length xs)" by (auto elim: wf_node_SucE)
  then have i: "i < length cs" using assms(2) by simp
  have "n = Node (take i xs @ drop i xs) (take i cs @ cs ! i # drop (Suc i) cs)
      (ranks 0 (map node_size (take i cs @ cs ! i # drop (Suc i) cs)))"
    using n(1) i by (simp only: append_take_drop_id id_take_nth_drop[symmetric])
  then show ?thesis by (rule that) (use i n assms(2) in auto)
qed

lemma wf_node_cutI:
  assumes "length cs1 = length xs1" "length cs2 = length xs2" "length xs1 + length xs2 \<le> mx"
    and "\<And>d. d \<in> set cs1 \<union> {c} \<union> set cs2 \<Longrightarrow> wf_node mn mx h d \<and> mn \<le> length (items d)"
    and "ix = ranks 0 (map node_size (cs1 @ c # cs2))"
  shows "wf_node mn mx (Suc h) (Node (xs1 @ xs2) (cs1 @ c # cs2) ix)"
  using assms by auto

lemma inner_ConsE:
  assumes "wf_node mn mx (Suc h) d" "items d \<noteq> []"
  obtains ys z es e where "d = Node (z # ys) (e # es) (ranks 0 (map node_size (e # es)))"
    "length es = Suc (length ys)"
proof -
  from assms(1) obtain xs cs where d: "d = Node xs cs (ranks 0 (map node_size cs))"
    "length cs = Suc (length xs)" by (auto elim: wf_node_SucE)
  with assms(2) have "xs \<noteq> []" "cs \<noteq> []" by auto
  then obtain ys z es e where "xs = z # ys" "cs = e # es" by (metis neq_Nil_conv)
  with d that show ?thesis by auto
qed

lemma inorder_Cons:
  "length es = Suc (length ys) \<Longrightarrow>
   inorder (Node (z # ys) (e # es) ix) = inorder e @ z # inorder (Node ys es iy)"
  by (cases es) auto

lemma inorder_nonempty:
  assumes "wf_node mn mx h c" "items c \<noteq> []"
  shows "inorder c \<noteq> []"
proof (cases h)
  case (Suc h')
  with assms obtain z ys e es where "c = Node (z # ys) (e # es) (ranks 0 (map node_size (e # es)))"
    "length es = Suc (length ys)" by (metis inner_ConsE)
  with inorder_Cons show ?thesis by fastforce
qed (use assms in \<open>cases c, auto\<close>)

section \<open>The contract of items\<close>

locale item_order =
  fixes Less :: "'a \<Rightarrow> 'a \<Rightarrow> bool"
  assumes irrefl: "\<not> Less a a"
    and trans: "Less a b \<Longrightarrow> Less b c \<Longrightarrow> Less a c"
    and weak: "Less a b \<Longrightarrow> Less a c \<or> Less c b"
begin

lemma asym: "Less a b \<Longrightarrow> \<not> Less b a"
  using irrefl trans by blast

lemma sorted_pivot:
  assumes "sorted_wrt Less (xs @ y # ys)"
  shows "a \<in> set xs \<Longrightarrow> Less a y" "b \<in> set ys \<Longrightarrow> Less y b"
  using assms by (auto simp: sorted_wrt_append)

text \<open>\<open>find\<close> on a list cut at the first item that is not below the key.\<close>

lemma items_find_miss:
  assumes "\<And>y. y \<in> set xs \<Longrightarrow> Less y x" "\<And>y. y \<in> set ys \<Longrightarrow> Less x y"
  shows "items_find Less (xs @ ys) x = (length xs, False)"
proof -
  have "sort_Search (length (xs @ ys)) (\<lambda>i. Less x ((xs @ ys) ! i)) = length xs"
    using assms asym by (intro sort_Search_append) auto
  moreover have "Less ((xs @ ys) ! (length xs - 1)) x" if "xs \<noteq> []"
    using assms(1) that by (simp add: nth_append)
  ultimately show ?thesis unfolding items_find_def Let_def by (cases "xs = []") auto
qed

lemma items_find_hit:
  assumes "\<And>z. z \<in> set xs \<Longrightarrow> Less z x" "\<not> Less y x" "\<not> Less x y" "\<And>z. z \<in> set ys \<Longrightarrow> Less y z"
  shows "items_find Less (xs @ y # ys) x = (length xs, True)"
proof -
  have "Less x z" if "z \<in> set ys" for z using assms(2-4) that weak by blast
  then have "sort_Search (length ((xs @ [y]) @ ys)) (\<lambda>i. Less x (((xs @ [y]) @ ys) ! i)) = length (xs @ [y])"
    using assms asym by (intro sort_Search_append) auto
  then show ?thesis unfolding items_find_def Let_def using assms(2) by (simp add: nth_append)
qed

text \<open>A sorted list falls apart at a key.\<close>

lemma sorted_cut:
  assumes "sorted_wrt Less xs"
  shows "(\<exists>xs1 xs2. xs = xs1 @ xs2 \<and> (\<forall>y\<in>set xs1. Less y x) \<and> (\<forall>y\<in>set xs2. Less x y)
        \<and> items_find Less xs x = (length xs1, False))
    \<or> (\<exists>xs1 y xs2. xs = xs1 @ y # xs2 \<and> (\<forall>z\<in>set xs1. Less z x) \<and> \<not> Less y x \<and> \<not> Less x y
        \<and> items_find Less xs x = (length xs1, True))"
proof -
  define ys zs where "ys = takeWhile (\<lambda>y. Less y x) xs" and "zs = dropWhile (\<lambda>y. Less y x) xs"
  have xs: "xs = ys @ zs" and ys: "\<forall>y\<in>set ys. Less y x"
    by (auto simp: ys_def zs_def dest: set_takeWhileD)
  show ?thesis
  proof (cases zs)
    case Nil
    then show ?thesis using xs ys items_find_miss[of ys x "[]"]
      by (intro disjI1 exI[of _ ys] exI[of _ "[]"]) simp
  next
    case (Cons z zs')
    have z: "\<not> Less z x" using Cons hd_dropWhile[of "\<lambda>y. Less y x" xs] by (simp add: zs_def)
    have zs': "\<forall>w\<in>set zs'. Less z w" using assms by (simp add: xs Cons sorted_wrt_append)
    show ?thesis
    proof (cases "Less x z")
      case True
      then have "\<forall>w\<in>set zs. Less x w" using zs' Cons trans by auto
      then show ?thesis using xs ys items_find_miss[of ys x zs]
        by (intro disjI1 exI[of _ ys] exI[of _ zs]) simp
    next
      case False
      then show ?thesis using xs ys Cons z zs' items_find_hit[of ys x z zs']
        by (intro disjI2 exI[of _ ys] exI[of _ z] exI[of _ zs']) simp
    qed
  qed
qed

subsection \<open>The list operations at a cut\<close>

lemma filter_all_less:
  "\<forall>y\<in>set A. Less y x \<Longrightarrow> filter (\<lambda>y. Less y x) A = A"
  "\<forall>y\<in>set A. Less y x \<Longrightarrow> filter (\<lambda>y. Less x y) A = []"
  using asym by (auto simp: filter_id_conv filter_empty_conv)

lemma filter_all_greater:
  "\<forall>y\<in>set A. Less x y \<Longrightarrow> filter (\<lambda>y. Less x y) A = A"
  "\<forall>y\<in>set A. Less x y \<Longrightarrow> filter (\<lambda>y. Less y x) A = []"
  using asym by (auto simp: filter_id_conv filter_empty_conv)

lemma ins_list_cut:
  assumes "\<forall>y\<in>set A. Less y x" "\<forall>y\<in>set B. Less x y"
  shows "ins_list Less x (A @ C @ B) = A @ ins_list Less x C @ B"
  using assms by (simp add: ins_list_def filter_all_less filter_all_greater)

lemma find_list_cut:
  assumes "\<forall>y\<in>set A. Less y x" "\<forall>y\<in>set B. Less x y"
  shows "find_list Less x (A @ C @ B) = find_list Less x C"
proof -
  have "List.find P B = None \<Longrightarrow> List.find P (C @ B) = List.find P C" for P
    by (induction C) auto
  moreover have "\<forall>y\<in>set A. \<not> P y \<Longrightarrow> List.find P (A @ D) = List.find P D" for P D
    by (induction A) auto
  ultimately show ?thesis unfolding find_list_def using assms by (simp add: find_None_iff)
qed

lemma del_list_cut:
  assumes "\<forall>y\<in>set A. Less y x" "\<forall>y\<in>set B. Less x y"
  shows "del_list Less x (A @ C @ B) = A @ del_list Less x C @ B"
  using assms by (simp add: del_list_def filter_id_conv)

lemma pivot_sides:
  assumes "sorted_wrt Less (A @ y # B)" "\<not> Less y x" "\<not> Less x y"
  shows "\<forall>z\<in>set A. Less z x" "\<forall>z\<in>set B. Less x z"
proof -
  show "\<forall>z\<in>set A. Less z x"
    using assms weak[of _ y x] by (auto simp: sorted_wrt_append)
  show "\<forall>z\<in>set B. Less x z"
    using assms weak[of y _ x] by (auto simp: sorted_wrt_append)
qed

lemma at_pivot:
  assumes "sorted_wrt Less (A @ y # B)" "\<not> Less y x" "\<not> Less x y"
  shows "ins_list Less x (A @ y # B) = A @ x # B" "del_list Less x (A @ y # B) = A @ B"
    "find_list Less x (A @ y # B) = Some y"
proof -
  note sides = pivot_sides[OF assms]
  show "ins_list Less x (A @ y # B) = A @ x # B"
    using ins_list_cut[OF sides, of "[y]"] assms(2,3) by (simp add: ins_list_def)
  show "del_list Less x (A @ y # B) = A @ B"
    using del_list_cut[OF sides, of "[y]"] assms(2,3) by (simp add: del_list_def)
  show "find_list Less x (A @ y # B) = Some y"
    using find_list_cut[OF sides, of "[y]"] assms(2,3) by (simp add: find_list_def)
qed

lemma no_pivot:
  assumes "\<forall>y\<in>set A. Less y x" "\<forall>y\<in>set B. Less x y"
  shows "ins_list Less x (A @ B) = A @ x # B" "del_list Less x (A @ B) = A @ B"
    "find_list Less x (A @ B) = None"
  using ins_list_cut[OF assms, of "[]"] del_list_cut[OF assms, of "[]"] find_list_cut[OF assms, of "[]"]
  by (simp_all add: ins_list_def del_list_def find_list_def)

lemma length_ins_list:
  assumes "sorted_wrt Less xs"
  shows "length (ins_list Less x xs) = (if find_list Less x xs = None then Suc (length xs) else length xs)"
  using sorted_cut[OF assms, of x] assms by (auto simp: at_pivot no_pivot)

lemma length_del_list:
  assumes "sorted_wrt Less xs"
  shows "length (del_list Less x xs) = (if find_list Less x xs = None then length xs else length xs - 1)"
  using sorted_cut[OF assms, of x] assms by (auto simp: at_pivot no_pivot)

lemma sorted_ins_list: "sorted_wrt Less xs \<Longrightarrow> sorted_wrt Less (ins_list Less x xs)"
  using trans by (auto simp: ins_list_def sorted_wrt_append intro: sorted_wrt_filter)

lemma sorted_del_list: "sorted_wrt Less xs \<Longrightarrow> sorted_wrt Less (del_list Less x xs)"
  by (simp add: del_list_def sorted_wrt_filter)

subsection \<open>Items bound what lies beside them\<close>

lemma belows_less:
  assumes "length xs = length cs" "sorted_wrt Less (belows xs cs)" "\<forall>y\<in>set xs. Less y x"
  shows "\<forall>y\<in>set (belows xs cs). Less y x"
  using assms
proof (induction xs cs rule: list_induct2)
  case (Cons a xs c cs)
  then show ?case using trans[of _ a x] by (auto simp: sorted_wrt_append)
qed simp

lemma aboves_greater:
  assumes "length xs = length cs" "sorted_wrt Less (aboves xs cs)" "\<forall>y\<in>set xs. Less x y"
  shows "\<forall>y\<in>set (aboves xs cs). Less x y"
  using assms
proof (induction xs cs rule: list_induct2)
  case (Cons a xs c cs)
  then show ?case using trans[of x a] by (auto simp: sorted_wrt_append)
qed simp

lemma sorted_items:
  assumes "wf_node mn mx h n" "sorted_wrt Less (inorder n)"
  shows "sorted_wrt Less (items n)"
proof (cases h)
  case 0
  then show ?thesis using assms by (cases n) auto
next
  case (Suc h')
  with assms(1) obtain xs cs where n: "n = Node xs cs (ranks 0 (map node_size cs))"
    "length cs = Suc (length xs)" by (auto elim: wf_node_SucE)
  then obtain c ds where cs: "cs = c # ds" "length xs = length ds" by (cases cs) auto
  have "sorted_wrt Less (aboves xs ds) \<Longrightarrow> sorted_wrt Less xs"
    using cs(2) by (induction xs ds rule: list_induct2) (auto simp: sorted_wrt_append set_aboves)
  then show ?thesis using assms(2) by (simp add: n(1) cs(1) sorted_wrt_append)
qed

lemma sorted_children:
  assumes wf: "wf_node mn mx (Suc h) n" and sorted: "sorted_wrt Less (inorder n)" and "k \<in> set (children n)"
  shows "wf_node mn mx h k \<and> sorted_wrt Less (inorder k)"
proof -
  from wf obtain xs cs where n: "n = Node xs cs (ranks 0 (map node_size cs))" "length cs = Suc (length xs)"
    and kids: "\<And>c. c \<in> set cs \<Longrightarrow> wf_node mn mx h c" by (auto elim: wf_node_SucE)
  with assms(3) obtain cs1 cs2 where cs: "cs = cs1 @ k # cs2" by (auto dest: split_list)
  have xs: "xs = take (length cs1) xs @ drop (length cs1) xs" "length (take (length cs1) xs) = length cs1"
    using n(2) cs by auto
  have "inorder n = belows (take (length cs1) xs) cs1 @ inorder k @ aboves (drop (length cs1) xs) cs2"
    unfolding n(1) cs using inorder_split[OF xs(2), of "drop (length cs1) xs" k cs2] by simp
  then show ?thesis using sorted kids[of k] cs by (simp add: sorted_wrt_append)
qed

end

text \<open>Integers meet the contract.\<close>

interpretation int_item: item_order Int_Less
  by unfold_locales (auto simp: Int_Less_def)

end
