(* ===== verification/BTree_Insert.thy ===== *)
theory BTree_Insert
  imports BTree_Inv
begin

text \<open>
  Insertion into the B-tree: \<open>split\<close>, \<open>maybeSplitChild\<close>, \<open>insert\<close> and \<open>ReplaceOrInsert\<close> return on
  every well-formed tree, keep it well formed, and act on the item sequence as \<open>ins_list\<close>. The
  lemmas are proved for every item order, in \<open>item_order\<close>.
\<close>

section \<open>Splitting\<close>

lemma node_split_ok:
  assumes "wf_node mn mx h n" "i < length (items n)"
  shows "\<exists>m l r. node_split n i = Some (m, l, r) \<and> inorder n = inorder l @ m # inorder r
    \<and> wf_node mn mx h l \<and> wf_node mn mx h r
    \<and> length (items l) = i \<and> length (items r) = length (items n) - i - 1"
proof (cases h)
  case 0
  with assms show ?thesis
    by (cases n) (auto simp: node_split_def truncate_at_def id_take_nth_drop)
next
  case (Suc h')
  with assms obtain xs1 ys cs1 c ds where n:
    "n = Node (xs1 @ ys) (cs1 @ c # ds) (ranks 0 (map node_size (cs1 @ c # ds)))"
    "length xs1 = i" "length cs1 = i" "length ds = length ys"
    by (metis wf_node_cut less_imp_le)
  with assms(2) obtain m xs2 where ys: "ys = m # xs2" by (cases ys) auto
  with n(4) obtain d cs2 where ds: "ds = d # cs2" "length cs2 = length xs2" by (cases ds) auto
  note n' = n(1)[unfolded ys ds(1)]
  have wf: "wf_node mn mx h' k \<and> mn \<le> length (items k)" if "k \<in> set (cs1 @ c # d # cs2)" for k
    using assms(1) that by (auto simp: Suc n')
  define l r where "l = Node xs1 (cs1 @ [c]) (ranks 0 (map node_size (cs1 @ [c])))"
    and "r = Node xs2 (d # cs2) (ranks 0 (map node_size (d # cs2)))"
  have "sizes_from 0 (d # cs2) = ranks 0 (map node_size (d # cs2))"
    using wf by (intro sizes_from_ranks) auto
  then have "node_split n i = Some (m, l, r)"
    by (simp add: n' node_split_def truncate_at_def initSize_def l_def r_def n(2,3) nth_append
        ranks_append del: sizes_from.simps)
  moreover have "inorder n = inorder l @ m # inorder r"
    using inorder_split[of xs1 cs1 "m # xs2" c "d # cs2"] inorder_split[of xs1 cs1 "[]" c "[]"]
      inorder_split[of "[]" "[]" xs2 d cs2] n(2,3)
    by (simp add: n' l_def r_def)
  moreover have "wf_node mn mx h l" "wf_node mn mx h r"
    using wf assms(1) n(2,3) ds(2) by (auto simp: Suc n' l_def r_def)
  moreover have "length (items l) = i" "length (items r) = length (items n) - i - 1"
    using n(2) by (simp_all add: l_def r_def n')
  ultimately show ?thesis by blast
qed

lemma maybeSplitChild_ok:
  assumes "wf_node mn mx h c" "mx = 2 * mn + 1" "length xs1 = length cs1" "length cs2 = length xs2"
    and "ix = ranks 0 (map node_size (cs1 @ c # cs2))"
  shows "if length (items c) < mx
    then maybeSplitChild (Node (xs1 @ xs2) (cs1 @ c # cs2) ix) (length xs1) mx
      = Some (False, Node (xs1 @ xs2) (cs1 @ c # cs2) ix)
    else \<exists>m l r. maybeSplitChild (Node (xs1 @ xs2) (cs1 @ c # cs2) ix) (length xs1) mx
        = Some (True, Node (xs1 @ m # xs2) (cs1 @ l # r # cs2)
            (ranks 0 (map node_size (cs1 @ l # r # cs2))))
      \<and> inorder c = inorder l @ m # inorder r \<and> wf_node mn mx h l \<and> wf_node mn mx h r
      \<and> length (items l) = mn \<and> length (items r) = mn"
proof (cases "length (items c) < mx")
  case True
  then show ?thesis by (simp add: maybeSplitChild_def at_def nth_append assms(3))
next
  case False
  then have full: "length (items c) = mx" using wf_node_items[OF assms(1)] by simp
  then obtain m l r where s: "node_split c mn = Some (m, l, r)"
    "inorder c = inorder l @ m # inorder r" "wf_node mn mx h l" "wf_node mn mx h r"
    "length (items l) = mn" "length (items r) = mn"
    using node_split_ok[OF assms(1), of mn] assms(2) by auto
  have "indices_split ix (length cs1) (node_length r) = Some (ranks 0 (map node_size (cs1 @ l # r # cs2)))"
    using split_ranks[of "map node_size cs1" "node_size c" "map node_size cs2" "node_size r"] s(2)
    by (simp add: assms(5) node_length_size[OF s(4)])
  then have "maybeSplitChild (Node (xs1 @ xs2) (cs1 @ c # cs2) ix) (length xs1) mx
        = Some (True, Node (xs1 @ m # xs2) (cs1 @ l # r # cs2)
            (ranks 0 (map node_size (cs1 @ l # r # cs2))))"
    using s(1) assms(2) by (simp add: maybeSplitChild_def at_def nth_append assms(3) full insertAt_def)
  with s False show ?thesis by auto
qed

section \<open>Insertion\<close>

lemma node_insert_descend:
  assumes "items_find Less (items n) x = (i, False)" "children n \<noteq> []"
    and "maybeSplitChild n i mx = Some (d, s)"
    and "(if \<not> d \<or> Less x (items s ! i) then Some i
          else if Less (items s ! i) x then Some (i + 1) else None) = Some j"
    and "at (children s) j = Some c" "node_insert Less mx x c = Some (c', out)"
  shows "node_insert Less mx x n = Some (Node (items s) ((children s)[j := c'])
    (if out = None then indices_addAt (indices s) j 1 else indices s), out)"
  by (subst node_insert.simps)
    (simp only: assms Let_def prod.case if_False Option.bind.simps option.case)

lemma node_insert_here:
  assumes "items_find Less (items n) x = (i, False)" "children n \<noteq> []"
    and "maybeSplitChild n i mx = Some (True, s)" "\<not> Less x (items s ! i)" "\<not> Less (items s ! i) x"
  shows "node_insert Less mx x n
    = Some (Node ((items s)[i := x]) (children s) (indices s), Some (items s ! i))"
  by (subst node_insert.simps) (simp add: assms)

context item_order
begin

definition inserted :: "nat \<Rightarrow> nat \<Rightarrow> nat \<Rightarrow> 'a \<Rightarrow> 'a node \<Rightarrow> 'a node \<Rightarrow> 'a option \<Rightarrow> bool" where
  "inserted mn mx h x n n' out \<longleftrightarrow> wf_node mn mx h n' \<and> length (items n) \<le> length (items n')
     \<and> inorder n' = ins_list Less x (inorder n) \<and> out = find_list Less x (inorder n)"

definition insert_ok :: "nat \<Rightarrow> nat \<Rightarrow> nat \<Rightarrow> 'a \<Rightarrow> bool" where
  "insert_ok mn mx h x \<longleftrightarrow>
     (\<forall>n. wf_node mn mx h n \<and> sorted_wrt Less (inorder n) \<and> length (items n) < mx \<longrightarrow>
       (\<exists>n' out. node_insert Less mx x n = Some (n', out) \<and> inserted mn mx h x n n' out))"

text \<open>The descent into a child, once the child is known to do the right thing.\<close>

lemma insert_descend:
  assumes "length xs1 = length cs1" "length cs2 = length xs2"
    and n: "n = Node (xs1 @ xs2) (cs1 @ c # cs2) (ranks 0 (map node_size (cs1 @ c # cs2)))"
    and wf: "wf_node mn mx (Suc h) n" and sorted: "sorted_wrt Less (inorder n)"
    and lo: "\<forall>y\<in>set xs1. Less y x" and hi: "\<forall>y\<in>set xs2. Less x y"
    and ins: "node_insert Less mx x c = Some (c', out)" "inserted mn mx h x c c' out"
  shows "inserted mn mx (Suc h) x n (Node (xs1 @ xs2) (cs1 @ c' # cs2)
    (if out = None then indices_addAt (indices n) (length cs1) 1 else indices n)) out"
proof -
  note split = inorder_split[OF assms(1)]
  have parts: "sorted_wrt Less (belows xs1 cs1)" "sorted_wrt Less (inorder c)"
    "sorted_wrt Less (aboves xs2 cs2)"
    using sorted by (simp_all only: n split sorted_wrt_append)
  have lo': "\<forall>y\<in>set (belows xs1 cs1). Less y x" using belows_less assms(1) parts(1) lo by blast
  have hi': "\<forall>y\<in>set (aboves xs2 cs2). Less x y" using aboves_greater assms(2) parts(3) hi by metis
  define ix where "ix = (if out = None then indices_addAt (indices n) (length cs1) 1 else indices n)"
  have size: "node_size c' = (if out = None then node_size c + 1 else node_size c)"
    using ins(2) length_ins_list[OF parts(2), of x] by (simp add: inserted_def)
  then have ix: "ix = ranks 0 (map node_size (cs1 @ c' # cs2))"
    using addAt_ranks[of 0 "map node_size cs1" "node_size c" "map node_size cs2" 1]
    by (simp add: ix_def n)
  have "wf_node mn mx (Suc h) (Node (xs1 @ xs2) (cs1 @ c' # cs2) ix)"
    using wf ins(2) by (intro wf_node_cutI) (auto simp: n inserted_def ix assms)
  moreover have "inorder (Node (xs1 @ xs2) (cs1 @ c' # cs2) ix) = ins_list Less x (inorder n)"
    using ins_list_cut[OF lo' hi', of "inorder c"] ins(2) by (simp only: n split inserted_def)
  moreover have "out = find_list Less x (inorder n)"
    using find_list_cut[OF lo' hi', of "inorder c"] ins(2) by (simp only: n split inserted_def)
  ultimately show ?thesis unfolding inserted_def ix_def[symmetric] by (simp add: n)
qed

lemma wf_replace_item:
  "wf_node mn mx h (Node (xs1 @ y # xs2) cs ix) \<Longrightarrow> wf_node mn mx h (Node (xs1 @ x # xs2) cs ix)"
  by (cases h) auto

text \<open>An item of the node that equals the key is replaced.\<close>

lemma insert_replace:
  assumes wf: "wf_node mn mx h n" and sorted: "sorted_wrt Less (inorder n)"
    and n: "n = Node (xs1 @ y # xs2) cs ix" and y: "\<not> Less y x" "\<not> Less x y"
  shows "inserted mn mx h x n (Node (xs1 @ x # xs2) cs ix) (Some y)"
proof -
  have "\<exists>A B. inorder n = A @ y # B \<and> inorder (Node (xs1 @ x # xs2) cs ix) = A @ x # B"
  proof (cases h)
    case 0
    with wf n show ?thesis by auto
  next
    case (Suc h')
    with wf n obtain cs1 c d cs2 where cs: "cs = cs1 @ c # d # cs2" "length cs1 = length xs1"
    proof -
      have "length cs = Suc (Suc (length xs1 + length xs2))" using wf n Suc by simp
      then show ?thesis
        using that[of "take (length xs1) cs" "cs ! length xs1" "cs ! Suc (length xs1)"
            "drop (Suc (Suc (length xs1))) cs"]
        by (simp add: Cons_nth_drop_Suc)
    qed
    show ?thesis
      using inorder_split[of xs1 cs1 "y # xs2" c "d # cs2" ix] inorder_split[of xs1 cs1 "x # xs2" c "d # cs2" ix]
      by (intro exI[of _ "belows xs1 cs1 @ inorder c"] exI[of _ "inorder d @ aboves xs2 cs2"])
        (simp add: n cs)
  qed
  then obtain A B where AB: "inorder n = A @ y # B" "inorder (Node (xs1 @ x # xs2) cs ix) = A @ x # B"
    by blast
  show ?thesis
    unfolding inserted_def AB
    using at_pivot[OF sorted[unfolded AB(1)] y] wf_replace_item[of mn mx h xs1 y xs2 cs ix x] wf
    by (simp add: n)
qed

lemma sorted_child:
  "sorted_wrt Less (inorder (Node (xs1 @ xs2) (cs1 @ c # cs2) ix)) \<Longrightarrow> length xs1 = length cs1 \<Longrightarrow>
   sorted_wrt Less (inorder c)"
  by (simp only: inorder_split sorted_wrt_append)

text \<open>The descent, whether or not the child was split first.\<close>

lemma insert_via:
  assumes find: "items_find Less (items n) x = (i, False)" "children n \<noteq> []"
    and split: "maybeSplitChild n i mx = Some (d, s)"
    and to: "(if \<not> d \<or> Less x (items s ! i) then Some i
      else if Less (items s ! i) x then Some (i + 1) else None) = Some (length xs1)"
    and len: "length xs1 = length cs1" "length cs2 = length xs2"
    and s: "s = Node (xs1 @ xs2) (cs1 @ c # cs2) (ranks 0 (map node_size (cs1 @ c # cs2)))"
    and wf: "wf_node mn mx (Suc h) s" and sorted: "sorted_wrt Less (inorder s)"
    and lo: "\<forall>y\<in>set xs1. Less y x" and hi: "\<forall>y\<in>set xs2. Less x y"
    and small: "length (items c) < mx"
    and IH: "insert_ok mn mx h x"
  shows "\<exists>n' out. node_insert Less mx x n = Some (n', out) \<and> inserted mn mx (Suc h) x s n' out"
proof -
  have c: "wf_node mn mx h c" "sorted_wrt Less (inorder c)"
    using wf sorted_child[of xs1 xs2 cs1 c cs2] sorted len by (auto simp: s)
  obtain c' out where c': "node_insert Less mx x c = Some (c', out)" "inserted mn mx h x c c' out"
    using IH c small unfolding insert_ok_def by blast
  have "node_insert Less mx x n = Some (Node (xs1 @ xs2) (cs1 @ c' # cs2)
      (if out = None then indices_addAt (indices s) (length cs1) 1 else indices s), out)"
    using node_insert_descend[OF find split to _ c'(1)] len by (simp add: s at_def nth_append)
  with insert_descend[OF len s wf sorted lo hi c'] show ?thesis by blast
qed

text \<open>One level of \<open>insert\<close> above a child of height \<open>h\<close>, the key being absent from the node.\<close>

lemma insert_inner:
  assumes mx: "mx = 2 * mn + 1" and mn: "1 \<le> mn"
    and IH: "insert_ok mn mx h x"
    and len: "length xs1 = length cs1" "length cs2 = length xs2"
    and n: "n = Node (xs1 @ xs2) (cs1 @ c # cs2) (ranks 0 (map node_size (cs1 @ c # cs2)))"
    and wf: "wf_node mn mx (Suc h) n" and sorted: "sorted_wrt Less (inorder n)"
    and small: "length (items n) < mx"
    and find: "items_find Less (items n) x = (length xs1, False)"
    and lo: "\<forall>y\<in>set xs1. Less y x" and hi: "\<forall>y\<in>set xs2. Less x y"
  shows "\<exists>n' out. node_insert Less mx x n = Some (n', out) \<and> inserted mn mx (Suc h) x n n' out"
proof -
  have inner: "children n \<noteq> []" and c: "wf_node mn mx h c" using wf by (auto simp: n)
  note split = maybeSplitChild_ok[OF c mx len refl]
  show ?thesis
  proof (cases "length (items c) < mx")
    case True
    then have "maybeSplitChild n (length xs1) mx = Some (False, n)" using split by (simp only: n if_True)
    from insert_via[OF find inner this _ len n wf sorted lo hi True IH] show ?thesis by simp
  next
    case False
    with split obtain m l r s where s: "maybeSplitChild n (length xs1) mx = Some (True, s)"
      "s = Node (xs1 @ m # xs2) (cs1 @ l # r # cs2) (ranks 0 (map node_size (cs1 @ l # r # cs2)))"
      and lr: "inorder c = inorder l @ m # inorder r" "wf_node mn mx h l" "wf_node mn mx h r"
        "length (items l) = mn" "length (items r) = mn"
      unfolding n by auto
    have s': "s = Node ((xs1 @ [m]) @ xs2) ((cs1 @ [l]) @ r # cs2)
        (ranks 0 (map node_size ((cs1 @ [l]) @ r # cs2)))" by (simp add: s)
    have same: "inorder s = inorder n"
      using inorder_split[OF len(1), of xs2 c cs2] inorder_split[OF len(1), of "m # xs2" l "r # cs2"]
      by (simp add: s(2) n lr(1))
    have s_wf: "wf_node mn mx (Suc h) s"
      unfolding s(2) using wf small lr len by (intro wf_node_cutI) (auto simp: n)
    have to_n: "inserted mn mx (Suc h) x n n' out" if "inserted mn mx (Suc h) x s n' out" for n' out
      using that same by (simp add: inserted_def s(2) n)
    have at_m: "items s ! length xs1 = m" by (simp add: s(2))
    have halves: "length (items l) < mx" "length (items r) < mx" using lr mx mn by auto
    note via = insert_via[OF find inner s(1) _ _ _ _ s_wf sorted[folded same] _ _ _ IH]
    consider "Less x m" | "Less m x" "\<not> Less x m" | (here) "\<not> Less x m" "\<not> Less m x" by blast
    then have "\<exists>n' out. node_insert Less mx x n = Some (n', out) \<and> inserted mn mx (Suc h) x s n' out"
    proof cases
      case 1
      then show ?thesis using via[OF _ len(1) _ s(2) lo _ halves(1)] len(2) hi at_m by simp
    next
      case 2
      then show ?thesis using via[OF _ _ len(2) s' _ hi halves(2)] len(1) lo at_m by auto
    next
      case here
      then show ?thesis
        using node_insert_here[OF find inner s(1)] insert_replace[OF s_wf sorted[folded same] s(2) here(2,1)]
        by (simp add: at_m) (simp add: s(2) list_update_append)
    qed
    with to_n show ?thesis by blast
  qed
qed

lemma insert_ok_leaf: "insert_ok mn mx 0 x"
  unfolding insert_ok_def
proof (intro allI impI)
  fix n assume n0: "wf_node mn mx 0 n \<and> sorted_wrt Less (inorder n) \<and> length (items n) < mx"
  then obtain xs where n: "n = Node xs [] []" "sorted_wrt Less xs" by (cases n) auto
  from sorted_cut[OF n(2), of x]
  show "\<exists>n' out. node_insert Less mx x n = Some (n', out) \<and> inserted mn mx 0 x n n' out"
  proof (elim disjE exE conjE)
    fix xs1 xs2
    assume "xs = xs1 @ xs2" "\<forall>y\<in>set xs1. Less y x" "\<forall>y\<in>set xs2. Less x y"
      "items_find Less xs x = (length xs1, False)"
    then show ?thesis
      using n0 by (subst node_insert.simps) (auto simp: n insertAt_def inserted_def no_pivot)
  next
    fix xs1 y xs2
    assume "xs = xs1 @ y # xs2" "\<not> Less y x" "\<not> Less x y" "items_find Less xs x = (length xs1, True)"
    then show ?thesis
      using insert_replace[of mn mx 0 n xs1 y xs2 "[]" "[]" x] n0
      by (subst node_insert.simps) (simp add: n list_update_append)
  qed
qed

lemma insert_ok_step:
  assumes mx: "mx = 2 * mn + 1" and mn: "1 \<le> mn" and IH: "insert_ok mn mx h x"
  shows "insert_ok mn mx (Suc h) x"
  unfolding insert_ok_def
proof (intro allI impI, elim conjE)
  fix n assume n: "wf_node mn mx (Suc h) n" "sorted_wrt Less (inorder n)" "length (items n) < mx"
  from sorted_cut[OF sorted_items[OF n(1,2)], of x]
  show "\<exists>n' out. node_insert Less mx x n = Some (n', out) \<and> inserted mn mx (Suc h) x n n' out"
  proof (elim disjE exE conjE)
    fix ys1 ys2
    assume c: "items n = ys1 @ ys2" "\<forall>y\<in>set ys1. Less y x" "\<forall>y\<in>set ys2. Less x y"
      "items_find Less (items n) x = (length ys1, False)"
    then have "length ys1 \<le> length (items n)" by simp
    from wf_node_cut[OF n(1) this] obtain xs1 xs2 cs1 k cs2 where
      cut: "n = Node (xs1 @ xs2) (cs1 @ k # cs2) (ranks 0 (map node_size (cs1 @ k # cs2)))"
      "length xs1 = length ys1" "length cs1 = length ys1" "length cs2 = length xs2" by blast
    with c(1) have "xs1 = ys1" "xs2 = ys2" by auto
    with cut c show ?thesis
      using insert_inner[OF mx mn IH _ cut(4,1) n] by simp
  next
    fix xs1 y xs2
    assume y: "items n = xs1 @ y # xs2" "\<not> Less y x" "\<not> Less x y"
      "items_find Less (items n) x = (length xs1, True)"
    then have "n = Node (xs1 @ y # xs2) (children n) (indices n)" by (cases n) simp
    from insert_replace[OF n(1,2) this y(2,3)] y(1,4) show ?thesis
      by (subst node_insert.simps) (simp add: list_update_append)
  qed
qed

lemma node_insert_ok: "mx = 2 * mn + 1 \<Longrightarrow> 1 \<le> mn \<Longrightarrow> insert_ok mn mx h x"
  by (induction h) (auto intro: insert_ok_leaf insert_ok_step)

text \<open>A full root is split before the insertion.\<close>

lemma grown_root:
  assumes "mx = 2 * mn + 1" "1 \<le> mn" "wf_node mn mx h r"
  obtains r' h' where
    "(if length (items r) \<ge> mx then do {
        (item2, oldroot, second) \<leftarrow> node_split r (mx div 2);
        Some (initSize (Node [item2] [oldroot, second] []))
      } else Some r) = Some r'"
    "wf_node mn mx h' r'" "inorder r' = inorder r" "length (items r') < mx"
    "children r \<noteq> [] \<longrightarrow> items r \<noteq> [] \<Longrightarrow> children r' \<noteq> [] \<longrightarrow> items r' \<noteq> []"
proof (cases "length (items r) \<ge> mx")
  case True
  then have "length (items r) = mx" using wf_node_items[OF assms(3)] by simp
  with node_split_ok[OF assms(3), of "mx div 2"] assms(1,2) obtain m l k where s:
    "node_split r (mx div 2) = Some (m, l, k)" "inorder r = inorder l @ m # inorder k"
    "wf_node mn mx h l" "wf_node mn mx h k" "length (items l) = mn" "length (items k) = mn"
    by auto
  show ?thesis
  proof (rule that[of "initSize (Node [m] [l, k] [])" "Suc h"])
    show "wf_node mn mx (Suc h) (initSize (Node [m] [l, k] []))"
      using s assms(1,2) by (simp add: initSize_def node_length_size[of mn mx h])
  qed (use True s assms in \<open>auto simp: initSize_def\<close>)
next
  case False
  with assms(3) show ?thesis by (intro that[of r h]) auto
qed

lemma ReplaceOrInsert_ok:
  assumes wf: "wf_tree Less t"
  shows "\<exists>t' out. ReplaceOrInsert Less t (Some x) = Some (t', out) \<and> wf_tree Less t' \<and> degree t' = degree t
    \<and> tree_items t' = ins_list Less x (tree_items t) \<and> out = find_list Less x (tree_items t)"
proof (cases "root t")
  case None
  then have "tree_items t = []" by (simp add: tree_items_def)
  with None wf show ?thesis
    by (auto simp: ReplaceOrInsert_def wf_tree_def tree_items_def ins_list_def find_list_def
        intro!: exI[of _ 0])
next
  case (Some r)
  define mn mx where "mn = degree t - 1" and "mx = degree t * 2 - 1"
  have mm: "mx = 2 * mn + 1" "1 \<le> mn" and mx: "maxItems t = mx"
    using wf by (auto simp: wf_tree_def mn_def mx_def maxItems_def)
  obtain h where r: "wf_node mn mx h r" and nonempty: "children r \<noteq> [] \<longrightarrow> items r \<noteq> []"
    and len: "len t = int (length (inorder r))" and sorted: "sorted_wrt Less (inorder r)"
    using wf Some by (auto simp: wf_tree_def tree_items_def mn_def mx_def)
  from grown_root[OF mm r] obtain r1 h1 where r1:
    "(if length (items r) \<ge> mx then do {
        (item2, oldroot, second) \<leftarrow> node_split r (mx div 2);
        Some (initSize (Node [item2] [oldroot, second] []))
      } else Some r) = Some r1" "wf_node mn mx h1 r1" "inorder r1 = inorder r"
    "length (items r1) < mx" "children r1 \<noteq> [] \<longrightarrow> items r1 \<noteq> []"
    using nonempty by blast
  obtain r2 out where r2: "node_insert Less mx x r1 = Some (r2, out)" "inserted mn mx h1 x r1 r2 out"
    using node_insert_ok[OF mm, of h1 x] r1 sorted by (auto simp: insert_ok_def)
  have eq: "ReplaceOrInsert Less t (Some x)
      = Some (t\<lparr> root := Some r2, len := (if out = None then len t + 1 else len t) \<rparr>, out)"
    unfolding ReplaceOrInsert_def mx by (simp only: Some option.case Option.bind.simps r1(1) r2(1) prod.case)
  have "children r2 \<noteq> [] \<longrightarrow> items r2 \<noteq> []"
    using r1(5) r2(2) wf_node_children[OF r1(2)] wf_node_children[of mn mx h1 r2]
    by (auto simp: inserted_def)
  moreover have "wf_node mn mx h1 r2" "inorder r2 = ins_list Less x (inorder r)"
    "out = find_list Less x (inorder r)" using r2(2) r1(3) by (simp_all add: inserted_def)
  moreover have "2 \<le> degree t" using wf by (simp add: wf_tree_def)
  ultimately show ?thesis
    using length_ins_list[OF sorted, of x] sorted_ins_list[OF sorted, of x] len
    unfolding eq mn_def mx_def
    by (auto simp: wf_tree_def tree_items_def Some)
qed

end

end
