(* ===== verification/BTree_Remove.thy ===== *)
theory BTree_Remove
  imports BTree_Inv
begin

text \<open>
  Deletion from the B-tree. A child that is about to lose an item is first given one
  (\<open>steal_left\<close>, \<open>steal_right\<close>, \<open>merge_children\<close>), after which \<open>remove\<close> starts again at the same
  node; \<open>growChild_ok\<close> shows that the second attempt finds a child with an item to spare, so
  the recursion ends. \<open>Delete_ok\<close> and \<open>deleteItem_ok\<close> show that deletion returns on every
  well-formed tree, keeps it well formed, and acts on the item sequence as \<open>del_list\<close>, or drops
  the first or last item.
\<close>

section \<open>Moving items between siblings\<close>

lemma ranks_transfer:
  "(ranks 0 (ss @ s # t # ts))[length ss := sum_list ss + int (length ss) + s'] =
   ranks 0 (ss @ s' # (s + t - s') # ts)"
  by (simp add: ranks_append list_update_append algebra_simps)

lemma at_cut: "length xs = i \<Longrightarrow> at (xs @ y # ys) i = Some y"
  by (simp add: at_def nth_append)

lemma at_cut_Suc: "length xs = i \<Longrightarrow> at (xs @ y # z # ys) (Suc i) = Some z"
  by (simp add: at_def nth_append)

lemma inner_snocE:
  assumes "wf_node mn mx (Suc h) d" "items d \<noteq> []"
  obtains ys z es e where "d = Node (ys @ [z]) (es @ [e]) (ranks 0 (map node_size (es @ [e])))"
    "length es = Suc (length ys)"
proof -
  from assms(1) obtain xs cs where d: "d = Node xs cs (ranks 0 (map node_size cs))"
    "length cs = Suc (length xs)" by (auto elim: wf_node_SucE)
  with assms(2) have "xs \<noteq> []" "cs \<noteq> []" by auto
  then obtain ys z es e where "xs = ys @ [z]" "cs = es @ [e]" by (metis rev_exhaust)
  with d that show ?thesis by auto
qed

lemma inorder_snoc:
  "length es = Suc (length ys) \<Longrightarrow>
   inorder (Node (ys @ [z]) (es @ [e]) ix) = inorder (Node ys es iy) @ z # inorder e"
proof -
  assume "length es = Suc (length ys)"
  then obtain fs f where "es = fs @ [f]" "length ys = length fs" by (cases es rule: rev_cases) auto
  then show ?thesis
    using inorder_split[of "ys @ [z]" es "[]" e "[]"] inorder_split[of ys fs "[]" f "[]"]
    by (simp add: below_append)
qed

text \<open>
  The result of a steal between the neighbours \<open>d\<close> and \<open>c\<close> around the item \<open>u\<close>: the sequence stays,
  one item moves.
\<close>

definition moved :: "nat \<Rightarrow> nat \<Rightarrow> nat \<Rightarrow> 'a node \<Rightarrow> 'a \<Rightarrow> 'a node \<Rightarrow> 'a node \<Rightarrow> 'a \<Rightarrow> 'a node \<Rightarrow> bool" where
  "moved mn mx h d u c d' z c' \<longleftrightarrow>
     inorder d @ u # inorder c = inorder d' @ z # inorder c' \<and> wf_node mn mx h d' \<and> wf_node mn mx h c'"

lemma steal_left_ok:
  assumes len: "length xs1 = length cs1"
    and d: "wf_node mn mx h d" "items d \<noteq> []" and c: "wf_node mn mx h c" "length (items c) < mx"
  shows "\<exists>d' z c'. steal_left (Node (xs1 @ u # xs2) (cs1 @ d # c # cs2)
        (ranks 0 (map node_size (cs1 @ d # c # cs2)))) (Suc (length xs1))
      = Some (Node (xs1 @ z # xs2) (cs1 @ d' # c' # cs2) (ranks 0 (map node_size (cs1 @ d' # c' # cs2))))
    \<and> moved mn mx h d u c d' z c' \<and> length (items d') = length (items d) - 1
    \<and> length (items c') = Suc (length (items c)) \<and> z \<in> set (inorder d)"
proof (cases h)
  case 0
  with d c obtain ys z zs where dc: "d = Node (ys @ [z]) [] []" "c = Node zs [] []"
    by (metis append_butlast_last_id node.exhaust_sel wf_node_0_iff)
  define d' c' where "d' = Node ys [] []" and "c' = Node (u # zs) [] []"
  have m: "moved mn mx h d u c d' z c'"
    using d c by (simp add: moved_def 0 dc d'_def c'_def)
  have "steal_left (Node (xs1 @ u # xs2) (cs1 @ d # c # cs2)
        (ranks 0 (map node_size (cs1 @ d # c # cs2)))) (Suc (length xs1))
      = Some (Node (xs1 @ z # xs2) (cs1 @ d' # c' # cs2) (ranks 0 (map node_size (cs1 @ d' # c' # cs2))))"
    by (simp add: steal_left_def dc d'_def c'_def len nth_append pop_def insertAt_def
        list_update_append ranks_append algebra_simps)
  moreover have "length (items d') = length (items d) - 1" "length (items c') = Suc (length (items c))"
    "z \<in> set (inorder d)" by (simp_all add: d'_def c'_def dc)
  ultimately show ?thesis using m by blast
next
  case (Suc h')
  with d obtain ys z es e where d': "d = Node (ys @ [z]) (es @ [e]) (ranks 0 (map node_size (es @ [e])))"
    "length es = Suc (length ys)" by (metis inner_snocE)
  from c Suc obtain zs fs where c': "c = Node zs fs (ranks 0 (map node_size fs))"
    "length fs = Suc (length zs)" by (metis wf_node_SucE)
  define d1 c1 where "d1 = Node ys es (ranks 0 (map node_size es))"
    and "c1 = Node (u # zs) (e # fs) (ranks 0 (map node_size (e # fs)))"
  have in_d: "inorder d = inorder d1 @ z # inorder e" and in_c: "inorder c1 = inorder e @ u # inorder c"
    unfolding d' c' d1_def c1_def using inorder_snoc[OF d'(2)] inorder_Cons[OF c'(2)] by blast+
  have m: "moved mn mx h d u c d1 z c1"
    using d c unfolding moved_def in_d in_c by (simp add: Suc d1_def c1_def d' c')
  have "steal_left (Node (xs1 @ u # xs2) (cs1 @ d # c # cs2)
        (ranks 0 (map node_size (cs1 @ d # c # cs2)))) (Suc (length xs1))
      = Some (Node (xs1 @ z # xs2) (cs1 @ d1 # c1 # cs2) (ranks 0 (map node_size (cs1 @ d1 # c1 # cs2))))"
    using pop_ranks[of "map node_size es" "node_size e"]
      insertAt_ranks_0[of "map node_size fs" "node_size e"] in_d in_c
    by (simp add: steal_left_def d' c' d1_def c1_def len nth_append pop_def insertAt_def
        list_update_append ranks_append algebra_simps)
  moreover have "length (items d1) = length (items d) - 1" "length (items c1) = Suc (length (items c))"
    "z \<in> set (inorder d)" using in_d by (simp_all add: d1_def c1_def d' c')
  ultimately show ?thesis using m by blast
qed

lemma steal_right_ok:
  assumes len: "length xs1 = length cs1"
    and c: "wf_node mn mx h c" "length (items c) < mx" and d: "wf_node mn mx h d" "items d \<noteq> []"
  shows "\<exists>c' z d'. steal_right (Node (xs1 @ u # xs2) (cs1 @ c # d # cs2)
        (ranks 0 (map node_size (cs1 @ c # d # cs2)))) (length xs1)
      = Some (Node (xs1 @ z # xs2) (cs1 @ c' # d' # cs2) (ranks 0 (map node_size (cs1 @ c' # d' # cs2))))
    \<and> moved mn mx h c u d c' z d' \<and> length (items d') = length (items d) - 1
    \<and> length (items c') = Suc (length (items c)) \<and> z \<in> set (inorder d)"
proof (cases h)
  case 0
  with d c obtain ys z zs where dc: "d = Node (z # ys) [] []" "c = Node zs [] []"
    by (metis neq_Nil_conv node.exhaust_sel wf_node_0_iff)
  define d' c' where "d' = Node ys [] []" and "c' = Node (zs @ [u]) [] []"
  have m: "moved mn mx h c u d c' z d'"
    using d c by (simp add: moved_def 0 dc d'_def c'_def)
  have "steal_right (Node (xs1 @ u # xs2) (cs1 @ c # d # cs2)
        (ranks 0 (map node_size (cs1 @ c # d # cs2)))) (length xs1)
      = Some (Node (xs1 @ z # xs2) (cs1 @ c' # d' # cs2) (ranks 0 (map node_size (cs1 @ c' # d' # cs2))))"
    by (simp add: steal_right_def dc d'_def c'_def len nth_append removeAt_def
        list_update_append ranks_append algebra_simps)
  moreover have "length (items d') = length (items d) - 1" "length (items c') = Suc (length (items c))"
    "z \<in> set (inorder d)" by (simp_all add: d'_def c'_def dc)
  ultimately show ?thesis using m by blast
next
  case (Suc h')
  with d obtain ys z es e where d': "d = Node (z # ys) (e # es) (ranks 0 (map node_size (e # es)))"
    "length es = Suc (length ys)" by (metis inner_ConsE)
  from c Suc obtain zs fs where c': "c = Node zs fs (ranks 0 (map node_size fs))"
    "length fs = Suc (length zs)" by (metis wf_node_SucE)
  define d1 c1 where "d1 = Node ys es (ranks 0 (map node_size es))"
    and "c1 = Node (zs @ [u]) (fs @ [e]) (ranks 0 (map node_size (fs @ [e])))"
  have in_d: "inorder d = inorder e @ z # inorder d1" and in_c: "inorder c1 = inorder c @ u # inorder e"
    unfolding d' c' d1_def c1_def using inorder_Cons[OF d'(2)] inorder_snoc[OF c'(2)] by blast+
  have m: "moved mn mx h c u d c1 z d1"
    using d c unfolding moved_def in_d in_c by (simp add: Suc d1_def c1_def d' c')
  have "steal_right (Node (xs1 @ u # xs2) (cs1 @ c # d # cs2)
        (ranks 0 (map node_size (cs1 @ c # d # cs2)))) (length xs1)
      = Some (Node (xs1 @ z # xs2) (cs1 @ c1 # d1 # cs2) (ranks 0 (map node_size (cs1 @ c1 # d1 # cs2))))"
    using removeAt_0_ranks[of "node_size e" "map node_size es"]
      push_ranks[of "map node_size fs" "node_size e"] in_d in_c
    by (simp add: steal_right_def d' c' d1_def c1_def len nth_append removeAt_def
        list_update_append ranks_append algebra_simps)
  moreover have "length (items d1) = length (items d) - 1" "length (items c1) = Suc (length (items c))"
    "z \<in> set (inorder d)" using in_d by (simp_all add: d1_def c1_def d' c')
  ultimately show ?thesis using m by blast
qed

lemma merge_children_ok:
  assumes len: "length xs1 = length cs1"
    and c: "wf_node mn mx h c" and d: "wf_node mn mx h d"
    and fit: "length (items c) + length (items d) < mx"
  shows "\<exists>m. merge_children (Node (xs1 @ u # xs2) (cs1 @ c # d # cs2)
        (ranks 0 (map node_size (cs1 @ c # d # cs2)))) (length xs1)
      = Some (Node (xs1 @ xs2) (cs1 @ m # cs2) (ranks 0 (map node_size (cs1 @ m # cs2))))
    \<and> inorder m = inorder c @ u # inorder d \<and> wf_node mn mx h m
    \<and> length (items m) = Suc (length (items c) + length (items d))"
proof -
  define m where "m = Node (items c @ u # items d) (children c @ children d)
    (fold (\<lambda>nn ix. indices_push ix (node_length nn)) (children d) (indices c))"
  have m: "inorder m = inorder c @ u # inorder d \<and> wf_node mn mx h m"
  proof (cases h)
    case 0
    with c d fit show ?thesis by (cases c; cases d) (simp add: m_def)
  next
    case (Suc h')
    from c Suc obtain xs fs where c': "c = Node xs fs (ranks 0 (map node_size fs))"
      "length fs = Suc (length xs)" "\<And>k. k \<in> set fs \<Longrightarrow> wf_node mn mx h' k \<and> mn \<le> length (items k)"
      by (metis wf_node_SucE)
    from d Suc obtain ys gs where d': "d = Node ys gs (ranks 0 (map node_size gs))"
      "length gs = Suc (length ys)" "\<And>k. k \<in> set gs \<Longrightarrow> wf_node mn mx h' k \<and> mn \<le> length (items k)"
      by (metis wf_node_SucE)
    have "map node_length gs = map node_size gs" by (simp add: d'(3) node_length_size[of mn mx h'])
    then have ix: "fold (\<lambda>nn ix. indices_push ix (node_length nn)) gs (ranks 0 (map node_size fs))
        = ranks 0 (map node_size (fs @ gs))"
      by (simp only: push_all_ranks map_append)
    obtain es e g hs where eg: "fs = es @ [e]" "gs = g # hs" "length xs = length es"
      using c'(2) d'(2) by (cases fs rule: rev_cases; cases gs) auto
    have "inorder m = inorder c @ u # inorder d"
      using inorder_split[OF eg(3), of "u # ys" e gs] inorder_split[OF eg(3), of "[]" e "[]"]
      by (simp add: m_def c' d' eg(1,2))
    moreover have "wf_node mn mx h m"
      using c' d' fit by (auto simp: m_def Suc ix)
    ultimately show ?thesis by blast
  qed
  then have size: "node_size m = node_size c + 1 + node_size d" by simp
  have "merge_children (Node (xs1 @ u # xs2) (cs1 @ c # d # cs2)
        (ranks 0 (map node_size (cs1 @ c # d # cs2)))) (length xs1)
      = Some (Node (xs1 @ xs2) (cs1 @ m # cs2) (ranks 0 (map node_size (cs1 @ m # cs2))))"
    using merge_ranks[of "map node_size cs1" "node_size c" "node_size d" "map node_size cs2"]
    by (simp add: merge_children_def removeAt_def len nth_append m_def[symmetric] size)
  moreover have "length (items m) = Suc (length (items c) + length (items d))" by (simp add: m_def)
  ultimately show ?thesis using m by blast
qed

section \<open>Growing the child\<close>

text \<open>
  Where \<open>remove\<close> works: \<open>target\<close> relates the two sides of the position to what is removed, and
  \<open>cut_at\<close> names the parts of an inner node around a child.
\<close>

definition target :: "('a \<Rightarrow> 'a \<Rightarrow> bool) \<Rightarrow> 'a option \<Rightarrow> toRemove \<Rightarrow> 'a list \<Rightarrow> 'a list \<Rightarrow> bool" where
  "target Less item typ xs1 xs2 \<longleftrightarrow>
     (case typ of
        RemoveMax \<Rightarrow> xs2 = []
      | RemoveMin \<Rightarrow> xs1 = []
      | RemoveItem \<Rightarrow> (\<exists>x. item = Some x \<and> (\<forall>y\<in>set xs1. Less y x) \<and> (\<forall>y\<in>set xs2. \<not> Less y x)))"

definition cut_at :: "'a node \<Rightarrow> 'a list \<Rightarrow> 'a list \<Rightarrow> 'a node list \<Rightarrow> 'a node \<Rightarrow> 'a node list \<Rightarrow> bool" where
  "cut_at n xs1 xs2 cs1 c cs2 \<longleftrightarrow> length xs1 = length cs1 \<and> length cs2 = length xs2
     \<and> n = Node (xs1 @ xs2) (cs1 @ c # cs2) (ranks 0 (map node_size (cs1 @ c # cs2)))"

lemma cut_at_wf:
  assumes "cut_at n xs1 xs2 cs1 c cs2" "length (items n) \<le> mx"
    "\<And>k. k \<in> set cs1 \<union> {c} \<union> set cs2 \<Longrightarrow> wf_node mn mx h k \<and> mn \<le> length (items k)"
  shows "wf_node mn mx (Suc h) n"
  using assms by (auto simp: cut_at_def)

lemma cut_at_children:
  assumes "cut_at n xs1 xs2 cs1 c cs2" "wf_node mn mx (Suc h) n" "k \<in> set cs1 \<union> {c} \<union> set cs2"
  shows "wf_node mn mx h k" "mn \<le> length (items k)"
  using assms by (auto simp: cut_at_def)

lemma cut_at_inorder:
  "cut_at n xs1 xs2 cs1 c cs2 \<Longrightarrow> inorder n = belows xs1 cs1 @ inorder c @ aboves xs2 cs2"
  using inorder_split[of xs1 cs1 xs2 c cs2] by (simp add: cut_at_def)

lemma cut_at_items: "cut_at n xs1 xs2 cs1 c cs2 \<Longrightarrow> items n = xs1 @ xs2 \<and> children n = cs1 @ c # cs2"
  by (simp add: cut_at_def)

context item_order
begin

text \<open>What growing gives: the same sequence, and a position whose child can spare an item.\<close>

definition grown :: "nat \<Rightarrow> nat \<Rightarrow> nat \<Rightarrow> 'a option \<Rightarrow> toRemove \<Rightarrow> 'a node \<Rightarrow> 'a node \<Rightarrow> bool" where
  "grown mn mx h item typ n n' \<longleftrightarrow>
     wf_node mn mx (Suc h) n' \<and> inorder n' = inorder n \<and> length (items n) \<le> Suc (length (items n'))
     \<and> (\<exists>xs1 xs2 cs1 c cs2. cut_at n' xs1 xs2 cs1 c cs2 \<and> target Less item typ xs1 xs2 \<and> mn < length (items c))"

lemma grownI:
  assumes "cut_at n' xs1 xs2 cs1 c cs2" "target Less item typ xs1 xs2" "mn < length (items c)"
    "wf_node mn mx (Suc h) n'" "inorder n' = inorder n" "length (items n) \<le> Suc (length (items n'))"
  shows "grown mn mx h item typ n n'"
  using assms unfolding grown_def by blast

lemma grow_steal_left:
  assumes cut: "cut_at n (us @ [u]) xs2 (ds @ [d]) c cs2" and wf: "wf_node mn mx (Suc h) n"
    and sorted: "sorted_wrt Less (inorder n)" and tgt: "target Less item typ (us @ [u]) xs2"
    and c: "length (items c) = mn" and d: "mn < length (items d)" and mx: "mx = 2 * mn + 1" "1 \<le> mn"
  shows "\<exists>n'. steal_left n (length (us @ [u])) = Some n' \<and> grown mn mx h item typ n n'"
proof -
  have len: "length us = length ds" using cut by (simp add: cut_at_def)
  have wd: "wf_node mn mx h d" and wc: "wf_node mn mx h c"
    using cut_at_children(1)[OF cut wf] by auto
  have nonempty: "items d \<noteq> []" using d by auto
  obtain d' z c' where s: "steal_left n (length (us @ [u]))
      = Some (Node (us @ z # xs2) (ds @ d' # c' # cs2) (ranks 0 (map node_size (ds @ d' # c' # cs2))))"
    "moved mn mx h d u c d' z c'" "length (items d') = length (items d) - 1"
    "length (items c') = Suc (length (items c))" "z \<in> set (inorder d)"
    using steal_left_ok[OF len wd nonempty wc, of u xs2 cs2] c mx cut by (auto simp: cut_at_def)
  define n' where "n' = Node (us @ z # xs2) (ds @ d' # c' # cs2) (ranks 0 (map node_size (ds @ d' # c' # cs2)))"
  have cut': "cut_at n' (us @ [z]) xs2 (ds @ [d']) c' cs2"
    using cut by (simp add: cut_at_def n'_def)
  have "inorder n' = inorder n"
    using s(2) len by (simp add: cut_at_inorder[OF cut] cut_at_inorder[OF cut'] moved_def below_append)
  moreover have "wf_node mn mx (Suc h) n'"
    using cut_at_children[OF cut wf] s(2-4) c d wf_node_items[OF wf] cut_at_items[OF cut]
    by (intro cut_at_wf[OF cut']) (auto simp: moved_def n'_def)
  moreover have "target Less item typ (us @ [z]) xs2"
  proof (cases "typ")
    case RemoveItem
    with tgt obtain x where x: "item = Some x" "\<forall>y\<in>set (us @ [u]). Less y x" "\<forall>y\<in>set xs2. \<not> Less y x"
      by (auto simp: target_def)
    have "\<forall>y\<in>set (belows (us @ [u]) (ds @ [d])). Less y x"
      using sorted x(2) len by (intro belows_less) (auto simp: cut_at_inorder[OF cut] sorted_wrt_append)
    with x s(5) len RemoveItem show ?thesis by (auto simp: target_def below_append)
  qed (use tgt in \<open>auto simp: target_def\<close>)
  ultimately have "grown mn mx h item typ n n'"
    using s(4) c cut_at_items[OF cut] by (intro grownI[OF cut']) (simp_all add: n'_def)
  with s(1) show ?thesis by (auto simp: n'_def)
qed

lemma grow_steal_right:
  assumes cut: "cut_at n xs1 (u # us) cs1 c (d # ds)" and wf: "wf_node mn mx (Suc h) n"
    and sorted: "sorted_wrt Less (inorder n)" and tgt: "target Less item typ xs1 (u # us)"
    and c: "length (items c) = mn" and d: "mn < length (items d)" and mx: "mx = 2 * mn + 1" "1 \<le> mn"
  shows "\<exists>n'. steal_right n (length xs1) = Some n' \<and> grown mn mx h item typ n n'"
proof -
  have len: "length xs1 = length cs1" "length us = length ds" using cut by (auto simp: cut_at_def)
  have wd: "wf_node mn mx h d" and wc: "wf_node mn mx h c"
    using cut_at_children(1)[OF cut wf] by auto
  have nonempty: "items d \<noteq> []" using d by auto
  obtain c' z d' where s: "steal_right n (length xs1)
      = Some (Node (xs1 @ z # us) (cs1 @ c' # d' # ds) (ranks 0 (map node_size (cs1 @ c' # d' # ds))))"
    "moved mn mx h c u d c' z d'" "length (items d') = length (items d) - 1"
    "length (items c') = Suc (length (items c))" "z \<in> set (inorder d)"
    using steal_right_ok[OF len(1) wc _ wd nonempty, of u us ds] c mx cut by (auto simp: cut_at_def)
  define n' where "n' = Node (xs1 @ z # us) (cs1 @ c' # d' # ds) (ranks 0 (map node_size (cs1 @ c' # d' # ds)))"
  have cut': "cut_at n' xs1 (z # us) cs1 c' (d' # ds)"
    using cut by (simp add: cut_at_def n'_def)
  have "inorder n' = inorder n"
    using s(2) by (simp add: cut_at_inorder[OF cut] cut_at_inorder[OF cut'] moved_def)
  moreover have "wf_node mn mx (Suc h) n'"
    using cut_at_children[OF cut wf] s(2-4) c d wf_node_items[OF wf] cut_at_items[OF cut]
    by (intro cut_at_wf[OF cut']) (auto simp: moved_def n'_def)
  moreover have "target Less item typ xs1 (z # us)"
  proof (cases "typ")
    case RemoveItem
    have "Less u z" using sorted s(5) by (auto simp: cut_at_inorder[OF cut] sorted_wrt_append)
    with tgt RemoveItem trans show ?thesis by (auto simp: target_def)
  qed (use tgt in \<open>auto simp: target_def\<close>)
  ultimately have "grown mn mx h item typ n n'"
    using s(4) c cut_at_items[OF cut] by (intro grownI[OF cut']) (simp_all add: n'_def)
  with s(1) show ?thesis by (auto simp: n'_def)
qed

lemma grow_merge:
  assumes cut: "cut_at n xs1 (u # us) cs1 c (d # ds)" and wf: "wf_node mn mx (Suc h) n"
    and tgt: "target Less item typ xs1 us"
    and cd: "length (items c) = mn" "length (items d) = mn" and mx: "mx = 2 * mn + 1" "1 \<le> mn"
  shows "\<exists>n'. merge_children n (length xs1) = Some n' \<and> grown mn mx h item typ n n'"
proof -
  have len: "length xs1 = length cs1" "length us = length ds" using cut by (auto simp: cut_at_def)
  have wd: "wf_node mn mx h d" and wc: "wf_node mn mx h c"
    using cut_at_children(1)[OF cut wf] by auto
  obtain m where m: "merge_children n (length xs1)
      = Some (Node (xs1 @ us) (cs1 @ m # ds) (ranks 0 (map node_size (cs1 @ m # ds))))"
    "inorder m = inorder c @ u # inorder d" "wf_node mn mx h m"
    "length (items m) = Suc (length (items c) + length (items d))"
    using merge_children_ok[OF len(1) wc wd, of u us ds] cd mx cut by (auto simp: cut_at_def)
  define n' where "n' = Node (xs1 @ us) (cs1 @ m # ds) (ranks 0 (map node_size (cs1 @ m # ds)))"
  have cut': "cut_at n' xs1 us cs1 m ds" using len by (simp add: cut_at_def n'_def)
  have "inorder n' = inorder n"
    using m(2) by (simp add: cut_at_inorder[OF cut] cut_at_inorder[OF cut'])
  moreover have "wf_node mn mx (Suc h) n'"
    using cut_at_children[OF cut wf] m(3,4) cd wf_node_items[OF wf] cut_at_items[OF cut]
    by (intro cut_at_wf[OF cut']) (auto simp: n'_def)
  ultimately have "grown mn mx h item typ n n'"
    using m(4) cd cut_at_items[OF cut] by (intro grownI[OF cut' tgt]) (simp_all add: n'_def)
  with m(1) show ?thesis by (auto simp: n'_def)
qed

lemma growChild_ok:
  assumes cut: "cut_at n xs1 xs2 cs1 c cs2" and wf: "wf_node mn mx (Suc h) n"
    and sorted: "sorted_wrt Less (inorder n)" and tgt: "target Less item typ xs1 xs2"
    and c: "length (items c) \<le> mn" and nonempty: "items n \<noteq> []" and mx: "mx = 2 * mn + 1" "1 \<le> mn"
  shows "\<exists>n'. growChild n (length xs1) mn = Some n' \<and> grown mn mx h item typ n n'"
proof -
  note kids = cut_at_children(2)[OF cut wf] and parts = cut_at_items[OF cut]
  have lens: "length xs1 = length cs1" "length cs2 = length xs2" using cut by (auto simp: cut_at_def)
  have c': "length (items c) = mn" using c kids[of c] by simp
  consider (left) us u ds d where "xs1 = us @ [u]" "cs1 = ds @ [d]" "mn < length (items d)"
    | (right) u us d ds where "xs2 = u # us" "cs2 = d # ds" "mn < length (items d)"
        "xs1 = [] \<or> length (items (last cs1)) = mn"
    | (mergeRight) u us d ds where "xs2 = u # us" "cs2 = d # ds" "length (items d) = mn"
        "xs1 = [] \<or> length (items (last cs1)) = mn"
    | (mergeLeft) us u ds d where "xs1 = us @ [u]" "cs1 = ds @ [d]" "length (items d) = mn" "xs2 = []" "cs2 = []"
  proof (cases "xs1 \<noteq> [] \<and> mn < length (items (last cs1))")
    case True
    then show ?thesis using left lens by (metis append_butlast_last_id length_0_conv)
  next
    case False
    have l: "xs1 = [] \<or> length (items (last cs1)) = mn"
    proof (cases "xs1 = []")
      case xs1: False
      with lens have "last cs1 \<in> set cs1" by (intro last_in_set) auto
      then show ?thesis using False xs1 kids[of "last cs1"] by auto
    qed simp
    show ?thesis
    proof (cases xs2)
      case Nil
      with nonempty parts have "xs1 \<noteq> []" by simp
      with l Nil lens mergeLeft show ?thesis by (metis append_butlast_last_id length_0_conv)
    next
      case (Cons u us)
      with lens obtain d ds where "cs2 = d # ds" by (cases cs2) auto
      with Cons l right mergeRight kids[of d] show ?thesis by (auto simp: order_le_less)
    qed
  qed
  then show ?thesis
  proof cases
    case left
    then show ?thesis
      using grow_steal_left[of n us u xs2 ds d c cs2] cut wf sorted tgt c' mx lens parts
      by (auto simp: growChild_def at_def nth_append)
  next
    case right
    then show ?thesis
      using grow_steal_right[of n xs1 u us cs1 c d ds] cut wf sorted tgt c' mx lens parts
      by (auto simp: growChild_def at_def nth_append last_conv_nth)
  next
    case mergeRight
    have "target Less item typ xs1 us" using tgt mergeRight(1) by (auto simp: target_def split: toRemove.splits)
    with mergeRight show ?thesis
      using grow_merge[of n xs1 u us cs1 c d ds] cut wf c' mx lens parts
      by (auto simp: growChild_def at_def nth_append last_conv_nth)
  next
    case mergeLeft
    have cut': "cut_at n us [u] ds d [c]" using cut mergeLeft by (simp add: cut_at_def)
    have "target Less item typ us []"
      using tgt mergeLeft(1,4) by (auto simp: target_def split: toRemove.splits)
    from grow_merge[OF cut' wf this mergeLeft(3) c' mx] mergeLeft show ?thesis
      using lens parts by (auto simp: growChild_def at_def nth_append)
  qed
qed

section \<open>Removal\<close>

definition removed_list :: "'a option \<Rightarrow> toRemove \<Rightarrow> 'a list \<Rightarrow> 'a list" where
  "removed_list item typ L =
     (case typ of RemoveMax \<Rightarrow> butlast L | RemoveMin \<Rightarrow> tl L | RemoveItem \<Rightarrow> del_list Less (the item) L)"

definition removed_item :: "'a option \<Rightarrow> toRemove \<Rightarrow> 'a list \<Rightarrow> 'a option" where
  "removed_item item typ L =
     (case typ of RemoveMax \<Rightarrow> Some (last L) | RemoveMin \<Rightarrow> Some (hd L) | RemoveItem \<Rightarrow> find_list Less (the item) L)"

definition removed :: "nat \<Rightarrow> nat \<Rightarrow> nat \<Rightarrow> 'a option \<Rightarrow> toRemove \<Rightarrow> 'a node \<Rightarrow> 'a node \<Rightarrow> 'a option \<Rightarrow> bool" where
  "removed mn mx h item typ n n' out \<longleftrightarrow> wf_node mn mx h n' \<and> length (items n) \<le> Suc (length (items n'))
     \<and> inorder n' = removed_list item typ (inorder n) \<and> out = removed_item item typ (inorder n)"

definition remove_ok :: "nat \<Rightarrow> nat \<Rightarrow> nat \<Rightarrow> 'a option \<Rightarrow> toRemove \<Rightarrow> bool" where
  "remove_ok mn mx h item typ \<longleftrightarrow>
     (\<forall>n. wf_node mn mx h n \<and> sorted_wrt Less (inorder n) \<and> items n \<noteq> [] \<longrightarrow>
       (\<exists>n' out. node_remove Less mn item typ n = Some (n', out) \<and> removed mn mx h item typ n n' out))"

text \<open>The position, split by whether the item itself sits in the node.\<close>

lemma remove_pos_cases:
  assumes "sorted_wrt Less (xs1 @ xs2)" "target Less item typ xs1 xs2"
  obtains (miss) "remove_pos Less item typ (xs1 @ xs2) = Some (length xs1, False)"
      "typ = RemoveItem \<Longrightarrow> (\<forall>y\<in>set xs1. Less y (the item)) \<and> (\<forall>y\<in>set xs2. Less (the item) y)"
    | (hit) x y ys where "typ = RemoveItem" "item = Some x" "xs2 = y # ys" "\<not> Less y x" "\<not> Less x y"
      "remove_pos Less item typ (xs1 @ xs2) = Some (length xs1, True)"
proof (cases "typ")
  case RemoveItem
  with assms obtain x where x: "item = Some x" "\<forall>y\<in>set xs1. Less y x" "\<forall>y\<in>set xs2. \<not> Less y x"
    by (auto simp: target_def)
  show ?thesis
  proof (cases "\<forall>y\<in>set xs2. Less x y")
    case True
    with x RemoveItem show ?thesis using items_find_miss[of xs1 x xs2] by (intro miss) (auto simp: remove_pos_def)
  next
    case False
    then obtain y ys where xs2: "xs2 = y # ys" by (cases xs2) auto
    have ys: "\<forall>z\<in>set ys. Less y z" using assms(1) by (simp add: xs2 sorted_wrt_append)
    have "\<not> Less x y" using False ys trans by (auto simp: xs2)
    then show ?thesis
      using hit[OF RemoveItem x(1) xs2] x xs2 ys RemoveItem items_find_hit[of xs1 x y ys]
      by (auto simp: remove_pos_def)
  qed
qed (use assms in \<open>auto simp: target_def remove_pos_def intro: miss\<close>)

lemma removed_list_cut:
  assumes "typ = RemoveMax \<Longrightarrow> B = []" "typ = RemoveMin \<Longrightarrow> A = []" "C \<noteq> []"
    and "typ = RemoveItem \<Longrightarrow> (\<forall>y\<in>set A. Less y (the item)) \<and> (\<forall>y\<in>set B. Less (the item) y)"
  shows "removed_list item typ (A @ C @ B) = A @ removed_list item typ C @ B"
    "removed_item item typ (A @ C @ B) = removed_item item typ C"
  using assms del_list_cut[of A "the item" B C] find_list_cut[of A "the item" B C]
  by (cases "typ"; simp add: removed_list_def removed_item_def butlast_append)+

lemma length_removed_list:
  assumes "sorted_wrt Less C" "C \<noteq> []"
  shows "int (length (removed_list item typ C))
    = int (length C) - (if removed_item item typ C = None then 0 else 1)"
  using assms length_del_list[OF assms(1), of "the item"]
  by (cases "typ"; cases C) (auto simp: removed_list_def removed_item_def del_list_def find_list_def)

lemma sorted_removed_list:
  assumes "sorted_wrt Less L"
  shows "sorted_wrt Less (removed_list item typ L)"
proof -
  have "sorted_wrt Less (tl L)" using assms by (cases L) auto
  moreover have "sorted_wrt Less (butlast L)" using assms by (cases L rule: rev_cases) (auto simp: sorted_wrt_append)
  ultimately show ?thesis using sorted_del_list[OF assms] by (cases "typ") (auto simp: removed_list_def)
qed

lemma cut_at_replace:
  assumes "cut_at n xs1 xs2 cs1 c cs2" "wf_node mn mx (Suc h) n" "wf_node mn mx h c'"
    "mn \<le> length (items c')" "length ys = length xs2"
    "ix = ranks 0 (map node_size (cs1 @ c' # cs2))"
  shows "wf_node mn mx (Suc h) (Node (xs1 @ ys) (cs1 @ c' # cs2) ix)"
  using assms by (auto simp: cut_at_def)

text \<open>Removal at a position whose child can spare an item.\<close>

lemma remove_spare_miss:
  assumes cut: "cut_at n xs1 xs2 cs1 c cs2" and wf: "wf_node mn mx (Suc h) n"
    and sorted: "sorted_wrt Less (inorder n)" and tgt: "target Less item typ xs1 xs2"
    and c: "mn < length (items c)" and IH: "remove_ok mn mx h item typ"
    and pos: "remove_pos Less item typ (items n) = Some (length xs1, False)"
    and strict: "typ = RemoveItem \<Longrightarrow> (\<forall>y\<in>set xs1. Less y (the item)) \<and> (\<forall>y\<in>set xs2. Less (the item) y)"
  shows "\<exists>n' out. node_remove Less mn item typ n = Some (n', out) \<and> removed mn mx (Suc h) item typ n n' out
    \<and> length (items n') = length (items n)"
proof -
  have lens: "length xs1 = length cs1" "length xs2 = length cs2" using cut by (auto simp: cut_at_def)
  note split = cut_at_inorder[OF cut]
  have wc: "wf_node mn mx h c" using cut_at_children(1)[OF cut wf] by simp
  have parts: "sorted_wrt Less (belows xs1 cs1)" "sorted_wrt Less (inorder c)" "sorted_wrt Less (aboves xs2 cs2)"
    using sorted by (simp_all add: split sorted_wrt_append)
  have "items c \<noteq> []" using c by auto
  then have nonempty: "items c \<noteq> []" "inorder c \<noteq> []" using inorder_nonempty[OF wc] by blast+
  obtain c' out where c': "node_remove Less mn item typ c = Some (c', out)" "removed mn mx h item typ c c' out"
    using IH wc parts(2) nonempty(1) by (auto simp: remove_ok_def)
  have sides: "typ = RemoveItem \<Longrightarrow> (\<forall>y\<in>set (belows xs1 cs1). Less y (the item))
      \<and> (\<forall>y\<in>set (aboves xs2 cs2). Less (the item) y)"
    using strict belows_less[OF lens(1) parts(1)] aboves_greater[OF lens(2) parts(3)] by blast
  define n' where "n' = Node (xs1 @ xs2) (cs1 @ c' # cs2)
    (if out \<noteq> None then indices_addAt (indices n) (length cs1) (-1) else indices n)"
  have ix: "indices n' = ranks 0 (map node_size (cs1 @ c' # cs2))"
    using addAt_ranks[of 0 "map node_size cs1" "node_size c" "map node_size cs2" "-1"] c'(2)
      length_removed_list[OF parts(2) nonempty(2), of item "typ"] cut
    by (auto simp: n'_def removed_def cut_at_def)
  have "node_remove Less mn item typ n = Some (n', out)"
    using c c'(1) cut pos
    by (subst node_remove.simps) (auto simp: n'_def cut_at_def at_def nth_append list_update_append)
  moreover have "wf_node mn mx (Suc h) n'"
    using cut_at_replace[OF cut wf _ _ refl ix] c'(2) c by (simp add: removed_def n'_def)
  moreover have "inorder n' = belows xs1 cs1 @ inorder c' @ aboves xs2 cs2"
    unfolding n'_def by (rule inorder_split[OF lens(1)])
  moreover have "removed_list item typ (inorder n) = belows xs1 cs1 @ removed_list item typ (inorder c) @ aboves xs2 cs2"
    "removed_item item typ (inorder n) = removed_item item typ (inorder c)"
    unfolding split using sides nonempty(2) tgt by (intro removed_list_cut; auto simp: target_def)+
  ultimately show ?thesis
    using c'(2) cut_at_items[OF cut] by (auto simp: removed_def n'_def)
qed

lemma remove_spare_hit:
  assumes cut: "cut_at n xs1 (y # ys) cs1 c cs2" and wf: "wf_node mn mx (Suc h) n"
    and sorted: "sorted_wrt Less (inorder n)"
    and c: "mn < length (items c)" and IH: "remove_ok mn mx h None RemoveMax"
    and x: "\<not> Less y x" "\<not> Less x y"
    and pos: "remove_pos Less (Some x) RemoveItem (items n) = Some (length xs1, True)"
  shows "\<exists>n' out. node_remove Less mn (Some x) RemoveItem n = Some (n', out)
    \<and> removed mn mx (Suc h) (Some x) RemoveItem n n' out
    \<and> length (items n') = length (items n)"
proof -
  have lens: "length xs1 = length cs1" using cut by (auto simp: cut_at_def)
  obtain d ds where cs2: "cs2 = d # ds" using cut by (cases cs2) (auto simp: cut_at_def)
  note split = cut_at_inorder[OF cut]
  have wc: "wf_node mn mx h c" using cut_at_children(1)[OF cut wf] by simp
  have sc: "sorted_wrt Less (inorder c)" using sorted by (simp add: split sorted_wrt_append)
  have "items c \<noteq> []" using c by auto
  then have nonempty: "items c \<noteq> []" "inorder c \<noteq> []" using inorder_nonempty[OF wc] by blast+
  obtain c' out where c': "node_remove Less mn None RemoveMax c = Some (c', out)"
    "removed mn mx h None RemoveMax c c' out"
    using IH wc sc nonempty(1) by (auto simp: remove_ok_def)
  then have out: "out = Some (last (inorder c))" and in_c': "inorder c' = butlast (inorder c)"
    by (simp_all add: removed_def removed_list_def removed_item_def)
  define n' where "n' = Node (xs1 @ last (inorder c) # ys) (cs1 @ c' # cs2)
    (indices_addAt (indices n) (length cs1) (-1))"
  have ix: "indices n' = ranks 0 (map node_size (cs1 @ c' # cs2))"
    using addAt_ranks[of 0 "map node_size cs1" "node_size c" "map node_size cs2" "-1"] cut nonempty(2)
    by (cases "inorder c") (simp_all add: n'_def cut_at_def in_c')
  have "node_remove Less mn (Some x) RemoveItem n = Some (n', Some y)"
    using c c'(1) cut pos out
    by (subst node_remove.simps) (auto simp: n'_def cut_at_def at_def nth_append list_update_append)
  moreover have "wf_node mn mx (Suc h) n'"
    using cut_at_replace[OF cut wf, of c' "last (inorder c) # ys" "indices n'"] ix c'(2) c
    by (simp add: removed_def n'_def)
  moreover have n': "inorder n' = (belows xs1 cs1 @ inorder c) @ (inorder d @ aboves ys ds)"
  proof -
    obtain bl l where "inorder c = bl @ [l]" using nonempty(2) by (metis rev_exhaust)
    then show ?thesis unfolding n'_def inorder_split[OF lens] by (simp add: in_c' cs2)
  qed
  moreover have n: "inorder n = (belows xs1 cs1 @ inorder c) @ y # (inorder d @ aboves ys ds)"
    by (simp add: split cs2)
  ultimately show ?thesis
    using at_pivot[OF sorted[unfolded n] x] cut_at_items[OF cut]
    by (simp add: removed_def removed_list_def removed_item_def n n') (simp add: n'_def)
qed

lemma remove_spare:
  assumes cut: "cut_at n xs1 xs2 cs1 c cs2" and wf: "wf_node mn mx (Suc h) n"
    and sorted: "sorted_wrt Less (inorder n)" and tgt: "target Less item typ xs1 xs2"
    and c: "mn < length (items c)" and IH: "remove_ok mn mx h item typ" "remove_ok mn mx h None RemoveMax"
  shows "\<exists>n' out. node_remove Less mn item typ n = Some (n', out) \<and> removed mn mx (Suc h) item typ n n' out
    \<and> length (items n') = length (items n)"
proof -
  have items: "items n = xs1 @ xs2" using cut_at_items[OF cut] by simp
  have "sorted_wrt Less (xs1 @ xs2)" using sorted_items[OF wf sorted] by (simp add: items)
  from this tgt show ?thesis
  proof (cases rule: remove_pos_cases)
    case miss
    then show ?thesis by (intro remove_spare_miss[OF cut wf sorted tgt c IH(1)]) (simp_all add: items)
  next
    case (hit x y ys)
    then show ?thesis using remove_spare_hit[of n xs1 y ys cs1 c cs2] cut wf sorted c IH(2) by (simp add: items)
  qed
qed

lemma target_exists:
  assumes "sorted_wrt Less xs" "typ = RemoveItem \<longrightarrow> item \<noteq> None"
  obtains xs1 xs2 where "xs = xs1 @ xs2" "target Less item typ xs1 xs2"
proof (cases "typ")
  case RemoveItem
  with assms(2) obtain x where x: "item = Some x" by auto
  from sorted_cut[OF assms(1), of x] show ?thesis
  proof (elim disjE exE conjE)
    fix xs1 xs2
    assume "xs = xs1 @ xs2" "\<forall>y\<in>set xs1. Less y x" "\<forall>y\<in>set xs2. Less x y"
    with that[of xs1 xs2] x RemoveItem asym show ?thesis by (auto simp: target_def)
  next
    fix xs1 y xs2
    assume "xs = xs1 @ y # xs2" "\<forall>z\<in>set xs1. Less z x" "\<not> Less y x" "\<not> Less x y"
    with that[of xs1 "y # xs2"] x RemoveItem assms(1) trans[of y _ x] show ?thesis
      by (auto simp: target_def sorted_wrt_append)
  qed
qed (use that[of "[]" xs] that[of xs "[]"] in \<open>auto simp: target_def\<close>)

lemma remove_ok_leaf: "typ = RemoveItem \<longrightarrow> item \<noteq> None \<Longrightarrow> remove_ok mn mx 0 item typ"
  unfolding remove_ok_def
proof (intro allI impI, elim conjE)
  fix n assume item: "typ = RemoveItem \<longrightarrow> item \<noteq> None"
    and n: "wf_node mn mx 0 n" "sorted_wrt Less (inorder n)" "items n \<noteq> []"
  then obtain xs where xs: "n = Node xs [] []" "sorted_wrt Less xs" by (cases n) auto
  obtain xs1 xs2 where t: "xs = xs1 @ xs2" "target Less item typ xs1 xs2"
    using target_exists[OF xs(2) item] .
  from xs(2)[unfolded t(1)] t(2)
  show "\<exists>n' out. node_remove Less mn item typ n = Some (n', out) \<and> removed mn mx 0 item typ n n' out"
  proof (cases rule: remove_pos_cases)
    case miss
    then show ?thesis
      using n t item no_pivot[of xs1 "the item" xs2]
      by (subst node_remove.simps, cases "typ")
        (auto simp: xs remove_leaf_def pop_def removeAt_def at_def removed_def removed_list_def
          removed_item_def hd_conv_nth drop_Suc target_def)
  next
    case (hit x y ys)
    then show ?thesis
      using n t at_pivot[of xs1 y ys x] xs(2)
      by (subst node_remove.simps)
        (auto simp: xs(1) remove_leaf_def removeAt_def at_def nth_append removed_def removed_list_def removed_item_def)
  qed
qed

lemma remove_ok_step:
  assumes item: "typ = RemoveItem \<longrightarrow> item \<noteq> None" and mx: "mx = 2 * mn + 1" "1 \<le> mn"
    and IH: "remove_ok mn mx h item typ" "remove_ok mn mx h None RemoveMax"
  shows "remove_ok mn mx (Suc h) item typ"
  unfolding remove_ok_def
proof (intro allI impI, elim conjE)
  fix n assume n: "wf_node mn mx (Suc h) n" "sorted_wrt Less (inorder n)" "items n \<noteq> []"
  obtain ys1 ys2 where t: "items n = ys1 @ ys2" "target Less item typ ys1 ys2"
    using target_exists[OF sorted_items[OF n(1,2)] item] .
  then have "length ys1 \<le> length (items n)" by simp
  from wf_node_cut[OF n(1) this] obtain xs1 xs2 cs1 c cs2 where
    x: "n = Node (xs1 @ xs2) (cs1 @ c # cs2) (ranks 0 (map node_size (cs1 @ c # cs2)))"
    "length xs1 = length ys1" "length cs1 = length ys1" "length cs2 = length xs2" by blast
  with t(1) have "xs1 = ys1" "xs2 = ys2" by auto
  with x have cut: "cut_at n ys1 ys2 cs1 c cs2" unfolding cut_at_def by simp
  show "\<exists>n' out. node_remove Less mn item typ n = Some (n', out) \<and> removed mn mx (Suc h) item typ n n' out"
  proof (cases "mn < length (items c)")
    case True
    then show ?thesis using remove_spare[OF cut n(1,2) t(2) _ IH] by blast
  next
    case False
    obtain n1 where n1: "growChild n (length ys1) mn = Some n1" "grown mn mx h item typ n n1"
      using growChild_ok[OF cut n(1,2) t(2) _ n(3) mx] False by auto
    have sorted: "sorted_wrt Less (ys1 @ ys2)" using sorted_items[OF n(1,2)] t(1) by simp
    obtain f where pos: "remove_pos Less item typ (items n) = Some (length ys1, f)"
      using sorted t(2) by (cases rule: remove_pos_cases) (auto simp: t(1))
    have "node_remove Less mn item typ n = node_remove Less mn item typ n1"
      using cut_at_items[OF cut] False n1(1) pos cut
      by (subst node_remove.simps) (auto simp: at_def nth_append cut_at_def)
    moreover from n1(2) obtain zs1 zs2 ds1 d ds2 where "wf_node mn mx (Suc h) n1" "inorder n1 = inorder n"
      "cut_at n1 zs1 zs2 ds1 d ds2" "target Less item typ zs1 zs2" "mn < length (items d)"
      unfolding grown_def by blast
    then obtain n' out where "node_remove Less mn item typ n1 = Some (n', out)"
      "removed mn mx (Suc h) item typ n1 n' out" "length (items n') = length (items n1)"
      using remove_spare[OF _ _ _ _ _ IH, of n1 zs1 zs2 ds1 d ds2] n(2) by auto
    ultimately show ?thesis using n1(2) by (auto simp: removed_def grown_def)
  qed
qed

lemma node_remove_ok:
  assumes "mx = 2 * mn + 1" "1 \<le> mn" "typ = RemoveItem \<longrightarrow> item \<noteq> None"
  shows "remove_ok mn mx h item typ"
proof -
  have max: "remove_ok mn mx h None RemoveMax" for h
  proof (induction h)
    case 0
    show ?case by (rule remove_ok_leaf) simp
  next
    case (Suc h)
    show ?case by (rule remove_ok_step[OF _ assms(1,2) Suc Suc]) simp
  qed
  show ?thesis
  proof (induction h)
    case 0
    show ?case by (rule remove_ok_leaf[OF assms(3)])
  next
    case (Suc h)
    show ?case by (rule remove_ok_step[OF assms(3,1,2) Suc max])
  qed
qed

text \<open>An emptied inner root gives way to its only child.\<close>

lemma shrunk_root:
  assumes wf: "wf_node mn mx h r" and mn: "1 \<le> mn"
  defines "r' \<equiv> (if items r = [] \<and> children r \<noteq> [] then hd (children r) else r)"
  shows "inorder r' = inorder r \<and> (\<exists>h'. wf_node mn mx h' r') \<and> (children r' \<noteq> [] \<longrightarrow> items r' \<noteq> [])"
proof (cases "items r = [] \<and> children r \<noteq> []")
  case True
  then obtain h0 where h: "h = Suc h0" using wf_node_children[OF wf] by (cases h) auto
  with wf obtain xs cs where r: "r = Node xs cs (ranks 0 (map node_size cs))" "length cs = Suc (length xs)"
    and kids: "\<And>c. c \<in> set cs \<Longrightarrow> wf_node mn mx h0 c \<and> mn \<le> length (items c)"
    by (auto elim: wf_node_SucE)
  with True obtain c where cs: "cs = [c]" by (cases cs) auto
  have "items c \<noteq> []" using kids[of c] mn by (auto simp: cs)
  then show ?thesis using True r cs kids by (auto simp: r'_def)
next
  case False
  then show ?thesis using wf by (auto simp: r'_def)
qed

lemma deleteItem_ok:
  assumes wf: "wf_tree Less t" and item: "typ = RemoveItem \<longrightarrow> item \<noteq> None" and nonempty: "tree_items t \<noteq> []"
  shows "\<exists>t' out. deleteItem Less t item typ = Some (t', out) \<and> wf_tree Less t' \<and> degree t' = degree t
    \<and> tree_items t' = removed_list item typ (tree_items t) \<and> out = removed_item item typ (tree_items t)"
proof -
  define mn mx where "mn = degree t - 1" and "mx = degree t * 2 - 1"
  have mm: "mx = 2 * mn + 1" "1 \<le> mn" and mn: "minItems t = mn"
    using wf by (auto simp: wf_tree_def mn_def mx_def minItems_def)
  obtain r h where root: "root t = Some r" and r: "wf_node mn mx h r" "children r \<noteq> [] \<longrightarrow> items r \<noteq> []"
    and len: "len t = int (length (inorder r))" and sorted: "sorted_wrt Less (inorder r)"
    and ne: "inorder r \<noteq> []"
    using wf nonempty by (auto simp: wf_tree_def tree_items_def mn_def mx_def split: option.splits)
  have items: "items r \<noteq> []" using r ne by (cases r; cases h) auto
  obtain r1 out where r1: "node_remove Less mn item typ r = Some (r1, out)" "removed mn mx h item typ r r1 out"
    using node_remove_ok[OF mm item, of h] r(1) sorted items unfolding remove_ok_def by blast
  define r2 where "r2 = (if items r1 = [] \<and> children r1 \<noteq> [] then hd (children r1) else r1)"
  have wf1: "wf_node mn mx h r1" using r1(2) by (simp add: removed_def)
  note r2 = shrunk_root[OF wf1 mm(2), folded r2_def]
  have eq: "deleteItem Less t item typ
      = Some (t\<lparr> root := Some r2, len := (if out \<noteq> None then len t - 1 else len t) \<rparr>, out)"
    unfolding deleteItem_def root option.case mn by (simp add: items r1(1) r2_def)
  have "sorted_wrt Less (removed_list item typ (inorder r))" by (rule sorted_removed_list[OF sorted])
  moreover have "int (length (removed_list item typ (inorder r))) = len t - (if out = None then 0 else 1)"
    using length_removed_list[OF sorted ne, of item "typ"] r1(2) len by (simp add: removed_def)
  moreover have "inorder r2 = removed_list item typ (inorder r)" "out = removed_item item typ (inorder r)"
    using r1(2) r2 by (simp_all add: removed_def)
  moreover have "2 \<le> degree t" using wf by (simp add: wf_tree_def)
  ultimately show ?thesis
    using r2 unfolding eq mn_def mx_def by (auto simp: wf_tree_def tree_items_def root)
qed

lemma deleteItem_empty:
  assumes "wf_tree Less t" "tree_items t = []"
  shows "deleteItem Less t item typ = Some (t, None)"
proof (cases "root t")
  case (Some r)
  with assms obtain h where "wf_node (degree t - 1) (degree t * 2 - 1) h r" "inorder r = []"
    by (auto simp: wf_tree_def tree_items_def)
  then have "items r = []" using inorder_nonempty by blast
  with Some show ?thesis by (simp add: deleteItem_def)
qed (simp add: deleteItem_def)

lemma Delete_ok:
  assumes "wf_tree Less t"
  shows "\<exists>t' out. Delete Less t (Some x) = Some (t', out) \<and> wf_tree Less t' \<and> degree t' = degree t
    \<and> tree_items t' = del_list Less x (tree_items t) \<and> out = find_list Less x (tree_items t)"
proof (cases "tree_items t = []")
  case True
  then show ?thesis
    using deleteItem_empty[OF assms True] assms by (simp add: Delete_def del_list_def find_list_def)
next
  case False
  then show ?thesis
    using deleteItem_ok[OF assms, of RemoveItem "Some x"]
    by (simp add: Delete_def removed_list_def removed_item_def)
qed

end

end
