(* ===== verification/BTree_Read.thy ===== *)
theory BTree_Read
  imports BTree_Inv
begin

text \<open>
  The read operations of the B-tree against its item sequence: \<open>get\<close> finds the item equal to a
  key, \<open>getWithIndex\<close> also counts the items below it, \<open>getAt\<close> is indexing, \<open>min\<close> and \<open>max\<close> are the
  ends of the sequence.
\<close>

section \<open>Look-ups\<close>

context item_order
begin

text \<open>An inner node cut at a key, with everything on the two sides of the child compared to it.\<close>

lemma node_cut_miss:
  assumes wf: "wf_node mn mx (Suc h) n" and sorted: "sorted_wrt Less (inorder n)"
    and c: "items n = ys1 @ ys2" "\<forall>y\<in>set ys1. Less y x" "\<forall>y\<in>set ys2. Less x y"
  obtains cs1 c cs2 where
    "n = Node (ys1 @ ys2) (cs1 @ c # cs2) (ranks 0 (map node_size (cs1 @ c # cs2)))"
    "length cs1 = length ys1" "length cs2 = length ys2" "wf_node mn mx h c" "sorted_wrt Less (inorder c)"
    "inorder n = belows ys1 cs1 @ inorder c @ aboves ys2 cs2"
    "\<forall>y\<in>set (belows ys1 cs1). Less y x" "\<forall>y\<in>set (aboves ys2 cs2). Less x y"
proof -
  have "length ys1 \<le> length (items n)" using c(1) by simp
  from wf_node_cut[OF wf this] obtain xs1 xs2 cs1 k cs2 where
    cut: "n = Node (xs1 @ xs2) (cs1 @ k # cs2) (ranks 0 (map node_size (cs1 @ k # cs2)))"
    "length xs1 = length ys1" "length cs1 = length ys1" "length cs2 = length xs2" by blast
  with c(1) have xs: "xs1 = ys1" "xs2 = ys2" by auto
  have split: "inorder n = belows ys1 cs1 @ inorder k @ aboves ys2 cs2"
    using inorder_split[of ys1 cs1 ys2 k cs2] cut xs by simp
  then have "sorted_wrt Less (belows ys1 cs1)" "sorted_wrt Less (inorder k)" "sorted_wrt Less (aboves ys2 cs2)"
    using sorted by (simp_all add: sorted_wrt_append)
  moreover have "\<forall>y\<in>set (belows ys1 cs1). Less y x" "\<forall>y\<in>set (aboves ys2 cs2). Less x y"
    using belows_less[of ys1 cs1 x] aboves_greater[of ys2 cs2 x] cut xs c(2,3) calculation by simp_all
  ultimately show ?thesis using split cut xs wf by (intro that[of cs1 k cs2]) auto
qed

lemma node_cut_hit:
  assumes wf: "wf_node mn mx (Suc h) n" and "items n = ys1 @ y # ys2"
  obtains cs1 c d cs2 where
    "n = Node (ys1 @ y # ys2) (cs1 @ c # d # cs2) (ranks 0 (map node_size (cs1 @ c # d # cs2)))"
    "length cs1 = length ys1" "length cs2 = length ys2" "wf_node mn mx h d"
    "inorder n = (belows ys1 cs1 @ inorder c) @ y # (inorder d @ aboves ys2 cs2)"
    "indices n ! length ys1 = int (length (belows ys1 cs1 @ inorder c))"
proof -
  have "length ys1 \<le> length (items n)" using assms(2) by simp
  from wf_node_cut[OF wf this] obtain xs1 xs2 cs1 k ds where
    cut: "n = Node (xs1 @ xs2) (cs1 @ k # ds) (ranks 0 (map node_size (cs1 @ k # ds)))"
    "length xs1 = length ys1" "length cs1 = length ys1" "length ds = length xs2" by blast
  with assms(2) have xs: "xs1 = ys1" "xs2 = y # ys2" by auto
  with cut(4) obtain d cs2 where ds: "ds = d # cs2" "length cs2 = length ys2" by (cases ds) auto
  have "indices n ! length ys1 = int (length (belows ys1 cs1 @ inorder k))"
    using cut(3) sum_belows[of ys1 cs1] nth_ranks[of 0 "map node_size cs1" "node_size k"]
    by (simp add: cut(1))
  then show ?thesis
    using cut xs ds wf inorder_split[of ys1 cs1 "y # ys2" k ds]
    by (intro that[of cs1 k d cs2]) auto
qed

lemma node_get_ok:
  assumes "wf_node mn mx h n" "sorted_wrt Less (inorder n)"
  shows "node_get Less x n = Some (find_list Less x (inorder n))"
  using assms
proof (induction h arbitrary: n)
  case 0
  then obtain xs where n: "n = Node xs [] []" "sorted_wrt Less xs" by (cases n) auto
  from sorted_cut[OF n(2), of x] n(2) show ?case by (auto simp: n(1) no_pivot at_pivot)
next
  case (Suc h)
  from sorted_cut[OF sorted_items[OF Suc.prems], of x] show ?case
  proof (elim disjE exE conjE)
    fix ys1 ys2 assume c: "items n = ys1 @ ys2" "\<forall>y\<in>set ys1. Less y x" "\<forall>y\<in>set ys2. Less x y"
      "items_find Less (items n) x = (length ys1, False)"
    from node_cut_miss[OF Suc.prems c(1-3)] obtain cs1 k cs2 where
      k: "n = Node (ys1 @ ys2) (cs1 @ k # cs2) (ranks 0 (map node_size (cs1 @ k # cs2)))"
      "length cs1 = length ys1" "wf_node mn mx h k" "sorted_wrt Less (inorder k)"
      "inorder n = belows ys1 cs1 @ inorder k @ aboves ys2 cs2"
      "\<forall>y\<in>set (belows ys1 cs1). Less y x" "\<forall>y\<in>set (aboves ys2 cs2). Less x y" by blast
    show ?thesis
      using c(4) Suc.IH[OF k(3,4)] k(2) find_list_cut[OF k(6,7)] unfolding k(5)
      by (simp add: k(1) nth_append)
  next
    fix ys1 y ys2 assume c: "items n = ys1 @ y # ys2" "\<not> Less y x" "\<not> Less x y"
      "items_find Less (items n) x = (length ys1, True)"
    from node_cut_hit[OF Suc.prems(1) c(1)] obtain A B where "inorder n = A @ y # B" by blast
    with at_pivot(3)[of A y B x] Suc.prems(2) c show ?thesis by (cases n) simp
  qed
qed

text \<open>The rank of a key.\<close>

definition rank :: "'a \<Rightarrow> 'a list \<Rightarrow> int" where
  "rank x L = int (length (filter (\<lambda>y. Less y x) L))"

lemma rank_cut:
  assumes "\<forall>y\<in>set A. Less y x" "\<forall>y\<in>set B. Less x y"
  shows "rank x (A @ C @ B) = int (length A) + rank x C"
  using assms by (simp add: rank_def filter_all_less filter_all_greater)

lemma rank_pivot:
  assumes "sorted_wrt Less (A @ y # B)" "\<not> Less y x" "\<not> Less x y"
  shows "rank x (A @ y # B) = int (length A)"
  using rank_cut[OF pivot_sides[OF assms], of "[y]"] assms(2) by (simp add: rank_def)

lemma node_getWithIndex_ok:
  assumes "wf_node mn mx h n" "sorted_wrt Less (inorder n)"
  shows "node_getWithIndex Less x n = Some (find_list Less x (inorder n), rank x (inorder n))"
  using assms
proof (induction h arbitrary: n)
  case 0
  then obtain xs where n: "n = Node xs [] []" "sorted_wrt Less xs" by (cases n) auto
  from sorted_cut[OF n(2), of x] n(2) show ?case
    using rank_cut[of _ x _ "[]"]
    by (auto simp: n(1) no_pivot at_pivot rank_pivot) (simp add: rank_def)
next
  case (Suc h)
  from sorted_cut[OF sorted_items[OF Suc.prems], of x] show ?case
  proof (elim disjE exE conjE)
    fix ys1 ys2 assume c: "items n = ys1 @ ys2" "\<forall>y\<in>set ys1. Less y x" "\<forall>y\<in>set ys2. Less x y"
      "items_find Less (items n) x = (length ys1, False)"
    obtain cs1 k cs2 where
      k: "n = Node (ys1 @ ys2) (cs1 @ k # cs2) (ranks 0 (map node_size (cs1 @ k # cs2)))"
      "length cs1 = length ys1" "wf_node mn mx h k" "sorted_wrt Less (inorder k)"
      "inorder n = belows ys1 cs1 @ inorder k @ aboves ys2 cs2"
      "\<forall>y\<in>set (belows ys1 cs1). Less y x" "\<forall>y\<in>set (aboves ys2 cs2). Less x y"
      using node_cut_miss[OF Suc.prems c(1-3)] by blast
    have "ys1 \<noteq> [] \<Longrightarrow> ranks 0 (map node_size (cs1 @ k # cs2)) ! (length ys1 - 1) + 1 = int (length (belows ys1 cs1))"
      using k(2) sum_belows[of ys1 cs1] last_ranks[of "map node_size cs1" 0]
      by (cases "cs1 = []") (auto simp: ranks_append nth_append last_conv_nth)
    then show ?thesis
      using c(4) Suc.IH[OF k(3,4)] k(2) find_list_cut[OF k(6,7)] rank_cut[OF k(6,7)]
      unfolding k(5) by (cases "ys1 = []") (auto simp: k(1) nth_append)
  next
    fix ys1 y ys2 assume c: "items n = ys1 @ y # ys2" "\<not> Less y x" "\<not> Less x y"
      "items_find Less (items n) x = (length ys1, True)"
    obtain cs1 k d cs2 where
      n: "n = Node (ys1 @ y # ys2) (cs1 @ k # d # cs2) (ranks 0 (map node_size (cs1 @ k # d # cs2)))"
      "length cs1 = length ys1" "length cs2 = length ys2" "wf_node mn mx h d"
      "inorder n = (belows ys1 cs1 @ inorder k) @ y # (inorder d @ aboves ys2 cs2)"
      "indices n ! length ys1 = int (length (belows ys1 cs1 @ inorder k))"
      by (rule node_cut_hit[OF Suc.prems(1) c(1)])
    have "length (indices n) = Suc (Suc (length ys1 + length cs2))" using n(2) by (simp add: n(1))
    with n(6) have "indices n \<noteq> []"
      "at (indices n) (length ys1) = Some (int (length (belows ys1 cs1 @ inorder k)))"
      by (auto simp: at_def)
    with c have "node_getWithIndex Less x n = Some (Some y, int (length (belows ys1 cs1 @ inorder k)))"
      by (cases n) simp
    then show ?thesis
      using at_pivot(3)[OF Suc.prems(2)[unfolded n(5)] c(2,3)] rank_pivot[OF Suc.prems(2)[unfolded n(5)] c(2,3)]
      unfolding n(5) by simp
  qed
qed

end

text \<open>The item of a given rank.\<close>

lemma locate_rank:
  assumes "cs \<noteq> []" "0 \<le> k" "k < sum_list (map node_size cs) + int (length cs) - 1"
  obtains cs1 c cs2 where "cs = cs1 @ c # cs2"
    "sum_list (map node_size cs1) + int (length cs1) \<le> k"
    "k \<le> sum_list (map node_size cs1) + int (length cs1) + node_size c"
    "k = sum_list (map node_size cs1) + int (length cs1) + node_size c \<Longrightarrow> cs2 \<noteq> []"
  using assms
proof (induction cs arbitrary: k thesis)
  case (Cons c cs)
  show ?case
  proof (cases "k \<le> node_size c")
    case True
    then show ?thesis using Cons.prems(1)[of "[]" c cs] Cons.prems(3,4) by (cases cs) auto
  next
    case False
    then have "cs \<noteq> []" using Cons.prems(4) by auto
    moreover have "0 \<le> k - node_size c - 1" "k - node_size c - 1 < sum_list (map node_size cs) + int (length cs) - 1"
      using False Cons.prems(4) by auto
    ultimately obtain cs1 d cs2 where "cs = cs1 @ d # cs2"
      "sum_list (map node_size cs1) + int (length cs1) \<le> k - node_size c - 1"
      "k - node_size c - 1 \<le> sum_list (map node_size cs1) + int (length cs1) + node_size d"
      "k - node_size c - 1 = sum_list (map node_size cs1) + int (length cs1) + node_size d \<Longrightarrow> cs2 \<noteq> []"
      using Cons.IH by blast
    then show ?thesis using Cons.prems(1)[of "c # cs1" d cs2] by auto
  qed
qed simp

lemma node_cut_rank:
  assumes wf: "wf_node mn mx (Suc h) n" and k: "0 \<le> k" "k < node_size n"
  obtains xs1 xs2 cs1 c cs2 K where
    "n = Node (xs1 @ xs2) (cs1 @ c # cs2) (ranks 0 (map node_size (cs1 @ c # cs2)))"
    "length xs1 = length cs1" "length xs2 = length cs2" "wf_node mn mx h c"
    "K = int (length (belows xs1 cs1))" "K \<le> k" "k \<le> K + node_size c" "k = K + node_size c \<longrightarrow> cs2 \<noteq> []"
    "cs1 \<noteq> [] \<longrightarrow> indices n ! (length cs1 - 1) = K - 1"
    "indices_find (indices n) k = Some (length cs1, k = K + node_size c)"
    "inorder n = belows xs1 cs1 @ inorder c @ aboves xs2 cs2"
proof -
  from wf obtain xs cs where n: "n = Node xs cs (ranks 0 (map node_size cs))"
    "length cs = Suc (length xs)" and kids: "\<And>c. c \<in> set cs \<Longrightarrow> wf_node mn mx h c"
    by (auto elim: wf_node_SucE)
  have "cs \<noteq> []" using n(2) by auto
  moreover have "k < sum_list (map node_size cs) + int (length cs) - 1"
    using k(2) node_length_size[OF wf] last_ranks[of "map node_size cs" 0] calculation
    by (simp add: n(1) node_length_def)
  ultimately obtain cs1 c cs2 where cut: "cs = cs1 @ c # cs2"
    "sum_list (map node_size cs1) + int (length cs1) \<le> k"
    "k \<le> sum_list (map node_size cs1) + int (length cs1) + node_size c"
    "k = sum_list (map node_size cs1) + int (length cs1) + node_size c \<Longrightarrow> cs2 \<noteq> []"
    using k(1) locate_rank[of cs k] by blast
  define xs1 xs2 where "xs1 = take (length cs1) xs" and "xs2 = drop (length cs1) xs"
  have xs: "xs = xs1 @ xs2" "length xs1 = length cs1" "length xs2 = length cs2"
    using n(2) cut(1) by (auto simp: xs1_def xs2_def)
  note K = sum_belows[OF xs(2), symmetric]
  have "indices_find (indices n) k = Some (length cs1, k = int (length (belows xs1 cs1)) + node_size c)"
  proof -
    have "\<forall>s\<in>set (map node_size cs1 @ node_size c # map node_size cs2). 0 \<le> s" by auto
    from find_ranks[OF this, of k] cut(2,3) K show ?thesis by (simp add: n(1) cut(1))
  qed
  moreover have "cs1 \<noteq> [] \<longrightarrow> indices n ! (length cs1 - 1) = int (length (belows xs1 cs1)) - 1"
    using K last_ranks[of "map node_size cs1" 0]
    by (cases "cs1 = []") (auto simp: n(1) cut(1) ranks_append nth_append last_conv_nth)
  moreover have "inorder n = belows xs1 cs1 @ inorder c @ aboves xs2 cs2"
    using inorder_split[OF xs(2)] by (simp add: n(1) xs(1) cut(1))
  ultimately show ?thesis
    using n(1) cut K xs kids[of c] by (intro that[of xs1 xs2 cs1 c cs2]) auto
qed

lemma node_getAt_ok:
  assumes "wf_node mn mx h n"
  shows "node_getAt n k = Some (if 0 \<le> k \<and> k < node_size n then Some (inorder n ! nat k) else None)"
  using assms
proof (induction h arbitrary: n k)
  case 0
  then obtain xs where n: "n = Node xs [] []" by (cases n) auto
  show ?case by (auto simp: n node_length_def at_def nat_less_iff)
next
  case (Suc h)
  note len = node_length_size[OF Suc.prems]
  show ?case
  proof (cases "0 \<le> k \<and> k < node_size n")
    case True
    obtain xs1 xs2 cs1 c cs2 K where
      cut: "n = Node (xs1 @ xs2) (cs1 @ c # cs2) (ranks 0 (map node_size (cs1 @ c # cs2)))"
      "length xs1 = length cs1" "length xs2 = length cs2" and c: "wf_node mn mx h c"
      and K: "K = int (length (belows xs1 cs1))" "K \<le> k" "k \<le> K + node_size c" "k = K + node_size c \<longrightarrow> cs2 \<noteq> []"
      and prev: "cs1 \<noteq> [] \<longrightarrow> indices n ! (length cs1 - 1) = K - 1"
      and find: "indices_find (indices n) k = Some (length cs1, k = K + node_size c)"
      and inord: "inorder n = belows xs1 cs1 @ inorder c @ aboves xs2 cs2"
      by (rule node_cut_rank[OF Suc.prems True[THEN conjunct1] True[THEN conjunct2]])
    show ?thesis
    proof (cases "k = K + node_size c")
      case hit: True
      then obtain x xs' d cs' where x: "xs2 = x # xs'" "cs2 = d # cs'"
        using K(4) cut(3) by (cases xs2; cases cs2) auto
      then have "inorder n ! nat k = x" unfolding inord using hit K(1) by (simp add: nth_append nat_add_distrib)
      with True len find hit x cut(2) show ?thesis by (simp add: cut(1) at_def nth_append)
    next
      case miss: False
      have "inorder n ! nat k = inorder c ! nat (k - K)" unfolding inord
        using miss K by (auto simp: nth_append nat_less_iff nat_diff_distrib)
      moreover have "node_getAt c (k - K) = Some (Some (inorder c ! nat (k - K)))"
        using Suc.IH[OF c, of "k - K"] miss K by auto
      ultimately show ?thesis using True len find miss prev K(1) cut(2)
        by (cases "cs1 = []") (simp_all add: cut(1))
    qed
  next
    case False
    then show ?thesis using len by (cases n) auto
  qed
qed

lemma node_min_ok: "wf_node mn mx h n \<Longrightarrow> 1 \<le> mn \<Longrightarrow>
  node_min n = (if inorder n = [] then None else Some (hd (inorder n)))"
proof (induction h arbitrary: n)
  case 0
  then show ?case by (cases n) auto
next
  case (Suc h)
  from Suc.prems obtain xs cs where n: "n = Node xs cs (ranks 0 (map node_size cs))"
    "length cs = Suc (length xs)" and kids: "\<And>c. c \<in> set cs \<Longrightarrow> wf_node mn mx h c \<and> mn \<le> length (items c)"
    by (auto elim: wf_node_SucE)
  then obtain c cs' where cs: "cs = c # cs'" by (cases cs) auto
  have c: "wf_node mn mx h c" "items c \<noteq> []" using kids[of c] Suc.prems(2) by (auto simp: cs)
  then have "inorder c \<noteq> []" using inorder_nonempty by blast
  then show ?case using Suc.IH[OF c(1) Suc.prems(2)] by (simp add: n(1) cs)
qed

lemma node_max_ok: "wf_node mn mx h n \<Longrightarrow> 1 \<le> mn \<Longrightarrow>
  node_max n = (if inorder n = [] then None else Some (last (inorder n)))"
proof (induction h arbitrary: n)
  case 0
  then show ?case by (cases n) auto
next
  case (Suc h)
  from Suc.prems obtain xs cs where n: "n = Node xs cs (ranks 0 (map node_size cs))"
    "length cs = Suc (length xs)" and kids: "\<And>c. c \<in> set cs \<Longrightarrow> wf_node mn mx h c \<and> mn \<le> length (items c)"
    by (auto elim: wf_node_SucE)
  then obtain c cs' where cs: "cs = cs' @ [c]" "length xs = length cs'" by (cases cs rule: rev_cases) auto
  have c: "wf_node mn mx h c" "items c \<noteq> []" using kids[of c] Suc.prems(2) by (auto simp: cs)
  then have "inorder c \<noteq> []" using inorder_nonempty by blast
  then show ?case
    using Suc.IH[OF c(1) Suc.prems(2)] inorder_split[OF cs(2), of "[]" c "[]"] by (simp add: n(1) cs)
qed

end
