(* ===== verification/BTree_Iter.thy ===== *)
theory BTree_Iter
  imports BTree_Inv
begin

text \<open>
  Iteration over the B-tree. \<open>run_iter\<close> is an iterator run over a list until it asks to stop;
  \<open>scan_ascend_ok\<close> and \<open>scan_descend_ok\<close> show that every scan of the tree is the iterator run over
  the items of its range, in increasing or decreasing order.
\<close>

section \<open>Running an iterator over a list\<close>

fun run_iter :: "('a, 's) ItemIterator \<Rightarrow> 'a list \<Rightarrow> 's \<Rightarrow> bool \<times> 's" where
  "run_iter iter [] s = (True, s)"
| "run_iter iter (x # xs) s = (case iter x s of (go_on, s') \<Rightarrow> if go_on then run_iter iter xs s' else (False, s'))"

definition bounded :: "('a \<Rightarrow> bool) \<Rightarrow> ('a, 's) ItemIterator \<Rightarrow> ('a, 's) ItemIterator" where
  "bounded stops iter x s = (if stops x then (False, s) else iter x s)"

lemma run_iter_append:
  "run_iter iter (xs @ ys) s =
    (case run_iter iter xs s of (go_on, s') \<Rightarrow> if go_on then run_iter iter ys s' else (False, s'))"
  by (induction xs arbitrary: s) (auto split: prod.splits)

lemma run_iter_bounded:
  assumes "sorted_wrt (\<lambda>a b. stops a \<longrightarrow> stops b) L"
  shows "snd (run_iter (bounded stops iter) L s) = snd (run_iter iter (filter (\<lambda>x. \<not> stops x) L) s)"
  using assms
proof (induction L arbitrary: s)
  case (Cons x L)
  then have "stops x \<Longrightarrow> filter (\<lambda>x. \<not> stops x) L = []" by (auto simp: filter_empty_conv)
  with Cons show ?case by (auto simp: bounded_def split: prod.splits)
qed simp

lemma run_bounded_Cons:
  "run_iter (bounded stops iter) (x # xs) s = (if stops x then (False, s)
     else (case iter x s of (go_on, s') \<Rightarrow> if go_on then run_iter (bounded stops iter) xs s' else (False, s')))"
  by (simp add: bounded_def split: prod.splits)

lemma bounded_False [simp]: "bounded (\<lambda>_. False) iter = iter"
  by (simp add: bounded_def fun_eq_iff)

context item_order
begin

definition at_least :: "'a option \<Rightarrow> 'a \<Rightarrow> bool" where
  "at_least start y \<longleftrightarrow> (case start of None \<Rightarrow> True | Some x \<Rightarrow> \<not> Less y x)"

definition ascend_stops :: "'a option \<Rightarrow> 'a \<Rightarrow> bool" where
  "ascend_stops stop y \<longleftrightarrow> (case stop of None \<Rightarrow> False | Some x \<Rightarrow> \<not> Less y x)"

definition ascend_ok :: "nat \<Rightarrow> nat \<Rightarrow> nat \<Rightarrow> 'a option \<Rightarrow> 'a option \<Rightarrow> bool \<Rightarrow> ('a, 's) ItemIterator \<Rightarrow> bool" where
  "ascend_ok mn mx h start stop incl iter \<longleftrightarrow>
     (\<forall>n hit s. wf_node mn mx h n \<and> sorted_wrt Less (inorder n) \<longrightarrow>
       (\<exists>hit'. iterate_ascend Less start stop incl iter n hit s
         = Some (hit', run_iter (bounded (ascend_stops stop) iter) (filter (at_least start) (inorder n)) s)))"

lemma ascend_from_step:
  assumes "at xs i = Some x" "incl \<or> start = None"
    and "(if cs = [] then Some (hit, True, s) else do {
        c \<leftarrow> at cs i; iterate_ascend Less start stop incl iter c hit s }) = Some (hitc, ok, t)"
  shows "ascend_from Less start stop incl iter (Node xs cs ix) i hit s =
    (if \<not> ok then Some (hitc, False, t)
     else if ascend_stops stop x then Some (True, False, t)
     else (case iter x t of (go_on, u) \<Rightarrow>
       if go_on then ascend_from Less start stop incl iter (Node xs cs ix) (Suc i) True u
       else Some (True, False, u)))"
proof -
  have "stop \<noteq> None \<and> \<not> Less x (the stop) \<longleftrightarrow> ascend_stops stop x"
    by (auto simp: ascend_stops_def split: option.splits)
  moreover have "i < length xs" "xs ! i = x" using assms(1) by (auto simp: at_eq_Some_iff)
  ultimately show ?thesis
    using assms(2)
    by (subst ascend_from.simps) (auto simp: assms(3) split: prod.splits)
qed

lemma ascend_from_leaf:
  assumes "incl \<or> start = None" "\<forall>y\<in>set xs2. at_least start y"
  shows "\<exists>hit'. ascend_from Less start stop incl iter (Node (xs1 @ xs2) [] ix) (length xs1) hit s
    = Some (hit', run_iter (bounded (ascend_stops stop) iter) xs2 s)"
  using assms(2)
proof (induction xs2 arbitrary: xs1 hit s)
  case (Cons x xs2)
  have "\<exists>hit'. ascend_from Less start stop incl iter (Node (xs1 @ x # xs2) [] ix) (Suc (length xs1)) True t
    = Some (hit', run_iter (bounded (ascend_stops stop) iter) xs2 t)" for t
    using Cons.IH[of "xs1 @ [x]" True t] Cons.prems by simp
  then show ?case
    by (subst ascend_from_step[where x = x and t = s and hitc = hit and ok = True])
      (auto simp: at_def assms(1) bounded_def split: prod.splits)
qed (simp add: ascend_from.simps)

lemma ascend_from_inner:
  assumes IH: "ascend_ok mn mx h start stop incl iter" and incl: "incl \<or> start = None"
    and "length xs1 = length cs1" "length xs2 = length cs2" "\<forall>y\<in>set xs2. at_least start y"
    and "\<forall>k\<in>set (c # cs2). wf_node mn mx h k \<and> sorted_wrt Less (inorder k)"
  shows "\<exists>hit'. ascend_from Less start stop incl iter (Node (xs1 @ xs2) (cs1 @ c # cs2) ix) (length xs1) hit s
    = Some (hit', run_iter (bounded (ascend_stops stop) iter) (filter (at_least start) (inorder c @ aboves xs2 cs2)) s)"
  using assms(4,3,5,6)
proof (induction xs2 cs2 arbitrary: xs1 cs1 c hit s rule: list_induct2)
  case Nil
  then show ?case using IH by (subst ascend_from.simps) (simp add: ascend_ok_def)
next
  case (Cons x xs2 d cs2)
  have c: "wf_node mn mx h c" "sorted_wrt Less (inorder c)" using Cons.prems(3) by auto
  obtain go_on t where t: "run_iter (bounded (ascend_stops stop) iter) (filter (at_least start) (inorder c)) s = (go_on, t)"
    by fastforce
  with IH c obtain hit1 where first: "iterate_ascend Less start stop incl iter c hit s = Some (hit1, go_on, t)"
    unfolding ascend_ok_def by metis
  have rest: "\<exists>hit'. ascend_from Less start stop incl iter (Node (xs1 @ x # xs2) (cs1 @ c # d # cs2) ix) (Suc (length xs1)) True u
    = Some (hit', run_iter (bounded (ascend_stops stop) iter) (filter (at_least start) (inorder d @ aboves xs2 cs2)) u)" for u
    using Cons.IH[of "xs1 @ [x]" "cs1 @ [c]" d True u] Cons.prems by simp
  have x: "at_least start x" using Cons.prems by simp
  show ?case
    using t rest x Cons.prems(1) first
    by (subst ascend_from_step[OF _ incl, where x = x and t = t and hitc = hit1 and ok = go_on])
      (auto simp: at_def nth_append run_iter_append bounded_def split: prod.splits)
qed

text \<open>Where an ascending scan starts in a list of items.\<close>

lemma ascend_start:
  assumes "sorted_wrt Less xs"
  obtains xs1 xs2 where "xs = xs1 @ xs2" "\<forall>y\<in>set xs2. at_least start y"
    "(case start of None \<Rightarrow> 0 | Some x \<Rightarrow> fst (items_find Less xs x)) = length xs1"
    "start = None \<longrightarrow> xs1 = []" "\<forall>x. start = Some x \<longrightarrow> (\<forall>y\<in>set xs1. Less y x)"
proof (cases start)
  case None
  then show ?thesis using that[of "[]" xs] by (simp add: at_least_def)
next
  case (Some x)
  from sorted_cut[OF assms, of x] show ?thesis
  proof (elim disjE exE conjE)
    fix xs1 xs2 assume "xs = xs1 @ xs2" "\<forall>y\<in>set xs1. Less y x" "\<forall>y\<in>set xs2. Less x y"
      "items_find Less xs x = (length xs1, False)"
    with Some asym show ?thesis by (intro that[of xs1 xs2]) (auto simp: at_least_def)
  next
    fix xs1 y xs2 assume "xs = xs1 @ y # xs2" "\<forall>z\<in>set xs1. Less z x" "\<not> Less y x"
      "items_find Less xs x = (length xs1, True)"
    moreover have "\<not> Less z x" if "z \<in> set xs2" for z
      using assms calculation(1,3) that trans[of y z x] by (auto simp: sorted_wrt_append)
    ultimately show ?thesis using Some by (intro that[of xs1 "y # xs2"]) (auto simp: at_least_def)
  qed
qed

lemma ascend_ok_leaf:
  assumes incl: "incl \<or> start = None"
  shows "ascend_ok mn mx 0 start stop incl iter"
  unfolding ascend_ok_def
proof (intro allI impI, elim conjE)
  fix n hit s assume n: "wf_node mn mx 0 n" "sorted_wrt Less (inorder n)"
  then obtain xs where xs: "n = Node xs [] []" "sorted_wrt Less xs" by (cases n) auto
  from ascend_start[OF xs(2), of start] obtain xs1 xs2 where c: "xs = xs1 @ xs2"
    "\<forall>y\<in>set xs2. at_least start y"
    "(case start of None \<Rightarrow> 0 | Some x \<Rightarrow> fst (items_find Less xs x)) = length xs1"
    "start = None \<longrightarrow> xs1 = []" "\<forall>x. start = Some x \<longrightarrow> (\<forall>y\<in>set xs1. Less y x)" by blast
  have "filter (at_least start) xs1 = []" using c(4,5) by (cases start) (auto simp: at_least_def filter_empty_conv)
  moreover have "filter (at_least start) xs2 = xs2" using c(2) by (simp add: filter_id_conv)
  moreover have items: "items n = xs" and "inorder n = xs" by (simp_all add: xs(1))
  moreover have "iterate_ascend Less start stop incl iter n hit s
      = ascend_from Less start stop incl iter (Node (xs1 @ xs2) [] []) (length xs1) hit s"
    unfolding iterate_ascend.simps[of _ _ _ _ _ n] items c(3) by (simp add: xs(1) c(1))
  ultimately show "\<exists>hit'. iterate_ascend Less start stop incl iter n hit s
      = Some (hit', run_iter (bounded (ascend_stops stop) iter) (filter (at_least start) (inorder n)) s)"
    using ascend_from_leaf[OF incl c(2), of stop iter xs1 "[]" hit s] c(1) by simp
qed

lemma ascend_ok_step:
  assumes incl: "incl \<or> start = None" and IH: "ascend_ok mn mx h start stop incl iter"
  shows "ascend_ok mn mx (Suc h) start stop incl iter"
  unfolding ascend_ok_def
proof (intro allI impI, elim conjE)
  fix n hit s assume n: "wf_node mn mx (Suc h) n" "sorted_wrt Less (inorder n)"
  from ascend_start[OF sorted_items[OF n], of start] obtain ys1 ys2 where c: "items n = ys1 @ ys2"
    "\<forall>y\<in>set ys2. at_least start y"
    "(case start of None \<Rightarrow> 0 | Some x \<Rightarrow> fst (items_find Less (items n) x)) = length ys1"
    "start = None \<longrightarrow> ys1 = []" "\<forall>x. start = Some x \<longrightarrow> (\<forall>y\<in>set ys1. Less y x)" by blast
  then have "length ys1 \<le> length (items n)" by simp
  from wf_node_cut[OF n(1) this] obtain xs1 xs2 cs1 k cs2 where
    cut: "n = Node (xs1 @ xs2) (cs1 @ k # cs2) (ranks 0 (map node_size (cs1 @ k # cs2)))"
    "length xs1 = length ys1" "length cs1 = length ys1" "length cs2 = length xs2" by blast
  with c(1) have xs: "xs1 = ys1" "xs2 = ys2" by auto
  have split: "inorder n = belows ys1 cs1 @ inorder k @ aboves ys2 cs2"
    using inorder_split[of ys1 cs1 ys2 k cs2] cut xs by simp
  have below: "filter (at_least start) (belows ys1 cs1) = []"
  proof (cases start)
    case (Some x)
    have "\<forall>y\<in>set (belows ys1 cs1). Less y x"
      using c(5) Some n(2) cut(3) by (intro belows_less) (auto simp: split sorted_wrt_append)
    then show ?thesis using Some by (auto simp: at_least_def filter_empty_conv)
  qed (use c(4) in simp)
  have kids: "\<forall>k\<in>set (k # cs2). wf_node mn mx h k \<and> sorted_wrt Less (inorder k)"
    using sorted_children[OF n] by (simp add: cut(1))
  have "\<exists>hit'. ascend_from Less start stop incl iter n (length ys1) hit s
    = Some (hit', run_iter (bounded (ascend_stops stop) iter) (filter (at_least start) (inorder k @ aboves ys2 cs2)) s)"
    unfolding cut(1) xs using cut xs c(2) kids by (intro ascend_from_inner[OF IH incl]) simp_all
  then show "\<exists>hit'. iterate_ascend Less start stop incl iter n hit s
      = Some (hit', run_iter (bounded (ascend_stops stop) iter) (filter (at_least start) (inorder n)) s)"
    unfolding iterate_ascend.simps c(3) split using below by simp
qed

lemma iterate_ascend_ok: "incl \<or> start = None \<Longrightarrow> ascend_ok mn mx h start stop incl iter"
  by (induction h) (simp_all add: ascend_ok_leaf ascend_ok_step)

section \<open>Descending\<close>

definition at_most :: "'a option \<Rightarrow> 'a \<Rightarrow> bool" where
  "at_most start y \<longleftrightarrow> (case start of None \<Rightarrow> True | Some x \<Rightarrow> \<not> Less x y)"

definition descend_stops :: "'a option \<Rightarrow> 'a \<Rightarrow> bool" where
  "descend_stops stop y \<longleftrightarrow> (case stop of None \<Rightarrow> False | Some x \<Rightarrow> \<not> Less x y)"

text \<open>Once an item was hit, everything still to come lies strictly below the start.\<close>

definition hit_ok :: "'a option \<Rightarrow> bool \<Rightarrow> 'a list \<Rightarrow> bool" where
  "hit_ok start hit L \<longleftrightarrow> (\<forall>x. start = Some x \<longrightarrow> hit \<longrightarrow> (\<forall>y\<in>set L. Less y x))"

definition descend_ok :: "nat \<Rightarrow> nat \<Rightarrow> nat \<Rightarrow> 'a option \<Rightarrow> 'a option \<Rightarrow> bool \<Rightarrow> ('a, 's) ItemIterator \<Rightarrow> bool" where
  "descend_ok mn mx h start stop incl iter \<longleftrightarrow>
     (\<forall>n hit s. wf_node mn mx h n \<and> sorted_wrt Less (inorder n) \<and> hit_ok start hit (inorder n) \<longrightarrow>
       (\<exists>hit'. iterate_descend Less start stop incl iter n hit s
         = Some (hit', run_iter (bounded (descend_stops stop) iter) (rev (filter (at_most start) (inorder n))) s)))"

lemma descend_from_step:
  assumes "at xs i = Some x" "incl \<or> start = None" "at_most start x" "hit_ok start hit [x]"
    and "(if cs = [] then Some (hit, True, s) else do {
        c \<leftarrow> at cs (Suc i); iterate_descend Less start stop incl iter c hit s }) = Some (hitc, ok, t)"
  shows "descend_from Less start stop incl iter (Node xs cs ix) (Suc i) hit s =
    (if \<not> ok then Some (hitc, False, t)
     else if descend_stops stop x then Some (hitc, False, t)
     else (case iter x t of (go_on, u) \<Rightarrow>
       if go_on then descend_from Less start stop incl iter (Node xs cs ix) i True u
       else Some (True, False, u)))"
proof -
  have "stop \<noteq> None \<and> \<not> Less (the stop) x \<longleftrightarrow> descend_stops stop x"
    by (auto simp: descend_stops_def split: option.splits)
  moreover have skip: "(start \<noteq> None \<and> \<not> Less x (the start) \<and> (\<not> incl \<or> hit \<or> Less (the start) x)) = False"
    using assms(2-4) by (auto simp: at_most_def hit_ok_def)
  ultimately show ?thesis
    unfolding descend_from.simps assms(1) Option.bind.simps skip if_False Suc_eq_plus1[symmetric] assms(5) prod.case
    by (simp split: prod.splits)
qed

lemma below_last:
  assumes "sorted_wrt Less (A @ y # B)" "at_most start y" "z \<in> set A"
  shows "at_most start z" "hit_ok start True [z]"
proof -
  have "Less z y" using assms(1,3) by (simp add: sorted_wrt_append)
  then have "start = Some x \<Longrightarrow> Less z x" for x
    using assms(2) weak[of z y x] by (auto simp: at_most_def)
  then show "at_most start z" "hit_ok start True [z]"
    using asym by (auto simp: at_most_def hit_ok_def split: option.splits)
qed

lemma hit_ok_below:
  "sorted_wrt Less (A @ y # B) \<Longrightarrow> at_most start y \<Longrightarrow> hit_ok start True A"
  using below_last(2)[of A y B start] by (auto simp: hit_ok_def)

lemma descend_from_leaf:
  assumes "incl \<or> start = None" "sorted_wrt Less xs1" "hit_ok start hit xs1"
    and "xs1 \<noteq> [] \<longrightarrow> at_most start (last xs1)"
  shows "\<exists>hit'. descend_from Less start stop incl iter (Node (xs1 @ xs2) [] ix) (length xs1) hit s
    = Some (hit', run_iter (bounded (descend_stops stop) iter) (rev xs1) s)"
  using assms(2-4)
proof (induction xs1 arbitrary: xs2 hit s rule: rev_induct)
  case (snoc x xs1)
  have x: "at_most start x" "hit_ok start hit [x]" using snoc.prems by (auto simp: hit_ok_def)
  have "hit_ok start True xs1" using hit_ok_below snoc.prems(1) x(1) by blast
  moreover have "xs1 \<noteq> [] \<longrightarrow> at_most start (last xs1)" using below_last(1)[OF snoc.prems(1) x(1)] by simp
  ultimately have "\<exists>hit'. descend_from Less start stop incl iter (Node (xs1 @ x # xs2) [] ix) (length xs1) True t
    = Some (hit', run_iter (bounded (descend_stops stop) iter) (rev xs1) t)" for t
    using snoc.IH[of True "x # xs2" t] snoc.prems(1) by (simp add: sorted_wrt_append)
  then show ?case
    using descend_from_step[OF _ assms(1) x, of "xs1 @ x # xs2" "length xs1" "[]" s stop iter hit True s ix]
    by (auto simp: at_def run_bounded_Cons simp del: run_iter.simps(2) split: prod.splits)
qed (simp add: descend_from.simps)

lemma descend_from_inner:
  assumes IH: "descend_ok mn mx h start stop incl iter" and incl: "incl \<or> start = None"
    and "length xs1 = length cs1" "sorted_wrt Less (belows xs1 cs1 @ inorder c)"
    and "hit_ok start hit (belows xs1 cs1 @ inorder c)" "xs1 \<noteq> [] \<longrightarrow> at_most start (last xs1)"
    and "\<forall>k\<in>set (cs1 @ [c]). wf_node mn mx h k"
  shows "\<exists>hit'. descend_from Less start stop incl iter (Node (xs1 @ xs2) (cs1 @ c # cs2) ix) (length xs1) hit s
    = Some (hit', run_iter (bounded (descend_stops stop) iter)
        (rev (filter (at_most start) (belows xs1 cs1 @ inorder c))) s)"
  using assms(3-7)
proof (induction xs1 arbitrary: cs1 xs2 c cs2 hit s rule: rev_induct)
  case Nil
  then show ?case using IH by (simp add: descend_from.simps descend_ok_def)
next
  case (snoc x xs1)
  obtain es e where cs1: "cs1 = es @ [e]" "length xs1 = length es"
    using snoc.prems(1) by (cases cs1 rule: rev_cases) auto
  have all: "belows (xs1 @ [x]) cs1 @ inorder c = (belows xs1 es @ inorder e) @ x # inorder c"
    using cs1 by (simp add: below_append)
  note sorted = snoc.prems(2)[unfolded all] and hit = snoc.prems(3)[unfolded all]
  have x: "at_most start x" "hit_ok start hit [x]" using snoc.prems(4) hit by (auto simp: hit_ok_def)
  have c: "wf_node mn mx h c" "sorted_wrt Less (inorder c)" "hit_ok start hit (inorder c)"
    using snoc.prems(5) sorted hit by (auto simp: sorted_wrt_append hit_ok_def)
  obtain go_on t where t: "run_iter (bounded (descend_stops stop) iter) (rev (filter (at_most start) (inorder c))) s = (go_on, t)"
    by fastforce
  with IH c obtain hit1 where first: "iterate_descend Less start stop incl iter c hit s = Some (hit1, go_on, t)"
    unfolding descend_ok_def by metis
  have rest: "\<exists>hit'. descend_from Less start stop incl iter (Node (xs1 @ x # xs2) (es @ e # c # cs2) ix) (length xs1) True u
    = Some (hit', run_iter (bounded (descend_stops stop) iter) (rev (filter (at_most start) (belows xs1 es @ inorder e))) u)" for u
  proof (rule snoc.IH[OF cs1(2)])
    show "sorted_wrt Less (belows xs1 es @ inorder e)" using sorted by (simp add: sorted_wrt_append)
    show "hit_ok start True (belows xs1 es @ inorder e)" using hit_ok_below sorted x(1) by blast
    show "xs1 \<noteq> [] \<longrightarrow> at_most start (last xs1)"
      using below_last(1)[OF sorted x(1)] cs1(2) by (auto simp: set_belows)
    show "\<forall>k\<in>set (es @ [e]). wf_node mn mx h k" using snoc.prems(5) by (simp add: cs1)
  qed
  show ?case
    unfolding all
    using t rest x(1) first cs1
      descend_from_step[OF _ incl x, of "xs1 @ x # xs2" "length xs1" "es @ e # c # cs2" s stop iter hit1 go_on t ix]
    by (auto simp: at_def nth_append run_iter_append run_bounded_Cons simp del: run_iter.simps(2) split: prod.splits)
qed

lemma descend_start:
  assumes "sorted_wrt Less xs"
  obtains xs1 xs2 where "xs = xs1 @ xs2"
    "(case start of None \<Rightarrow> length xs
      | Some x \<Rightarrow> (case items_find Less xs x of (index, found) \<Rightarrow> if found then index + 1 else index)) = length xs1"
    "start = None \<longrightarrow> xs2 = []" "\<forall>x. start = Some x \<longrightarrow> (\<forall>y\<in>set xs2. Less x y)"
    "xs1 \<noteq> [] \<longrightarrow> at_most start (last xs1)"
proof (cases start)
  case None
  then show ?thesis using that[of xs "[]"] by (simp add: at_most_def)
next
  case (Some x)
  from sorted_cut[OF assms, of x] show ?thesis
  proof (elim disjE exE conjE)
    fix xs1 xs2 assume "xs = xs1 @ xs2" "\<forall>y\<in>set xs1. Less y x" "\<forall>y\<in>set xs2. Less x y"
      "items_find Less xs x = (length xs1, False)"
    with Some asym show ?thesis by (intro that[of xs1 xs2]) (auto simp: at_most_def)
  next
    fix xs1 y xs2 assume c: "xs = xs1 @ y # xs2" "\<not> Less y x" "\<not> Less x y"
      "items_find Less xs x = (length xs1, True)"
    with pivot_sides(2)[of xs1 y xs2 x] assms Some show ?thesis
      by (intro that[of "xs1 @ [y]" xs2]) (auto simp: at_most_def)
  qed
qed

lemma filter_at_most_above:
  "start = None \<longrightarrow> L = [] \<Longrightarrow> \<forall>x. start = Some x \<longrightarrow> (\<forall>y\<in>set L. Less x y) \<Longrightarrow> filter (at_most start) L = []"
  by (cases start) (auto simp: at_most_def filter_empty_conv)

lemma descend_ok_leaf:
  assumes incl: "incl \<or> start = None"
  shows "descend_ok mn mx 0 start stop incl iter"
  unfolding descend_ok_def
proof (intro allI impI, elim conjE)
  fix n hit s assume n: "wf_node mn mx 0 n" "sorted_wrt Less (inorder n)" "hit_ok start hit (inorder n)"
  then obtain xs where xs: "n = Node xs [] []" "sorted_wrt Less xs" by (cases n) auto
  from descend_start[OF xs(2), of start] obtain xs1 xs2 where c: "xs = xs1 @ xs2"
    "(case start of None \<Rightarrow> length xs
      | Some x \<Rightarrow> (case items_find Less xs x of (index, found) \<Rightarrow> if found then index + 1 else index)) = length xs1"
    "start = None \<longrightarrow> xs2 = []" "\<forall>x. start = Some x \<longrightarrow> (\<forall>y\<in>set xs2. Less x y)"
    "xs1 \<noteq> [] \<longrightarrow> at_most start (last xs1)" by blast
  have items: "items n = xs" and inord: "inorder n = xs" by (simp_all add: xs(1))
  have "iterate_descend Less start stop incl iter n hit s
      = descend_from Less start stop incl iter (Node (xs1 @ xs2) [] []) (length xs1) hit s"
    unfolding iterate_descend.simps[of _ _ _ _ _ n] items c(2) by (simp add: xs(1) c(1))
  moreover have "filter (at_most start) xs1 = xs1"
  proof (cases xs1 rule: rev_cases)
    case (snoc ys y)
    then show ?thesis using below_last(1)[of ys y "[]" start] c(5) xs(2) c(1)
      by (auto simp: sorted_wrt_append filter_id_conv)
  qed simp
  moreover have "hit_ok start hit xs1" "sorted_wrt Less xs1"
    using n(3) xs(2) by (auto simp: inord c(1) hit_ok_def sorted_wrt_append)
  ultimately show "\<exists>hit'. iterate_descend Less start stop incl iter n hit s
      = Some (hit', run_iter (bounded (descend_stops stop) iter) (rev (filter (at_most start) (inorder n))) s)"
    using descend_from_leaf[OF incl _ _ c(5), of hit stop iter xs2 "[]" s] filter_at_most_above[OF c(3,4)]
    by (simp add: inord c(1))
qed

lemma descend_ok_step:
  assumes incl: "incl \<or> start = None" and IH: "descend_ok mn mx h start stop incl iter"
  shows "descend_ok mn mx (Suc h) start stop incl iter"
  unfolding descend_ok_def
proof (intro allI impI, elim conjE)
  fix n hit s assume n: "wf_node mn mx (Suc h) n" "sorted_wrt Less (inorder n)" "hit_ok start hit (inorder n)"
  from descend_start[OF sorted_items[OF n(1,2)], of start] obtain ys1 ys2 where c: "items n = ys1 @ ys2"
    "(case start of None \<Rightarrow> length (items n)
      | Some x \<Rightarrow> (case items_find Less (items n) x of (index, found) \<Rightarrow> if found then index + 1 else index)) = length ys1"
    "start = None \<longrightarrow> ys2 = []" "\<forall>x. start = Some x \<longrightarrow> (\<forall>y\<in>set ys2. Less x y)"
    "ys1 \<noteq> [] \<longrightarrow> at_most start (last ys1)" by blast
  then have "length ys1 \<le> length (items n)" by simp
  from wf_node_cut[OF n(1) this] obtain xs1 xs2 cs1 k cs2 where
    cut: "n = Node (xs1 @ xs2) (cs1 @ k # cs2) (ranks 0 (map node_size (cs1 @ k # cs2)))"
    "length xs1 = length ys1" "length cs1 = length ys1" "length cs2 = length xs2" by blast
  with c(1) have xs: "xs1 = ys1" "xs2 = ys2" by auto
  have split: "inorder n = (belows ys1 cs1 @ inorder k) @ aboves ys2 cs2"
    using inorder_split[of ys1 cs1 ys2 k cs2] cut xs by simp
  have parts: "sorted_wrt Less (belows ys1 cs1 @ inorder k)" "sorted_wrt Less (aboves ys2 cs2)"
    using n(2) by (simp_all add: split sorted_wrt_append)
  have "\<forall>x. start = Some x \<longrightarrow> (\<forall>y\<in>set (aboves ys2 cs2). Less x y)"
    using c(4) aboves_greater[OF _ parts(2)] cut(4) xs by auto
  then have above: "filter (at_most start) (aboves ys2 cs2) = []"
    using c(3) by (intro filter_at_most_above) auto
  have "\<exists>hit'. descend_from Less start stop incl iter n (length ys1) hit s
    = Some (hit', run_iter (bounded (descend_stops stop) iter)
        (rev (filter (at_most start) (belows ys1 cs1 @ inorder k))) s)"
    unfolding cut(1) xs
  proof (rule descend_from_inner[OF IH incl])
    show "hit_ok start hit (belows ys1 cs1 @ inorder k)" using n(3) by (auto simp: split hit_ok_def)
    show "\<forall>k\<in>set (cs1 @ [k]). wf_node mn mx h k" using sorted_children[OF n(1,2)] by (simp add: cut(1))
  qed (use cut(3) parts(1) c(5) in auto)
  then show "\<exists>hit'. iterate_descend Less start stop incl iter n hit s
      = Some (hit', run_iter (bounded (descend_stops stop) iter) (rev (filter (at_most start) (inorder n))) s)"
    unfolding iterate_descend.simps c(2) split using above by simp
qed

lemma iterate_descend_ok: "incl \<or> start = None \<Longrightarrow> descend_ok mn mx h start stop incl iter"
  by (induction h) (simp_all add: descend_ok_leaf descend_ok_step)

section \<open>Scans of the tree\<close>

text \<open>A scan is the iterator run over the items in its range.\<close>

lemma scan_ascend_ok:
  assumes wf: "wf_tree Less t" and incl: "incl \<or> start = None"
  shows "scan_ascend Less t start stop incl iter s
    = Some (snd (run_iter iter (filter (\<lambda>y. at_least start y \<and> \<not> ascend_stops stop y) (tree_items t)) s))"
proof (cases "root t")
  case None
  then show ?thesis by (simp add: scan_ascend_def tree_items_def)
next
  case (Some r)
  with wf obtain h where r: "wf_node (degree t - 1) (degree t * 2 - 1) h r" "sorted_wrt Less (inorder r)"
    by (auto simp: wf_tree_def tree_items_def)
  with iterate_ascend_ok[OF incl, of "degree t - 1" "degree t * 2 - 1" h stop iter] obtain hit' where
    it: "iterate_ascend Less start stop incl iter r False s
      = Some (hit', run_iter (bounded (ascend_stops stop) iter) (filter (at_least start) (inorder r)) s)"
    unfolding ascend_ok_def by blast
  have "sorted_wrt (\<lambda>a b. ascend_stops stop a \<longrightarrow> ascend_stops stop b) (inorder r)"
    by (rule sorted_wrt_mono_rel[OF _ r(2)]) (use trans in \<open>auto simp: ascend_stops_def split: option.splits\<close>)
  then have "sorted_wrt (\<lambda>a b. ascend_stops stop a \<longrightarrow> ascend_stops stop b) (filter (at_least start) (inorder r))"
    by (rule sorted_wrt_filter)
  from run_iter_bounded[OF this, of iter s] it show ?thesis
    by (simp add: scan_ascend_def Some tree_items_def conj_commute)
qed

lemma scan_descend_ok:
  assumes wf: "wf_tree Less t" and incl: "incl \<or> start = None"
  shows "scan_descend Less t start stop incl iter s
    = Some (snd (run_iter iter (rev (filter (\<lambda>y. at_most start y \<and> \<not> descend_stops stop y) (tree_items t))) s))"
proof (cases "root t")
  case None
  then show ?thesis by (simp add: scan_descend_def tree_items_def)
next
  case (Some r)
  with wf obtain h where r: "wf_node (degree t - 1) (degree t * 2 - 1) h r" "sorted_wrt Less (inorder r)"
    by (auto simp: wf_tree_def tree_items_def)
  have "hit_ok start False (inorder r)" by (simp add: hit_ok_def)
  with r iterate_descend_ok[OF incl, of "degree t - 1" "degree t * 2 - 1" h stop iter] obtain hit' where
    it: "iterate_descend Less start stop incl iter r False s
      = Some (hit', run_iter (bounded (descend_stops stop) iter) (rev (filter (at_most start) (inorder r))) s)"
    unfolding descend_ok_def by blast
  have "sorted_wrt (\<lambda>b a. descend_stops stop a \<longrightarrow> descend_stops stop b) (inorder r)"
    by (rule sorted_wrt_mono_rel[OF _ r(2)]) (use trans in \<open>auto simp: descend_stops_def split: option.splits\<close>)
  then have "sorted_wrt (\<lambda>a b. descend_stops stop a \<longrightarrow> descend_stops stop b) (rev (filter (at_most start) (inorder r)))"
    by (simp add: sorted_wrt_rev sorted_wrt_filter)
  from run_iter_bounded[OF this, of iter s] it show ?thesis
    by (simp add: scan_descend_def Some tree_items_def conj_commute rev_filter)
qed

end

end
