(* ===== verification/BTree_Spec.thy ===== *)
theory BTree_Spec
  imports BTree_Insert BTree_Remove BTree_Read BTree_Iter "HOL-Library.Code_Target_Nat"
begin

text \<open>
  What the B-tree promises its clients, for every item order: insertion, deletion, look-up by key
  and by rank, scans, and runs of operations with the bound on the height they lead to.
  \<open>demo_tree\<close> is a two-level tree of integers on which the statements are evaluated.
\<close>

section \<open>Height\<close>

fun height :: "'a node \<Rightarrow> nat" where
  "height (Node xs [] ix) = 0"
| "height (Node xs (c # cs) ix) = Suc (height c)"

lemma wf_node_height: "wf_node mn mx h n \<Longrightarrow> height n = h"
proof (induction h arbitrary: n)
  case 0
  then show ?case by (cases n) auto
next
  case (Suc h)
  then obtain xs cs where n: "n = Node xs cs (ranks 0 (map node_size cs))" "length cs = Suc (length xs)"
    "\<And>c. c \<in> set cs \<Longrightarrow> wf_node mn mx h c" by (auto elim: wf_node_SucE)
  then show ?case using Suc.IH by (cases cs) auto
qed

lemma sum_list_ge: "(\<And>x. x \<in> set xs \<Longrightarrow> (m::nat) \<le> f x) \<Longrightarrow> length xs * m \<le> sum_list (map f xs)"
  by (induction xs) (auto simp: add_le_mono)

lemma inorder_length:
  assumes "wf_node mn mx (Suc h) n"
  shows "length (inorder n) = length (items n) + sum_list (map (length \<circ> inorder) (children n))"
proof -
  obtain xs cs where n: "n = Node xs cs (ranks 0 (map node_size cs))" "length cs = Suc (length xs)"
    using assms by (auto elim: wf_node_SucE)
  then obtain c ds where cs: "cs = c # ds" "length xs = length ds" by (cases cs) auto
  have "length (aboves xs ds) = length ds + sum_list (map (length \<circ> inorder) ds)"
    using cs(2) by (induction xs ds rule: list_induct2) auto
  then show ?thesis using cs by (simp add: n(1))
qed

lemma inner_size:
  assumes "wf_node mn mx (Suc h) n" "\<And>c. c \<in> set (children n) \<Longrightarrow> m \<le> Suc (length (inorder c))"
  shows "Suc (length (items n)) * m \<le> Suc (length (inorder n))"
proof -
  have len: "length (children n) = Suc (length (items n))" using assms(1) by (cases n) auto
  have "length (children n) * m \<le> sum_list (map (\<lambda>c. Suc (length (inorder c))) (children n))"
    using assms(2) by (rule sum_list_ge)
  also have "\<dots> = Suc (length (inorder n))"
    using inorder_length[OF assms(1)] len by (simp add: sum_list_Suc comp_def)
  finally show ?thesis by (simp only: len)
qed

lemma wf_node_size:
  assumes "wf_node mn mx h n" "mn \<le> length (items n)"
  shows "Suc mn ^ Suc h \<le> Suc (length (inorder n))"
  using assms
proof (induction h arbitrary: n)
  case 0
  then show ?case by (cases n) auto
next
  case (Suc h)
  have "Suc mn * (Suc mn ^ Suc h) \<le> Suc (length (items n)) * (Suc mn ^ Suc h)"
    using Suc.prems(2) by (intro mult_le_mono1) simp
  also have "\<dots> \<le> Suc (length (inorder n))"
    using Suc by (intro inner_size[OF Suc.prems(1)]) (cases n, auto)
  finally show ?case by (simp only: power_Suc[of "Suc mn" "Suc h"])
qed

section \<open>The ends of the tree\<close>

lemma Min_Max_ok:
  assumes "wf_tree Less t"
  shows "BTree_Min t = (if tree_items t = [] then None else Some (hd (tree_items t)))
    \<and> BTree_Max t = (if tree_items t = [] then None else Some (last (tree_items t)))"
proof (cases "root t")
  case None
  then show ?thesis by (simp add: BTree_Min_def BTree_Max_def tree_items_def)
next
  case (Some r)
  with assms obtain h where r: "wf_node (degree t - 1) (degree t * 2 - 1) h r" and "2 \<le> degree t"
    by (auto simp: wf_tree_def)
  then have "1 \<le> degree t - 1" by simp
  with node_min_ok[OF r] node_max_ok[OF r] Some show ?thesis
    by (simp add: BTree_Min_def BTree_Max_def tree_items_def)
qed

lemma DeleteMin_DeleteMax_ok:
  assumes "item_order Less" "wf_tree Less t" "tree_items t \<noteq> []"
  shows "\<exists>t'. DeleteMin Less t = Some (t', Some (hd (tree_items t))) \<and> wf_tree Less t'
      \<and> tree_items t' = tl (tree_items t)"
    "\<exists>t'. DeleteMax Less t = Some (t', Some (last (tree_items t))) \<and> wf_tree Less t'
      \<and> tree_items t' = butlast (tree_items t)"
  using item_order.deleteItem_ok[OF assms(1,2) _ assms(3), of RemoveMin None]
    item_order.deleteItem_ok[OF assms(1,2) _ assms(3), of RemoveMax None]
  by (auto simp: DeleteMin_def DeleteMax_def item_order.removed_list_def[OF assms(1)]
      item_order.removed_item_def[OF assms(1)])

section \<open>A tree of integers\<close>

definition demo_tree :: "int BTree" where
  "demo_tree = \<lparr> degree = 2, len = 5,
     root = Some (Node [3] [Node [1, 2] [] [], Node [4, 5] [] []] [2, 5]) \<rparr>"

lemma demo_tree_items: "tree_items demo_tree = [1, 2, 3, 4, 5]"
  by (simp add: demo_tree_def tree_items_def)

lemma demo_tree_wf: "wf_tree Int_Less demo_tree"
  by (auto simp: wf_tree_def demo_tree_items) (auto simp: demo_tree_def Int_Less_def intro!: exI[of _ "Suc 0"])

section \<open>Properties\<close>

lemma GetWithIndex_ok:
  assumes "item_order Less" "wf_tree Less t"
  shows "GetWithIndex Less t key
    = Some (find_list Less key (tree_items t), int (length (filter (\<lambda>y. Less y key) (tree_items t))))"
proof (cases "root t")
  case None
  then show ?thesis by (simp add: GetWithIndex_def tree_items_def find_list_def)
next
  case (Some r)
  with assms(2) obtain h where r: "wf_node (degree t - 1) (degree t * 2 - 1) h r" "sorted_wrt Less (inorder r)"
    by (auto simp: wf_tree_def tree_items_def)
  then show ?thesis
    using item_order.node_getWithIndex_ok[OF assms(1) r, of key]
    by (simp add: item_order.rank_def[OF assms(1)] GetWithIndex_def Some tree_items_def)
qed

lemma GetAt_ok:
  assumes "wf_tree Less t"
  shows "GetAt t k = Some (if 0 \<le> k \<and> k < Len t then Some (tree_items t ! nat k) else None)"
proof (cases "root t")
  case None
  then show ?thesis using assms by (simp add: GetAt_def Len_def wf_tree_def tree_items_def)
next
  case (Some r)
  with assms obtain h where r: "wf_node (degree t - 1) (degree t * 2 - 1) h r" "len t = node_size r"
    by (auto simp: wf_tree_def tree_items_def)
  then show ?thesis using node_getAt_ok[OF r(1), of k] by (simp add: GetAt_def Len_def Some tree_items_def)
qed

text \<open>
  C31 (refinement): on every well-formed tree, \<open>ReplaceOrInsert\<close> returns without an index out of
  range, keeps the tree balanced with exact ranks and length, and acts on the item sequence as
  insertion into a sorted list that replaces the equal item and returns it.
\<close>

theorem ReplaceOrInsert_refines:
  assumes "item_order Less" "wf_tree Less t"
  shows "\<exists>t' out. ReplaceOrInsert Less t (Some x) = Some (t', out) \<and> wf_tree Less t'
    \<and> tree_items t' = ins_list Less x (tree_items t) \<and> out = find_list Less x (tree_items t)"
  using item_order.ReplaceOrInsert_ok[OF assms] by blast

theorem ReplaceOrInsert_refines_witness:
  "\<exists>t' out. ReplaceOrInsert Int_Less demo_tree (Some 6) = Some (t', out) \<and> wf_tree Int_Less t'
    \<and> tree_items t' = [1, 2, 3, 4, 5, 6] \<and> out = None"
  using ReplaceOrInsert_refines[OF int_item.item_order_axioms demo_tree_wf, of 6]
  by (simp add: demo_tree_items ins_list_def find_list_def Int_Less_def)

text \<open>
  C32 (termination): on every well-formed tree, \<open>Delete\<close> returns, although \<open>remove\<close> calls itself
  again on a node it has just grown; it keeps the tree well formed, removes exactly the item equal
  to the key and returns it, and changes nothing when there is none.
\<close>

theorem Delete_returns:
  assumes "item_order Less" "wf_tree Less t"
  shows "\<exists>t' out. Delete Less t (Some x) = Some (t', out) \<and> wf_tree Less t'
    \<and> tree_items t' = del_list Less x (tree_items t) \<and> out = find_list Less x (tree_items t)"
  using item_order.Delete_ok[OF assms] by blast

theorem Delete_returns_witness:
  "\<exists>t' out. Delete Int_Less demo_tree (Some 3) = Some (t', out) \<and> wf_tree Int_Less t'
    \<and> tree_items t' = [1, 2, 4, 5] \<and> out = Some 3"
  using Delete_returns[OF int_item.item_order_axioms demo_tree_wf, of 3]
  by (simp add: demo_tree_items del_list_def find_list_def Int_Less_def)

text \<open>
  The rank array is right. \<open>GetWithIndex\<close> returns the equal item, if any, with the
  number of smaller items, and \<open>GetAt\<close> returns the item at a rank, and nil outside the tree.
\<close>

theorem GetWithIndex_GetAt:
  assumes "item_order Less" "wf_tree Less t"
  shows "GetWithIndex Less t key
      = Some (find_list Less key (tree_items t), int (length (filter (\<lambda>y. Less y key) (tree_items t))))
    \<and> GetAt t k = Some (if 0 \<le> k \<and> k < Len t then Some (tree_items t ! nat k) else None)"
  using GetWithIndex_ok[OF assms] GetAt_ok[OF assms(2)] by blast

theorem GetWithIndex_GetAt_witness:
  "GetWithIndex Int_Less demo_tree 4 = Some (Some 4, 3) \<and> GetAt demo_tree 3 = Some (Some 4)"
  using GetWithIndex_GetAt[OF int_item.item_order_axioms demo_tree_wf, of 4 3]
  unfolding demo_tree_items
  by (simp add: find_list_def Int_Less_def) (simp add: Len_def demo_tree_def)

text \<open>
  C33 (equivalence): every scan equals the iterator run over the items of its range in order, until
  it asks to stop: from a pivot upwards, within a half-open range, and downwards from a pivot.
\<close>

theorem scans_run_the_iterator:
  assumes "item_order Less" "wf_tree Less t"
  shows "AscendGreaterOrEqual Less t lo iter s
      = Some (snd (run_iter iter (filter (\<lambda>y. \<not> Less y lo) (tree_items t)) s))
    \<and> AscendRange Less t lo hi iter s
      = Some (snd (run_iter iter (filter (\<lambda>y. \<not> Less y lo \<and> Less y hi) (tree_items t)) s))
    \<and> DescendLessOrEqual Less t hi iter s
      = Some (snd (run_iter iter (rev (filter (\<lambda>y. \<not> Less hi y) (tree_items t))) s))
    \<and> DescendRange Less t hi lo iter s
      = Some (snd (run_iter iter (rev (filter (\<lambda>y. \<not> Less hi y \<and> Less lo y) (tree_items t))) s))"
proof -
  note up = item_order.scan_ascend_ok[OF assms] and down = item_order.scan_descend_ok[OF assms]
  note defs = item_order.at_least_def[OF assms(1)] item_order.ascend_stops_def[OF assms(1)]
    item_order.at_most_def[OF assms(1)] item_order.descend_stops_def[OF assms(1)]
  show ?thesis
    by (simp add: AscendGreaterOrEqual_def AscendRange_def DescendLessOrEqual_def DescendRange_def
        up down defs)
qed

theorem scans_run_the_iterator_witness:
  "AscendRange Int_Less demo_tree 2 5 (\<lambda>x s. (True, s @ [x])) [] = Some [2, 3, 4]
    \<and> DescendLessOrEqual Int_Less demo_tree 3 (\<lambda>x s. (False, s @ [x])) [] = Some [3]"
  using scans_run_the_iterator[OF int_item.item_order_axioms demo_tree_wf, of 2 "\<lambda>x s. (True, s @ [x])" "[]" 5]
    scans_run_the_iterator[OF int_item.item_order_axioms demo_tree_wf, of 0 "\<lambda>x s. (False, s @ [x])" "[]" 3]
  by (simp add: demo_tree_items Int_Less_def)

text \<open>The size of a tree of a given height.\<close>

lemma height_bound:
  assumes "wf_tree Less t" "root t = Some r" "items r \<noteq> []"
  shows "2 * int (degree t) ^ height r \<le> Len t + 1"
proof -
  from assms obtain h where wf: "wf_node (degree t - 1) (degree t * 2 - 1) h r" and d: "2 \<le> degree t"
    and len: "len t = node_size r" by (auto simp: wf_tree_def tree_items_def)
  have "2 * degree t ^ h \<le> Suc (length (inorder r))"
  proof (cases h)
    case 0
    then show ?thesis using wf assms(3) by (cases r) (auto simp: Suc_le_eq)
  next
    case (Suc k)
    have "degree t ^ Suc k \<le> Suc (length (inorder c))" if "c \<in> set (children r)" for c
      using wf_node_size[of "degree t - 1" _ k c] wf that d by (cases r) (auto simp: Suc)
    from inner_size[OF wf[unfolded Suc] this] have "Suc (length (items r)) * degree t ^ Suc k \<le> Suc (length (inorder r))" .
    moreover have "2 * degree t ^ Suc k \<le> Suc (length (items r)) * degree t ^ Suc k"
      using assms(3) by (intro mult_le_mono1) (simp add: Suc_le_eq)
    ultimately show ?thesis unfolding Suc by (rule le_trans[rotated])
  qed
  then have "int (2 * degree t ^ h) \<le> int (Suc (length (inorder r)))" by (simp only: of_nat_le_iff)
  then show ?thesis using len wf_node_height[OF wf] by (simp add: Len_def)
qed

text \<open>The operations that change a tree, and what they do to its sequence of items.\<close>

datatype 'a tree_op = OpInsert 'a | OpDelete 'a | OpDeleteMin | OpDeleteMax

fun tree_do :: "('a \<Rightarrow> 'a \<Rightarrow> bool) \<Rightarrow> 'a tree_op \<Rightarrow> 'a BTree \<Rightarrow> 'a BTree option" where
  "tree_do Less (OpInsert x) t = map_option fst (ReplaceOrInsert Less t (Some x))"
| "tree_do Less (OpDelete x) t = map_option fst (Delete Less t (Some x))"
| "tree_do Less OpDeleteMin t = map_option fst (DeleteMin Less t)"
| "tree_do Less OpDeleteMax t = map_option fst (DeleteMax Less t)"

fun list_do :: "('a \<Rightarrow> 'a \<Rightarrow> bool) \<Rightarrow> 'a tree_op \<Rightarrow> 'a list \<Rightarrow> 'a list" where
  "list_do Less (OpInsert x) xs = ins_list Less x xs"
| "list_do Less (OpDelete x) xs = del_list Less x xs"
| "list_do Less OpDeleteMin xs = tl xs"
| "list_do Less OpDeleteMax xs = butlast xs"

lemma deleteItem_ends:
  assumes "item_order Less" "wf_tree Less t" "typ \<noteq> RemoveItem"
  shows "\<exists>t' out. deleteItem Less t None typ = Some (t', out) \<and> wf_tree Less t' \<and> degree t' = degree t \<and>
    tree_items t' = (if typ = RemoveMin then tl (tree_items t) else butlast (tree_items t))"
proof (cases "tree_items t = []")
  case True
  then show ?thesis using item_order.deleteItem_empty[OF assms(1,2) True] assms(2) by simp
next
  case False
  then show ?thesis
    using item_order.deleteItem_ok[OF assms(1,2) _ False, of "typ" None] assms(3)
    by (cases "typ") (auto simp: item_order.removed_list_def[OF assms(1)])
qed

lemma tree_do_ok:
  assumes "item_order Less" "wf_tree Less t"
  shows "\<exists>t'. tree_do Less op t = Some t' \<and> wf_tree Less t' \<and> degree t' = degree t \<and> tree_items t' = list_do Less op (tree_items t)"
  using item_order.ReplaceOrInsert_ok[OF assms] item_order.Delete_ok[OF assms] deleteItem_ends[OF assms, of RemoveMin]
    deleteItem_ends[OF assms, of RemoveMax]
  by (cases op) (fastforce simp: DeleteMin_def DeleteMax_def)+

lemma tree_run_ok:
  assumes "item_order Less" "wf_tree Less t"
  shows "\<exists>t'. foldM (tree_do Less) ops t = Some t' \<and> wf_tree Less t' \<and> degree t' = degree t \<and>
    tree_items t' = fold (list_do Less) ops (tree_items t)"
  using assms(2)
proof (induction ops arbitrary: t)
  case (Cons op ops)
  from tree_do_ok[OF assms(1) Cons.prems, of op] Cons.IH show ?case by fastforce
qed simp

text \<open>
  C34 (bounds): a tree stays shallow whatever is done to it. From a new tree, every sequence of insertions and
  deletions, of given items or of the first or last one, returns; the tree has the items of the
  same operations on a sorted list and their number as its length; and if it is not empty and has
  \<open>h\<close> levels above its leaves, it has at least \<open>2 * degree ^ h - 1\<close> items, so a path is logarithmic in their number.
\<close>

theorem tree_run_shallow:
  assumes "item_order Less" "NewBTree d = Some t0"
  shows "\<exists>t. foldM (tree_do Less) ops t0 = Some t \<and> wf_tree Less t \<and> tree_items t = fold (list_do Less) ops [] \<and>
    Len t = int (length (fold (list_do Less) ops [])) \<and>
    (\<forall>r. root t = Some r \<and> items r \<noteq> [] \<longrightarrow> 2 * d ^ height r \<le> Len t + 1)"
proof -
  have t0: "wf_tree Less t0" "tree_items t0 = []" "int (degree t0) = d"
    using assms(2) by (auto simp: NewBTree_def wf_tree_def tree_items_def split: if_splits)
  obtain t where t: "foldM (tree_do Less) ops t0 = Some t" "wf_tree Less t" "degree t = degree t0"
      "tree_items t = fold (list_do Less) ops []"
    using tree_run_ok[OF assms(1) t0(1), of ops] t0(2) by auto
  have "Len t = int (length (tree_items t))" using t(2) by (simp add: Len_def wf_tree_def)
  then show ?thesis using t t0(3) height_bound[OF t(2)] by auto
qed

theorem tree_run_shallow_witness:
  "\<exists>t. foldM (tree_do Int_Less) [OpInsert 3, OpInsert 1, OpInsert 2, OpInsert 4, OpDelete 3, OpDeleteMin] \<lparr> degree = 2, len = 0, root = None \<rparr> = Some t \<and>
    tree_items t = [2, 4] \<and> Len t = 2"
  using tree_run_shallow[OF int_item.item_order_axioms, of 2 "\<lparr> degree = 2, len = 0, root = None \<rparr>"
      "[OpInsert 3, OpInsert 1, OpInsert 2, OpInsert 4, OpDelete 3, OpDeleteMin]"]
  by (fastforce simp: NewBTree_def ins_list_def del_list_def Int_Less_def simp del: foldM.simps)

end
