(* ===== verification/Metapb.thy ===== *)
theory Metapb
  imports Bytes
begin

text \<open>
  Regions, peers and epochs of \<open>proto/pkg/metapb\<close>, with the two methods the package adds by hand,
  \<open>AddPeer\<close> and \<open>RemovePeer\<close>. A region's epoch is a pointer that may be nil; its peers are not.
\<close>

section \<open>Definitions\<close>

record Peer =
  peer_Id :: u64
  peer_StoreId :: u64

record RegionEpoch =
  ep_ConfVer :: u64
  ep_Version :: u64

record Region =
  rg_Id :: u64
  rg_StartKey :: bytes
  rg_EndKey :: bytes
  rg_RegionEpoch :: "RegionEpoch option"
  rg_Peers :: "Peer list"

text \<open>The nil-safe getters of a peer pointer.\<close>

definition GetPeerId :: "Peer option \<Rightarrow> u64" where
  "GetPeerId p = (case p of None \<Rightarrow> 0 | Some p \<Rightarrow> peer_Id p)"

definition GetPeerStoreId :: "Peer option \<Rightarrow> u64" where
  "GetPeerStoreId p = (case p of None \<Rightarrow> 0 | Some p \<Rightarrow> peer_StoreId p)"

text \<open>\<open>RemovePeer\<close> drops the first peer with the id.\<close>

fun remove_first :: "('a \<Rightarrow> bool) \<Rightarrow> 'a list \<Rightarrow> 'a list" where
  "remove_first P [] = []"
| "remove_first P (x # xs) = (if P x then xs else x # remove_first P xs)"

definition Region_RemovePeer :: "Region \<Rightarrow> u64 \<Rightarrow> Region \<times> bool" where
  "Region_RemovePeer m pid =
     (if \<exists>p\<in>set (rg_Peers m). peer_Id p = pid
      then (m\<lparr> rg_Peers := remove_first (\<lambda>p. pid = peer_Id p) (rg_Peers m) \<rparr>, True)
      else (m, False))"

text \<open>
  \<open>AddPeer\<close> panics when the peer agrees with an earlier one on exactly one of id and store, and
  stops at the first peer with its id.
\<close>

fun AddPeer_loop :: "Peer \<Rightarrow> Peer list \<Rightarrow> bool option" where
  "AddPeer_loop peer [] = Some True"
| "AddPeer_loop peer (pr # prs) =
     (if peer_StoreId pr = peer_StoreId peer \<and> peer_Id pr \<noteq> peer_Id peer
        \<or> peer_StoreId pr \<noteq> peer_StoreId peer \<and> peer_Id pr = peer_Id peer then None
      else if peer_Id pr = peer_Id peer then Some False
      else AddPeer_loop peer prs)"

definition Region_AddPeer :: "Region \<Rightarrow> Peer \<Rightarrow> (Region \<times> bool) option" where
  "Region_AddPeer m peer = do {
     fresh \<leftarrow> AddPeer_loop peer (rg_Peers m);
     Some (if fresh then (m\<lparr> rg_Peers := rg_Peers m @ [peer] \<rparr>, True) else (m, False))
   }"

section \<open>One peer per store\<close>

text \<open>No two peers of a region share an id or a store.\<close>

definition peers_ok :: "Peer list \<Rightarrow> bool" where
  "peers_ok ps \<longleftrightarrow> distinct (map peer_Id ps) \<and> distinct (map peer_StoreId ps)"

lemma set_remove_first: "set (remove_first P xs) \<subseteq> set xs"
  by (induction xs) auto

lemma remove_first_distinct:
  "distinct (map f xs) \<Longrightarrow> remove_first (\<lambda>x. k = f x) xs = filter (\<lambda>x. f x \<noteq> k) xs"
  by (induction xs) (auto intro!: filter_True[symmetric] intro: rev_image_eqI)

lemma AddPeer_loop_True_iff:
  "AddPeer_loop peer prs = Some True
    \<longleftrightarrow> (\<forall>pr\<in>set prs. peer_Id pr \<noteq> peer_Id peer \<and> peer_StoreId pr \<noteq> peer_StoreId peer)"
  by (induction prs) auto

lemma AddPeer_loop_False:
  "AddPeer_loop peer prs = Some False \<Longrightarrow> \<exists>pr\<in>set prs. peer_Id pr = peer_Id peer \<and> peer_StoreId pr = peer_StoreId peer"
  by (induction prs) (auto split: if_splits)

lemma Region_RemovePeer_ok:
  assumes "peers_ok (rg_Peers m)" "Region_RemovePeer m pid = (m', b)"
  shows "peers_ok (rg_Peers m')" "rg_Peers m' = filter (\<lambda>p. peer_Id p \<noteq> pid) (rg_Peers m)"
proof -
  have eq: "rg_Peers m' = filter (\<lambda>p. peer_Id p \<noteq> pid) (rg_Peers m)"
    using assms remove_first_distinct[of peer_Id "rg_Peers m" pid]
    by (auto simp: Region_RemovePeer_def peers_ok_def split: if_splits intro!: filter_True[symmetric])
  then show "rg_Peers m' = filter (\<lambda>p. peer_Id p \<noteq> pid) (rg_Peers m)" .
  show "peers_ok (rg_Peers m')"
    using assms(1) by (simp add: eq peers_ok_def distinct_map_filter)
qed

lemma Region_AddPeer_ok:
  assumes "peers_ok (rg_Peers m)" "Region_AddPeer m peer = Some (m', b)"
  shows "peers_ok (rg_Peers m')" "peer_Id peer \<in> peer_Id ` set (rg_Peers m')"
    "set (rg_Peers m) \<subseteq> set (rg_Peers m')"
proof -
  from assms(2) obtain fresh where f: "AddPeer_loop peer (rg_Peers m) = Some fresh"
    "m' = (if fresh then m\<lparr> rg_Peers := rg_Peers m @ [peer] \<rparr> else m)"
    by (auto simp: Region_AddPeer_def elim!: bind_SomeE split: if_splits)
  show "peers_ok (rg_Peers m')"
    using assms(1) f AddPeer_loop_True_iff[of peer "rg_Peers m"] by (auto simp: peers_ok_def split: if_splits)
  show "peer_Id peer \<in> peer_Id ` set (rg_Peers m')"
    using f AddPeer_loop_False[of peer "rg_Peers m"] by (auto intro: rev_image_eqI split: if_splits)
  show "set (rg_Peers m) \<subseteq> set (rg_Peers m')" using f(2) by auto
qed

end
