(* ===== verification/Key_Order.thy ===== *)
theory Key_Order
  imports Bytes "HOL-Library.List_Lexorder"
begin

text \<open>
  \<open>bytes.Compare\<close> is the lexicographic order of the library, which makes keys a linear order; and
  key ranges \<open>[start, end)\<close> with an empty end for the top.
\<close>

lemma bytes_compare_less_iff: "bytes_compare a b < 0 \<longleftrightarrow> a < b"
  by (induction a b rule: bytes_compare.induct) auto

lemma bytes_compare_gt_iff: "0 < bytes_compare a b \<longleftrightarrow> b < a"
  using bytes_compare_antisym[of a b] bytes_compare_less_iff[of b a] by simp

lemma bytes_compare_le_iff: "bytes_compare a b \<le> 0 \<longleftrightarrow> a \<le> b"
  using bytes_compare_gt_iff[of a b] by (simp flip: not_less)

lemma bytes_compare_ge_iff: "0 \<le> bytes_compare a b \<longleftrightarrow> b \<le> a"
  using bytes_compare_less_iff[of a b] by (simp flip: not_less)

lemmas key_order = bytes_compare_less_iff bytes_compare_gt_iff bytes_compare_le_iff
  bytes_compare_ge_iff bytes_compare_eq_0_iff

text \<open>The keys of a range.\<close>

definition in_range :: "bytes \<Rightarrow> bytes \<Rightarrow> bytes \<Rightarrow> bool" where
  "in_range lo hi k \<longleftrightarrow> lo \<le> k \<and> (hi = [] \<or> k < hi)"

definition range_ok :: "bytes \<Rightarrow> bytes \<Rightarrow> bool" where
  "range_ok lo hi \<longleftrightarrow> hi = [] \<or> lo < hi"

lemma in_range_lo: "in_range lo hi lo \<longleftrightarrow> range_ok lo hi"
  by (auto simp: in_range_def range_ok_def)

lemma Nil_le_bytes [simp]: "([] :: bytes) \<le> k"
  by simp

end
