(* ===== verification/Region_Info.thy ===== *)
theory Region_Info
  imports Metapb Key_Order
begin

text \<open>
  \<open>RegionInfo\<close> of \<open>scheduler/server/core/region.go\<close> with its constructors and queries, and the
  options of \<open>region_option.go\<close>. A region info is read-only once created, so pointers to one are
  values; a query that walks a Go map in an unspecified order returns a set.
\<close>

section \<open>Region infos\<close>

record RegionInfo =
  ri_meta :: Region
  ri_learners :: "Peer list"
  ri_voters :: "Peer list"
  ri_leader :: "Peer option"
  ri_pendingPeers :: "Peer list"
  ri_approximateSize :: int

type_synonym RegionCreateOption = "RegionInfo \<Rightarrow> RegionInfo"
type_synonym RegionOption = "RegionInfo \<Rightarrow> bool"

definition classifyVoterAndLearner :: "RegionInfo \<Rightarrow> RegionInfo" where
  "classifyVoterAndLearner region = region\<lparr> ri_voters := rg_Peers (ri_meta region) \<rparr>"

definition NewRegionInfo :: "Region \<Rightarrow> Peer option \<Rightarrow> RegionCreateOption list \<Rightarrow> RegionInfo" where
  "NewRegionInfo region leader opts =
     classifyVoterAndLearner (fold (\<lambda>opt r. opt r) opts
       \<lparr> ri_meta = region, ri_learners = [], ri_voters = [], ri_leader = leader,
         ri_pendingPeers = [], ri_approximateSize = 0 \<rparr>)"

record RegionHeartbeatRequest =
  hb_Region :: Region
  hb_Leader :: "Peer option"
  hb_PendingPeers :: "Peer list"
  hb_ApproximateSize :: u64

definition EmptyRegionApproximateSize :: nat where
  "EmptyRegionApproximateSize = 1"

definition RegionFromHeartbeat :: "RegionHeartbeatRequest \<Rightarrow> RegionInfo" where
  "RegionFromHeartbeat heartbeat =
     (let regionSize = hb_ApproximateSize heartbeat div 2 ^ 20;
          regionSize = (if regionSize < EmptyRegionApproximateSize then EmptyRegionApproximateSize
                        else regionSize)
      in classifyVoterAndLearner
           \<lparr> ri_meta = hb_Region heartbeat, ri_learners = [], ri_voters = [],
             ri_leader = hb_Leader heartbeat, ri_pendingPeers = hb_PendingPeers heartbeat,
             ri_approximateSize = u64_to_int regionSize \<rparr>)"

text \<open>\<open>Clone\<close> does not copy the learners.\<close>

definition RegionInfo_Clone :: "RegionInfo \<Rightarrow> RegionCreateOption list \<Rightarrow> RegionInfo" where
  "RegionInfo_Clone r opts =
     classifyVoterAndLearner (fold (\<lambda>opt r. opt r) opts
       \<lparr> ri_meta = ri_meta r, ri_learners = [], ri_voters = [], ri_leader = ri_leader r,
         ri_pendingPeers = ri_pendingPeers r, ri_approximateSize = ri_approximateSize r \<rparr>)"

definition GetPeer :: "RegionInfo \<Rightarrow> u64 \<Rightarrow> Peer option" where
  "GetPeer r peerID = List.find (\<lambda>peer. peer_Id peer = peerID) (rg_Peers (ri_meta r))"

definition GetPendingPeer :: "RegionInfo \<Rightarrow> u64 \<Rightarrow> Peer option" where
  "GetPendingPeer r peerID = List.find (\<lambda>peer. peer_Id peer = peerID) (ri_pendingPeers r)"

definition GetPendingVoter :: "RegionInfo \<Rightarrow> u64 \<Rightarrow> Peer option" where
  "GetPendingVoter r peerID = List.find (\<lambda>peer. peer_Id peer = peerID) (ri_pendingPeers r)"

definition GetStorePeer :: "RegionInfo \<Rightarrow> u64 \<Rightarrow> Peer option" where
  "GetStorePeer r storeID = List.find (\<lambda>peer. peer_StoreId peer = storeID) (rg_Peers (ri_meta r))"

definition GetStoreVoter :: "RegionInfo \<Rightarrow> u64 \<Rightarrow> Peer option" where
  "GetStoreVoter r storeID = List.find (\<lambda>peer. peer_StoreId peer = storeID) (ri_voters r)"

definition GetStoreLearner :: "RegionInfo \<Rightarrow> u64 \<Rightarrow> Peer option" where
  "GetStoreLearner r storeID = List.find (\<lambda>peer. peer_StoreId peer = storeID) (ri_learners r)"

definition GetStoreIds :: "RegionInfo \<Rightarrow> u64 set" where
  "GetStoreIds r = peer_StoreId ` set (rg_Peers (ri_meta r))"

text \<open>A voter that is not the leader; a region without a leader has followers only.\<close>

definition is_follower :: "RegionInfo \<Rightarrow> Peer \<Rightarrow> bool" where
  "is_follower r peer \<longleftrightarrow> (case ri_leader r of None \<Rightarrow> True | Some l \<Rightarrow> peer_Id l \<noteq> peer_Id peer)"

definition GetFollowers :: "RegionInfo \<Rightarrow> (u64, Peer) fmap" where
  "GetFollowers r =
     fold (\<lambda>peer m. if is_follower r peer then fmupd (peer_StoreId peer) peer m else m) (ri_voters r) fmempty"

definition GetFollower :: "RegionInfo \<Rightarrow> Peer option" where
  "GetFollower r = List.find (is_follower r) (ri_voters r)"

definition GetDiffFollowers :: "RegionInfo \<Rightarrow> RegionInfo \<Rightarrow> Peer set" where
  "GetDiffFollowers r other =
     {p \<in> fset (fmran (GetFollowers r)). \<forall>q \<in> fset (fmran (GetFollowers other)). peer_StoreId p \<noteq> peer_StoreId q}"

abbreviation GetID :: "RegionInfo \<Rightarrow> u64" where
  "GetID r \<equiv> rg_Id (ri_meta r)"

abbreviation GetStartKey :: "RegionInfo \<Rightarrow> bytes" where
  "GetStartKey r \<equiv> rg_StartKey (ri_meta r)"

abbreviation GetEndKey :: "RegionInfo \<Rightarrow> bytes" where
  "GetEndKey r \<equiv> rg_EndKey (ri_meta r)"

section \<open>Options\<close>

definition HealthRegion :: RegionOption where
  "HealthRegion region \<longleftrightarrow> ri_pendingPeers region = [] \<and> ri_learners region = []"

definition HealthRegionAllowPending :: RegionOption where
  "HealthRegionAllowPending region \<longleftrightarrow> ri_learners region = []"

definition WithPendingPeers :: "Peer list \<Rightarrow> RegionCreateOption" where
  "WithPendingPeers pendingPeers region = region\<lparr> ri_pendingPeers := pendingPeers \<rparr>"

definition WithLeader :: "Peer option \<Rightarrow> RegionCreateOption" where
  "WithLeader leader region = region\<lparr> ri_leader := leader \<rparr>"

definition WithLearners :: "Peer list \<Rightarrow> RegionCreateOption" where
  "WithLearners learner region = region\<lparr> ri_learners := ri_learners region @ learner \<rparr>"

definition WithStartKey :: "bytes \<Rightarrow> RegionCreateOption" where
  "WithStartKey key region = region\<lparr> ri_meta := (ri_meta region)\<lparr> rg_StartKey := key \<rparr> \<rparr>"

definition WithEndKey :: "bytes \<Rightarrow> RegionCreateOption" where
  "WithEndKey key region = region\<lparr> ri_meta := (ri_meta region)\<lparr> rg_EndKey := key \<rparr> \<rparr>"

definition WithIncVersion :: RegionCreateOption where
  "WithIncVersion region = region\<lparr> ri_meta := (ri_meta region)\<lparr> rg_RegionEpoch :=
     map_option (\<lambda>e. e\<lparr> ep_Version := u64_add (ep_Version e) 1 \<rparr>) (rg_RegionEpoch (ri_meta region)) \<rparr> \<rparr>"

definition WithIncConfVer :: RegionCreateOption where
  "WithIncConfVer region = region\<lparr> ri_meta := (ri_meta region)\<lparr> rg_RegionEpoch :=
     map_option (\<lambda>e. e\<lparr> ep_ConfVer := u64_add (ep_ConfVer e) 1 \<rparr>) (rg_RegionEpoch (ri_meta region)) \<rparr> \<rparr>"

definition WithRemoveStorePeer :: "u64 \<Rightarrow> RegionCreateOption" where
  "WithRemoveStorePeer storeID region = region\<lparr> ri_meta := (ri_meta region)\<lparr> rg_Peers :=
     filter (\<lambda>peer. peer_StoreId peer \<noteq> storeID) (rg_Peers (ri_meta region)) \<rparr> \<rparr>"

definition SetApproximateSize :: "int \<Rightarrow> RegionCreateOption" where
  "SetApproximateSize v region = region\<lparr> ri_approximateSize := v \<rparr>"

definition SetPeers :: "Peer list \<Rightarrow> RegionCreateOption" where
  "SetPeers peers region = region\<lparr> ri_meta := (ri_meta region)\<lparr> rg_Peers := peers \<rparr> \<rparr>"

definition WithAddPeer :: "Peer \<Rightarrow> RegionCreateOption" where
  "WithAddPeer peer region = region\<lparr> ri_meta := (ri_meta region)\<lparr> rg_Peers := rg_Peers (ri_meta region) @ [peer] \<rparr>,
     ri_voters := ri_voters region @ [peer] \<rparr>"

section \<open>What the constructors establish\<close>

text \<open>The voters of a constructed region are its peers, whatever the options did.\<close>

definition info_ok :: "RegionInfo \<Rightarrow> bool" where
  "info_ok r \<longleftrightarrow> ri_voters r = rg_Peers (ri_meta r)"

lemma constructors_info_ok:
  "info_ok (NewRegionInfo region leader opts)" "info_ok (RegionFromHeartbeat hb)" "info_ok (RegionInfo_Clone r opts)"
  by (simp_all add: info_ok_def NewRegionInfo_def RegionFromHeartbeat_def RegionInfo_Clone_def
      classifyVoterAndLearner_def Let_def)

lemma fmlookup_GetFollowers:
  assumes "peers_ok (ri_voters r)"
  shows "fmlookup (GetFollowers r) s = Some p
    \<longleftrightarrow> p \<in> set (ri_voters r) \<and> is_follower r p \<and> peer_StoreId p = s"
proof -
  have "fmlookup (fold (\<lambda>peer m. if is_follower r peer then fmupd (peer_StoreId peer) peer m else m) ps m) s = Some p
      \<longleftrightarrow> (p \<in> set ps \<and> is_follower r p \<and> peer_StoreId p = s)
        \<or> (fmlookup m s = Some p \<and> (\<forall>q\<in>set ps. is_follower r q \<longrightarrow> peer_StoreId q \<noteq> s))"
    if "distinct (map peer_StoreId ps)" for ps m
    using that by (induction ps arbitrary: m) (auto split: if_splits simp: image_iff)
  then show ?thesis using assms by (simp add: GetFollowers_def peers_ok_def)
qed

end
