(* ===== verification/Region_Tree.thy ===== *)
theory Region_Tree
  imports BTree_Spec Region_Info
begin

text \<open>
  The region tree of \<open>scheduler/server/core/region_tree.go\<close>: a B-tree of region infos ordered by start
  key. The interpretation \<open>region_item\<close> shows that region items meet the contract of the B-tree, so
  its theorems apply. \<open>tree_ok\<close> is the invariant: the tree is well formed and its regions, in order,
  have non-empty disjoint ranges. Under it every operation is described by the list \<open>regs\<close> of the
  regions: \<open>getOverlaps\<close> returns those that share a key, \<open>update\<close> replaces them by the new region,
  \<open>search\<close> and \<open>scanRange\<close> find by key, and \<open>RandomRegion\<close> picks among the regions that reach into
  the range. An empty end key means that the range has no upper end.
\<close>

section \<open>Definitions\<close>

datatype regionItem = RegionItem (item_region: RegionInfo)

type_synonym regionTree = "regionItem BTree"

definition regionItem_Less :: "regionItem \<Rightarrow> regionItem \<Rightarrow> bool" where
  "regionItem_Less r other \<longleftrightarrow>
     bytes_compare (GetStartKey (item_region r)) (GetStartKey (item_region other)) < 0"

definition regionItem_Contains :: "regionItem \<Rightarrow> bytes \<Rightarrow> bool" where
  "regionItem_Contains r key \<longleftrightarrow>
     (let start = GetStartKey (item_region r); end = GetEndKey (item_region r) in
      bytes_compare key start \<ge> 0 \<and> (length end = 0 \<or> bytes_compare key end < 0))"

definition defaultBTreeDegree :: int where
  "defaultBTreeDegree = 64"

definition newRegionTree :: "regionTree option" where
  "newRegionTree = NewBTree defaultBTreeDegree"

definition regionTree_length :: "regionTree \<Rightarrow> int" where
  "regionTree_length t = Len t"

text \<open>The region info that holds only a start key, which the searches compare against.\<close>

definition key_region :: "bytes \<Rightarrow> RegionInfo" where
  "key_region key = \<lparr> ri_meta = \<lparr> rg_Id = 0, rg_StartKey = key, rg_EndKey = [], rg_RegionEpoch = None, rg_Peers = [] \<rparr>,
     ri_learners = [], ri_voters = [], ri_leader = None, ri_pendingPeers = [], ri_approximateSize = 0 \<rparr>"

definition regionTree_find :: "regionTree \<Rightarrow> RegionInfo \<Rightarrow> regionItem option option" where
  "regionTree_find t region = do {
     result \<leftarrow> DescendLessOrEqual regionItem_Less t (RegionItem region) (\<lambda>i _. (False, Some i)) None;
     Some (case result of
         None \<Rightarrow> None
       | Some r \<Rightarrow> if regionItem_Contains r (GetStartKey region) then Some r else None)
   }"

definition getOverlaps :: "regionTree \<Rightarrow> RegionInfo \<Rightarrow> RegionInfo list option" where
  "getOverlaps t region = do {
     found \<leftarrow> regionTree_find t region;
     let result = (case found of None \<Rightarrow> RegionItem region | Some r \<Rightarrow> r);
     AscendGreaterOrEqual regionItem_Less t result
       (\<lambda>over overlaps.
          if length (GetEndKey region) > 0
            \<and> bytes_compare (GetEndKey region) (GetStartKey (item_region over)) \<le> 0
          then (False, overlaps) else (True, overlaps @ [item_region over])) []
   }"

definition regionTree_update :: "regionTree \<Rightarrow> RegionInfo \<Rightarrow> (regionTree \<times> RegionInfo list) option" where
  "regionTree_update t region = do {
     overlaps \<leftarrow> getOverlaps t region;
     t \<leftarrow> foldM (\<lambda>item t. map_option fst (Delete regionItem_Less t (Some (RegionItem item)))) overlaps t;
     (t, _) \<leftarrow> ReplaceOrInsert regionItem_Less t (Some (RegionItem region));
     Some (t, overlaps)
   }"

definition regionTree_remove :: "regionTree \<Rightarrow> RegionInfo \<Rightarrow> regionTree option" where
  "regionTree_remove t region =
     (if regionTree_length t = 0 then Some t
      else do {
        result \<leftarrow> regionTree_find t region;
        (case result of
           None \<Rightarrow> Some t
         | Some r \<Rightarrow>
             if GetID (item_region r) \<noteq> GetID region then Some t
             else map_option fst (Delete regionItem_Less t (Some r)))
      })"

definition regionTree_search :: "regionTree \<Rightarrow> bytes \<Rightarrow> RegionInfo option option" where
  "regionTree_search t regionKey = do {
     result \<leftarrow> regionTree_find t (key_region regionKey);
     Some (map_option item_region result)
   }"

text \<open>The neighbours of the region that starts at a key; the iterators skip that region itself.\<close>

definition getAdjacentRegions :: "regionTree \<Rightarrow> RegionInfo \<Rightarrow> (regionItem option \<times> regionItem option) option" where
  "getAdjacentRegions t region = do {
     let item = RegionItem (key_region (GetStartKey region));
     let iter = (\<lambda>i s. if GetStartKey (item_region item) = GetStartKey (item_region i) then (True, s)
                       else (False, Some i));
     nxt \<leftarrow> AscendGreaterOrEqual regionItem_Less t item iter None;
     prev \<leftarrow> DescendLessOrEqual regionItem_Less t item iter None;
     Some (prev, nxt)
   }"

definition regionTree_searchPrev :: "regionTree \<Rightarrow> bytes \<Rightarrow> RegionInfo option option" where
  "regionTree_searchPrev t regionKey = do {
     cur \<leftarrow> regionTree_find t (key_region regionKey);
     (case cur of
        None \<Rightarrow> Some None
      | Some curItem \<Rightarrow> do {
          (prev, _) \<leftarrow> getAdjacentRegions t (item_region curItem);
          Some (case prev of
              None \<Rightarrow> None
            | Some p \<Rightarrow> if GetEndKey (item_region p) \<noteq> GetStartKey (item_region curItem) then None
                        else Some (item_region p))
        })
   }"

definition scanRange :: "regionTree \<Rightarrow> bytes \<Rightarrow> (RegionInfo \<Rightarrow> 's \<Rightarrow> bool \<times> 's) \<Rightarrow> 's \<Rightarrow> 's option" where
  "scanRange t startKey f s = do {
     found \<leftarrow> regionTree_find t (key_region startKey);
     let startItem = (case found of None \<Rightarrow> RegionItem (key_region startKey) | Some r \<Rightarrow> r);
     AscendGreaterOrEqual regionItem_Less t startItem (\<lambda>item s. f (item_region item) s) s
   }"

text \<open>The random choice is an argument, a function of the bound given to \<open>rand.Intn\<close>.\<close>

definition RandomRegion :: "(int \<Rightarrow> int) \<Rightarrow> regionTree \<Rightarrow> bytes \<Rightarrow> bytes \<Rightarrow> RegionInfo option option" where
  "RandomRegion Intn t startKey endKey =
     (if regionTree_length t = 0 then Some None
      else do {
        (startRegion, startIndex) \<leftarrow> GetWithIndex regionItem_Less t (RegionItem (key_region startKey));
        endIndex \<leftarrow> (if length endKey \<noteq> 0
          then map_option snd (GetWithIndex regionItem_Less t (RegionItem (key_region endKey)))
          else Some (Len t));
        inPrev \<leftarrow> (if startIndex \<noteq> 0 \<and> startRegion = None then do {
            prev \<leftarrow> GetAt t (startIndex - 1);
            item \<leftarrow> prev;
            Some (regionItem_Contains item startKey)
          } else Some False);
        let startIndex = (if inPrev then startIndex - 1 else startIndex);
        if endIndex \<le> startIndex then Some None
        else do {
          chosen \<leftarrow> GetAt t (Intn (endIndex - startIndex) + startIndex);
          item \<leftarrow> chosen;
          Some (Some (item_region item))
        }
      })"

section \<open>Items meet the contract of the B-tree\<close>

lemma regionItem_Less_iff: "regionItem_Less a b \<longleftrightarrow> GetStartKey (item_region a) < GetStartKey (item_region b)"
  by (simp add: regionItem_Less_def key_order)

interpretation region_item: item_order regionItem_Less
  by unfold_locales (auto simp: regionItem_Less_iff)

section \<open>Disjoint ranges\<close>

text \<open>The regions of a tree, and when they partition (part of) the key space in order.\<close>

definition regs :: "regionTree \<Rightarrow> RegionInfo list" where
  "regs t = map item_region (tree_items t)"

definition before :: "RegionInfo \<Rightarrow> RegionInfo \<Rightarrow> bool" where
  "before a b \<longleftrightarrow> GetEndKey a \<noteq> [] \<and> GetEndKey a \<le> GetStartKey b"

definition info_range_ok :: "RegionInfo \<Rightarrow> bool" where
  "info_range_ok r \<longleftrightarrow> range_ok (GetStartKey r) (GetEndKey r)"

definition ranges_ok :: "RegionInfo list \<Rightarrow> bool" where
  "ranges_ok L \<longleftrightarrow> sorted_wrt before L \<and> (\<forall>r\<in>set L. info_range_ok r)"

definition covers :: "RegionInfo \<Rightarrow> bytes \<Rightarrow> bool" where
  "covers r k \<longleftrightarrow> in_range (GetStartKey r) (GetEndKey r) k"

definition overlapping :: "RegionInfo \<Rightarrow> RegionInfo \<Rightarrow> bool" where
  "overlapping a b \<longleftrightarrow> \<not> before a b \<and> \<not> before b a"

text \<open>The invariant of a region tree.\<close>

definition tree_ok :: "regionTree \<Rightarrow> bool" where
  "tree_ok t \<longleftrightarrow> wf_tree regionItem_Less t \<and> ranges_ok (regs t)"

lemma Contains_iff: "regionItem_Contains r k \<longleftrightarrow> covers (item_region r) k"
  by (simp add: regionItem_Contains_def covers_def in_range_def key_order Let_def)

text \<open>Two ranges overlap iff they share a key.\<close>

lemma overlapping_iff:
  assumes "info_range_ok a" "info_range_ok b"
  shows "overlapping a b \<longleftrightarrow> (\<exists>k. covers a k \<and> covers b k)"
proof
  assume o: "overlapping a b"
  let ?k = "max (GetStartKey a) (GetStartKey b)"
  have "covers a ?k \<and> covers b ?k"
    using o assms by (auto simp: overlapping_def before_def covers_def in_range_def info_range_ok_def range_ok_def max_def not_le)
  then show "\<exists>k. covers a k \<and> covers b k" by blast
next
  assume "\<exists>k. covers a k \<and> covers b k"
  then show "overlapping a b"
    by (auto simp: overlapping_def before_def covers_def in_range_def)
qed

lemma before_start: "before a b \<Longrightarrow> info_range_ok a \<Longrightarrow> GetStartKey a < GetStartKey b"
  by (auto simp: before_def info_range_ok_def range_ok_def)

lemma before_trans: "before a b \<Longrightarrow> before b c \<Longrightarrow> info_range_ok b \<Longrightarrow> before a c"
  by (auto simp: before_def info_range_ok_def range_ok_def)

lemma items_regs: "tree_items t = map RegionItem (regs t)"
  by (simp add: regs_def map_idI)

lemma ranges_starts: "ranges_ok L \<Longrightarrow> sorted_wrt (\<lambda>a b. GetStartKey a < GetStartKey b) L"
  unfolding ranges_ok_def by (induction L) (auto intro: before_start)

lemma ranges_append: "ranges_ok (A @ B) \<longleftrightarrow> ranges_ok A \<and> ranges_ok B \<and> (\<forall>a\<in>set A. \<forall>b\<in>set B. before a b)"
  by (auto simp: ranges_ok_def sorted_wrt_append)

lemma ranges_filter: "ranges_ok L \<Longrightarrow> ranges_ok (filter P L)"
  by (simp add: ranges_ok_def sorted_wrt_filter)

lemma ranges_distinct: "ranges_ok L \<Longrightarrow> distinct L"
  using ranges_starts[of L] by (induction L) (auto simp: ranges_ok_def)

text \<open>At most one region covers a key, and distinct regions do not overlap.\<close>

lemma ranges_unique:
  assumes "ranges_ok L" "a \<in> set L" "b \<in> set L" "overlapping a b"
  shows "a = b"
  using assms
proof (induction L)
  case (Cons x L)
  then show ?case by (auto simp: ranges_ok_def overlapping_def)
qed simp

lemma covers_unique:
  assumes "ranges_ok L" "a \<in> set L" "b \<in> set L" "covers a k" "covers b k"
  shows "a = b"
proof -
  have "info_range_ok a" "info_range_ok b" using assms(1-3) by (auto simp: ranges_ok_def)
  then show ?thesis using assms overlapping_iff ranges_unique by blast
qed

lemma find_covers_iff:
  assumes "ranges_ok L"
  shows "List.find (\<lambda>r. covers r k) L = Some r \<longleftrightarrow> r \<in> set L \<and> covers r k"
proof
  assume "List.find (\<lambda>r. covers r k) L = Some r"
  then show "r \<in> set L \<and> covers r k" by (auto simp: find_Some_iff)
next
  assume r: "r \<in> set L \<and> covers r k"
  then have "List.find (\<lambda>r. covers r k) L \<noteq> None" by (auto simp: find_None_iff)
  then obtain r' where r': "List.find (\<lambda>r. covers r k) L = Some r'" by blast
  then have "r' \<in> set L \<and> covers r' k" by (auto simp: find_Some_iff)
  with r covers_unique[OF assms] have "r' = r" by blast
  with r' show "List.find (\<lambda>r. covers r k) L = Some r" by simp
qed

section \<open>The operations on the regions\<close>

lemma run_iter_first: "snd (run_iter (\<lambda>i _. (False, Some i)) xs None) = (if xs = [] then None else Some (hd xs))"
  by (cases xs) auto

lemma regionTree_find_ok:
  assumes "tree_ok t"
  shows "regionTree_find t q = Some (map_option RegionItem (List.find (\<lambda>r. covers r (GetStartKey q)) (regs t)))"
proof -
  define k where "k = GetStartKey q"
  have wf: "wf_tree regionItem_Less t" and L: "ranges_ok (regs t)" using assms by (auto simp: tree_ok_def)
  define A where "A = filter (\<lambda>r. GetStartKey r \<le> k) (regs t)"
  have "DescendLessOrEqual regionItem_Less t (RegionItem q) (\<lambda>i _. (False, Some i)) None
      = Some (if A = [] then None else Some (RegionItem (last A)))"
    using region_item.scan_descend_ok[OF wf, of True "Some (RegionItem q)" None "\<lambda>i _. (False, Some i)" None]
    by (simp add: DescendLessOrEqual_def region_item.at_most_def region_item.descend_stops_def items_regs
        filter_map comp_def regionItem_Less_iff not_less run_iter_first A_def hd_rev last_map k_def)
  moreover have "List.find (\<lambda>r. covers r k) (regs t) = (if A \<noteq> [] \<and> covers (last A) k then Some (last A) else None)"
  proof (cases "A \<noteq> [] \<and> covers (last A) k")
    case True
    then have "last A \<in> set (regs t)" using last_in_set[of A] by (simp add: A_def)
    with True show ?thesis by (simp add: find_covers_iff[OF L])
  next
    case False
    have "\<not> covers r k" if "r \<in> set (regs t)" for r
    proof
      assume r: "covers r k"
      then have "r \<in> set A" using that by (simp add: A_def covers_def in_range_def)
      then obtain us vs where A: "A = us @ r # vs" by (auto dest: split_list)
      have "vs = []"
      proof (rule ccontr)
        assume "vs \<noteq> []"
        then have v: "last vs \<in> set vs" by simp
        have "ranges_ok (us @ r # vs)" using ranges_filter[OF L, of "\<lambda>r. GetStartKey r \<le> k", folded A_def] A by simp
        with v have "before r (last vs)" by (auto simp: ranges_ok_def sorted_wrt_append)
        moreover have "last vs \<in> set A" using v A by simp
        then have "GetStartKey (last vs) \<le> k" by (simp add: A_def)
        ultimately show False using r by (auto simp: covers_def in_range_def before_def)
      qed
      with A r False show False by simp
    qed
    then show ?thesis using False by (auto simp: find_None_iff)
  qed
  ultimately show ?thesis
    by (simp add: regionTree_find_def Contains_iff k_def split: if_splits)
qed

lemma run_iter_map: "run_iter iter (map f xs) s = run_iter (\<lambda>x. iter (f x)) xs s"
  by (induction xs arbitrary: s) (auto split: prod.splits)

lemma run_iter_while:
  "snd (run_iter (\<lambda>x acc. if P x then (False, acc) else (True, acc @ [f x])) xs acc)
    = acc @ map f (takeWhile (\<lambda>x. \<not> P x) xs)"
  by (induction xs arbitrary: acc) auto

lemma takeWhile_sorted:
  assumes "sorted_wrt R xs" "\<And>a b. a \<in> set xs \<Longrightarrow> b \<in> set xs \<Longrightarrow> R a b \<Longrightarrow> P a \<Longrightarrow> P b"
  shows "takeWhile (\<lambda>x. \<not> P x) xs = filter (\<lambda>x. \<not> P x) xs"
  using assms
proof (induction xs)
  case (Cons x xs)
  have IH: "takeWhile (\<lambda>x. \<not> P x) xs = filter (\<lambda>x. \<not> P x) xs"
    using Cons.prems by (intro Cons.IH) auto
  have "P b" if "P x" "b \<in> set xs" for b
    using Cons.prems(1) that by (intro Cons.prems(2)[of x b]) auto
  then have "P x \<Longrightarrow> filter (\<lambda>x. \<not> P x) xs = []" by (auto simp: filter_empty_conv)
  then show ?case using IH by simp
qed simp

text \<open>The scan from the found item, or from the region itself, starts at the first region that does
  not end before it.\<close>

lemma overlap_start:
  assumes L: "ranges_ok L" and q: "info_range_ok q" and r: "r \<in> set L"
  shows "GetStartKey (case List.find (\<lambda>r. covers r (GetStartKey q)) L of None \<Rightarrow> q | Some r \<Rightarrow> r) \<le> GetStartKey r
    \<longleftrightarrow> \<not> before r q"
proof -
  have ro: "info_range_ok r" using L r by (simp add: ranges_ok_def)
  show ?thesis
  proof (cases "List.find (\<lambda>r. covers r (GetStartKey q)) L")
    case None
    then have "\<not> covers r (GetStartKey q)" using r by (auto simp: find_None_iff)
    then show ?thesis using None ro
      by (auto simp: covers_def in_range_def before_def info_range_ok_def range_ok_def)
  next
    case (Some f)
    then have f: "f \<in> set L" "covers f (GetStartKey q)" using find_covers_iff[OF L] by auto
    consider "r = f" | "before r f" | "before f r"
      using ranges_unique[OF L r f(1)] by (auto simp: overlapping_def)
    then show ?thesis using Some f(2) ro
      by cases (auto simp: covers_def in_range_def before_def info_range_ok_def range_ok_def)
  qed
qed

lemma AscendGreaterOrEqual_regs:
  assumes "wf_tree regionItem_Less t"
  shows "AscendGreaterOrEqual regionItem_Less t (RegionItem q) iter s
    = Some (snd (run_iter (\<lambda>r. iter (RegionItem r)) (filter (\<lambda>r. GetStartKey q \<le> GetStartKey r) (regs t)) s))"
  using region_item.scan_ascend_ok[OF assms, of True "Some (RegionItem q)" None iter s]
  by (simp add: AscendGreaterOrEqual_def region_item.at_least_def region_item.ascend_stops_def
      items_regs filter_map comp_def regionItem_Less_iff not_less run_iter_map)

lemma DescendLessOrEqual_regs:
  assumes "wf_tree regionItem_Less t"
  shows "DescendLessOrEqual regionItem_Less t (RegionItem q) iter s
    = Some (snd (run_iter (\<lambda>r. iter (RegionItem r)) (rev (filter (\<lambda>r. GetStartKey r \<le> GetStartKey q) (regs t))) s))"
  using region_item.scan_descend_ok[OF assms, of True "Some (RegionItem q)" None iter s]
  by (simp add: DescendLessOrEqual_def region_item.at_most_def region_item.descend_stops_def
      items_regs filter_map comp_def regionItem_Less_iff not_less rev_map run_iter_map)

lemma getOverlaps_ok:
  assumes t: "tree_ok t" and q: "info_range_ok q"
  shows "getOverlaps t q = Some (filter (overlapping q) (regs t))"
proof -
  have wf: "wf_tree regionItem_Less t" and L: "ranges_ok (regs t)" using t by (auto simp: tree_ok_def)
  define st where "st = (case List.find (\<lambda>r. covers r (GetStartKey q)) (regs t) of None \<Rightarrow> q | Some r \<Rightarrow> r)"
  define M where "M = filter (\<lambda>r. \<not> before r q) (regs t)"
  have M: "filter (\<lambda>r. GetStartKey st \<le> GetStartKey r) (regs t) = M"
    unfolding M_def st_def using overlap_start[OF L q] by (intro filter_cong) auto
  have "takeWhile (\<lambda>r. \<not> before q r) M = filter (\<lambda>r. \<not> before q r) M"
    using ranges_starts[OF ranges_filter[OF L]] unfolding M_def
    by (rule takeWhile_sorted) (auto simp: before_def)
  also have "\<dots> = filter (overlapping q) (regs t)"
    unfolding M_def filter_filter by (intro filter_cong) (auto simp: overlapping_def)
  finally have tw: "takeWhile (\<lambda>r. \<not> before q r) M = filter (overlapping q) (regs t)" .
  have "getOverlaps t q = AscendGreaterOrEqual regionItem_Less t (RegionItem st)
      (\<lambda>over overlaps. if before q (item_region over) then (False, overlaps) else (True, overlaps @ [item_region over])) []"
    by (simp add: getOverlaps_def regionTree_find_ok[OF t] st_def before_def key_order split: option.splits)
  then show ?thesis by (simp add: AscendGreaterOrEqual_regs[OF wf] M run_iter_while tw)
qed

text \<open>Removing the overlapping regions one at a time, then inserting the new one.\<close>

lemma regs_after:
  "tree_items t' = del_list regionItem_Less (RegionItem r) (tree_items t)
    \<Longrightarrow> regs t' = filter (\<lambda>x. GetStartKey x \<noteq> GetStartKey r) (regs t)"
  by (simp add: regs_def del_list_def filter_map comp_def regionItem_Less_iff neq_iff)

lemma del_starts:
  assumes "ranges_ok L" "r \<in> set L"
  shows "filter (\<lambda>x. GetStartKey x \<noteq> GetStartKey r) L = filter (\<lambda>x. x \<noteq> r) L"
proof (rule filter_cong)
  fix x assume x: "x \<in> set L"
  have "overlapping x r" if "GetStartKey x = GetStartKey r"
    using assms x that by (auto simp: ranges_ok_def overlapping_def before_def info_range_ok_def range_ok_def)
  then show "(GetStartKey x \<noteq> GetStartKey r) = (x \<noteq> r)" using ranges_unique[OF assms(1) x assms(2)] by auto
qed simp

lemma Delete_regs:
  assumes "tree_ok t" "r \<in> set (regs t)"
  shows "\<exists>t' out. Delete regionItem_Less t (Some (RegionItem r)) = Some (t', out) \<and> tree_ok t' \<and> degree t' = degree t
    \<and> regs t' = filter (\<lambda>x. x \<noteq> r) (regs t)"
proof -
  have wf: "wf_tree regionItem_Less t" and L: "ranges_ok (regs t)" using assms by (auto simp: tree_ok_def)
  from region_item.Delete_ok[OF wf, of "RegionItem r"] obtain t' out where
    t': "Delete regionItem_Less t (Some (RegionItem r)) = Some (t', out)" "wf_tree regionItem_Less t'"
      "degree t' = degree t" "tree_items t' = del_list regionItem_Less (RegionItem r) (tree_items t)" by blast
  then have "regs t' = filter (\<lambda>x. x \<noteq> r) (regs t)" using regs_after del_starts[OF L assms(2)] by simp
  with t' L show ?thesis by (auto simp: tree_ok_def ranges_filter)
qed

lemma Delete_all_regs:
  assumes "tree_ok t" "distinct rs" "set rs \<subseteq> set (regs t)"
  shows "\<exists>t'. foldM (\<lambda>item t. map_option fst (Delete regionItem_Less t (Some (RegionItem item)))) rs t = Some t'
    \<and> tree_ok t' \<and> degree t' = degree t \<and> regs t' = filter (\<lambda>x. x \<notin> set rs) (regs t)"
  using assms
proof (induction rs arbitrary: t)
  case (Cons r rs)
  from Cons.prems Delete_regs[of t r] obtain t1 out where
    t1: "Delete regionItem_Less t (Some (RegionItem r)) = Some (t1, out)" "tree_ok t1" "degree t1 = degree t"
      "regs t1 = filter (\<lambda>x. x \<noteq> r) (regs t)" by auto
  have "set rs \<subseteq> set (regs t1)" using Cons.prems t1(4) by auto
  with Cons.IH[of t1] Cons.prems t1(2) obtain t' where
    t': "foldM (\<lambda>item t. map_option fst (Delete regionItem_Less t (Some (RegionItem item)))) rs t1 = Some t'"
      "tree_ok t'" "degree t' = degree t1" "regs t' = filter (\<lambda>x. x \<notin> set rs) (regs t1)" by auto
  have "regs t' = filter (\<lambda>x. x \<notin> set (r # rs)) (regs t)"
    unfolding t'(4) t1(4) filter_filter by (intro filter_cong) auto
  with t1 t' show ?case by simp
qed simp

lemma ranges_insert:
  assumes "ranges_ok L" "info_range_ok q"
  shows "ranges_ok (filter (\<lambda>r. before r q) L @ q # filter (before q) L)"
proof -
  have "before a b" if "before a q" "before q b" for a b using before_trans[OF that assms(2)] .
  with assms ranges_filter[of L] show ?thesis by (auto simp: ranges_ok_def sorted_wrt_append sorted_wrt_filter)
qed

lemma regionTree_update_ok:
  assumes t: "tree_ok t" and q: "info_range_ok q"
  shows "\<exists>t'. regionTree_update t q = Some (t', filter (overlapping q) (regs t)) \<and> tree_ok t' \<and> degree t' = degree t
    \<and> regs t' = filter (\<lambda>r. before r q) (regs t) @ q # filter (before q) (regs t)"
proof -
  have L: "ranges_ok (regs t)" using t by (simp add: tree_ok_def)
  define os where "os = filter (overlapping q) (regs t)"
  have "distinct os" "set os \<subseteq> set (regs t)" using ranges_distinct[OF L] by (auto simp: os_def)
  from Delete_all_regs[OF t this] obtain t1 where
    t1: "foldM (\<lambda>item t. map_option fst (Delete regionItem_Less t (Some (RegionItem item)))) os t = Some t1"
      "tree_ok t1" "degree t1 = degree t" "regs t1 = filter (\<lambda>x. x \<notin> set os) (regs t)" by blast
  from t1(2) have "wf_tree regionItem_Less t1" by (simp add: tree_ok_def)
  from region_item.ReplaceOrInsert_ok[OF this, of "RegionItem q"] obtain t' out where
    t': "ReplaceOrInsert regionItem_Less t1 (Some (RegionItem q)) = Some (t', out)" "wf_tree regionItem_Less t'"
      "degree t' = degree t1" "tree_items t' = ins_list regionItem_Less (RegionItem q) (tree_items t1)" by blast
  have side: "(GetStartKey r < GetStartKey q \<longleftrightarrow> before r q) \<and> (GetStartKey q < GetStartKey r \<longleftrightarrow> before q r)"
    if "r \<in> set (regs t)" "r \<notin> set os" for r
    using that q L by (auto simp: os_def overlapping_def before_def ranges_ok_def info_range_ok_def range_ok_def)
  have os: "r \<notin> set os" if "before r q \<or> before q r" for r using that by (auto simp: os_def overlapping_def)
  have "regs t' = filter (\<lambda>r. GetStartKey r < GetStartKey q) (regs t1) @ q # filter (\<lambda>r. GetStartKey q < GetStartKey r) (regs t1)"
    by (simp add: regs_def t'(4) ins_list_def filter_map comp_def regionItem_Less_iff)
  also have "filter (\<lambda>r. GetStartKey r < GetStartKey q) (regs t1) = filter (\<lambda>r. before r q) (regs t)"
    unfolding t1(4) filter_filter using side os by (intro filter_cong) auto
  also have "filter (\<lambda>r. GetStartKey q < GetStartKey r) (regs t1) = filter (before q) (regs t)"
    unfolding t1(4) filter_filter using side os by (intro filter_cong) auto
  finally have regs: "regs t' = filter (\<lambda>r. before r q) (regs t) @ q # filter (before q) (regs t)" .
  then have "tree_ok t'" using t'(2) ranges_insert[OF L q] by (simp add: tree_ok_def)
  with regs t1 t' show ?thesis by (simp add: regionTree_update_def getOverlaps_ok[OF t q] flip: os_def)
qed

lemma regionTree_length_ok: "tree_ok t \<Longrightarrow> regionTree_length t = int (length (regs t))"
  by (simp add: regionTree_length_def Len_def tree_ok_def wf_tree_def regs_def)

lemma regionTree_remove_ok:
  assumes t: "tree_ok t"
  shows "\<exists>t'. regionTree_remove t q = Some t' \<and> tree_ok t' \<and> degree t' = degree t
    \<and> regs t' = filter (\<lambda>r. \<not> (covers r (GetStartKey q) \<and> GetID r = GetID q)) (regs t)"
proof -
  have L: "ranges_ok (regs t)" using t by (simp add: tree_ok_def)
  let ?keep = "\<lambda>r. \<not> (covers r (GetStartKey q) \<and> GetID r = GetID q)"
  consider (none) "List.find (\<lambda>r. covers r (GetStartKey q)) (regs t) = None"
    | (other) r where "List.find (\<lambda>r. covers r (GetStartKey q)) (regs t) = Some r" "GetID r \<noteq> GetID q"
    | (same) r where "List.find (\<lambda>r. covers r (GetStartKey q)) (regs t) = Some r" "GetID r = GetID q"
    by fastforce
  then show ?thesis
  proof cases
    case none
    then have "filter ?keep (regs t) = regs t" by (auto simp: find_None_iff filter_id_conv)
    with none t show ?thesis by (simp add: regionTree_remove_def regionTree_find_ok)
  next
    case other
    then have "filter ?keep (regs t) = regs t"
      using covers_unique[OF L] by (auto simp: find_covers_iff[OF L] filter_id_conv)
    with other t show ?thesis by (simp add: regionTree_remove_def regionTree_find_ok)
  next
    case same
    then have r: "r \<in> set (regs t)" "covers r (GetStartKey q)" by (auto simp: find_covers_iff[OF L])
    have "filter ?keep (regs t) = filter (\<lambda>x. x \<noteq> r) (regs t)"
      using covers_unique[OF L] r same(2) by (intro filter_cong) auto
    moreover have "regionTree_length t \<noteq> 0" using r(1) regionTree_length_ok[OF t] by (cases "regs t") auto
    ultimately show ?thesis using Delete_regs[OF t r(1)] same t
      by (auto simp: regionTree_remove_def regionTree_find_ok)
  qed
qed

lemma regionTree_search_ok:
  "tree_ok t \<Longrightarrow> regionTree_search t k = Some (List.find (\<lambda>r. covers r k) (regs t))"
  by (simp add: regionTree_search_def regionTree_find_ok key_region_def option.map_comp comp_def option.map_ident)

lemma scanRange_ok:
  assumes t: "tree_ok t"
  shows "scanRange t k f s
    = Some (snd (run_iter f (filter (\<lambda>r. GetEndKey r = [] \<or> k < GetEndKey r) (regs t)) s))"
proof -
  have wf: "wf_tree regionItem_Less t" and L: "ranges_ok (regs t)" using t by (auto simp: tree_ok_def)
  define q where "q = key_region k"
  define st where "st = (case List.find (\<lambda>r. covers r (GetStartKey q)) (regs t) of None \<Rightarrow> q | Some r \<Rightarrow> r)"
  have q: "info_range_ok q" "GetStartKey q = k" by (simp_all add: q_def key_region_def info_range_ok_def range_ok_def)
  have "filter (\<lambda>r. GetStartKey st \<le> GetStartKey r) (regs t) = filter (\<lambda>r. GetEndKey r = [] \<or> k < GetEndKey r) (regs t)"
    unfolding st_def using overlap_start[OF L q(1)] q(2) by (intro filter_cong) (auto simp: before_def)
  moreover have "scanRange t k f s
      = AscendGreaterOrEqual regionItem_Less t (RegionItem st) (\<lambda>item s. f (item_region item) s) s"
    by (simp add: scanRange_def regionTree_find_ok[OF t] st_def flip: q_def split: option.splits)
  ultimately show ?thesis by (simp add: AscendGreaterOrEqual_regs[OF wf])
qed

text \<open>The neighbours of a region of the tree are the elements next to it.\<close>

lemma starts_cut:
  assumes "ranges_ok (A @ c # B)"
  shows "filter (\<lambda>r. GetStartKey r \<le> GetStartKey c) A = A" "filter (\<lambda>r. GetStartKey r \<le> GetStartKey c) B = []"
    "filter (\<lambda>r. GetStartKey c \<le> GetStartKey r) A = []" "filter (\<lambda>r. GetStartKey c \<le> GetStartKey r) B = B"
proof -
  have "\<forall>a\<in>set A. GetStartKey a < GetStartKey c" "\<forall>b\<in>set B. GetStartKey c < GetStartKey b"
    using ranges_starts[OF assms] by (auto simp: sorted_wrt_append)
  then show "filter (\<lambda>r. GetStartKey r \<le> GetStartKey c) A = A" "filter (\<lambda>r. GetStartKey r \<le> GetStartKey c) B = []"
    "filter (\<lambda>r. GetStartKey c \<le> GetStartKey r) A = []" "filter (\<lambda>r. GetStartKey c \<le> GetStartKey r) B = B"
    by (simp_all add: filter_id_conv filter_empty_conv not_le less_imp_le)
qed

lemma run_iter_skip:
  "\<forall>x\<in>set xs. k \<noteq> g x \<Longrightarrow> snd (run_iter (\<lambda>x s. if k = g x then (True, s) else (False, Some (f x))) xs None)
    = (if xs = [] then None else Some (f (hd xs)))"
  by (cases xs) auto

lemma getAdjacentRegions_ok:
  assumes t: "tree_ok t" and c: "regs t = A @ c # B"
  shows "getAdjacentRegions t c = Some (if A = [] then None else Some (RegionItem (last A)),
    if B = [] then None else Some (RegionItem (hd B)))"
proof -
  have wf: "wf_tree regionItem_Less t" and L: "ranges_ok (A @ c # B)" using t c by (auto simp: tree_ok_def)
  have s: "\<forall>a\<in>set A. GetStartKey c \<noteq> GetStartKey a" "\<forall>b\<in>set B. GetStartKey c \<noteq> GetStartKey b"
    using ranges_starts[OF L] by (fastforce simp: sorted_wrt_append)+
  have k: "GetStartKey (key_region (GetStartKey c)) = GetStartKey c" by (simp add: key_region_def)
  show ?thesis
    using run_iter_skip[of "rev A" "GetStartKey c" GetStartKey RegionItem]
      run_iter_skip[of B "GetStartKey c" GetStartKey RegionItem] s
    by (simp add: getAdjacentRegions_def AscendGreaterOrEqual_regs[OF wf] DescendLessOrEqual_regs[OF wf] k
        c starts_cut[OF L] hd_rev)
qed

lemma find_append_cases:
  "List.find P (xs @ ys) = (case List.find P xs of None \<Rightarrow> List.find P ys | Some x \<Rightarrow> Some x)"
  by (induction xs) auto

lemma find_map_option: "List.find P (map f xs) = map_option f (List.find (\<lambda>x. P (f x)) xs)"
  by (induction xs) auto

lemma regionTree_searchPrev_ok:
  assumes t: "tree_ok t"
  shows "regionTree_searchPrev t k = Some (case List.find (\<lambda>r. covers r k) (regs t) of None \<Rightarrow> None
    | Some c \<Rightarrow> List.find (\<lambda>r. GetEndKey r \<noteq> [] \<and> GetEndKey r = GetStartKey c) (regs t))"
proof (cases "List.find (\<lambda>r. covers r k) (regs t)")
  case None
  then show ?thesis using t
    by (simp add: regionTree_searchPrev_def regionTree_find_ok key_region_def)
next
  case (Some c)
  have L: "ranges_ok (regs t)" using t by (simp add: tree_ok_def)
  from Some have "c \<in> set (regs t)" by (simp add: find_covers_iff[OF L])
  then obtain A B where c: "regs t = A @ c # B" by (auto dest: split_list)
  let ?P = "\<lambda>r. GetEndKey r \<noteq> [] \<and> GetEndKey r = GetStartKey c"
  have ord: "ranges_ok (A @ c # B)" using L c by simp
  have after: "\<not> ?P r" if r: "r \<in> set (c # B)" for r
  proof -
    have "GetStartKey c \<le> GetStartKey r" using r ranges_starts[OF ord] by (auto simp: sorted_wrt_append)
    moreover have "info_range_ok r" using r ord by (auto simp: ranges_ok_def)
    ultimately show ?thesis by (auto simp: info_range_ok_def range_ok_def)
  qed
  have "List.find ?P (A @ c # B) = (if A \<noteq> [] \<and> GetEndKey (last A) = GetStartKey c then Some (last A) else None)"
  proof (cases "A = []")
    case False
    then obtain A' a where A: "A = A' @ [a]" by (cases A rule: rev_cases) auto
    have "\<not> ?P r" if r: "r \<in> set A'" for r
    proof -
      have "before r a" using r ord A by (simp add: ranges_ok_def sorted_wrt_append)
      moreover have "GetStartKey a < GetStartKey c" using ranges_starts[OF ord] A by (simp add: sorted_wrt_append)
      ultimately show ?thesis by (auto simp: before_def)
    qed
    moreover have "GetEndKey a \<noteq> []" using ord A by (simp add: ranges_ok_def sorted_wrt_append before_def)
    ultimately have "List.find ?P A' = None" "GetEndKey a \<noteq> []" by (auto simp: find_None_iff)
    moreover have "List.find ?P (c # B) = None" using after by (auto simp: find_None_iff)
    ultimately show ?thesis using A by (simp add: find_append_cases)
  qed (use after in \<open>auto simp: find_None_iff\<close>)
  then show ?thesis using t Some getAdjacentRegions_ok[OF t c]
    by (simp add: regionTree_searchPrev_def regionTree_find_ok key_region_def c)
qed

text \<open>The regions a random choice in a key range picks from: those that reach into it.\<close>

definition candidates :: "bytes \<Rightarrow> bytes \<Rightarrow> RegionInfo list \<Rightarrow> RegionInfo list" where
  "candidates lo hi L = filter (\<lambda>r. (GetEndKey r = [] \<or> lo < GetEndKey r) \<and> (hi = [] \<or> GetStartKey r < hi)) L"

lemma filter_slice:
  assumes "sorted_wrt R xs" "\<And>a b. R a b \<Longrightarrow> P b \<Longrightarrow> P a" "\<And>a b. R a b \<Longrightarrow> Q b \<Longrightarrow> Q a"
  shows "filter (\<lambda>x. \<not> P x \<and> Q x) xs = drop (length (filter P xs)) (take (length (filter Q xs)) xs)"
  using assms
proof (induction xs)
  case (Cons x xs)
  have IH: "filter (\<lambda>x. \<not> P x \<and> Q x) xs = drop (length (filter P xs)) (take (length (filter Q xs)) xs)"
    using Cons by simp
  have R: "\<forall>y\<in>set xs. R x y" using Cons.prems(1) by simp
  have P: "\<not> P x \<Longrightarrow> filter P xs = []" and Q: "\<not> Q x \<Longrightarrow> filter Q xs = []"
    using R Cons.prems(2,3)[of x] by (auto simp: filter_empty_conv)
  show ?case
  proof (cases "Q x")
    case False
    then have "filter (\<lambda>x. \<not> P x \<and> Q x) xs = []" using Q by (auto simp: filter_empty_conv)
    with False Q show ?thesis by simp
  qed (use IH P in \<open>cases "P x"; simp\<close>)
qed simp

lemma candidates_slice:
  assumes L: "ranges_ok L"
  shows "candidates lo hi L = drop (length (filter (\<lambda>r. before r (key_region lo)) L))
    (take (length (filter (\<lambda>r. hi = [] \<or> GetStartKey r < hi) L)) L)"
proof -
  have "sorted_wrt (\<lambda>a b. before a b \<and> info_range_ok b \<and> GetStartKey a < GetStartKey b) L"
    using L ranges_starts[OF L] unfolding ranges_ok_def by (induction L) auto
  from filter_slice[OF this, of "\<lambda>r. before r (key_region lo)" "\<lambda>r. hi = [] \<or> GetStartKey r < hi"]
  show ?thesis
    by (fastforce simp: candidates_def before_def key_region_def not_le info_range_ok_def range_ok_def)
qed

lemma first_candidate:
  fixes lo :: bytes
  assumes L: "ranges_ok L"
  defines "n0 \<equiv> length (filter (\<lambda>r. GetStartKey r < lo) L)"
  shows "length (filter (\<lambda>r. before r (key_region lo)) L)
    = (if n0 \<noteq> 0 \<and> (\<forall>r\<in>set L. GetStartKey r \<noteq> lo) \<and> covers (L ! (n0 - 1)) lo then n0 - 1 else n0)"
proof -
  define A where "A = filter (\<lambda>r. GetStartKey r < lo) L"
  have A: "A = take n0 L"
    using filter_slice[OF ranges_starts[OF L], of "\<lambda>_. False" "\<lambda>r. GetStartKey r < lo"]
    by (auto simp: A_def n0_def)
  have k: "GetStartKey (key_region lo) = lo" by (simp add: key_region_def)
  have "filter (\<lambda>r. before r (key_region lo)) L = filter (\<lambda>r. before r (key_region lo)) A"
    unfolding A_def filter_filter
    using L by (intro filter_cong) (auto simp: before_def k ranges_ok_def info_range_ok_def range_ok_def)
  moreover have "length (filter (\<lambda>r. before r (key_region lo)) A)
    = (if n0 \<noteq> 0 \<and> (\<forall>r\<in>set L. GetStartKey r \<noteq> lo) \<and> covers (L ! (n0 - 1)) lo then n0 - 1 else n0)"
  proof (cases A rule: rev_cases)
    case Nil
    then show ?thesis by (simp add: n0_def A_def)
  next
    case (snoc A' a)
    have n0: "n0 = Suc (length A')" using snoc by (simp add: n0_def flip: A_def)
    have a: "a = L ! (n0 - 1)" "a \<in> set L" "GetStartKey a < lo"
    proof -
      have "A ! length A' = a" using snoc by simp
      then show "a = L ! (n0 - 1)" using A n0 by (simp add: nth_take)
      have "a \<in> set A" using snoc by simp
      then show "a \<in> set L" "GetStartKey a < lo" by (auto simp: A_def)
    qed
    have "ranges_ok A" using ranges_filter[OF L] by (simp add: A_def)
    then have "\<forall>r\<in>set A'. before r (key_region lo)"
      using a(3) by (auto simp: snoc ranges_ok_def sorted_wrt_append before_def k)
    then have "filter (\<lambda>r. before r (key_region lo)) A' = A'" by (simp add: filter_id_conv)
    moreover have "covers a lo \<longleftrightarrow> \<not> before a (key_region lo)"
      using a(3) by (auto simp: covers_def in_range_def before_def k)
    moreover have "before a (key_region lo)" if r: "r \<in> set L" "GetStartKey r = lo" for r
    proof -
      have "info_range_ok r" using L r(1) by (simp add: ranges_ok_def)
      then have "\<not> before r a" using a(3) r(2) by (auto simp: before_def info_range_ok_def range_ok_def)
      moreover have "a \<noteq> r" using a(3) r(2) by auto
      ultimately have "before a r" using ranges_unique[OF L a(2) r(1)] by (auto simp: overlapping_def)
      then show ?thesis using r(2) by (simp add: before_def k)
    qed
    ultimately show ?thesis using n0 a(1) by (auto simp: snoc)
  qed
  ultimately show ?thesis by simp
qed

lemma RandomRegion_ok:
  fixes lo hi :: bytes
  assumes t: "tree_ok t" and Intn: "\<And>n. 0 < n \<Longrightarrow> 0 \<le> Intn n \<and> Intn n < n"
  defines "cs \<equiv> candidates lo hi (regs t)"
  shows "RandomRegion Intn t lo hi = Some (if cs = [] then None else Some (cs ! nat (Intn (int (length cs)))))"
proof -
  have wf: "wf_tree regionItem_Less t" and L: "ranges_ok (regs t)" using t by (auto simp: tree_ok_def)
  note order = region_item.item_order_axioms
  define n0 where "n0 = length (filter (\<lambda>r. GetStartKey r < lo) (regs t))"
  define n where "n = length (filter (\<lambda>r. before r (key_region lo)) (regs t))"
  define m where "m = length (filter (\<lambda>r. hi = [] \<or> GetStartKey r < hi) (regs t))"
  have cs: "cs = drop n (take m (regs t))" unfolding cs_def n_def m_def by (rule candidates_slice[OF L])
  have m: "m \<le> length (regs t)" by (simp add: m_def)
  have n0: "n0 \<le> length (regs t)" by (simp add: n0_def)
  have n: "n = (if n0 \<noteq> 0 \<and> (\<forall>r\<in>set (regs t). GetStartKey r \<noteq> lo) \<and> covers (regs t ! (n0 - 1)) lo then n0 - 1 else n0)"
    unfolding n_def n0_def by (rule first_candidate[OF L])
  have k: "GetStartKey (key_region x) = x" for x by (simp add: key_region_def)
  have Len: "Len t = int (length (regs t))" using regionTree_length_ok[OF t] by (simp add: regionTree_length_def)
  have neither: "\<not> a < b \<and> \<not> b < a \<longleftrightarrow> a = b" for a b :: bytes by auto
  have index: "GetWithIndex regionItem_Less t (RegionItem (key_region x))
      = Some (map_option RegionItem (List.find (\<lambda>r. GetStartKey r = x) (regs t)), int (length (filter (\<lambda>r. GetStartKey r < x) (regs t))))" for x
    by (simp add: GetWithIndex_ok[OF order wf] items_regs find_list_def find_map_option filter_map comp_def
        regionItem_Less_iff k neither)
  have endIndex: "(if length hi \<noteq> 0 then map_option snd (GetWithIndex regionItem_Less t (RegionItem (key_region hi)))
      else Some (Len t)) = Some (int m)"
    by (simp add: index Len m_def)
  have at: "GetAt t i = Some (Some (RegionItem (regs t ! nat i)))" if "0 \<le> i" "i < int (length (regs t))" for i
    using that by (simp add: GetAt_ok[OF wf] Len items_regs nat_less_iff)
  have none: "List.find (\<lambda>r. GetStartKey r = lo) (regs t) = None \<longleftrightarrow> (\<forall>r\<in>set (regs t). GetStartKey r \<noteq> lo)"
    by (auto simp: find_None_iff)
  have inPrev: "(if int n0 \<noteq> 0 \<and> map_option RegionItem (List.find (\<lambda>r. GetStartKey r = lo) (regs t)) = None then do {
            prev \<leftarrow> GetAt t (int n0 - 1);
            item \<leftarrow> prev;
            Some (regionItem_Contains item lo)
          } else Some False) = Some (n \<noteq> n0)"
    using n0 by (auto simp: n none at nat_diff_distrib Contains_iff)
  have start: "(if n \<noteq> n0 then int n0 - 1 else int n0) = int n" using n by auto
  show ?thesis
  proof (cases "m \<le> n")
    case True
    then have "cs = []" using cs by simp
    with True endIndex inPrev start show ?thesis
      by (simp add: RandomRegion_def index flip: n0_def)
  next
    case False
    have len: "int (length cs) = int m - int n" using cs m False by simp
    then have r: "0 \<le> Intn (int m - int n)" "Intn (int m - int n) < int m - int n" using Intn False by auto
    have "regionTree_length t \<noteq> 0" using False m by (auto simp: regionTree_length_ok[OF t])
    then have "RandomRegion Intn t lo hi = Some (Some (regs t ! nat (Intn (int m - int n) + int n)))"
      using endIndex inPrev start False r m at[of "Intn (int m - int n) + int n"]
      by (simp add: RandomRegion_def index Let_def flip: n0_def)
    also have "regs t ! nat (Intn (int m - int n) + int n) = cs ! nat (Intn (int (length cs)))"
      unfolding len using r m False by (simp add: cs nat_add_distrib add.commute)
    finally show ?thesis using len False by auto
  qed
qed

end
