(* ===== verification/Regions_Info.thy ===== *)
theory Regions_Info
  imports Region_Tree
begin

text \<open>
  \<open>RegionsInfo\<close> of \<open>scheduler/server/core/region.go\<close>: the region tree, the map from region id to region,
  and per store the sub-trees of the regions with a leader, a follower, a learner or a pending peer
  there. A method that dereferences nil returns \<open>None\<close>. Sizes are unbounded integers, and a random
  choice is a function argument.

  \<open>regions_ok\<close> says that all six indices describe one list of regions with disjoint ranges and
  distinct ids. \<open>RemoveRegion_ok\<close>, \<open>AddRegion_ok\<close> and \<open>SetRegion_ok\<close> show that it is kept, although
  \<open>AddRegion\<close> passes through states where the tree and the other indices disagree (\<open>rest_ok\<close>). The
  properties at the end state what a caller sees.
\<close>

section \<open>The region map\<close>

record regionMap =
  rm_m :: "(u64, RegionInfo) fmap"
  rm_totalSize :: int
  rm_totalKeys :: int

definition newRegionMap :: regionMap where
  "newRegionMap = \<lparr> rm_m = fmempty, rm_totalSize = 0, rm_totalKeys = 0 \<rparr>"

text \<open>A nil map is \<open>None\<close>.\<close>

definition regionMap_Len :: "regionMap option \<Rightarrow> int" where
  "regionMap_Len rm = (case rm of None \<Rightarrow> 0 | Some rm \<Rightarrow> int (fcard (fmdom (rm_m rm))))"

definition regionMap_Get :: "regionMap option \<Rightarrow> u64 \<Rightarrow> RegionInfo option" where
  "regionMap_Get rm regionID = (case rm of None \<Rightarrow> None | Some rm \<Rightarrow> fmlookup (rm_m rm) regionID)"

definition regionMap_Put :: "regionMap \<Rightarrow> RegionInfo \<Rightarrow> regionMap" where
  "regionMap_Put rm region =
     (let rm = (case fmlookup (rm_m rm) (GetID region) of
                  Some old \<Rightarrow> rm\<lparr> rm_totalSize := rm_totalSize rm - ri_approximateSize old \<rparr>
                | None \<Rightarrow> rm)
      in rm\<lparr> rm_m := fmupd (GetID region) region (rm_m rm),
             rm_totalSize := rm_totalSize rm + ri_approximateSize region \<rparr>)"

definition regionMap_Delete :: "regionMap option \<Rightarrow> u64 \<Rightarrow> regionMap option" where
  "regionMap_Delete rm regionID = map_option (\<lambda>rm.
     case fmlookup (rm_m rm) regionID of
       Some old \<Rightarrow> rm\<lparr> rm_m := fmdrop regionID (rm_m rm), rm_totalSize := rm_totalSize rm - ri_approximateSize old \<rparr>
     | None \<Rightarrow> rm) rm"

definition regionMap_TotalSize :: "regionMap option \<Rightarrow> int" where
  "regionMap_TotalSize rm =
     (case rm of None \<Rightarrow> 0 | Some m \<Rightarrow> if regionMap_Len rm = 0 then 0 else rm_totalSize m)"

section \<open>Sub-trees\<close>

record regionSubTree =
  st_tree :: regionTree
  st_totalSize :: int

definition newRegionSubTree :: "regionSubTree option" where
  "newRegionSubTree = map_option (\<lambda>t. \<lparr> st_tree = t, st_totalSize = 0 \<rparr>) newRegionTree"

definition regionSubTree_length :: "regionSubTree option \<Rightarrow> int" where
  "regionSubTree_length rst = (case rst of None \<Rightarrow> 0 | Some st \<Rightarrow> regionTree_length (st_tree st))"

definition regionSubTree_TotalSize :: "regionSubTree option \<Rightarrow> int" where
  "regionSubTree_TotalSize rst =
     (case rst of None \<Rightarrow> 0 | Some st \<Rightarrow> if regionSubTree_length rst = 0 then 0 else st_totalSize st)"

definition scanRanges :: "regionSubTree option \<Rightarrow> RegionInfo list option" where
  "scanRanges rst =
     (case rst of
        None \<Rightarrow> Some []
      | Some st \<Rightarrow> if regionSubTree_length rst = 0 then Some []
                   else scanRange (st_tree st) [] (\<lambda>region res. (True, res @ [region])) [])"

text \<open>\<open>r.region = region\<close>: the item that was found now holds the new region.\<close>

definition set_item_region :: "regionItem \<Rightarrow> RegionInfo \<Rightarrow> regionTree \<Rightarrow> regionTree" where
  "set_item_region r region t =
     t\<lparr> root := map_option (map_node (\<lambda>i. if i = r then RegionItem region else i)) (root t) \<rparr>"

definition regionSubTree_update :: "regionSubTree \<Rightarrow> RegionInfo \<Rightarrow> regionSubTree option" where
  "regionSubTree_update rst region = do {
     found \<leftarrow> regionTree_find (st_tree rst) region;
     (case found of
        Some r \<Rightarrow> Some (rst\<lparr> st_totalSize := st_totalSize rst + (ri_approximateSize region - ri_approximateSize (item_region r)),
                         st_tree := set_item_region r region (st_tree rst) \<rparr>)
      | None \<Rightarrow> do {
          (t, _) \<leftarrow> regionTree_update (st_tree rst) region;
          Some (rst\<lparr> st_totalSize := st_totalSize rst + ri_approximateSize region, st_tree := t \<rparr>)
        })
   }"

definition regionSubTree_remove :: "regionSubTree option \<Rightarrow> RegionInfo \<Rightarrow> regionSubTree option option" where
  "regionSubTree_remove rst region =
     (case rst of
        None \<Rightarrow> Some None
      | Some st \<Rightarrow> if regionSubTree_length rst = 0 then Some (Some st)
                   else map_option (\<lambda>t. Some (st\<lparr> st_tree := t \<rparr>)) (regionTree_remove (st_tree st) region))"

definition regionSubTree_RandomRegion :: "(int \<Rightarrow> int) \<Rightarrow> regionSubTree option \<Rightarrow> bytes \<Rightarrow> bytes \<Rightarrow> RegionInfo option option" where
  "regionSubTree_RandomRegion Intn rst startKey endKey =
     (case rst of
        None \<Rightarrow> Some None
      | Some st \<Rightarrow> if regionSubTree_length rst = 0 then Some None
                   else RandomRegion Intn (st_tree st) startKey endKey)"

section \<open>The regions of a cluster\<close>

type_synonym storeSubTrees = "(u64, regionSubTree) fmap"

record RegionsInfo =
  rs_tree :: regionTree
  rs_regions :: regionMap
  rs_leaders :: storeSubTrees
  rs_followers :: storeSubTrees
  rs_learners :: storeSubTrees
  rs_pendingPeers :: storeSubTrees

definition NewRegionsInfo :: "RegionsInfo option" where
  "NewRegionsInfo = map_option (\<lambda>t. \<lparr> rs_tree = t, rs_regions = newRegionMap, rs_leaders = fmempty,
     rs_followers = fmempty, rs_learners = fmempty, rs_pendingPeers = fmempty \<rparr>) newRegionTree"

definition GetRegion :: "RegionsInfo \<Rightarrow> u64 \<Rightarrow> RegionInfo option" where
  "GetRegion r regionID = regionMap_Get (Some (rs_regions r)) regionID"

text \<open>\<open>store.update(region)\<close> and \<open>stores[storeID].remove(region)\<close> on the sub-tree of a store.\<close>

definition update_store :: "u64 \<Rightarrow> RegionInfo \<Rightarrow> storeSubTrees \<Rightarrow> storeSubTrees option" where
  "update_store storeID region stores = do {
     store \<leftarrow> (case fmlookup stores storeID of None \<Rightarrow> newRegionSubTree | Some st \<Rightarrow> Some st);
     store \<leftarrow> regionSubTree_update store region;
     Some (fmupd storeID store stores)
   }"

definition remove_store :: "u64 \<Rightarrow> RegionInfo \<Rightarrow> storeSubTrees \<Rightarrow> storeSubTrees option" where
  "remove_store storeID region stores = do {
     store \<leftarrow> regionSubTree_remove (fmlookup stores storeID) region;
     Some (case store of None \<Rightarrow> stores | Some st \<Rightarrow> fmupd storeID st stores)
   }"

definition remove_from_store :: "RegionInfo \<Rightarrow> Peer \<Rightarrow> RegionsInfo \<Rightarrow> RegionsInfo option" where
  "remove_from_store region peer r = do {
     let storeID = peer_StoreId peer;
     leaders \<leftarrow> remove_store storeID region (rs_leaders r);
     followers \<leftarrow> remove_store storeID region (rs_followers r);
     learners \<leftarrow> remove_store storeID region (rs_learners r);
     pendingPeers \<leftarrow> remove_store storeID region (rs_pendingPeers r);
     Some (r\<lparr> rs_leaders := leaders, rs_followers := followers, rs_learners := learners, rs_pendingPeers := pendingPeers \<rparr>)
   }"

definition RemoveRegion :: "RegionsInfo \<Rightarrow> RegionInfo \<Rightarrow> RegionsInfo option" where
  "RemoveRegion r region = do {
     t \<leftarrow> regionTree_remove (rs_tree r) region;
     m \<leftarrow> regionMap_Delete (Some (rs_regions r)) (GetID region);
     foldM (remove_from_store region) (rg_Peers (ri_meta region)) (r\<lparr> rs_tree := t, rs_regions := m \<rparr>)
   }"

definition add_voter :: "RegionInfo \<Rightarrow> Peer \<Rightarrow> RegionsInfo \<Rightarrow> RegionsInfo option" where
  "add_voter region peer r =
     (if peer_Id peer = GetPeerId (ri_leader region)
      then map_option (\<lambda>m. r\<lparr> rs_leaders := m \<rparr>) (update_store (peer_StoreId peer) region (rs_leaders r))
      else map_option (\<lambda>m. r\<lparr> rs_followers := m \<rparr>) (update_store (peer_StoreId peer) region (rs_followers r)))"

definition add_learner :: "RegionInfo \<Rightarrow> Peer \<Rightarrow> RegionsInfo \<Rightarrow> RegionsInfo option" where
  "add_learner region peer r =
     map_option (\<lambda>m. r\<lparr> rs_learners := m \<rparr>) (update_store (peer_StoreId peer) region (rs_learners r))"

definition add_pending :: "RegionInfo \<Rightarrow> Peer \<Rightarrow> RegionsInfo \<Rightarrow> RegionsInfo option" where
  "add_pending region peer r =
     map_option (\<lambda>m. r\<lparr> rs_pendingPeers := m \<rparr>) (update_store (peer_StoreId peer) region (rs_pendingPeers r))"

text \<open>Removing a region that the map does not have dereferences nil.\<close>

definition remove_overlap :: "RegionInfo \<Rightarrow> RegionsInfo \<Rightarrow> RegionsInfo option" where
  "remove_overlap item r = do {
     region \<leftarrow> GetRegion r (GetID item);
     RemoveRegion r region
   }"

definition AddRegion :: "RegionsInfo \<Rightarrow> RegionInfo \<Rightarrow> (RegionsInfo \<times> RegionInfo list) option" where
  "AddRegion r region = do {
     (t, overlaps) \<leftarrow> regionTree_update (rs_tree r) region;
     r \<leftarrow> foldM remove_overlap overlaps (r\<lparr> rs_tree := t \<rparr>);
     let r = r\<lparr> rs_regions := regionMap_Put (rs_regions r) region \<rparr>;
     r \<leftarrow> foldM (add_voter region) (ri_voters region) r;
     r \<leftarrow> foldM (add_learner region) (ri_learners region) r;
     r \<leftarrow> foldM (add_pending region) (ri_pendingPeers region) r;
     Some (r, overlaps)
   }"

definition SetRegion :: "RegionsInfo \<Rightarrow> RegionInfo \<Rightarrow> (RegionsInfo \<times> RegionInfo list) option" where
  "SetRegion r region = do {
     r \<leftarrow> (case GetRegion r (GetID region) of None \<Rightarrow> Some r | Some origin \<Rightarrow> RemoveRegion r origin);
     AddRegion r region
   }"

definition RegionsInfo_Length :: "RegionsInfo \<Rightarrow> int" where
  "RegionsInfo_Length r = regionMap_Len (Some (rs_regions r))"

definition TreeLength :: "RegionsInfo \<Rightarrow> int" where
  "TreeLength r = regionTree_length (rs_tree r)"

definition GetOverlaps :: "RegionsInfo \<Rightarrow> RegionInfo \<Rightarrow> RegionInfo list option" where
  "GetOverlaps r region = getOverlaps (rs_tree r) region"

definition SearchRegion :: "RegionsInfo \<Rightarrow> bytes \<Rightarrow> RegionInfo option option" where
  "SearchRegion r regionKey = do {
     region \<leftarrow> regionTree_search (rs_tree r) regionKey;
     Some (case region of None \<Rightarrow> None | Some region \<Rightarrow> GetRegion r (GetID region))
   }"

definition SearchPrevRegion :: "RegionsInfo \<Rightarrow> bytes \<Rightarrow> RegionInfo option option" where
  "SearchPrevRegion r regionKey = do {
     region \<leftarrow> regionTree_searchPrev (rs_tree r) regionKey;
     Some (case region of None \<Rightarrow> None | Some region \<Rightarrow> GetRegion r (GetID region))
   }"

definition GetRegions :: "RegionsInfo \<Rightarrow> RegionInfo set" where
  "GetRegions r = fset (fmran (rm_m (rs_regions r)))"

definition GetMetaRegions :: "RegionsInfo \<Rightarrow> Region set" where
  "GetMetaRegions r = ri_meta ` fset (fmran (rm_m (rs_regions r)))"

definition GetStoreRegions :: "RegionsInfo \<Rightarrow> u64 \<Rightarrow> RegionInfo list option" where
  "GetStoreRegions r storeID = do {
     leaders \<leftarrow> scanRanges (fmlookup (rs_leaders r) storeID);
     followers \<leftarrow> scanRanges (fmlookup (rs_followers r) storeID);
     Some (leaders @ followers)
   }"

definition GetStoreLeaderRegionSize :: "RegionsInfo \<Rightarrow> u64 \<Rightarrow> int" where
  "GetStoreLeaderRegionSize r storeID = regionSubTree_TotalSize (fmlookup (rs_leaders r) storeID)"

definition GetStoreFollowerRegionSize :: "RegionsInfo \<Rightarrow> u64 \<Rightarrow> int" where
  "GetStoreFollowerRegionSize r storeID = regionSubTree_TotalSize (fmlookup (rs_followers r) storeID)"

definition GetStoreLearnerRegionSize :: "RegionsInfo \<Rightarrow> u64 \<Rightarrow> int" where
  "GetStoreLearnerRegionSize r storeID = regionSubTree_TotalSize (fmlookup (rs_learners r) storeID)"

definition GetStoreRegionSize :: "RegionsInfo \<Rightarrow> u64 \<Rightarrow> int" where
  "GetStoreRegionSize r storeID =
     GetStoreLeaderRegionSize r storeID + GetStoreFollowerRegionSize r storeID + GetStoreLearnerRegionSize r storeID"

definition GetRegionCount :: "RegionsInfo \<Rightarrow> int" where
  "GetRegionCount r = regionMap_Len (Some (rs_regions r))"

definition GetStorePendingPeerCount :: "RegionsInfo \<Rightarrow> u64 \<Rightarrow> int" where
  "GetStorePendingPeerCount r storeID = regionSubTree_length (fmlookup (rs_pendingPeers r) storeID)"

definition GetStoreLeaderCount :: "RegionsInfo \<Rightarrow> u64 \<Rightarrow> int" where
  "GetStoreLeaderCount r storeID = regionSubTree_length (fmlookup (rs_leaders r) storeID)"

definition GetStoreFollowerCount :: "RegionsInfo \<Rightarrow> u64 \<Rightarrow> int" where
  "GetStoreFollowerCount r storeID = regionSubTree_length (fmlookup (rs_followers r) storeID)"

definition GetStoreLearnerCount :: "RegionsInfo \<Rightarrow> u64 \<Rightarrow> int" where
  "GetStoreLearnerCount r storeID = regionSubTree_length (fmlookup (rs_learners r) storeID)"

definition GetStoreRegionCount :: "RegionsInfo \<Rightarrow> u64 \<Rightarrow> int" where
  "GetStoreRegionCount r storeID =
     GetStoreLeaderCount r storeID + GetStoreFollowerCount r storeID + GetStoreLearnerCount r storeID"

text \<open>Both panic when the store has no sub-tree or the sub-tree no such region.\<close>

definition RegionsInfo_GetLeader :: "RegionsInfo \<Rightarrow> u64 \<Rightarrow> RegionInfo \<Rightarrow> RegionInfo option" where
  "RegionsInfo_GetLeader r storeID region = do {
     st \<leftarrow> fmlookup (rs_leaders r) storeID;
     found \<leftarrow> regionTree_find (st_tree st) region;
     map_option item_region found
   }"

definition RegionsInfo_GetFollower :: "RegionsInfo \<Rightarrow> u64 \<Rightarrow> RegionInfo \<Rightarrow> RegionInfo option" where
  "RegionsInfo_GetFollower r storeID region = do {
     st \<leftarrow> fmlookup (rs_followers r) storeID;
     found \<leftarrow> regionTree_find (st_tree st) region;
     map_option item_region found
   }"

definition ScanRange :: "RegionsInfo \<Rightarrow> bytes \<Rightarrow> bytes \<Rightarrow> int \<Rightarrow> RegionInfo option list option" where
  "ScanRange r startKey endKey limit =
     scanRange (rs_tree r) startKey (\<lambda>region res.
       if length endKey > 0 \<and> bytes_compare (GetStartKey region) endKey \<ge> 0 then (False, res)
       else if limit > 0 \<and> int (length res) \<ge> limit then (False, res)
       else (True, res @ [GetRegion r (GetID region)])) []"

text \<open>Go's division rounds towards zero.\<close>

definition GetAverageRegionSize :: "RegionsInfo \<Rightarrow> int" where
  "GetAverageRegionSize r =
     (let n = regionMap_Len (Some (rs_regions r)) in
      if n = 0 then 0
      else (let total = regionMap_TotalSize (Some (rs_regions r)) in sgn total * (\<bar>total\<bar> div n)))"

definition randomRegionMaxRetry :: nat where
  "randomRegionMaxRetry = 10"

text \<open>\<open>pick i\<close> is what \<open>RandomRegion(nil, nil)\<close> of the container returns in round \<open>i\<close>.\<close>

fun randRegion_from :: "(nat \<Rightarrow> RegionInfo option option) \<Rightarrow> RegionOption list \<Rightarrow> nat \<Rightarrow> nat \<Rightarrow> RegionInfo option option" where
  "randRegion_from pick opts i 0 = Some None"
| "randRegion_from pick opts i (Suc n) = do {
     region \<leftarrow> pick i;
     (case region of
        None \<Rightarrow> Some None
      | Some region \<Rightarrow>
          if list_all (\<lambda>opt. opt region) opts then Some (Some region)
          else randRegion_from pick opts (Suc i) n)
   }"

definition randRegion :: "(nat \<Rightarrow> RegionInfo option option) \<Rightarrow> RegionOption list \<Rightarrow> RegionInfo option option" where
  "randRegion pick opts = randRegion_from pick opts 0 randomRegionMaxRetry"

definition RandRegion :: "(nat \<Rightarrow> int \<Rightarrow> int) \<Rightarrow> RegionsInfo \<Rightarrow> RegionOption list \<Rightarrow> RegionInfo option option" where
  "RandRegion Intn r opts = randRegion (\<lambda>i. RandomRegion (Intn i) (rs_tree r) [] []) opts"

definition RandPendingRegion :: "(nat \<Rightarrow> int \<Rightarrow> int) \<Rightarrow> RegionsInfo \<Rightarrow> u64 \<Rightarrow> RegionOption list \<Rightarrow> RegionInfo option option" where
  "RandPendingRegion Intn r storeID opts =
     randRegion (\<lambda>i. regionSubTree_RandomRegion (Intn i) (fmlookup (rs_pendingPeers r) storeID) [] []) opts"

definition RandLeaderRegion :: "(nat \<Rightarrow> int \<Rightarrow> int) \<Rightarrow> RegionsInfo \<Rightarrow> u64 \<Rightarrow> RegionOption list \<Rightarrow> RegionInfo option option" where
  "RandLeaderRegion Intn r storeID opts =
     randRegion (\<lambda>i. regionSubTree_RandomRegion (Intn i) (fmlookup (rs_leaders r) storeID) [] []) opts"

definition RandFollowerRegion :: "(nat \<Rightarrow> int \<Rightarrow> int) \<Rightarrow> RegionsInfo \<Rightarrow> u64 \<Rightarrow> RegionOption list \<Rightarrow> RegionInfo option option" where
  "RandFollowerRegion Intn r storeID opts =
     randRegion (\<lambda>i. regionSubTree_RandomRegion (Intn i) (fmlookup (rs_followers r) storeID) [] []) opts"

section \<open>The invariant\<close>

text \<open>The role a region has on a store decides which sub-tree of the store holds it.\<close>

definition leads_on :: "u64 \<Rightarrow> RegionInfo \<Rightarrow> bool" where
  "leads_on s r \<longleftrightarrow> (\<exists>p\<in>set (ri_voters r). peer_StoreId p = s \<and> peer_Id p = GetPeerId (ri_leader r))"

definition follows_on :: "u64 \<Rightarrow> RegionInfo \<Rightarrow> bool" where
  "follows_on s r \<longleftrightarrow> (\<exists>p\<in>set (ri_voters r). peer_StoreId p = s \<and> peer_Id p \<noteq> GetPeerId (ri_leader r))"

definition learns_on :: "u64 \<Rightarrow> RegionInfo \<Rightarrow> bool" where
  "learns_on s r \<longleftrightarrow> (\<exists>p\<in>set (ri_learners r). peer_StoreId p = s)"

definition pends_on :: "u64 \<Rightarrow> RegionInfo \<Rightarrow> bool" where
  "pends_on s r \<longleftrightarrow> (\<exists>p\<in>set (ri_pendingPeers r). peer_StoreId p = s)"

text \<open>A region info that can be stored: its range is not empty and each of its voters, learners and
  pending peers is on a store that has a peer of the region.\<close>

definition info_valid :: "RegionInfo \<Rightarrow> bool" where
  "info_valid r \<longleftrightarrow> info_range_ok r \<and>
     peer_StoreId ` (set (ri_voters r) \<union> set (ri_learners r) \<union> set (ri_pendingPeers r))
       \<subseteq> peer_StoreId ` set (rg_Peers (ri_meta r))"

definition trees_ok :: "storeSubTrees \<Rightarrow> bool" where
  "trees_ok m \<longleftrightarrow> (\<forall>s st. fmlookup m s = Some st \<longrightarrow> tree_ok (st_tree st))"

definition sub_regs :: "storeSubTrees \<Rightarrow> u64 \<Rightarrow> RegionInfo list" where
  "sub_regs m s = (case fmlookup m s of None \<Rightarrow> [] | Some st \<Rightarrow> regs (st_tree st))"

definition subs_ok :: "(u64 \<Rightarrow> RegionInfo \<Rightarrow> bool) \<Rightarrow> RegionInfo list \<Rightarrow> storeSubTrees \<Rightarrow> bool" where
  "subs_ok role L m \<longleftrightarrow> trees_ok m \<and> (\<forall>s. sub_regs m s = filter (role s) L)"

definition map_ok :: "RegionInfo list \<Rightarrow> regionMap \<Rightarrow> bool" where
  "map_ok L rm \<longleftrightarrow> (\<forall>i r. fmlookup (rm_m rm) i = Some r \<longleftrightarrow> r \<in> set L \<and> GetID r = i)
     \<and> rm_totalSize rm = (\<Sum>r\<in>set L. ri_approximateSize r)"

text \<open>Everything but the tree agrees with the list \<open>L\<close> of regions.\<close>

definition rest_ok :: "RegionInfo list \<Rightarrow> RegionsInfo \<Rightarrow> bool" where
  "rest_ok L R \<longleftrightarrow> ranges_ok L \<and> distinct (map GetID L) \<and> (\<forall>r\<in>set L. info_valid r)
     \<and> map_ok L (rs_regions R)
     \<and> subs_ok leads_on L (rs_leaders R) \<and> subs_ok follows_on L (rs_followers R)
     \<and> subs_ok learns_on L (rs_learners R) \<and> subs_ok pends_on L (rs_pendingPeers R)"

definition regions_ok :: "RegionsInfo \<Rightarrow> bool" where
  "regions_ok R \<longleftrightarrow> tree_ok (rs_tree R) \<and> rest_ok (regs (rs_tree R)) R"

section \<open>Removing a region\<close>

definition same_region :: "RegionInfo \<Rightarrow> RegionInfo \<Rightarrow> bool" where
  "same_region q r \<longleftrightarrow> covers r (GetStartKey q) \<and> GetID r = GetID q"

definition purged :: "RegionInfo \<Rightarrow> u64 set \<Rightarrow> storeSubTrees \<Rightarrow> storeSubTrees \<Rightarrow> bool" where
  "purged q S m m' \<longleftrightarrow> trees_ok m'
     \<and> (\<forall>s. sub_regs m' s = (if s \<in> S then filter (\<lambda>r. \<not> same_region q r) (sub_regs m s) else sub_regs m s))"

lemma purged_trees: "purged q S m m' \<Longrightarrow> trees_ok m'"
  by (simp add: purged_def)

lemma purged_refl: "trees_ok m \<Longrightarrow> purged q {} m m"
  by (simp add: purged_def)

lemma purged_step: "purged q {s} m m1 \<Longrightarrow> purged q S m1 m2 \<Longrightarrow> purged q (insert s S) m m2"
  by (auto simp: purged_def filter_filter)

lemma remove_store_ok:
  assumes "trees_ok m"
  shows "\<exists>m'. remove_store s q m = Some m' \<and> purged q {s} m m'"
proof (cases "fmlookup m s")
  case None
  then show ?thesis using assms
    by (simp add: remove_store_def regionSubTree_remove_def purged_def sub_regs_def)
next
  case (Some st)
  with assms have t: "tree_ok (st_tree st)" by (simp add: trees_ok_def)
  from regionTree_remove_ok[OF t, of q] obtain t' where
    t': "regionTree_remove (st_tree st) q = Some t'" "tree_ok t'"
      "regs t' = filter (\<lambda>r. \<not> same_region q r) (regs (st_tree st))" by (auto simp: same_region_def)
  show ?thesis
  proof (cases "regionTree_length (st_tree st) = 0")
    case True
    then have "regs (st_tree st) = []" by (simp add: regionTree_length_ok[OF t])
    with True Some assms show ?thesis
      by (simp add: remove_store_def regionSubTree_remove_def regionSubTree_length_def purged_def sub_regs_def
          trees_ok_def)
  next
    case False
    with Some t' assms show ?thesis
      by (simp add: remove_store_def regionSubTree_remove_def regionSubTree_length_def purged_def sub_regs_def
          trees_ok_def)
  qed
qed

lemma remove_from_store_ok:
  assumes "trees_ok (rs_leaders R)" "trees_ok (rs_followers R)" "trees_ok (rs_learners R)" "trees_ok (rs_pendingPeers R)"
  obtains R' where "remove_from_store q p R = Some R'" "rs_tree R' = rs_tree R" "rs_regions R' = rs_regions R"
    "purged q {peer_StoreId p} (rs_leaders R) (rs_leaders R')" "purged q {peer_StoreId p} (rs_followers R) (rs_followers R')"
    "purged q {peer_StoreId p} (rs_learners R) (rs_learners R')"
    "purged q {peer_StoreId p} (rs_pendingPeers R) (rs_pendingPeers R')"
proof -
  let ?s = "peer_StoreId p"
  from assms[THEN remove_store_ok, of ?s q] obtain a b c d where
    "remove_store ?s q (rs_leaders R) = Some a" "purged q {?s} (rs_leaders R) a"
    "remove_store ?s q (rs_followers R) = Some b" "purged q {?s} (rs_followers R) b"
    "remove_store ?s q (rs_learners R) = Some c" "purged q {?s} (rs_learners R) c"
    "remove_store ?s q (rs_pendingPeers R) = Some d" "purged q {?s} (rs_pendingPeers R) d" by blast
  then show thesis
    by (intro that[of "R\<lparr> rs_leaders := a, rs_followers := b, rs_learners := c, rs_pendingPeers := d \<rparr>"])
      (auto simp: remove_from_store_def)
qed

lemma remove_from_stores_ok:
  assumes "trees_ok (rs_leaders R)" "trees_ok (rs_followers R)" "trees_ok (rs_learners R)" "trees_ok (rs_pendingPeers R)"
  shows "\<exists>R'. foldM (remove_from_store q) ps R = Some R' \<and> rs_tree R' = rs_tree R \<and> rs_regions R' = rs_regions R
    \<and> purged q (peer_StoreId ` set ps) (rs_leaders R) (rs_leaders R')
    \<and> purged q (peer_StoreId ` set ps) (rs_followers R) (rs_followers R')
    \<and> purged q (peer_StoreId ` set ps) (rs_learners R) (rs_learners R')
    \<and> purged q (peer_StoreId ` set ps) (rs_pendingPeers R) (rs_pendingPeers R')"
  using assms
proof (induction ps arbitrary: R)
  case Nil
  then show ?case by (simp add: purged_refl)
next
  case (Cons p ps)
  from Cons.prems obtain R1 where R1: "remove_from_store q p R = Some R1" "rs_tree R1 = rs_tree R" "rs_regions R1 = rs_regions R"
    "purged q {peer_StoreId p} (rs_leaders R) (rs_leaders R1)" "purged q {peer_StoreId p} (rs_followers R) (rs_followers R1)"
    "purged q {peer_StoreId p} (rs_learners R) (rs_learners R1)"
    "purged q {peer_StoreId p} (rs_pendingPeers R) (rs_pendingPeers R1)"
    by (rule remove_from_store_ok)
  from Cons.IH[OF R1(4-7)[THEN purged_trees]] R1 show ?case
    by (auto intro: purged_step)
qed

lemma same_region_iff:
  assumes "ranges_ok L" "distinct (map GetID L)" "q \<in> set L" "r \<in> set L"
  shows "same_region q r \<longleftrightarrow> r = q"
proof
  assume "same_region q r"
  then show "r = q" using assms by (auto simp: same_region_def distinct_map dest: inj_onD)
next
  assume "r = q"
  then show "same_region q r"
    using assms by (auto simp: same_region_def ranges_ok_def covers_def in_range_def info_range_ok_def range_ok_def)
qed

lemma purged_ok:
  assumes m: "subs_ok role L m" "purged q S m m'" and L: "ranges_ok L" "distinct (map GetID L)" "q \<in> set L"
    and S: "\<And>s. role s q \<Longrightarrow> s \<in> S"
  shows "subs_ok role (filter (\<lambda>r. r \<noteq> q) L) m'"
proof -
  have "same_region q r \<longleftrightarrow> r = q" if "r \<in> set L" for r using same_region_iff[OF L that] .
  then have "sub_regs m' s = filter (role s) (filter (\<lambda>r. r \<noteq> q) L)" for s
    using m S[of s] by (auto simp: subs_ok_def purged_def filter_filter intro!: filter_cong)
  then show ?thesis using m(2) by (simp add: subs_ok_def purged_def)
qed

lemma map_Delete_ok:
  assumes "map_ok L rm" "q \<in> set L" "distinct (map GetID L)"
  shows "\<exists>rm'. regionMap_Delete (Some rm) (GetID q) = Some rm' \<and> map_ok (filter (\<lambda>r. r \<noteq> q) L) rm'"
proof -
  have q: "fmlookup (rm_m rm) (GetID q) = Some q" using assms by (simp add: map_ok_def)
  have same: "r = q" if "r \<in> set L" "GetID r = GetID q" for r
    using assms(2,3) that by (auto simp: distinct_map dest: inj_onD)
  have "{r \<in> set L. r \<noteq> q} = set L - {q}" by auto
  then have sum: "sum ri_approximateSize {r \<in> set L. r \<noteq> q} = sum ri_approximateSize (set L) - ri_approximateSize q"
    using assms(2) by (simp add: sum_diff1)
  have "regionMap_Delete (Some rm) (GetID q) = Some (rm\<lparr> rm_m := fmdrop (GetID q) (rm_m rm),
      rm_totalSize := rm_totalSize rm - ri_approximateSize q \<rparr>)" (is "_ = Some ?rm")
    using q by (simp add: regionMap_Delete_def)
  moreover have "map_ok (filter (\<lambda>r. r \<noteq> q) L) ?rm"
    using assms(1,2) same by (auto simp: map_ok_def sum)
  ultimately show ?thesis by blast
qed

lemma RemoveRegion_rest:
  assumes R: "rest_ok L R" "tree_ok (rs_tree R)" and q: "q \<in> set L"
  obtains R' where "RemoveRegion R q = Some R'" "rest_ok (filter (\<lambda>r. r \<noteq> q) L) R'" "tree_ok (rs_tree R')"
    "regs (rs_tree R') = filter (\<lambda>r. \<not> same_region q r) (regs (rs_tree R))"
proof -
  have L: "ranges_ok L" "distinct (map GetID L)" "\<forall>r\<in>set L. info_valid r" using R(1) by (auto simp: rest_ok_def)
  from regionTree_remove_ok[OF R(2), of q] obtain t where
    t: "regionTree_remove (rs_tree R) q = Some t" "tree_ok t" "regs t = filter (\<lambda>r. \<not> same_region q r) (regs (rs_tree R))"
    by (auto simp: same_region_def)
  from R(1) q L(2) map_Delete_ok[of L "rs_regions R" q] obtain m where
    m: "regionMap_Delete (Some (rs_regions R)) (GetID q) = Some m" "map_ok (filter (\<lambda>r. r \<noteq> q) L) m"
    by (auto simp: rest_ok_def)
  let ?R = "R\<lparr> rs_tree := t, rs_regions := m \<rparr>" and ?S = "peer_StoreId ` set (rg_Peers (ri_meta q))"
  have subs: "subs_ok leads_on L (rs_leaders R)" "subs_ok follows_on L (rs_followers R)"
    "subs_ok learns_on L (rs_learners R)" "subs_ok pends_on L (rs_pendingPeers R)" using R(1) by (auto simp: rest_ok_def)
  then have "trees_ok (rs_leaders ?R)" "trees_ok (rs_followers ?R)" "trees_ok (rs_learners ?R)" "trees_ok (rs_pendingPeers ?R)"
    by (auto simp: subs_ok_def)
  from remove_from_stores_ok[OF this, of q "rg_Peers (ri_meta q)"] obtain R' where
    R': "foldM (remove_from_store q) (rg_Peers (ri_meta q)) ?R = Some R'" "rs_tree R' = t" "rs_regions R' = m"
      "purged q ?S (rs_leaders R) (rs_leaders R')" "purged q ?S (rs_followers R) (rs_followers R')"
      "purged q ?S (rs_learners R) (rs_learners R')" "purged q ?S (rs_pendingPeers R) (rs_pendingPeers R')" by auto
  have roles: "leads_on s q \<Longrightarrow> s \<in> ?S" "follows_on s q \<Longrightarrow> s \<in> ?S" "learns_on s q \<Longrightarrow> s \<in> ?S" "pends_on s q \<Longrightarrow> s \<in> ?S" for s
    using L(3) q by (auto simp: info_valid_def leads_on_def follows_on_def learns_on_def pends_on_def)
  note purge = purged_ok[OF _ _ L(1,2) q]
  have "rest_ok (filter (\<lambda>r. r \<noteq> q) L) R'"
    using L m(2) R'(3) purge[OF subs(1) R'(4) roles(1)] purge[OF subs(2) R'(5) roles(2)]
      purge[OF subs(3) R'(6) roles(3)] purge[OF subs(4) R'(7) roles(4)]
    by (auto simp: rest_ok_def ranges_filter distinct_map_filter)
  with t m R' show thesis by (intro that[of R']) (simp_all add: RemoveRegion_def)
qed

section \<open>Adding a region\<close>

definition place :: "RegionInfo \<Rightarrow> RegionInfo list \<Rightarrow> RegionInfo list" where
  "place q L = filter (\<lambda>r. before r q) L @ q # filter (before q) L"

definition clear_of :: "RegionInfo \<Rightarrow> RegionInfo list \<Rightarrow> bool" where
  "clear_of q L \<longleftrightarrow> (\<forall>r\<in>set L. r = q \<or> \<not> overlapping q r)"

lemma not_before_self: "info_range_ok q \<Longrightarrow> \<not> before q q"
  by (auto simp: before_def info_range_ok_def range_ok_def)

lemma before_asym: "before a b \<Longrightarrow> info_range_ok a \<Longrightarrow> info_range_ok b \<Longrightarrow> \<not> before b a"
  by (auto simp: before_def info_range_ok_def range_ok_def)

lemma place_split:
  assumes "ranges_ok L" "info_range_ok q" "\<forall>r\<in>set L. \<not> overlapping q r"
  shows "L = filter (\<lambda>r. before r q) L @ filter (before q) L"
  using assms
proof (induction L)
  case (Cons x L)
  have IH: "L = filter (\<lambda>r. before r q) L @ filter (before q) L" using Cons by (auto simp: ranges_ok_def)
  have x: "info_range_ok x" "\<forall>r\<in>set L. before x r \<and> info_range_ok r" using Cons.prems(1) by (auto simp: ranges_ok_def)
  consider "before x q" "\<not> before q x" | "before q x" "\<not> before x q"
    using Cons.prems(2,3) x(1) before_asym by (auto simp: overlapping_def)
  then show ?case
  proof cases
    case 1
    with IH show ?thesis by simp
  next
    case 2
    have "\<forall>r\<in>set L. before q r" using before_trans[OF 2(1) _ x(1)] x(2) by blast
    then have "filter (\<lambda>r. before r q) L = []" "filter (before q) L = L"
      using before_asym Cons.prems(2) x(2) by (auto simp: filter_empty_conv filter_id_conv)
    with 2 show ?thesis by simp
  qed
qed simp

lemma place_mem:
  assumes "ranges_ok L" "q \<in> set L"
  shows "place q L = L"
proof -
  from assms(2) obtain A B where L: "L = A @ q # B" by (auto dest: split_list)
  have o: "\<forall>a\<in>set A. before a q \<and> \<not> before q a" "\<forall>b\<in>set B. before q b \<and> \<not> before b q" "\<not> before q q"
    using assms(1) before_asym not_before_self by (auto simp: L ranges_ok_def sorted_wrt_append)
  then have "filter (\<lambda>r. before r q) L = A" "filter (before q) L = B"
    by (auto simp: L filter_id_conv filter_empty_conv)
  then show ?thesis by (simp add: place_def L)
qed

lemma place_ranges: "ranges_ok L \<Longrightarrow> info_range_ok q \<Longrightarrow> ranges_ok (place q L)"
  unfolding place_def by (rule ranges_insert)

lemma place_in [simp]: "q \<in> set (place q L)"
  by (simp add: place_def)

lemma place_set:
  assumes "clear_of q L"
  shows "set (place q L) = insert q (set L)"
  using assms by (auto simp: place_def clear_of_def overlapping_def)

lemma place_filter:
  assumes "ranges_ok L" "info_range_ok q" "clear_of q L" "q \<notin> set L"
  shows "filter P (place q L) = (if P q then place q (filter P L) else filter P L)"
proof (cases "P q")
  case False
  have "filter P L = filter P (filter (\<lambda>r. before r q) L) @ filter P (filter (before q) L)"
    using assms place_split[OF assms(1,2)] by (metis clear_of_def filter_append)
  with False show ?thesis by (simp add: place_def)
qed (simp add: place_def filter_filter conj_commute)

lemma set_item_region_self: "set_item_region r (item_region r) t = t"
proof -
  have "(\<lambda>i. if i = r then RegionItem (item_region r) else i) = id" by auto
  then show ?thesis by (cases "root t") (simp_all add: set_item_region_def node.map_id)
qed

text \<open>The in-place replacement happens only for a region that is stored already.\<close>

lemma regionSubTree_update_ok:
  assumes t: "tree_ok (st_tree st)" and q: "info_range_ok q" and c: "clear_of q (regs (st_tree st))"
  shows "\<exists>st'. regionSubTree_update st q = Some st' \<and> tree_ok (st_tree st') \<and> regs (st_tree st') = place q (regs (st_tree st))
    \<and> st_totalSize st' = st_totalSize st + (if q \<in> set (regs (st_tree st)) then 0 else ri_approximateSize q)"
proof -
  let ?L = "regs (st_tree st)"
  have L: "ranges_ok ?L" using t by (simp add: tree_ok_def)
  have qq: "covers q (GetStartKey q)" using q by (auto simp: covers_def in_range_def info_range_ok_def range_ok_def)
  show ?thesis
  proof (cases "q \<in> set ?L")
    case True
    then have "List.find (\<lambda>r. covers r (GetStartKey q)) ?L = Some q" using qq by (simp add: find_covers_iff[OF L])
    then have "regionSubTree_update st q = Some (st\<lparr> st_totalSize := st_totalSize st, st_tree := st_tree st \<rparr>)"
      using set_item_region_self[of "RegionItem q" "st_tree st"]
      by (simp add: regionSubTree_update_def regionTree_find_ok[OF t])
    with True t place_mem[OF L True] show ?thesis by simp
  next
    case False
    have "\<not> covers r (GetStartKey q)" if r: "r \<in> set ?L" for r
    proof
      assume "covers r (GetStartKey q)"
      moreover have "info_range_ok r" using L r by (simp add: ranges_ok_def)
      ultimately have "overlapping q r" using qq q overlapping_iff by blast
      with c False r show False by (auto simp: clear_of_def)
    qed
    then have "List.find (\<lambda>r. covers r (GetStartKey q)) ?L = None" by (auto simp: find_None_iff)
    with False regionTree_update_ok[OF t q] show ?thesis
      by (auto simp: regionSubTree_update_def regionTree_find_ok[OF t] place_def)
  qed
qed

definition open_to :: "RegionInfo \<Rightarrow> storeSubTrees \<Rightarrow> bool" where
  "open_to q m \<longleftrightarrow> trees_ok m \<and> (\<forall>s. clear_of q (sub_regs m s))"

definition placed :: "RegionInfo \<Rightarrow> u64 set \<Rightarrow> storeSubTrees \<Rightarrow> storeSubTrees \<Rightarrow> bool" where
  "placed q S m m' \<longleftrightarrow> open_to q m'
     \<and> (\<forall>s. sub_regs m' s = (if s \<in> S then place q (sub_regs m s) else sub_regs m s))"

lemma placed_open: "placed q S m m' \<Longrightarrow> open_to q m'"
  by (simp add: placed_def)

lemma placed_refl: "open_to q m \<Longrightarrow> placed q {} m m"
  by (simp add: placed_def)

lemma sub_regs_ranges: "trees_ok m \<Longrightarrow> ranges_ok (sub_regs m s)"
  by (auto simp: trees_ok_def sub_regs_def tree_ok_def ranges_ok_def split: option.splits)

lemma placed_step:
  assumes "placed q {s} m m1" "placed q S m1 m2"
  shows "placed q (insert s S) m m2"
proof -
  have "place q (sub_regs m1 s) = sub_regs m1 s"
    using assms(1) sub_regs_ranges[of m1 s] by (intro place_mem) (auto simp: placed_def open_to_def)
  then show ?thesis using assms by (auto simp: placed_def)
qed

lemma new_tree_ok: "\<exists>t. newRegionTree = Some t \<and> tree_ok t \<and> regs t = []"
  by (auto simp: newRegionTree_def NewBTree_def defaultBTreeDegree_def tree_ok_def wf_tree_def ranges_ok_def regs_def
      tree_items_def)

lemma update_store_ok:
  assumes m: "open_to q m" and q: "info_range_ok q"
  shows "\<exists>m'. update_store s q m = Some m' \<and> placed q {s} m m'"
proof -
  have m': "trees_ok m" "clear_of q (sub_regs m s)" using m by (auto simp: open_to_def)
  obtain st where st: "(case fmlookup m s of None \<Rightarrow> newRegionSubTree | Some st \<Rightarrow> Some st) = Some st"
    "tree_ok (st_tree st)" "regs (st_tree st) = sub_regs m s"
  proof (cases "fmlookup m s")
    case None
    from new_tree_ok obtain t where "newRegionTree = Some t" "tree_ok t" "regs t = []" by blast
    with None show thesis
      by (intro that[of "\<lparr> st_tree = t, st_totalSize = 0 \<rparr>"]) (simp_all add: newRegionSubTree_def sub_regs_def)
  next
    case (Some st)
    with m'(1) show thesis by (intro that[of st]) (simp_all add: sub_regs_def trees_ok_def)
  qed
  with regionSubTree_update_ok[OF st(2) q] m'(2) obtain st' where
    st': "regionSubTree_update st q = Some st'" "tree_ok (st_tree st')" "regs (st_tree st') = place q (sub_regs m s)" by auto
  have "clear_of q (place q (sub_regs m s))"
    using m'(2) by (auto simp: clear_of_def place_set)
  with st st' m show ?thesis
    by (auto simp: update_store_def placed_def open_to_def trees_ok_def sub_regs_def)
qed

lemma add_fold_ok:
  assumes "info_range_ok q" "open_to q (get R)"
    and step: "\<And>p R. f p R = map_option (\<lambda>m. put m R) (update_store (peer_StoreId p) q (get R))"
    and get: "\<And>m R. get (put m R) = m"
    and put: "\<And>m m' R. put m (put m' R) = put m R" "\<And>R. put (get R) R = R"
  shows "\<exists>m. foldM f ps R = Some (put m R) \<and> placed q (peer_StoreId ` set ps) (get R) m"
  using assms(2)
proof (induction ps arbitrary: R)
  case Nil
  then show ?case using placed_refl by (auto simp: put(2) intro!: exI[of _ "get R"])
next
  case (Cons p ps)
  from update_store_ok[OF Cons.prems assms(1), of "peer_StoreId p"] obtain m1 where
    m1: "update_store (peer_StoreId p) q (get R) = Some m1" "placed q {peer_StoreId p} (get R) m1" by blast
  from Cons.IH[of "put m1 R"] placed_open[OF m1(2)] obtain m where
    m: "foldM f ps (put m1 R) = Some (put m (put m1 R))" "placed q (peer_StoreId ` set ps) m1 m" by (auto simp: get)
  have "f p R = Some (put m1 R)" using step[of p R] m1(1) by simp
  with m placed_step[OF m1(2) m(2)] show ?case by (auto simp: put(1))
qed

definition leader_stores :: "RegionInfo \<Rightarrow> Peer list \<Rightarrow> u64 set" where
  "leader_stores q ps = peer_StoreId ` {p \<in> set ps. peer_Id p = GetPeerId (ri_leader q)}"

definition follower_stores :: "RegionInfo \<Rightarrow> Peer list \<Rightarrow> u64 set" where
  "follower_stores q ps = peer_StoreId ` {p \<in> set ps. peer_Id p \<noteq> GetPeerId (ri_leader q)}"

lemma voter_stores_simps:
  "leader_stores q [] = {}" "follower_stores q [] = {}"
  "leader_stores q (p # ps) = (if peer_Id p = GetPeerId (ri_leader q) then insert (peer_StoreId p) (leader_stores q ps)
     else leader_stores q ps)"
  "follower_stores q (p # ps) = (if peer_Id p = GetPeerId (ri_leader q) then follower_stores q ps
     else insert (peer_StoreId p) (follower_stores q ps))"
  by (auto simp: leader_stores_def follower_stores_def)

lemma add_voters_ok:
  assumes "info_range_ok q" "open_to q (rs_leaders R)" "open_to q (rs_followers R)"
  shows "\<exists>a b. foldM (add_voter q) ps R = Some (R\<lparr> rs_leaders := a, rs_followers := b \<rparr>)
    \<and> placed q (leader_stores q ps) (rs_leaders R) a \<and> placed q (follower_stores q ps) (rs_followers R) b"
  using assms(2,3)
proof (induction ps arbitrary: R)
  case Nil
  then show ?case
    by (intro exI[of _ "rs_leaders R"] exI[of _ "rs_followers R"]) (simp add: placed_refl voter_stores_simps)
next
  case (Cons p ps)
  let ?s = "peer_StoreId p"
  show ?case
  proof (cases "peer_Id p = GetPeerId (ri_leader q)")
    case True
    from update_store_ok[OF Cons.prems(1) assms(1), of ?s] obtain m where
      m: "update_store ?s q (rs_leaders R) = Some m" "placed q {?s} (rs_leaders R) m" by blast
    with Cons.IH[of "R\<lparr> rs_leaders := m \<rparr>"] Cons.prems(2) placed_open[OF m(2)] obtain a b where
      "foldM (add_voter q) ps (R\<lparr> rs_leaders := m \<rparr>) = Some (R\<lparr> rs_leaders := a, rs_followers := b \<rparr>)"
      "placed q (leader_stores q ps) m a" "placed q (follower_stores q ps) (rs_followers R) b" by auto
    with m True placed_step[OF m(2)] show ?thesis by (auto simp: add_voter_def[of q p R] voter_stores_simps)
  next
    case False
    from update_store_ok[OF Cons.prems(2) assms(1), of ?s] obtain m where
      m: "update_store ?s q (rs_followers R) = Some m" "placed q {?s} (rs_followers R) m" by blast
    with Cons.IH[of "R\<lparr> rs_followers := m \<rparr>"] Cons.prems(1) placed_open[OF m(2)] obtain a b where
      "foldM (add_voter q) ps (R\<lparr> rs_followers := m \<rparr>) = Some (R\<lparr> rs_leaders := a, rs_followers := b \<rparr>)"
      "placed q (leader_stores q ps) (rs_leaders R) a" "placed q (follower_stores q ps) m b" by auto
    with m False placed_step[OF m(2)] show ?thesis by (auto simp: add_voter_def[of q p R] voter_stores_simps)
  qed
qed

lemma placed_ok:
  assumes m: "subs_ok role L m" "placed q S m m'"
    and L: "ranges_ok L" "info_range_ok q" "clear_of q L" "q \<notin> set L" and S: "\<And>s. role s q \<longleftrightarrow> s \<in> S"
  shows "subs_ok role (place q L) m'"
  using m by (auto simp: subs_ok_def placed_def open_to_def place_filter[OF L] S)

lemma subs_open:
  assumes "subs_ok role L m" "clear_of q L"
  shows "open_to q m"
  using assms by (auto simp: subs_ok_def open_to_def clear_of_def)

lemma map_Put_ok:
  assumes "map_ok L rm" "\<forall>r\<in>set L. GetID r \<noteq> GetID q" "clear_of q L"
  shows "map_ok (place q L) (regionMap_Put rm q)"
proof -
  have none: "fmlookup (rm_m rm) (GetID q) = None"
  proof (cases "fmlookup (rm_m rm) (GetID q)")
    case (Some r)
    then have "r \<in> set L \<and> GetID r = GetID q" using assms(1) by (simp add: map_ok_def)
    with assms(2) show ?thesis by blast
  qed
  have "q \<notin> set L" using assms(2) by blast
  with assms none show ?thesis by (auto simp: map_ok_def regionMap_Put_def place_set)
qed

text \<open>The loop over the overlapping regions leaves the tree alone: it holds none of them any more.\<close>

lemma remove_overlaps_ok:
  assumes "rest_ok L R" "tree_ok (rs_tree R)" "distinct os" "set os \<subseteq> set L"
    and "\<forall>p\<in>set os. \<forall>r\<in>set (regs (rs_tree R)). GetID r \<noteq> GetID p"
  shows "\<exists>R'. foldM remove_overlap os R = Some R' \<and> rest_ok (filter (\<lambda>r. r \<notin> set os) L) R'
    \<and> tree_ok (rs_tree R') \<and> regs (rs_tree R') = regs (rs_tree R)"
  using assms
proof (induction os arbitrary: L R)
  case (Cons p os)
  have p: "p \<in> set L" "p \<notin> set os" using Cons.prems by auto
  have get: "GetRegion R (GetID p) = Some p"
    using Cons.prems(1) p(1) by (simp add: GetRegion_def regionMap_Get_def rest_ok_def map_ok_def)
  from RemoveRegion_rest[OF Cons.prems(1,2) p(1)] obtain R1 where
    R1: "RemoveRegion R p = Some R1" "rest_ok (filter (\<lambda>r. r \<noteq> p) L) R1" "tree_ok (rs_tree R1)"
      "regs (rs_tree R1) = filter (\<lambda>r. \<not> same_region p r) (regs (rs_tree R))" .
  have same: "regs (rs_tree R1) = regs (rs_tree R)"
    unfolding R1(4) using Cons.prems(5) by (auto simp: filter_id_conv same_region_def)
  have "set os \<subseteq> set (filter (\<lambda>r. r \<noteq> p) L)" using Cons.prems(4) p(2) by auto
  with Cons.IH[OF R1(2,3)] Cons.prems(3,5) same obtain R' where
    R': "foldM remove_overlap os R1 = Some R'" "rest_ok (filter (\<lambda>r. r \<notin> set os) (filter (\<lambda>r. r \<noteq> p) L)) R'"
      "tree_ok (rs_tree R')" "regs (rs_tree R') = regs (rs_tree R)" by auto
  have "filter (\<lambda>r. r \<notin> set os) (filter (\<lambda>r. r \<noteq> p) L) = filter (\<lambda>r. r \<notin> set (p # os)) L"
    by (auto simp: filter_filter intro!: filter_cong)
  with R' R1(1) get show ?case by (auto simp: remove_overlap_def[of p R])
qed simp

lemma add_peers_ok:
  assumes R: "rest_ok L R0" and q: "info_valid q" and c: "clear_of q L" and new: "\<forall>r\<in>set L. GetID r \<noteq> GetID q"
    and R0: "R = R0\<lparr> rs_regions := regionMap_Put (rs_regions R0) q \<rparr>"
  shows "\<exists>R1 R2 R3. foldM (add_voter q) (ri_voters q) R = Some R1 \<and> foldM (add_learner q) (ri_learners q) R1 = Some R2
    \<and> foldM (add_pending q) (ri_pendingPeers q) R2 = Some R3 \<and> rest_ok (place q L) R3 \<and> rs_tree R3 = rs_tree R0"
proof -
  have qr: "info_range_ok q" using q by (simp add: info_valid_def)
  have L: "ranges_ok L" "distinct (map GetID L)" "\<forall>r\<in>set L. info_valid r" using R by (auto simp: rest_ok_def)
  have qL: "q \<notin> set L" using new by blast
  have subs: "subs_ok leads_on L (rs_leaders R)" "subs_ok follows_on L (rs_followers R)"
    "subs_ok learns_on L (rs_learners R)" "subs_ok pends_on L (rs_pendingPeers R)"
    using R by (auto simp: rest_ok_def R0)
  note opens = subs[THEN subs_open[OF _ c]]
  from add_voters_ok[OF qr opens(1,2)] obtain a b where
    ab: "foldM (add_voter q) (ri_voters q) R = Some (R\<lparr> rs_leaders := a, rs_followers := b \<rparr>)"
      "placed q (leader_stores q (ri_voters q)) (rs_leaders R) a"
      "placed q (follower_stores q (ri_voters q)) (rs_followers R) b" by blast
  let ?R1 = "R\<lparr> rs_leaders := a, rs_followers := b \<rparr>"
  have "\<exists>m. foldM (add_learner q) (ri_learners q) ?R1 = Some (?R1\<lparr> rs_learners := m \<rparr>)
      \<and> placed q (peer_StoreId ` set (ri_learners q)) (rs_learners ?R1) m"
    using opens(3) by (intro add_fold_ok[OF qr]) (simp_all add: add_learner_def)
  then obtain m where m: "foldM (add_learner q) (ri_learners q) ?R1 = Some (?R1\<lparr> rs_learners := m \<rparr>)"
    "placed q (peer_StoreId ` set (ri_learners q)) (rs_learners R) m" by auto
  let ?R2 = "?R1\<lparr> rs_learners := m \<rparr>"
  have "\<exists>m. foldM (add_pending q) (ri_pendingPeers q) ?R2 = Some (?R2\<lparr> rs_pendingPeers := m \<rparr>)
      \<and> placed q (peer_StoreId ` set (ri_pendingPeers q)) (rs_pendingPeers ?R2) m"
    using opens(4) by (intro add_fold_ok[OF qr]) (simp_all add: add_pending_def)
  then obtain n where n: "foldM (add_pending q) (ri_pendingPeers q) ?R2 = Some (?R2\<lparr> rs_pendingPeers := n \<rparr>)"
    "placed q (peer_StoreId ` set (ri_pendingPeers q)) (rs_pendingPeers R) n" by auto
  note ok = placed_ok[OF _ _ L(1) qr c qL]
  have "subs_ok leads_on (place q L) a" using ok[OF subs(1) ab(2)] by (auto simp: leads_on_def leader_stores_def)
  moreover have "subs_ok follows_on (place q L) b"
    using ok[OF subs(2) ab(3)] by (auto simp: follows_on_def follower_stores_def)
  moreover have "subs_ok learns_on (place q L) m" using ok[OF subs(3) m(2)] by (auto simp: learns_on_def)
  moreover have "subs_ok pends_on (place q L) n" using ok[OF subs(4) n(2)] by (auto simp: pends_on_def)
  moreover have "map_ok (place q L) (rs_regions R)"
    using map_Put_ok[OF _ new c] R by (simp add: R0 rest_ok_def)
  moreover have "distinct (map GetID (place q L))"
    using L(2) new place_ranges[OF L(1) qr] c
    by (auto simp: distinct_map place_set inj_on_def dest: ranges_distinct)
  ultimately have "rest_ok (place q L) (?R2\<lparr> rs_pendingPeers := n \<rparr>)"
    using L q place_ranges[OF L(1) qr] c by (simp add: rest_ok_def place_set)
  with ab m n show ?thesis by (auto simp: R0)
qed

lemma AddRegion_ok:
  assumes R: "regions_ok R" and q: "info_valid q" and new: "\<forall>r\<in>set (regs (rs_tree R)). GetID r \<noteq> GetID q"
  shows "\<exists>R'. AddRegion R q = Some (R', filter (overlapping q) (regs (rs_tree R))) \<and> regions_ok R'
    \<and> regs (rs_tree R') = place q (regs (rs_tree R))"
proof -
  let ?L = "regs (rs_tree R)"
  have t: "tree_ok (rs_tree R)" and rest: "rest_ok ?L R" using R by (auto simp: regions_ok_def)
  have qr: "info_range_ok q" using q by (simp add: info_valid_def)
  have L: "ranges_ok ?L" "distinct (map GetID ?L)" using rest by (auto simp: rest_ok_def)
  define os where "os = filter (overlapping q) ?L"
  from regionTree_update_ok[OF t qr] obtain t' where
    t': "regionTree_update (rs_tree R) q = Some (t', os)" "tree_ok t'" "regs t' = place q ?L"
    by (auto simp: os_def place_def)
  let ?R = "R\<lparr> rs_tree := t' \<rparr>"
  have "GetID r \<noteq> GetID p" if p: "p \<in> set os" and r: "r \<in> set (regs t')" for p r
  proof
    assume id: "GetID r = GetID p"
    have pL: "p \<in> set ?L" "overlapping q p" using p by (auto simp: os_def)
    have "r \<in> set ?L" "\<not> overlapping q r"
      using r id new pL(1) by (auto simp: t'(3) place_def overlapping_def)
    with id pL L(2) show False by (auto simp: distinct_map dest: inj_onD)
  qed
  moreover have "rest_ok ?L ?R" using rest by (simp add: rest_ok_def)
  moreover have "distinct os" "set os \<subseteq> set ?L" using ranges_distinct[OF L(1)] by (auto simp: os_def)
  ultimately obtain R1 where R1: "foldM remove_overlap os ?R = Some R1" "rest_ok (filter (\<lambda>r. r \<notin> set os) ?L) R1"
    "tree_ok (rs_tree R1)" "regs (rs_tree R1) = place q ?L"
    using remove_overlaps_ok[of ?L ?R os] t' by auto
  let ?L1 = "filter (\<lambda>r. r \<notin> set os) ?L"
  have "clear_of q ?L1" by (auto simp: clear_of_def os_def)
  from add_peers_ok[OF R1(2) q this _ refl] new obtain Ra Rb Rc where
    R': "foldM (add_voter q) (ri_voters q) (R1\<lparr> rs_regions := regionMap_Put (rs_regions R1) q \<rparr>) = Some Ra"
      "foldM (add_learner q) (ri_learners q) Ra = Some Rb" "foldM (add_pending q) (ri_pendingPeers q) Rb = Some Rc"
      "rest_ok (place q ?L1) Rc" "rs_tree Rc = rs_tree R1" by auto
  have "filter (\<lambda>r. before r q) ?L1 = filter (\<lambda>r. before r q) ?L" "filter (before q) ?L1 = filter (before q) ?L"
    unfolding filter_filter by (rule filter_cong; auto simp: os_def overlapping_def)+
  then have "place q ?L1 = place q ?L" by (simp add: place_def)
  with R' R1 have "regions_ok Rc" "regs (rs_tree Rc) = place q ?L" by (simp_all add: regions_ok_def)
  with t' R1 R' show ?thesis by (simp add: AddRegion_def flip: os_def)
qed

lemma RemoveRegion_ok:
  assumes R: "regions_ok R" and q: "q \<in> set (regs (rs_tree R))"
  shows "\<exists>R'. RemoveRegion R q = Some R' \<and> regions_ok R' \<and> regs (rs_tree R') = filter (\<lambda>r. r \<noteq> q) (regs (rs_tree R))"
proof -
  let ?L = "regs (rs_tree R)"
  have t: "tree_ok (rs_tree R)" and rest: "rest_ok ?L R" using R by (auto simp: regions_ok_def)
  from RemoveRegion_rest[OF rest t q] obtain R' where
    R': "RemoveRegion R q = Some R'" "rest_ok (filter (\<lambda>r. r \<noteq> q) ?L) R'" "tree_ok (rs_tree R')"
      "regs (rs_tree R') = filter (\<lambda>r. \<not> same_region q r) ?L" .
  have "filter (\<lambda>r. \<not> same_region q r) ?L = filter (\<lambda>r. r \<noteq> q) ?L"
    using rest q same_region_iff[of ?L q] by (intro filter_cong) (auto simp: rest_ok_def)
  with R' show ?thesis by (simp add: regions_ok_def)
qed

lemma GetRegion_stored:
  assumes "regions_ok R" "r \<in> set (regs (rs_tree R))"
  shows "GetRegion R (GetID r) = Some r"
  using assms by (simp add: regions_ok_def rest_ok_def map_ok_def GetRegion_def regionMap_Get_def)

lemma SetRegion_ok:
  assumes R: "regions_ok R" and q: "info_valid q"
  defines "L \<equiv> filter (\<lambda>r. GetID r \<noteq> GetID q) (regs (rs_tree R))"
  shows "\<exists>R'. SetRegion R q = Some (R', filter (overlapping q) L) \<and> regions_ok R' \<and> regs (rs_tree R') = place q L"
proof (cases "GetRegion R (GetID q)")
  case None
  have new: "\<forall>r\<in>set (regs (rs_tree R)). GetID r \<noteq> GetID q"
    using None GetRegion_stored[OF R] by force
  then have "L = regs (rs_tree R)" by (auto simp: L_def filter_id_conv)
  then show ?thesis using AddRegion_ok[OF R q new] None by (auto simp: SetRegion_def)
next
  case (Some r)
  then have r: "r \<in> set (regs (rs_tree R))" "GetID r = GetID q" and d: "distinct (map GetID (regs (rs_tree R)))"
    using R by (auto simp: regions_ok_def rest_ok_def map_ok_def GetRegion_def regionMap_Get_def)
  have "filter (\<lambda>x. x \<noteq> r) (regs (rs_tree R)) = L"
    unfolding L_def using r d by (intro filter_cong) (auto simp: distinct_map inj_on_def)
  with RemoveRegion_ok[OF R r(1)] obtain R1 where
    R1: "RemoveRegion R r = Some R1" "regions_ok R1" "regs (rs_tree R1) = L" by auto
  have "\<forall>x\<in>set (regs (rs_tree R1)). GetID x \<noteq> GetID q" by (simp add: R1(3) L_def)
  from AddRegion_ok[OF R1(2) q this] R1 Some show ?thesis by (simp add: SetRegion_def)
qed

section \<open>Queries\<close>

lemma SearchRegion_ok:
  assumes "regions_ok R"
  shows "SearchRegion R k = Some (List.find (\<lambda>r. covers r k) (regs (rs_tree R)))"
proof -
  have t: "tree_ok (rs_tree R)" using assms by (simp add: regions_ok_def)
  show ?thesis
  proof (cases "List.find (\<lambda>r. covers r k) (regs (rs_tree R))")
    case (Some r)
    then have "r \<in> set (regs (rs_tree R))" by (auto simp: find_Some_iff)
    with Some show ?thesis by (simp add: SearchRegion_def regionTree_search_ok[OF t] GetRegion_stored[OF assms])
  qed (simp add: SearchRegion_def regionTree_search_ok[OF t])
qed

lemma run_iter_limit:
  "snd (run_iter (\<lambda>r res. if P r then (False, res) else if limit > 0 \<and> int (length res) \<ge> limit then (False, res)
       else (True, res @ [g r])) xs acc)
    = acc @ map g (if limit > 0 then take (nat limit - length acc) (takeWhile (\<lambda>r. \<not> P r) xs) else takeWhile (\<lambda>r. \<not> P r) xs)"
  by (induction xs arbitrary: acc) (auto simp: take_Cons' le_nat_iff Suc_diff_Suc)

lemma ScanRange_ok:
  assumes R: "regions_ok R"
  shows "ScanRange R lo hi limit = Some (map Some
    (if limit > 0 then take (nat limit) (candidates lo hi (regs (rs_tree R))) else candidates lo hi (regs (rs_tree R))))"
proof -
  have t: "tree_ok (rs_tree R)" and L: "ranges_ok (regs (rs_tree R))" using R by (auto simp: regions_ok_def tree_ok_def)
  let ?stop = "\<lambda>r. hi \<noteq> [] \<and> hi \<le> GetStartKey r"
  let ?xs = "filter (\<lambda>r. GetEndKey r = [] \<or> lo < GetEndKey r) (regs (rs_tree R))"
  have "takeWhile (\<lambda>r. \<not> ?stop r) ?xs = filter (\<lambda>r. \<not> ?stop r) ?xs"
    using ranges_starts[OF ranges_filter[OF L]] by (rule takeWhile_sorted) auto
  also have "\<dots> = candidates lo hi (regs (rs_tree R))"
    unfolding candidates_def filter_filter by (intro filter_cong) auto
  finally have tw: "takeWhile (\<lambda>r. \<not> ?stop r) ?xs = candidates lo hi (regs (rs_tree R))" .
  have stored: "map (\<lambda>r. GetRegion R (GetID r)) ys = map Some ys" if "set ys \<subseteq> set (regs (rs_tree R))" for ys
    using that GetRegion_stored[OF R] by auto
  have "set (candidates lo hi (regs (rs_tree R))) \<subseteq> set (regs (rs_tree R))" by (auto simp: candidates_def)
  then have "set (if limit > 0 then take (nat limit) (candidates lo hi (regs (rs_tree R)))
      else candidates lo hi (regs (rs_tree R))) \<subseteq> set (regs (rs_tree R))" by (auto dest: in_set_takeD)
  from stored[OF this]
  have "snd (run_iter (\<lambda>r res. if ?stop r then (False, res)
      else if limit > 0 \<and> int (length res) \<ge> limit then (False, res) else (True, res @ [GetRegion R (GetID r)])) ?xs [])
    = map Some (if limit > 0 then take (nat limit) (candidates lo hi (regs (rs_tree R))) else candidates lo hi (regs (rs_tree R)))"
    unfolding run_iter_limit tw by simp
  then show ?thesis by (simp add: ScanRange_def scanRange_ok[OF t] key_order)
qed

lemma regionMap_Len_ok:
  assumes "map_ok L rm" "distinct (map GetID L)"
  shows "regionMap_Len (Some rm) = int (length L)"
proof -
  have "fset (fmdom (rm_m rm)) = GetID ` set L"
  proof (rule set_eqI)
    fix i
    have "i \<in> fset (fmdom (rm_m rm)) \<longleftrightarrow> (\<exists>r. fmlookup (rm_m rm) i = Some r)" by (auto simp: fmlookup_dom_iff)
    then show "i \<in> fset (fmdom (rm_m rm)) \<longleftrightarrow> i \<in> GetID ` set L" using assms(1) by (auto simp: map_ok_def)
  qed
  then have "fcard (fmdom (rm_m rm)) = card (GetID ` set L)" by (simp add: fcard.rep_eq)
  also have "\<dots> = length L" using assms(2) by (simp add: distinct_map card_image distinct_card)
  finally show ?thesis by (simp add: regionMap_Len_def)
qed

lemma sub_length_ok:
  assumes "subs_ok role L m"
  shows "regionSubTree_length (fmlookup m s) = int (length (filter (role s) L))"
proof (cases "fmlookup m s")
  case None
  moreover have "sub_regs m s = filter (role s) L" using assms by (simp add: subs_ok_def)
  ultimately show ?thesis by (simp add: regionSubTree_length_def sub_regs_def)
next
  case (Some st)
  then have "tree_ok (st_tree st)" using assms by (auto simp: subs_ok_def trees_ok_def)
  moreover have "sub_regs m s = filter (role s) L" using assms by (simp add: subs_ok_def)
  ultimately show ?thesis using Some by (simp add: regionSubTree_length_def sub_regs_def regionTree_length_ok)
qed

definition empty_regions :: RegionsInfo where
  "empty_regions = \<lparr> rs_tree = \<lparr> degree = 64, len = 0, root = None \<rparr>, rs_regions = newRegionMap, rs_leaders = fmempty,
     rs_followers = fmempty, rs_learners = fmempty, rs_pendingPeers = fmempty \<rparr>"

lemma NewRegionsInfo_empty: "NewRegionsInfo = Some empty_regions"
  by (simp add: NewRegionsInfo_def newRegionTree_def NewBTree_def defaultBTreeDegree_def empty_regions_def)

definition demo_region :: "u64 \<Rightarrow> bytes \<Rightarrow> bytes \<Rightarrow> RegionInfo" where
  "demo_region i lo hi = SetApproximateSize 10 (NewRegionInfo
     \<lparr> rg_Id = i, rg_StartKey = lo, rg_EndKey = hi, rg_RegionEpoch = None,
       rg_Peers = [\<lparr> peer_Id = 11, peer_StoreId = 1 \<rparr>, \<lparr> peer_Id = 12, peer_StoreId = 2 \<rparr>] \<rparr>
     (Some \<lparr> peer_Id = 11, peer_StoreId = 1 \<rparr>) [])"

lemma empty_regions_ok: "regions_ok empty_regions" "regs (rs_tree empty_regions) = []"
  by (simp_all add: regions_ok_def empty_regions_def rest_ok_def tree_ok_def wf_tree_def regs_def tree_items_def
      ranges_ok_def map_ok_def newRegionMap_def subs_ok_def trees_ok_def sub_regs_def)

lemma demo_region_keys [simp]: "GetStartKey (demo_region i lo hi) = lo" "GetEndKey (demo_region i lo hi) = hi"
  by (simp_all add: demo_region_def NewRegionInfo_def classifyVoterAndLearner_def SetApproximateSize_def)

lemma demo_region_valid: "lo < hi \<Longrightarrow> info_valid (demo_region i lo hi)" "info_valid (demo_region i lo [])"
  by (simp_all add: info_valid_def demo_region_def info_range_ok_def range_ok_def NewRegionInfo_def
      classifyVoterAndLearner_def SetApproximateSize_def)

section \<open>Properties\<close>

text \<open>
  C35 (refinement): setting a region keeps every index of the cluster in step. The call returns, the
  invariant holds again, the regions are the old ones without those that have its id or share a key
  with it, plus the new one at its place in key order, the replaced regions are reported, and the
  leader, follower and pending counts of every store are the numbers of regions with that role.
\<close>

theorem SetRegion_refines:
  assumes "regions_ok R" "info_valid q"
  shows "\<exists>R'. SetRegion R q = Some (R', filter (\<lambda>r. GetID r \<noteq> GetID q \<and> overlapping q r) (regs (rs_tree R)))
    \<and> regions_ok R'
    \<and> regs (rs_tree R') = filter (\<lambda>r. GetID r \<noteq> GetID q \<and> before r q) (regs (rs_tree R)) @ q
        # filter (\<lambda>r. GetID r \<noteq> GetID q \<and> before q r) (regs (rs_tree R))
    \<and> GetRegionCount R' = TreeLength R'
    \<and> (\<forall>s. GetStoreLeaderCount R' s = int (length (filter (leads_on s) (regs (rs_tree R'))))
        \<and> GetStoreFollowerCount R' s = int (length (filter (follows_on s) (regs (rs_tree R'))))
        \<and> GetStorePendingPeerCount R' s = int (length (filter (pends_on s) (regs (rs_tree R')))))"
proof -
  from SetRegion_ok[OF assms] obtain R' where
    R': "SetRegion R q = Some (R', filter (overlapping q) (filter (\<lambda>r. GetID r \<noteq> GetID q) (regs (rs_tree R))))"
      "regions_ok R'" "regs (rs_tree R') = place q (filter (\<lambda>r. GetID r \<noteq> GetID q) (regs (rs_tree R)))" by blast
  then have "GetRegionCount R' = TreeLength R'"
    by (auto simp: regions_ok_def rest_ok_def GetRegionCount_def TreeLength_def regionMap_Len_ok regionTree_length_ok)
  moreover have "\<forall>s. GetStoreLeaderCount R' s = int (length (filter (leads_on s) (regs (rs_tree R'))))
        \<and> GetStoreFollowerCount R' s = int (length (filter (follows_on s) (regs (rs_tree R'))))
        \<and> GetStorePendingPeerCount R' s = int (length (filter (pends_on s) (regs (rs_tree R'))))"
    using R'(2) by (auto simp: regions_ok_def rest_ok_def GetStoreLeaderCount_def GetStoreFollowerCount_def
        GetStorePendingPeerCount_def sub_length_ok)
  ultimately show ?thesis using R' by (auto simp: place_def filter_filter conj_commute)
qed

theorem SetRegion_refines_witness:
  "\<exists>R. SetRegion empty_regions (demo_region 1 [] [4]) = Some (R, []) \<and> regions_ok R
    \<and> regs (rs_tree R) = [demo_region 1 [] [4]] \<and> GetStoreLeaderCount R 1 = 1 \<and> GetStoreFollowerCount R 2 = 1"
proof -
  have v: "info_valid (demo_region 1 [] [4])" by (rule demo_region_valid) simp
  have roles: "leads_on 1 (demo_region 1 [] [4])" "follows_on 2 (demo_region 1 [] [4])"
    by (simp_all add: leads_on_def follows_on_def demo_region_def NewRegionInfo_def classifyVoterAndLearner_def
        SetApproximateSize_def GetPeerId_def)
  from SetRegion_refines[OF empty_regions_ok(1) v] roles show ?thesis by (auto simp: empty_regions_ok(2))
qed

text \<open>
  C36 (functional): after a region is set, a search for a key it covers returns it, a search for another
  key returns the region that covered the key before, unless that one was replaced. Keys of replaced
  regions outside the new one are covered by no region.
\<close>

theorem SetRegion_then_SearchRegion:
  assumes "regions_ok R" "info_valid q" "SetRegion R q = Some (R', out)"
  shows "SearchRegion R' k = Some (if covers q k then Some q
    else List.find (\<lambda>r. covers r k \<and> GetID r \<noteq> GetID q \<and> \<not> overlapping q r) (regs (rs_tree R)))"
proof -
  let ?L = "regs (rs_tree R)" and ?P = "\<lambda>r. covers r k \<and> GetID r \<noteq> GetID q \<and> \<not> overlapping q r"
  have L: "ranges_ok ?L" using assms(1) by (simp add: regions_ok_def tree_ok_def)
  from SetRegion_ok[OF assms(1,2)] assms(3) have
    R': "regions_ok R'" "regs (rs_tree R') = place q (filter (\<lambda>r. GetID r \<noteq> GetID q) ?L)" by auto
  then have L': "ranges_ok (regs (rs_tree R'))" by (simp add: regions_ok_def tree_ok_def)
  have mem: "r \<in> set (regs (rs_tree R')) \<longleftrightarrow> r = q \<or> r \<in> set ?L \<and> GetID r \<noteq> GetID q \<and> \<not> overlapping q r" for r
  proof -
    have "before r q \<or> before q r \<longleftrightarrow> \<not> overlapping q r" by (auto simp: overlapping_def)
    then show ?thesis by (auto simp: R'(2) place_def)
  qed
  show ?thesis
  proof (cases "covers q k")
    case True
    then have "List.find (\<lambda>r. covers r k) (regs (rs_tree R')) = Some q" using mem by (simp add: find_covers_iff[OF L'])
    with True show ?thesis by (simp add: SearchRegion_ok[OF R'(1)])
  next
    case False
    have "List.find (\<lambda>r. covers r k) (regs (rs_tree R')) = List.find ?P ?L"
    proof (cases "List.find ?P ?L")
      case None
      then have "List.find (\<lambda>r. covers r k) (regs (rs_tree R')) = None"
        using False unfolding find_None_iff mem by auto
      with None show ?thesis by simp
    next
      case (Some r)
      then have "r \<in> set ?L" "?P r" by (auto simp: find_Some_iff)
      then have "r \<in> set (regs (rs_tree R'))" "covers r k" using mem by auto
      with Some show ?thesis by (simp add: find_covers_iff[OF L'])
    qed
    with False show ?thesis by (simp add: SearchRegion_ok[OF R'(1)])
  qed
qed

theorem SetRegion_then_SearchRegion_witness:
  "\<exists>R. SetRegion empty_regions (demo_region 1 [] [4]) = Some (R, []) \<and> SearchRegion R [3] = Some (Some (demo_region 1 [] [4]))
    \<and> SearchRegion R [5] = Some None"
proof -
  have v: "info_valid (demo_region 1 [] [4])" by (rule demo_region_valid) simp
  from SetRegion_ok[OF empty_regions_ok(1) v] obtain R where
    R: "SetRegion empty_regions (demo_region 1 [] [4]) = Some (R, [])" by (auto simp: empty_regions_ok(2))
  have c: "covers (demo_region 1 [] [4]) [3]" "\<not> covers (demo_region 1 [] [4]) [5]"
    by (simp_all add: covers_def in_range_def demo_region_def NewRegionInfo_def classifyVoterAndLearner_def
        SetApproximateSize_def)
  show ?thesis
    using R c SetRegion_then_SearchRegion[OF empty_regions_ok(1) v R] by (auto simp: empty_regions_ok(2))
qed

text \<open>
  C37 (functional): a range scan returns, in key order, exactly the regions that share a key with
  the range from the start key to the end key, the first ones when there is a limit; an empty end key
  and a limit of zero or less mean no bound.
\<close>

theorem ScanRange_exact:
  assumes "regions_ok R"
  shows "ScanRange R lo hi limit = Some (map Some
    (let hits = filter (\<lambda>r. (GetEndKey r = [] \<or> lo < GetEndKey r) \<and> (hi = [] \<or> GetStartKey r < hi)) (regs (rs_tree R))
     in if limit > 0 then take (nat limit) hits else hits))"
  unfolding ScanRange_ok[OF assms] candidates_def Let_def ..

theorem ScanRange_exact_witness:
  "\<exists>R. SetRegion empty_regions (demo_region 1 [] [4]) = Some (R, [])
    \<and> ScanRange R [2] [9] 5 = Some [Some (demo_region 1 [] [4])] \<and> ScanRange R [4] [] 0 = Some []"
proof -
  have v: "info_valid (demo_region 1 [] [4])" by (rule demo_region_valid) simp
  from SetRegion_ok[OF empty_regions_ok(1) v] obtain R where
    R: "SetRegion empty_regions (demo_region 1 [] [4]) = Some (R, [])" "regions_ok R"
      "regs (rs_tree R) = [demo_region 1 [] [4]]" by (auto simp: empty_regions_ok(2) place_def)
  show ?thesis
    using ScanRange_exact[OF R(2), of "[2]" "[9]" 5] ScanRange_exact[OF R(2), of "[4]" "[]" 0] R(1) by (simp add: R(3))
qed

end
