(* ===== verification/Store_Info.thy ===== *)
theory Store_Info
  imports Metapb Complex_Main
begin

text \<open>
  \<open>StoreInfo\<close> and \<open>StoresInfo\<close> of \<open>scheduler/server/core/store.go\<close> with the options of
  \<open>store_option.go\<close>. A time is a number of nanoseconds and the current time an argument. A weight is
  a rational number: the code only compares and copies weights. \<open>AvailableRatio\<close> and \<open>IsLowSpace\<close>,
  which divide floating-point numbers, are left out.
\<close>

section \<open>Stores\<close>

datatype StoreState = Up | Offline | Tombstone

record Store =
  sm_Id :: u64
  sm_Address :: string
  sm_State :: StoreState

record StoreStats =
  ss_StoreId :: u64
  ss_Capacity :: u64
  ss_Available :: u64
  ss_UsedSize :: u64
  ss_IsBusy :: bool
  ss_SendingSnapCount :: nat
  ss_ReceivingSnapCount :: nat
  ss_ApplyingSnapCount :: nat
  ss_StartTime :: nat

definition zero_stats :: StoreStats where
  "zero_stats = \<lparr> ss_StoreId = 0, ss_Capacity = 0, ss_Available = 0, ss_UsedSize = 0, ss_IsBusy = False,
     ss_SendingSnapCount = 0, ss_ReceivingSnapCount = 0, ss_ApplyingSnapCount = 0, ss_StartTime = 0 \<rparr>"

record StoreInfo =
  si_meta :: Store
  si_stats :: StoreStats
  si_blocked :: bool
  si_leaderCount :: int
  si_regionCount :: int
  si_leaderSize :: int
  si_regionSize :: int
  si_pendingPeerCount :: int
  si_lastHeartbeatTS :: int
  si_leaderWeight :: rat
  si_regionWeight :: rat
  si_available :: "(unit \<Rightarrow> bool) option"

type_synonym StoreCreateOption = "StoreInfo \<Rightarrow> StoreInfo"

definition NewStoreInfo :: "Store \<Rightarrow> StoreCreateOption list \<Rightarrow> StoreInfo" where
  "NewStoreInfo store opts = fold (\<lambda>opt s. opt s) opts
     \<lparr> si_meta = store, si_stats = zero_stats, si_blocked = False, si_leaderCount = 0, si_regionCount = 0,
       si_leaderSize = 0, si_regionSize = 0, si_pendingPeerCount = 0, si_lastHeartbeatTS = 0,
       si_leaderWeight = 1, si_regionWeight = 1, si_available = None \<rparr>"

text \<open>A clone has every field of the original; the options then change it.\<close>

definition StoreInfo_Clone :: "StoreInfo \<Rightarrow> StoreCreateOption list \<Rightarrow> StoreInfo" where
  "StoreInfo_Clone s opts = fold (\<lambda>opt s. opt s) opts s"

definition IsAvailable :: "StoreInfo \<Rightarrow> bool" where
  "IsAvailable s = (case si_available s of None \<Rightarrow> True | Some f \<Rightarrow> f ())"

definition IsUp :: "StoreInfo \<Rightarrow> bool" where
  "IsUp s \<longleftrightarrow> sm_State (si_meta s) = Up"

definition IsOffline :: "StoreInfo \<Rightarrow> bool" where
  "IsOffline s \<longleftrightarrow> sm_State (si_meta s) = Offline"

definition IsTombstone :: "StoreInfo \<Rightarrow> bool" where
  "IsTombstone s \<longleftrightarrow> sm_State (si_meta s) = Tombstone"

definition DownTime :: "int \<Rightarrow> StoreInfo \<Rightarrow> int" where
  "DownTime now s = now - si_lastHeartbeatTS s"

definition time_Second :: int where
  "time_Second = 1000000000"

definition storeDisconnectDuration :: int where
  "storeDisconnectDuration = 20 * time_Second"

definition storeUnhealthDuration :: int where
  "storeUnhealthDuration = 10 * 60 * time_Second"

definition IsDisconnected :: "int \<Rightarrow> StoreInfo \<Rightarrow> bool" where
  "IsDisconnected now s \<longleftrightarrow> DownTime now s > storeDisconnectDuration"

definition IsUnhealth :: "int \<Rightarrow> StoreInfo \<Rightarrow> bool" where
  "IsUnhealth now s \<longleftrightarrow> DownTime now s > storeUnhealthDuration"

definition GetUptime :: "StoreInfo \<Rightarrow> int" where
  "GetUptime s =
     (let uptime = si_lastHeartbeatTS s - int (ss_StartTime (si_stats s)) * time_Second in
      if uptime > 0 then uptime else 0)"

datatype ResourceKind = LeaderKind | RegionKind

text \<open>\<open>uint64(x)\<close> of a negative \<open>int\<close> wraps around.\<close>

definition ResourceCount :: "StoreInfo \<Rightarrow> ResourceKind \<Rightarrow> u64" where
  "ResourceCount s kind =
     (case kind of
        LeaderKind \<Rightarrow> nat (si_leaderCount s mod 2 ^ 64)
      | RegionKind \<Rightarrow> nat (si_regionCount s mod 2 ^ 64))"

definition ResourceSize :: "StoreInfo \<Rightarrow> ResourceKind \<Rightarrow> int" where
  "ResourceSize s kind = (case kind of LeaderKind \<Rightarrow> si_leaderSize s | RegionKind \<Rightarrow> si_regionSize s)"

definition minWeight :: rat where
  "minWeight = 1 / 1000000"

definition ResourceWeight :: "StoreInfo \<Rightarrow> ResourceKind \<Rightarrow> rat" where
  "ResourceWeight s kind =
     (case kind of
        LeaderKind \<Rightarrow> if si_leaderWeight s \<le> 0 then minWeight else si_leaderWeight s
      | RegionKind \<Rightarrow> if si_regionWeight s \<le> 0 then minWeight else si_regionWeight s)"

section \<open>Options\<close>

definition SetStoreAddress :: "string \<Rightarrow> StoreCreateOption" where
  "SetStoreAddress address store = store\<lparr> si_meta := (si_meta store)\<lparr> sm_Address := address \<rparr> \<rparr>"

definition SetStoreState :: "StoreState \<Rightarrow> StoreCreateOption" where
  "SetStoreState state store = store\<lparr> si_meta := (si_meta store)\<lparr> sm_State := state \<rparr> \<rparr>"

definition SetStoreBlock :: StoreCreateOption where
  "SetStoreBlock store = store\<lparr> si_blocked := True \<rparr>"

definition SetStoreUnBlock :: StoreCreateOption where
  "SetStoreUnBlock store = store\<lparr> si_blocked := False \<rparr>"

definition SetLeaderCount :: "int \<Rightarrow> StoreCreateOption" where
  "SetLeaderCount leaderCount store = store\<lparr> si_leaderCount := leaderCount \<rparr>"

definition SetRegionCount :: "int \<Rightarrow> StoreCreateOption" where
  "SetRegionCount regionCount store = store\<lparr> si_regionCount := regionCount \<rparr>"

definition SetPendingPeerCount :: "int \<Rightarrow> StoreCreateOption" where
  "SetPendingPeerCount pendingPeerCount store = store\<lparr> si_pendingPeerCount := pendingPeerCount \<rparr>"

definition SetLeaderSize :: "int \<Rightarrow> StoreCreateOption" where
  "SetLeaderSize leaderSize store = store\<lparr> si_leaderSize := leaderSize \<rparr>"

definition SetRegionSize :: "int \<Rightarrow> StoreCreateOption" where
  "SetRegionSize regionSize store = store\<lparr> si_regionSize := regionSize \<rparr>"

definition SetLeaderWeight :: "rat \<Rightarrow> StoreCreateOption" where
  "SetLeaderWeight leaderWeight store = store\<lparr> si_leaderWeight := leaderWeight \<rparr>"

definition SetRegionWeight :: "rat \<Rightarrow> StoreCreateOption" where
  "SetRegionWeight regionWeight store = store\<lparr> si_regionWeight := regionWeight \<rparr>"

definition SetLastHeartbeatTS :: "int \<Rightarrow> StoreCreateOption" where
  "SetLastHeartbeatTS ts store = store\<lparr> si_lastHeartbeatTS := ts \<rparr>"

definition SetStoreStats :: "StoreStats \<Rightarrow> StoreCreateOption" where
  "SetStoreStats stats store = store\<lparr> si_stats := stats \<rparr>"

definition SetAvailableFunc :: "(unit \<Rightarrow> bool) option \<Rightarrow> StoreCreateOption" where
  "SetAvailableFunc f store = store\<lparr> si_available := f \<rparr>"

lemmas store_options =
  SetStoreAddress_def SetStoreState_def SetStoreBlock_def SetStoreUnBlock_def SetLeaderCount_def
  SetRegionCount_def SetPendingPeerCount_def SetLeaderSize_def SetRegionSize_def SetLeaderWeight_def
  SetRegionWeight_def SetLastHeartbeatTS_def SetStoreStats_def SetAvailableFunc_def

section \<open>The stores of a cluster\<close>

type_synonym StoresInfo = "(u64, StoreInfo) fmap"

abbreviation StoreInfo_GetID :: "StoreInfo \<Rightarrow> u64" where
  "StoreInfo_GetID s \<equiv> sm_Id (si_meta s)"

datatype StoreError = StoreNotFoundErr u64 | StoreBlockedErr u64 | StoreTombstonedErr u64

definition NewStoresInfo :: StoresInfo where
  "NewStoresInfo = fmempty"

definition StoresInfo_GetStore :: "StoresInfo \<Rightarrow> u64 \<Rightarrow> StoreInfo option" where
  "StoresInfo_GetStore s storeID = fmlookup s storeID"

definition SetStore :: "StoresInfo \<Rightarrow> StoreInfo \<Rightarrow> StoresInfo" where
  "SetStore s store = fmupd (StoreInfo_GetID store) store s"

definition BlockStore :: "StoresInfo \<Rightarrow> u64 \<Rightarrow> StoreError + StoresInfo" where
  "BlockStore s storeID =
     (case fmlookup s storeID of
        None \<Rightarrow> Inl (StoreNotFoundErr storeID)
      | Some store \<Rightarrow>
          if si_blocked store then Inl (StoreBlockedErr storeID)
          else Inr (fmupd storeID (StoreInfo_Clone store [SetStoreBlock]) s))"

text \<open>Unblocking an unknown store ends the process.\<close>

definition UnblockStore :: "StoresInfo \<Rightarrow> u64 \<Rightarrow> StoresInfo option" where
  "UnblockStore s storeID =
     (case fmlookup s storeID of
        None \<Rightarrow> None
      | Some store \<Rightarrow> Some (fmupd storeID (StoreInfo_Clone store [SetStoreUnBlock]) s))"

text \<open>The setters that replace the stored info by a changed clone, and do nothing without a store.\<close>

definition change_store :: "StoresInfo \<Rightarrow> u64 \<Rightarrow> StoreCreateOption \<Rightarrow> StoresInfo" where
  "change_store s storeID opt =
     (case fmlookup s storeID of None \<Rightarrow> s | Some store \<Rightarrow> fmupd storeID (StoreInfo_Clone store [opt]) s)"

definition AttachAvailableFunc :: "StoresInfo \<Rightarrow> u64 \<Rightarrow> (unit \<Rightarrow> bool) option \<Rightarrow> StoresInfo" where
  "AttachAvailableFunc s storeID f = change_store s storeID (SetAvailableFunc f)"

definition StoresInfo_SetLeaderCount :: "StoresInfo \<Rightarrow> u64 \<Rightarrow> int \<Rightarrow> StoresInfo" where
  "StoresInfo_SetLeaderCount s storeID n = change_store s storeID (SetLeaderCount n)"

definition StoresInfo_SetRegionCount :: "StoresInfo \<Rightarrow> u64 \<Rightarrow> int \<Rightarrow> StoresInfo" where
  "StoresInfo_SetRegionCount s storeID n = change_store s storeID (SetRegionCount n)"

definition StoresInfo_SetPendingPeerCount :: "StoresInfo \<Rightarrow> u64 \<Rightarrow> int \<Rightarrow> StoresInfo" where
  "StoresInfo_SetPendingPeerCount s storeID n = change_store s storeID (SetPendingPeerCount n)"

definition StoresInfo_SetLeaderSize :: "StoresInfo \<Rightarrow> u64 \<Rightarrow> int \<Rightarrow> StoresInfo" where
  "StoresInfo_SetLeaderSize s storeID n = change_store s storeID (SetLeaderSize n)"

definition StoresInfo_SetRegionSize :: "StoresInfo \<Rightarrow> u64 \<Rightarrow> int \<Rightarrow> StoresInfo" where
  "StoresInfo_SetRegionSize s storeID n = change_store s storeID (SetRegionSize n)"

definition GetStores :: "StoresInfo \<Rightarrow> StoreInfo set" where
  "GetStores s = fset (fmran s)"

definition GetMetaStores :: "StoresInfo \<Rightarrow> Store set" where
  "GetMetaStores s = si_meta ` fset (fmran s)"

definition DeleteStore :: "StoresInfo \<Rightarrow> StoreInfo \<Rightarrow> StoresInfo" where
  "DeleteStore s store = fmdrop (StoreInfo_GetID store) s"

definition GetStoreCount :: "StoresInfo \<Rightarrow> int" where
  "GetStoreCount s = int (fcard (fmdom s))"

definition UpdateStoreStatus :: "StoresInfo \<Rightarrow> u64 \<Rightarrow> int \<Rightarrow> int \<Rightarrow> int \<Rightarrow> int \<Rightarrow> int \<Rightarrow> StoresInfo" where
  "UpdateStoreStatus s storeID leaderCount regionCount pendingPeerCount leaderSize regionSize =
     (case fmlookup s storeID of
        None \<Rightarrow> s
      | Some store \<Rightarrow> SetStore s (StoreInfo_Clone store [SetLeaderCount leaderCount, SetRegionCount regionCount,
          SetPendingPeerCount pendingPeerCount, SetLeaderSize leaderSize, SetRegionSize regionSize]))"

section \<open>Every store is filed under its id\<close>

definition stores_ok :: "StoresInfo \<Rightarrow> bool" where
  "stores_ok s \<longleftrightarrow> (\<forall>i store. fmlookup s i = Some store \<longrightarrow> StoreInfo_GetID store = i)"

lemma stores_okD: "stores_ok s \<Longrightarrow> fmlookup s i = Some store \<Longrightarrow> StoreInfo_GetID store = i"
  by (simp add: stores_ok_def)

lemma SetStore_ok: "stores_ok s \<Longrightarrow> stores_ok (SetStore s store)"
  by (simp add: stores_ok_def SetStore_def)

lemma UpdateStoreStatus_lookup:
  assumes "stores_ok s"
  shows "fmlookup (UpdateStoreStatus s i lc rc pc ls rs) j
    = (if i = j then map_option (\<lambda>store. store\<lparr> si_leaderCount := lc, si_regionCount := rc, si_pendingPeerCount := pc,
         si_leaderSize := ls, si_regionSize := rs \<rparr>) (fmlookup s j) else fmlookup s j)"
  using stores_okD[OF assms, of i]
  by (auto simp: UpdateStoreStatus_def SetStore_def StoreInfo_Clone_def store_options split: option.splits)

lemma store_queries_ok:
  assumes "stores_ok s"
  shows "stores_ok (UpdateStoreStatus s i lc rc pc ls rs)" "stores_ok (DeleteStore s store)"
    "BlockStore s i = Inr s' \<Longrightarrow> stores_ok s'" "UnblockStore s i = Some s' \<Longrightarrow> stores_ok s'"
  using assms stores_okD[OF assms]
  by (auto simp: stores_ok_def UpdateStoreStatus_lookup[OF assms] DeleteStore_def BlockStore_def UnblockStore_def
      StoreInfo_Clone_def store_options split: option.splits if_splits)

end
