(* ===== verification/Raft_Cluster.thy ===== *)
theory Raft_Cluster
  imports Regions_Info Store_Info
begin

text \<open>
  The cluster of the scheduler: \<open>BasicCluster\<close> of \<open>scheduler/server/core/basic_cluster.go\<close> and the
  handlers of \<open>RaftCluster\<close> in \<open>scheduler/server/cluster.go\<close> and \<open>cluster_worker.go\<close>. A handler is one
  step, a model of its sequential behaviour: most take the cluster lock for their whole body, but
  \<open>processRegionHeartbeat\<close> and \<open>checkStores\<close> take it only for the parts that write, and what other goroutines
  do between these parts is not modelled. A handler returns the error or the new state, and \<open>None\<close> where
  the code dereferences nil.

  \<open>processRegionHeartbeat_spec\<close> composes the handler of region heartbeats with the region indices, and
  \<open>heartbeat_epoch_test\<close> shows what its epoch test accepts. \<open>cluster_step\<close> is the step relation of the
  all operations on stores; \<open>store_lifecycle\<close> is its invariant by rule induction, up to the calls of
  \<open>SetStoreState\<close> that turn a state back.
\<close>

section \<open>The locked view of stores and regions\<close>

record BasicCluster =
  bc_Stores :: StoresInfo
  bc_Regions :: RegionsInfo

definition NewBasicCluster :: "BasicCluster option" where
  "NewBasicCluster = map_option (\<lambda>r. \<lparr> bc_Stores = NewStoresInfo, bc_Regions = r \<rparr>) NewRegionsInfo"

definition BasicCluster_GetStore :: "BasicCluster \<Rightarrow> u64 \<Rightarrow> StoreInfo option" where
  "BasicCluster_GetStore bc storeID = StoresInfo_GetStore (bc_Stores bc) storeID"

definition BasicCluster_GetRegion :: "BasicCluster \<Rightarrow> u64 \<Rightarrow> RegionInfo option" where
  "BasicCluster_GetRegion bc regionID = GetRegion (bc_Regions bc) regionID"

text \<open>Stores that are not known are skipped.\<close>

definition GetRegionStores :: "BasicCluster \<Rightarrow> RegionInfo \<Rightarrow> StoreInfo set" where
  "GetRegionStores bc region = {store. \<exists>i\<in>GetStoreIds region. BasicCluster_GetStore bc i = Some store}"

definition GetFollowerStores :: "BasicCluster \<Rightarrow> RegionInfo \<Rightarrow> StoreInfo set" where
  "GetFollowerStores bc region =
     {store. \<exists>i\<in>fset (fmdom (GetFollowers region)). BasicCluster_GetStore bc i = Some store}"

definition GetLeaderStore :: "BasicCluster \<Rightarrow> RegionInfo \<Rightarrow> StoreInfo option" where
  "GetLeaderStore bc region = BasicCluster_GetStore bc (GetPeerStoreId (ri_leader region))"

definition BasicCluster_BlockStore :: "BasicCluster \<Rightarrow> u64 \<Rightarrow> StoreError + BasicCluster" where
  "BasicCluster_BlockStore bc storeID = map_sum id (\<lambda>s. bc\<lparr> bc_Stores := s \<rparr>) (BlockStore (bc_Stores bc) storeID)"

definition BasicCluster_UnblockStore :: "BasicCluster \<Rightarrow> u64 \<Rightarrow> BasicCluster option" where
  "BasicCluster_UnblockStore bc storeID = map_option (\<lambda>s. bc\<lparr> bc_Stores := s \<rparr>) (UnblockStore (bc_Stores bc) storeID)"

definition BasicCluster_UpdateStoreStatus :: "BasicCluster \<Rightarrow> u64 \<Rightarrow> int \<Rightarrow> int \<Rightarrow> int \<Rightarrow> int \<Rightarrow> int \<Rightarrow> BasicCluster" where
  "BasicCluster_UpdateStoreStatus bc storeID leaderCount regionCount pendingPeerCount leaderSize regionSize =
     bc\<lparr> bc_Stores := UpdateStoreStatus (bc_Stores bc) storeID leaderCount regionCount pendingPeerCount leaderSize regionSize \<rparr>"

definition BasicCluster_GetStoreRegionCount :: "BasicCluster \<Rightarrow> u64 \<Rightarrow> int" where
  "BasicCluster_GetStoreRegionCount bc storeID =
     GetStoreLeaderCount (bc_Regions bc) storeID + GetStoreFollowerCount (bc_Regions bc) storeID
       + GetStoreLearnerCount (bc_Regions bc) storeID"

definition BasicCluster_GetStoreRegionSize :: "BasicCluster \<Rightarrow> u64 \<Rightarrow> int" where
  "BasicCluster_GetStoreRegionSize bc storeID =
     GetStoreLeaderRegionSize (bc_Regions bc) storeID + GetStoreFollowerRegionSize (bc_Regions bc) storeID
       + GetStoreLearnerRegionSize (bc_Regions bc) storeID"

definition PutStore :: "BasicCluster \<Rightarrow> StoreInfo \<Rightarrow> BasicCluster" where
  "PutStore bc store = bc\<lparr> bc_Stores := SetStore (bc_Stores bc) store \<rparr>"

definition BasicCluster_DeleteStore :: "BasicCluster \<Rightarrow> StoreInfo \<Rightarrow> BasicCluster" where
  "BasicCluster_DeleteStore bc store = bc\<lparr> bc_Stores := DeleteStore (bc_Stores bc) store \<rparr>"

definition PutRegion :: "BasicCluster \<Rightarrow> RegionInfo \<Rightarrow> (BasicCluster \<times> RegionInfo list) option" where
  "PutRegion bc region = map_option (\<lambda>(r, overlaps). (bc\<lparr> bc_Regions := r \<rparr>, overlaps)) (SetRegion (bc_Regions bc) region)"

definition BasicCluster_RemoveRegion :: "BasicCluster \<Rightarrow> RegionInfo \<Rightarrow> BasicCluster option" where
  "BasicCluster_RemoveRegion bc region = map_option (\<lambda>r. bc\<lparr> bc_Regions := r \<rparr>) (RemoveRegion (bc_Regions bc) region)"

definition BasicCluster_SearchRegion :: "BasicCluster \<Rightarrow> bytes \<Rightarrow> RegionInfo option option" where
  "BasicCluster_SearchRegion bc regionKey = SearchRegion (bc_Regions bc) regionKey"

definition BasicCluster_SearchPrevRegion :: "BasicCluster \<Rightarrow> bytes \<Rightarrow> RegionInfo option option" where
  "BasicCluster_SearchPrevRegion bc regionKey = SearchPrevRegion (bc_Regions bc) regionKey"

definition BasicCluster_ScanRange :: "BasicCluster \<Rightarrow> bytes \<Rightarrow> bytes \<Rightarrow> int \<Rightarrow> RegionInfo option list option" where
  "BasicCluster_ScanRange bc startKey endKey limit = ScanRange (bc_Regions bc) startKey endKey limit"

section \<open>The cluster\<close>

text \<open>
  The errors of the handlers. Storage is etcd: a handler only sees whether a save succeeded, so saving
  a store is an argument that returns the error, if any.
\<close>

datatype ClusterError =
    StoreErr StoreError
  | InvalidStore Store
  | DuplicatedAddress Store
  | StoreStillUp
  | RegionIsStale Region Region
  | RegionNotFound Region
  | InvalidEpoch
  | InvalidSplit
  | StorageError string

record RaftCluster =
  rc_core :: BasicCluster
  rc_clusterID :: u64

type_synonym SaveStore = "Store \<Rightarrow> ClusterError option"

definition isInitialized :: "u64 \<Rightarrow> RaftCluster \<Rightarrow> bool option" where
  "isInitialized MaxReplicas c =
     (if GetRegionCount (bc_Regions (rc_core c)) > 1 then Some True
      else do {
        region \<leftarrow> BasicCluster_SearchRegion (rc_core c) [];
        Some (case region of None \<Rightarrow> False
          | Some region \<Rightarrow> int (length (ri_voters region)) \<ge> u64_to_int MaxReplicas \<and> ri_pendingPeers region = [])
      })"

definition handleStoreHeartbeat :: "int \<Rightarrow> RaftCluster \<Rightarrow> StoreStats \<Rightarrow> ClusterError + RaftCluster" where
  "handleStoreHeartbeat now c stats =
     (let storeID = ss_StoreId stats in
      case BasicCluster_GetStore (rc_core c) storeID of
        None \<Rightarrow> Inl (StoreErr (StoreNotFoundErr storeID))
      | Some store \<Rightarrow>
          Inr (c\<lparr> rc_core := PutStore (rc_core c) (StoreInfo_Clone store [SetStoreStats stats, SetLastHeartbeatTS now]) \<rparr>))"

definition updateStoreStatusLocked :: "u64 \<Rightarrow> RaftCluster \<Rightarrow> RaftCluster" where
  "updateStoreStatusLocked i c =
     (let core = rc_core c;
          leaderCount = GetStoreLeaderCount (bc_Regions core) i;
          regionCount = BasicCluster_GetStoreRegionCount core i;
          pendingPeerCount = GetStorePendingPeerCount (bc_Regions core) i;
          leaderRegionSize = GetStoreLeaderRegionSize (bc_Regions core) i;
          regionSize = BasicCluster_GetStoreRegionSize core i
      in c\<lparr> rc_core := BasicCluster_UpdateStoreStatus core i leaderCount regionCount pendingPeerCount leaderRegionSize regionSize \<rparr>)"

definition putRegion :: "RaftCluster \<Rightarrow> RegionInfo \<Rightarrow> RaftCluster option" where
  "putRegion c region = do {
     (core, _) \<leftarrow> PutRegion (rc_core c) region;
     Some (c\<lparr> rc_core := core \<rparr>)
   }"

text \<open>The status of each store that has a peer of the region; each update writes one store, so the
  order in which Go walks the map does not matter, and the model takes increasing ids.\<close>

definition updateRegion :: "RaftCluster \<Rightarrow> RegionInfo \<Rightarrow> RaftCluster option" where
  "updateRegion c region = do {
     c \<leftarrow> putRegion c region;
     Some (fold updateStoreStatusLocked (sorted_list_of_set (GetStoreIds region)) c)
   }"

text \<open>The test of the heartbeat handler, which reads a nil epoch of a stored region as a panic.\<close>

definition heartbeat_stale :: "RegionEpoch \<Rightarrow> RegionInfo \<Rightarrow> bool option" where
  "heartbeat_stale regionEpoch r = do {
     rEpoch \<leftarrow> rg_RegionEpoch (ri_meta r);
     Some (ep_Version regionEpoch < ep_Version rEpoch \<or> ep_Version regionEpoch < ep_ConfVer rEpoch)
   }"

fun first_stale :: "RegionEpoch \<Rightarrow> RegionInfo option list \<Rightarrow> RegionInfo option option" where
  "first_stale regionEpoch [] = Some None"
| "first_stale regionEpoch (r # rs) = do {
     r \<leftarrow> r;
     stale \<leftarrow> heartbeat_stale regionEpoch r;
     if stale then Some (Some r) else first_stale regionEpoch rs
   }"

definition processRegionHeartbeat :: "RaftCluster \<Rightarrow> RegionInfo \<Rightarrow> (ClusterError + RaftCluster) option" where
  "processRegionHeartbeat c region =
     (case rg_RegionEpoch (ri_meta region) of
        None \<Rightarrow> Some (Inr c)
      | Some regionEpoch \<Rightarrow> do {
          stale \<leftarrow> (case BasicCluster_GetRegion (rc_core c) (GetID region) of
              Some r \<Rightarrow> first_stale regionEpoch [Some r]
            | None \<Rightarrow> do {
                overlapRegions \<leftarrow> BasicCluster_ScanRange (rc_core c) (GetStartKey region) (GetEndKey region) 0;
                first_stale regionEpoch overlapRegions
              });
          (case stale of
             Some r \<Rightarrow> Some (Inl (RegionIsStale (ri_meta region) (ri_meta r)))
           | None \<Rightarrow> map_option Inr (updateRegion c region))
        })"

section \<open>Stores of the cluster\<close>

definition putStoreLocked :: "SaveStore \<Rightarrow> RaftCluster \<Rightarrow> StoreInfo \<Rightarrow> ClusterError + RaftCluster" where
  "putStoreLocked save c store =
     (case save (si_meta store) of
        Some err \<Rightarrow> Inl err
      | None \<Rightarrow> Inr (c\<lparr> rc_core := PutStore (rc_core c) store \<rparr>))"

definition putStore :: "SaveStore \<Rightarrow> RaftCluster \<Rightarrow> Store \<Rightarrow> ClusterError + RaftCluster" where
  "putStore save c store =
     (if sm_Id store = 0 then Inl (InvalidStore store)
      else if \<exists>s\<in>GetStores (bc_Stores (rc_core c)).
          \<not> IsTombstone s \<and> StoreInfo_GetID s \<noteq> sm_Id store \<and> sm_Address (si_meta s) = sm_Address store
        then Inl (DuplicatedAddress store)
      else putStoreLocked save c
        (case BasicCluster_GetStore (rc_core c) (sm_Id store) of
           None \<Rightarrow> NewStoreInfo store []
         | Some s \<Rightarrow> StoreInfo_Clone s [SetStoreAddress (sm_Address store)]))"

definition RemoveStore :: "SaveStore \<Rightarrow> RaftCluster \<Rightarrow> u64 \<Rightarrow> ClusterError + RaftCluster" where
  "RemoveStore save c storeID =
     (case BasicCluster_GetStore (rc_core c) storeID of
        None \<Rightarrow> Inl (StoreErr (StoreNotFoundErr storeID))
      | Some store \<Rightarrow>
          if IsOffline store then Inr c
          else if IsTombstone store then Inl (StoreErr (StoreTombstonedErr storeID))
          else putStoreLocked save c (StoreInfo_Clone store [SetStoreState Offline]))"

definition BuryStore :: "SaveStore \<Rightarrow> RaftCluster \<Rightarrow> u64 \<Rightarrow> bool \<Rightarrow> ClusterError + RaftCluster" where
  "BuryStore save c storeID force =
     (case BasicCluster_GetStore (rc_core c) storeID of
        None \<Rightarrow> Inl (StoreErr (StoreNotFoundErr storeID))
      | Some store \<Rightarrow>
          if IsTombstone store then Inr c
          else if IsUp store \<and> \<not> force then Inl StoreStillUp
          else putStoreLocked save c (StoreInfo_Clone store [SetStoreState Tombstone]))"

definition RaftCluster_SetStoreState :: "SaveStore \<Rightarrow> RaftCluster \<Rightarrow> u64 \<Rightarrow> StoreState \<Rightarrow> ClusterError + RaftCluster" where
  "RaftCluster_SetStoreState save c storeID state =
     (case BasicCluster_GetStore (rc_core c) storeID of
        None \<Rightarrow> Inl (StoreErr (StoreNotFoundErr storeID))
      | Some store \<Rightarrow> putStoreLocked save c (StoreInfo_Clone store [SetStoreState state]))"

definition SetStoreWeight :: "SaveStore \<Rightarrow> ClusterError option \<Rightarrow> RaftCluster \<Rightarrow> u64 \<Rightarrow> rat \<Rightarrow> rat \<Rightarrow> ClusterError + RaftCluster" where
  "SetStoreWeight save saveWeight c storeID leaderWeight regionWeight =
     (case BasicCluster_GetStore (rc_core c) storeID of
        None \<Rightarrow> Inl (StoreErr (StoreNotFoundErr storeID))
      | Some store \<Rightarrow>
          (case saveWeight of
             Some err \<Rightarrow> Inl err
           | None \<Rightarrow> putStoreLocked save c (StoreInfo_Clone store [SetLeaderWeight leaderWeight, SetRegionWeight regionWeight])))"

text \<open>The body of the loop of \<open>checkStores\<close> for one store of the list taken at the start; an error is logged.\<close>

definition check_store :: "SaveStore \<Rightarrow> StoreInfo \<Rightarrow> RaftCluster \<Rightarrow> RaftCluster" where
  "check_store save store c =
     (if IsTombstone store \<or> IsUp store then c
      else if BasicCluster_GetStoreRegionCount (rc_core c) (StoreInfo_GetID store) = 0
        then (case BuryStore save c (StoreInfo_GetID store) False of Inl _ \<Rightarrow> c | Inr c' \<Rightarrow> c')
      else c)"

text \<open>\<open>stores\<close> lists the stores in the order in which Go walks the map.\<close>

definition checkStores :: "SaveStore \<Rightarrow> StoreInfo list \<Rightarrow> RaftCluster \<Rightarrow> RaftCluster" where
  "checkStores save stores c = fold (check_store save) stores c"

definition deleteStoreLocked :: "SaveStore \<Rightarrow> RaftCluster \<Rightarrow> StoreInfo \<Rightarrow> ClusterError + RaftCluster" where
  "deleteStoreLocked delete c store =
     (case delete (si_meta store) of
        Some err \<Rightarrow> Inl err
      | None \<Rightarrow> Inr (c\<lparr> rc_core := BasicCluster_DeleteStore (rc_core c) store \<rparr>))"

text \<open>The result also holds the state after an error: the records deleted before it stay deleted.\<close>

fun RemoveTombStoneRecords :: "SaveStore \<Rightarrow> StoreInfo list \<Rightarrow> RaftCluster \<Rightarrow> ClusterError option \<times> RaftCluster" where
  "RemoveTombStoneRecords delete [] c = (None, c)"
| "RemoveTombStoneRecords delete (store # stores) c =
     (if IsTombstone store
      then (case deleteStoreLocked delete c store of
              Inl err \<Rightarrow> (Some err, c)
            | Inr c' \<Rightarrow> RemoveTombStoneRecords delete stores c')
      else RemoveTombStoneRecords delete stores c)"

definition takeRegionStoresLocked :: "RaftCluster \<Rightarrow> RegionInfo \<Rightarrow> StoreInfo list" where
  "takeRegionStoresLocked c region =
     List.map_filter (\<lambda>p. StoresInfo_GetStore (bc_Stores (rc_core c)) (peer_StoreId p)) (rg_Peers (ri_meta region))"

definition DropCacheRegion :: "RaftCluster \<Rightarrow> u64 \<Rightarrow> RaftCluster option" where
  "DropCacheRegion c i =
     (case BasicCluster_GetRegion (rc_core c) i of
        None \<Rightarrow> Some c
      | Some region \<Rightarrow> map_option (\<lambda>core. c\<lparr> rc_core := core \<rparr>) (BasicCluster_RemoveRegion (rc_core c) region))"

definition GetRegionByKey :: "RaftCluster \<Rightarrow> bytes \<Rightarrow> (Region option \<times> Peer option) option" where
  "GetRegionByKey c regionKey = do {
     region \<leftarrow> BasicCluster_SearchRegion (rc_core c) regionKey;
     Some (case region of None \<Rightarrow> (None, None) | Some region \<Rightarrow> (Some (ri_meta region), ri_leader region))
   }"

definition GetPrevRegionByKey :: "RaftCluster \<Rightarrow> bytes \<Rightarrow> (Region option \<times> Peer option) option" where
  "GetPrevRegionByKey c regionKey = do {
     region \<leftarrow> BasicCluster_SearchPrevRegion (rc_core c) regionKey;
     Some (case region of None \<Rightarrow> (None, None) | Some region \<Rightarrow> (Some (ri_meta region), ri_leader region))
   }"

definition GetRegionByID :: "RaftCluster \<Rightarrow> u64 \<Rightarrow> Region option \<times> Peer option" where
  "GetRegionByID c regionID =
     (case BasicCluster_GetRegion (rc_core c) regionID of
        None \<Rightarrow> (None, None)
      | Some region \<Rightarrow> (Some (ri_meta region), ri_leader region))"

section \<open>Splits\<close>

text \<open>The nil-safe getters of an epoch.\<close>

definition GetVersion :: "RegionEpoch option \<Rightarrow> u64" where
  "GetVersion e = (case e of None \<Rightarrow> 0 | Some e \<Rightarrow> ep_Version e)"

definition GetConfVer :: "RegionEpoch option \<Rightarrow> u64" where
  "GetConfVer e = (case e of None \<Rightarrow> 0 | Some e \<Rightarrow> ep_ConfVer e)"

definition validRequestRegion :: "RaftCluster \<Rightarrow> Region \<Rightarrow> ClusterError option option" where
  "validRequestRegion c reqRegion = do {
     (region, _) \<leftarrow> GetRegionByKey c (rg_StartKey reqRegion);
     Some (case region of
         None \<Rightarrow> Some (RegionNotFound reqRegion)
       | Some region \<Rightarrow>
           if GetVersion (rg_RegionEpoch reqRegion) < GetVersion (rg_RegionEpoch region)
             \<or> GetConfVer (rg_RegionEpoch reqRegion) < GetConfVer (rg_RegionEpoch region)
           then Some InvalidEpoch else None)
   }"

definition checkSplitRegion :: "Region option \<Rightarrow> Region option \<Rightarrow> ClusterError option" where
  "checkSplitRegion left right =
     (case (left, right) of
        (Some left, Some right) \<Rightarrow>
          if rg_EndKey left \<noteq> rg_StartKey right then Some InvalidSplit
          else if length (rg_EndKey right) = 0 \<or> bytes_compare (rg_StartKey left) (rg_EndKey right) < 0 then None
          else Some InvalidSplit
      | _ \<Rightarrow> Some InvalidSplit)"

fun checkSplit_from :: "Region list \<Rightarrow> ClusterError option" where
  "checkSplit_from (left # right # rest) =
     (if rg_EndKey left \<noteq> rg_StartKey right then Some InvalidSplit
      else if length (rg_EndKey right) \<noteq> 0 \<and> bytes_compare (rg_StartKey left) (rg_EndKey right) \<ge> 0 then Some InvalidSplit
      else checkSplit_from (right # rest))"
| "checkSplit_from _ = None"

definition checkSplitRegions :: "Region list \<Rightarrow> ClusterError option" where
  "checkSplitRegions regions = (if length regions \<le> 1 then Some InvalidSplit else checkSplit_from regions)"

section \<open>Heartbeats of regions\<close>

abbreviation stores_of :: "RaftCluster \<Rightarrow> StoresInfo" where
  "stores_of c \<equiv> bc_Stores (rc_core c)"

abbreviation regions_of :: "RaftCluster \<Rightarrow> RegionsInfo" where
  "regions_of c \<equiv> bc_Regions (rc_core c)"

definition with_counts :: "RegionsInfo \<Rightarrow> u64 \<Rightarrow> StoreInfo \<Rightarrow> StoreInfo" where
  "with_counts R i store = store\<lparr> si_leaderCount := GetStoreLeaderCount R i,
     si_regionCount := GetStoreLeaderCount R i + GetStoreFollowerCount R i + GetStoreLearnerCount R i,
     si_pendingPeerCount := GetStorePendingPeerCount R i, si_leaderSize := GetStoreLeaderRegionSize R i,
     si_regionSize := GetStoreLeaderRegionSize R i + GetStoreFollowerRegionSize R i + GetStoreLearnerRegionSize R i \<rparr>"

lemma updateStoreStatus_ok:
  assumes "stores_ok (stores_of c)"
  shows "regions_of (updateStoreStatusLocked i c) = regions_of c" "stores_ok (stores_of (updateStoreStatusLocked i c))"
    "fmlookup (stores_of (updateStoreStatusLocked i c)) j
      = (if i = j then map_option (with_counts (regions_of c) j) (fmlookup (stores_of c) j) else fmlookup (stores_of c) j)"
  using assms
  by (simp_all add: updateStoreStatusLocked_def Let_def BasicCluster_UpdateStoreStatus_def store_queries_ok(1)
      UpdateStoreStatus_lookup BasicCluster_GetStoreRegionCount_def BasicCluster_GetStoreRegionSize_def with_counts_def[abs_def])

lemma with_counts_idem: "with_counts R i (with_counts R i store) = with_counts R i store"
  by (simp add: with_counts_def)

lemma updateStoreStatuses_ok:
  assumes "stores_ok (stores_of c)"
  shows "regions_of (fold updateStoreStatusLocked is c) = regions_of c \<and> stores_ok (stores_of (fold updateStoreStatusLocked is c))
    \<and> (\<forall>j. fmlookup (stores_of (fold updateStoreStatusLocked is c)) j
      = (if j \<in> set is then map_option (with_counts (regions_of c) j) (fmlookup (stores_of c) j) else fmlookup (stores_of c) j))"
  using assms
proof (induction "is" arbitrary: c)
  case (Cons i "is")
  note u = updateStoreStatus_ok[OF Cons.prems, of i]
  from Cons.IH[OF u(2)] show ?case
    by (auto simp: u option.map_comp comp_def with_counts_idem)
qed simp

definition outdated :: "RegionEpoch \<Rightarrow> RegionInfo \<Rightarrow> bool" where
  "outdated e r \<longleftrightarrow> (case rg_RegionEpoch (ri_meta r) of None \<Rightarrow> False
     | Some e' \<Rightarrow> ep_Version e < ep_Version e' \<or> ep_Version e < ep_ConfVer e')"

lemma first_stale_ok:
  "\<forall>r\<in>set rs. rg_RegionEpoch (ri_meta r) \<noteq> None \<Longrightarrow> first_stale e (map Some rs) = Some (List.find (outdated e) rs)"
  by (induction rs) (auto simp: heartbeat_stale_def outdated_def)

text \<open>The regions a heartbeat is compared with.\<close>

definition rivals :: "RegionInfo \<Rightarrow> RegionInfo list \<Rightarrow> RegionInfo list" where
  "rivals q L = (case List.find (\<lambda>r. GetID r = GetID q) L of
     Some r \<Rightarrow> [r]
   | None \<Rightarrow> filter (\<lambda>r. (GetEndKey r = [] \<or> GetStartKey q < GetEndKey r) \<and> (GetEndKey q = [] \<or> GetStartKey r < GetEndKey q)) L)"

lemma GetRegion_find:
  assumes "regions_ok R"
  shows "GetRegion R i = List.find (\<lambda>r. GetID r = i) (regs (rs_tree R))"
proof (cases "List.find (\<lambda>r. GetID r = i) (regs (rs_tree R))")
  case None
  then have "\<forall>r\<in>set (regs (rs_tree R)). GetID r \<noteq> i" by (auto simp: find_None_iff)
  then have "GetRegion R i \<noteq> Some r" for r
    using assms by (auto simp: regions_ok_def rest_ok_def map_ok_def GetRegion_def regionMap_Get_def)
  then show ?thesis using None by (cases "GetRegion R i") auto
next
  case (Some r)
  then have "r \<in> set (regs (rs_tree R))" "GetID r = i" by (auto simp: find_Some_iff)
  with Some show ?thesis using GetRegion_stored[OF assms] by auto
qed

lemma processRegionHeartbeat_cases:
  assumes R: "regions_ok (regions_of c)" and e: "rg_RegionEpoch (ri_meta q) = Some e"
    and ep: "\<forall>r\<in>set (regs (rs_tree (regions_of c))). rg_RegionEpoch (ri_meta r) \<noteq> None"
  shows "processRegionHeartbeat c q = (case List.find (outdated e) (rivals q (regs (rs_tree (regions_of c)))) of
     Some r \<Rightarrow> Some (Inl (RegionIsStale (ri_meta q) (ri_meta r)))
   | None \<Rightarrow> map_option Inr (updateRegion c q))"
proof (cases "List.find (\<lambda>r. GetID r = GetID q) (regs (rs_tree (regions_of c)))")
  case None
  let ?cs = "candidates (GetStartKey q) (GetEndKey q) (regs (rs_tree (regions_of c)))"
  have "first_stale e (map Some ?cs) = Some (List.find (outdated e) ?cs)"
    using ep by (intro first_stale_ok) (auto simp: candidates_def)
  with None show ?thesis
    by (simp add: processRegionHeartbeat_def e BasicCluster_GetRegion_def GetRegion_find[OF R] BasicCluster_ScanRange_def
        ScanRange_ok[OF R] rivals_def candidates_def)
next
  case (Some r)
  then have "r \<in> set (regs (rs_tree (regions_of c)))" by (auto simp: find_Some_iff)
  with ep have "first_stale e (map Some [r]) = Some (List.find (outdated e) [r])" by (intro first_stale_ok) auto
  with Some show ?thesis
    by (simp add: processRegionHeartbeat_def e BasicCluster_GetRegion_def GetRegion_find[OF R] rivals_def)
qed

lemma finite_GetStoreIds [simp]: "finite (GetStoreIds q)"
  by (simp add: GetStoreIds_def)

lemma updateRegion_ok:
  assumes R: "regions_ok (regions_of c)" "stores_ok (stores_of c)" and q: "info_valid q"
  shows "\<exists>c'. updateRegion c q = Some c' \<and> regions_ok (regions_of c') \<and> stores_ok (stores_of c')
    \<and> regs (rs_tree (regions_of c')) = place q (filter (\<lambda>r. GetID r \<noteq> GetID q) (regs (rs_tree (regions_of c))))
    \<and> (\<forall>i. fmlookup (stores_of c') i = (if i \<in> GetStoreIds q
        then map_option (with_counts (regions_of c') i) (fmlookup (stores_of c) i) else fmlookup (stores_of c) i))"
proof -
  from SetRegion_ok[OF R(1) q] obtain R' out where
    R': "SetRegion (regions_of c) q = Some (R', out)" "regions_ok R'"
      "regs (rs_tree R') = place q (filter (\<lambda>r. GetID r \<noteq> GetID q) (regs (rs_tree (regions_of c))))" by blast
  let ?c = "c\<lparr> rc_core := (rc_core c)\<lparr> bc_Regions := R' \<rparr> \<rparr>"
  have "putRegion c q = Some ?c" by (simp add: putRegion_def PutRegion_def R'(1))
  moreover have "stores_ok (stores_of ?c)" using R(2) by simp
  from updateStoreStatuses_ok[OF this, of "sorted_list_of_set (GetStoreIds q)"] R' have
    "regions_ok (regions_of (fold updateStoreStatusLocked (sorted_list_of_set (GetStoreIds q)) ?c))" by simp
  ultimately show ?thesis
    using updateStoreStatuses_ok[of ?c "sorted_list_of_set (GetStoreIds q)"] R(2) R' by (simp add: updateRegion_def)
qed

section \<open>The life of a store\<close>

fun state_rank :: "StoreState \<Rightarrow> nat" where
  "state_rank Up = 0"
| "state_rank Offline = 1"
| "state_rank Tombstone = 2"

abbreviation rank_of :: "StoreInfo \<Rightarrow> nat" where
  "rank_of s \<equiv> state_rank (sm_State (si_meta s))"

text \<open>Every store is filed under its id, and no two stores that are not tombstones share an address.\<close>

definition addresses_ok :: "StoresInfo \<Rightarrow> bool" where
  "addresses_ok S \<longleftrightarrow> (\<forall>i j s t. fmlookup S i = Some s \<and> fmlookup S j = Some t \<and> i \<noteq> j
     \<and> \<not> IsTombstone s \<and> \<not> IsTombstone t \<longrightarrow> sm_Address (si_meta s) \<noteq> sm_Address (si_meta t))"

definition cluster_ok :: "RaftCluster \<Rightarrow> bool" where
  "cluster_ok c \<longleftrightarrow> stores_ok (stores_of c) \<and> addresses_ok (stores_of c)"

text \<open>The operations that change the stores. Which saves fail is arbitrary, and so is the order of
  a walk through the stores.\<close>

inductive cluster_step :: "RaftCluster \<Rightarrow> RaftCluster \<Rightarrow> bool" where
  putStore: "putStore save c store = Inr c' \<Longrightarrow> cluster_step c c'"
| RemoveStore: "RemoveStore save c i = Inr c' \<Longrightarrow> cluster_step c c'"
| BuryStore: "BuryStore save c i force = Inr c' \<Longrightarrow> cluster_step c c'"
| SetStoreWeight: "SetStoreWeight save sw c i lw rw = Inr c' \<Longrightarrow> cluster_step c c'"
| handleStoreHeartbeat: "handleStoreHeartbeat now c stats = Inr c' \<Longrightarrow> cluster_step c c'"
| updateStoreStatus: "cluster_step c (updateStoreStatusLocked i c)"
| checkStores: "set stores = GetStores (stores_of c) \<Longrightarrow> cluster_step c (checkStores save stores c)"
| RemoveTombStoneRecords: "set stores = GetStores (stores_of c)
    \<Longrightarrow> cluster_step c (snd (RemoveTombStoneRecords save stores c))"
| SetStoreState: "RaftCluster_SetStoreState save c i state = Inr c' \<Longrightarrow> cluster_step c c'"
| processRegionHeartbeat: "processRegionHeartbeat c q = Some (Inr c') \<Longrightarrow> cluster_step c c'"
| BlockStore: "BasicCluster_BlockStore (rc_core c) i = Inr core \<Longrightarrow> cluster_step c (c\<lparr> rc_core := core \<rparr>)"
| UnblockStore: "BasicCluster_UnblockStore (rc_core c) i = Some core \<Longrightarrow> cluster_step c (c\<lparr> rc_core := core \<rparr>)"
| AttachAvailableFunc: "cluster_step c (c\<lparr> rc_core := (rc_core c)\<lparr> bc_Stores := AttachAvailableFunc (stores_of c) i f \<rparr> \<rparr>)"

text \<open>The one operation that may turn the state of a store back: \<open>SetStoreState\<close>, which has no guard, called with
  an earlier state. The program does not call it.\<close>

definition reverts :: "RaftCluster \<Rightarrow> RaftCluster \<Rightarrow> bool" where
  "reverts c c' \<longleftrightarrow> (\<exists>save i state s. RaftCluster_SetStoreState save c i state = Inr c' \<and> fmlookup (stores_of c) i = Some s \<and>
     state_rank state < rank_of s)"

text \<open>A store keeps its id and address and its state does not go back.\<close>

definition matures :: "StoreInfo \<Rightarrow> StoreInfo \<Rightarrow> bool" where
  "matures s t \<longleftrightarrow> StoreInfo_GetID t = StoreInfo_GetID s \<and> sm_Address (si_meta t) = sm_Address (si_meta s)
     \<and> rank_of s \<le> rank_of t"

definition ages :: "StoresInfo \<Rightarrow> StoresInfo \<Rightarrow> bool" where
  "ages S T \<longleftrightarrow> (\<forall>i. rel_option matures (fmlookup S i) (fmlookup T i))"

lemma matures_refl [simp]: "matures s s"
  by (simp add: matures_def)

lemma matures_trans: "matures s t \<Longrightarrow> matures t u \<Longrightarrow> matures s u"
  by (auto simp: matures_def)

lemma ages_refl [simp]: "ages S S"
  by (simp add: ages_def option.rel_refl)

lemma ages_trans:
  assumes "ages S T" "ages T U"
  shows "ages S U"
proof -
  have "transp matures" by (rule transpI) (rule matures_trans)
  then have "transp (rel_option matures)" by (rule option.rel_transp)
  then have "rel_option matures (fmlookup S i) (fmlookup U i)" for i
    using assms[unfolded ages_def, THEN spec, of i] by (rule transpD)
  then show ?thesis by (simp add: ages_def)
qed

lemma ages_update:
  assumes "fmlookup S i = Some s" "matures s t" "StoreInfo_GetID s = i"
  shows "ages S (SetStore S t)"
  using assms by (auto simp: ages_def SetStore_def matures_def intro: option.rel_refl)

lemma tombstone_rank: "IsTombstone s \<longleftrightarrow> rank_of s = 2"
  by (cases "sm_State (si_meta s)") (auto simp: IsTombstone_def)

lemma matures_tombstone: "matures s t \<Longrightarrow> IsTombstone s \<Longrightarrow> IsTombstone t"
  by (cases "sm_State (si_meta t)") (auto simp: tombstone_rank matures_def)

lemma agesE:
  assumes "ages S T" "fmlookup T i = Some t"
  obtains s where "fmlookup S i = Some s" "matures s t"
proof (cases "fmlookup S i")
  case None
  with assms show thesis by (auto simp: ages_def dest!: spec[of _ i])
next
  case (Some s)
  with assms show thesis by (intro that[of s]) (auto simp: ages_def dest!: spec[of _ i])
qed

lemma ages_ok:
  assumes "ages S T" "stores_ok S" "addresses_ok S"
  shows "stores_ok T \<and> addresses_ok T"
proof
  show "stores_ok T"
    unfolding stores_ok_def
  proof (intro allI impI)
    fix i t
    assume "fmlookup T i = Some t"
    then obtain s where "fmlookup S i = Some s" "matures s t" by (rule agesE[OF assms(1)])
    then show "StoreInfo_GetID t = i" using stores_okD[OF assms(2)] by (simp add: matures_def)
  qed
  show "addresses_ok T"
    unfolding addresses_ok_def
  proof (intro allI impI)
    fix i j s t
    assume a: "fmlookup T i = Some s \<and> fmlookup T j = Some t \<and> i \<noteq> j \<and> \<not> IsTombstone s \<and> \<not> IsTombstone t"
    then have T: "fmlookup T i = Some s" "fmlookup T j = Some t" by simp_all
    obtain s0 where s0: "fmlookup S i = Some s0" "matures s0 s" by (rule agesE[OF assms(1) T(1)])
    obtain t0 where t0: "fmlookup S j = Some t0" "matures t0 t" by (rule agesE[OF assms(1) T(2)])
    note b = s0 t0
    then have "\<not> IsTombstone s0" "\<not> IsTombstone t0" using a matures_tombstone by auto
    with a b assms(3) have "sm_Address (si_meta s0) \<noteq> sm_Address (si_meta t0)" by (auto simp: addresses_ok_def)
    with b show "sm_Address (si_meta s) \<noteq> sm_Address (si_meta t)" by (simp add: matures_def)
  qed
qed

lemma putStoreLocked_stores:
  "putStoreLocked save c st = Inr c' \<Longrightarrow> stores_of c' = SetStore (stores_of c) st \<and> regions_of c' = regions_of c"
  by (auto simp: putStoreLocked_def PutStore_def split: option.splits)

lemma change_ages:
  assumes "putStoreLocked save c t = Inr c'" "stores_ok (stores_of c)" "fmlookup (stores_of c) i = Some s" "matures s t"
  shows "ages (stores_of c) (stores_of c')"
  using putStoreLocked_stores[OF assms(1)] ages_update[OF assms(3,4) stores_okD[OF assms(2,3)]] by simp

lemma not_tombstone_rank: "\<not> IsTombstone s \<Longrightarrow> \<not> IsOffline s \<Longrightarrow> rank_of s = 0"
  by (cases "sm_State (si_meta s)") (auto simp: IsTombstone_def IsOffline_def)

lemma RemoveStore_ages: "stores_ok (stores_of c) \<Longrightarrow> RemoveStore save c i = Inr c' \<Longrightarrow> ages (stores_of c) (stores_of c')"
  by (auto simp: RemoveStore_def BasicCluster_GetStore_def StoresInfo_GetStore_def StoreInfo_Clone_def matures_def
      store_options not_tombstone_rank elim!: change_ages split: option.splits if_splits)

lemma BuryStore_ages: "stores_ok (stores_of c) \<Longrightarrow> BuryStore save c i force = Inr c' \<Longrightarrow> ages (stores_of c) (stores_of c')"
proof -
  have "state_rank x \<le> 2" for x by (cases x) auto
  then show "stores_ok (stores_of c) \<Longrightarrow> BuryStore save c i force = Inr c' \<Longrightarrow> ages (stores_of c) (stores_of c')"
    by (auto simp: BuryStore_def BasicCluster_GetStore_def StoresInfo_GetStore_def StoreInfo_Clone_def matures_def
        store_options elim!: change_ages split: option.splits if_splits)
qed

lemma SetStoreWeight_ages:
  "stores_ok (stores_of c) \<Longrightarrow> SetStoreWeight save sw c i lw rw = Inr c' \<Longrightarrow> ages (stores_of c) (stores_of c')"
  by (auto simp: SetStoreWeight_def BasicCluster_GetStore_def StoresInfo_GetStore_def StoreInfo_Clone_def matures_def
      store_options elim!: change_ages split: option.splits)

lemma handleStoreHeartbeat_ages:
  assumes "stores_ok (stores_of c)" "handleStoreHeartbeat now c stats = Inr c'"
  shows "ages (stores_of c) (stores_of c')"
proof (cases "fmlookup (stores_of c) (ss_StoreId stats)")
  case (Some s)
  let ?t = "s\<lparr> si_stats := stats, si_lastHeartbeatTS := now \<rparr>"
  have "stores_of c' = SetStore (stores_of c) ?t"
    using assms(2) Some by (auto simp: handleStoreHeartbeat_def Let_def BasicCluster_GetStore_def StoresInfo_GetStore_def
        StoreInfo_Clone_def store_options PutStore_def)
  moreover have "matures s ?t" by (simp add: matures_def)
  ultimately show ?thesis using ages_update[OF Some _ stores_okD[OF assms(1) Some]] by simp
qed (use assms(2) in \<open>simp add: handleStoreHeartbeat_def Let_def BasicCluster_GetStore_def StoresInfo_GetStore_def\<close>)

lemma updateStoreStatus_ages:
  assumes "stores_ok (stores_of c)"
  shows "ages (stores_of c) (stores_of (updateStoreStatusLocked i c))"
proof -
  have "matures s (with_counts R j s)" for s R j by (simp add: matures_def with_counts_def)
  then show ?thesis
    by (auto simp: ages_def updateStoreStatus_ok[OF assms] option.rel_map intro!: option.rel_refl)
qed

lemma updateStoreStatuses_ages:
  assumes "stores_ok (stores_of c)" "addresses_ok (stores_of c)"
  shows "ages (stores_of c) (stores_of (fold updateStoreStatusLocked is c))"
  using assms
proof (induction "is" arbitrary: c)
  case (Cons i "is")
  note a = updateStoreStatus_ages[OF Cons.prems(1), of i]
  with ages_ok[OF a Cons.prems] Cons.IH ages_trans show ?case by auto
qed simp

lemma processRegionHeartbeat_ages:
  assumes "stores_ok (stores_of c)" "addresses_ok (stores_of c)" "processRegionHeartbeat c q = Some (Inr c')"
  shows "ages (stores_of c) (stores_of c')"
proof -
  have "c' = c \<or> updateRegion c q = Some c'"
    using assms(3) by (auto simp: processRegionHeartbeat_def split: option.splits elim!: bind_SomeE)
  moreover have "ages (stores_of c) (stores_of c')" if up: "updateRegion c q = Some c'"
  proof -
    obtain R where "c' = fold updateStoreStatusLocked (sorted_list_of_set (GetStoreIds q)) (c\<lparr> rc_core := (rc_core c)\<lparr> bc_Regions := R \<rparr> \<rparr>)"
      using up by (auto simp: updateRegion_def putRegion_def PutRegion_def split: prod.splits elim!: bind_SomeE)
    then show ?thesis using updateStoreStatuses_ages[of "c\<lparr> rc_core := (rc_core c)\<lparr> bc_Regions := R \<rparr> \<rparr>"] assms(1,2) by simp
  qed
  ultimately show ?thesis by auto
qed

lemma ages_upd:
  assumes "fmlookup S i = Some s" "matures s t"
  shows "ages S (fmupd i t S)"
  using assms by (auto simp: ages_def intro: option.rel_refl)

lemma flags_age:
  "BasicCluster_BlockStore (rc_core c) i = Inr core \<Longrightarrow> ages (stores_of c) (bc_Stores core)"
  "BasicCluster_UnblockStore (rc_core c) i = Some core \<Longrightarrow> ages (stores_of c) (bc_Stores core)"
  "ages (stores_of c) (AttachAvailableFunc (stores_of c) i f)"
  by (auto simp: BasicCluster_BlockStore_def BlockStore_def BasicCluster_UnblockStore_def UnblockStore_def AttachAvailableFunc_def
      change_store_def StoreInfo_Clone_def store_options matures_def intro!: ages_upd split: option.splits if_splits sum.splits)

lemma SetStoreState_step:
  assumes "stores_ok (stores_of c)" "RaftCluster_SetStoreState save c i state = Inr c'"
  shows "stores_ok (stores_of c') \<and> (ages (stores_of c) (stores_of c') \<or> reverts c c')"
proof -
  obtain s where s: "fmlookup (stores_of c) i = Some s" "putStoreLocked save c (StoreInfo_Clone s [SetStoreState state]) = Inr c'"
    using assms(2) by (auto simp: RaftCluster_SetStoreState_def BasicCluster_GetStore_def StoresInfo_GetStore_def split: option.splits)
  let ?t = "StoreInfo_Clone s [SetStoreState state]"
  have "stores_of c' = SetStore (stores_of c) ?t" using putStoreLocked_stores[OF s(2)] by simp
  then have "stores_ok (stores_of c')" using SetStore_ok[OF assms(1)] by simp
  moreover have "ages (stores_of c) (stores_of c')" if "rank_of s \<le> state_rank state"
    using that by (intro change_ages[OF s(2) assms(1) s(1)]) (simp add: matures_def StoreInfo_Clone_def store_options)
  ultimately show ?thesis using assms(2) s(1) by (auto simp: reverts_def not_le[symmetric])
qed

lemma check_store_ages:
  "stores_ok (stores_of c) \<Longrightarrow> ages (stores_of c) (stores_of (check_store save store c))"
  using BuryStore_ages[of c save "StoreInfo_GetID store" False]
  by (auto simp: check_store_def split: sum.splits)

lemma checkStores_ages:
  assumes "stores_ok (stores_of c)" "addresses_ok (stores_of c)"
  shows "ages (stores_of c) (stores_of (checkStores save stores c))"
  unfolding checkStores_def using assms
proof (induction stores arbitrary: c)
  case (Cons store stores)
  note a = check_store_ages[OF Cons.prems(1), of save store]
  with ages_ok[OF a Cons.prems] Cons.IH ages_trans show ?case by auto
qed simp

lemma GetStores_iff: "s \<in> GetStores S \<longleftrightarrow> (\<exists>i. fmlookup S i = Some s)"
  by (auto simp: GetStores_def fmlookup_ran_iff)

lemma RemoveTombStoneRecords_stores:
  assumes "\<forall>s\<in>set stores. fmlookup S (StoreInfo_GetID s) = Some s"
  shows "fmlookup (stores_of (snd (RemoveTombStoneRecords del stores c))) i = fmlookup (stores_of c) i
    \<or> fmlookup (stores_of (snd (RemoveTombStoneRecords del stores c))) i = None
      \<and> (\<exists>s. fmlookup S i = Some s \<and> IsTombstone s)"
  using assms
proof (induction stores arbitrary: c)
  case (Cons store stores)
  show ?case
  proof (cases "IsTombstone store \<and> del (si_meta store) = None")
    case True
    let ?c = "c\<lparr> rc_core := BasicCluster_DeleteStore (rc_core c) store \<rparr>"
    have "RemoveTombStoneRecords del (store # stores) c = RemoveTombStoneRecords del stores ?c"
      using True by (simp add: deleteStoreLocked_def)
    moreover have "fmlookup (stores_of ?c) i = (if i = StoreInfo_GetID store then None else fmlookup (stores_of c) i)"
      by (simp add: BasicCluster_DeleteStore_def DeleteStore_def)
    ultimately show ?thesis using Cons.IH[of ?c] Cons.prems True by (auto split: if_splits)
  next
    case False
    then show ?thesis using Cons.IH[of c] Cons.prems by (auto simp: deleteStoreLocked_def split: option.splits)
  qed
qed simp

text \<open>What one step may do to a store: it disappears only as a tombstone, and its state does not go back.\<close>

definition advances :: "StoresInfo \<Rightarrow> StoresInfo \<Rightarrow> bool" where
  "advances S T \<longleftrightarrow> (\<forall>i s. fmlookup S i = Some s \<longrightarrow>
     (case fmlookup T i of None \<Rightarrow> IsTombstone s | Some t \<Rightarrow> rank_of s \<le> rank_of t))"

lemma ages_advances: "ages S T \<Longrightarrow> advances S T"
  unfolding advances_def
proof (intro allI impI)
  fix i s
  assume "ages S T" "fmlookup S i = Some s"
  then show "case fmlookup T i of None \<Rightarrow> IsTombstone s | Some t \<Rightarrow> rank_of s \<le> rank_of t"
    unfolding ages_def by (cases "fmlookup T i") (auto simp: matures_def dest: spec[of _ i])
qed

lemma ages_step: "cluster_ok c \<Longrightarrow> ages (stores_of c) (stores_of c') \<Longrightarrow> cluster_ok c' \<and> advances (stores_of c) (stores_of c')"
  using ages_ok ages_advances by (auto simp: cluster_ok_def)

lemma RemoveTombStoneRecords_step:
  fixes del :: SaveStore
  assumes c: "cluster_ok c" and stores: "set stores = GetStores (stores_of c)"
  defines "c' \<equiv> snd (RemoveTombStoneRecords del stores c)"
  shows "cluster_ok c' \<and> advances (stores_of c) (stores_of c')"
proof -
  have "\<forall>s\<in>set stores. fmlookup (stores_of c) (StoreInfo_GetID s) = Some s"
    using c stores by (auto simp: cluster_ok_def GetStores_iff dest: stores_okD)
  note sub = RemoveTombStoneRecords_stores[OF this, of del c, folded c'_def]
  have keep: "fmlookup (stores_of c) i = Some s" if "fmlookup (stores_of c') i = Some s" for i s
    using sub[of i] that by auto
  have "advances (stores_of c) (stores_of c')"
    unfolding advances_def
  proof (intro allI impI)
    fix i s
    assume "fmlookup (stores_of c) i = Some s"
    then show "case fmlookup (stores_of c') i of None \<Rightarrow> IsTombstone s | Some t \<Rightarrow> rank_of s \<le> rank_of t"
      using sub[of i] by (auto split: option.splits)
  qed
  moreover have "stores_ok (stores_of c')" using c keep by (auto simp: cluster_ok_def stores_ok_def)
  moreover have "addresses_ok (stores_of c')"
    using c keep unfolding cluster_ok_def addresses_ok_def by blast
  ultimately show ?thesis by (simp add: cluster_ok_def)
qed

lemma addresses_SetStore:
  assumes "addresses_ok S" "stores_ok S"
    and "\<And>s. s \<in> GetStores S \<Longrightarrow> \<not> IsTombstone s \<Longrightarrow> StoreInfo_GetID s \<noteq> StoreInfo_GetID t
      \<Longrightarrow> sm_Address (si_meta s) \<noteq> sm_Address (si_meta t)"
  shows "addresses_ok (SetStore S t)"
proof -
  have other: "sm_Address (si_meta s) \<noteq> sm_Address (si_meta t)"
    if "fmlookup S i = Some s" "i \<noteq> StoreInfo_GetID t" "\<not> IsTombstone s" for i s
    using that assms(3)[of s] stores_okD[OF assms(2) that(1)] by (auto simp: GetStores_iff)
  show ?thesis
    unfolding addresses_ok_def
  proof (intro allI impI)
    fix i j a b
    assume h: "fmlookup (SetStore S t) i = Some a \<and> fmlookup (SetStore S t) j = Some b \<and> i \<noteq> j
      \<and> \<not> IsTombstone a \<and> \<not> IsTombstone b"
    consider "i = StoreInfo_GetID t" | "j = StoreInfo_GetID t" | "i \<noteq> StoreInfo_GetID t" "j \<noteq> StoreInfo_GetID t" by blast
    then show "sm_Address (si_meta a) \<noteq> sm_Address (si_meta b)"
    proof cases
      case 1
      then show ?thesis using h other[of j b] by (auto simp: SetStore_def)
    next
      case 2
      then show ?thesis using h other[of i a] by (auto simp: SetStore_def)
    next
      case 3
      then have "fmlookup S i = Some a" "fmlookup S j = Some b" using h by (auto simp: SetStore_def)
      then show ?thesis using h assms(1) unfolding addresses_ok_def by blast
    qed
  qed
qed

lemma putStore_step:
  assumes c: "cluster_ok c" and p: "putStore save c store = Inr c'"
  shows "cluster_ok c' \<and> advances (stores_of c) (stores_of c')"
proof -
  define t where "t = (case fmlookup (stores_of c) (sm_Id store) of
     None \<Rightarrow> NewStoreInfo store [] | Some s \<Rightarrow> StoreInfo_Clone s [SetStoreAddress (sm_Address store)])"
  have fresh: "\<And>s. s \<in> GetStores (stores_of c) \<Longrightarrow> \<not> IsTombstone s \<Longrightarrow> StoreInfo_GetID s \<noteq> sm_Id store
      \<Longrightarrow> sm_Address (si_meta s) \<noteq> sm_Address store"
    and put: "putStoreLocked save c t = Inr c'"
    using p by (auto simp: putStore_def t_def BasicCluster_GetStore_def StoresInfo_GetStore_def split: if_splits)
  have ok: "stores_ok (stores_of c)" "addresses_ok (stores_of c)" using c by (auto simp: cluster_ok_def)
  have t: "StoreInfo_GetID t = sm_Id store" "sm_Address (si_meta t) = sm_Address store"
    and rank: "\<And>s. fmlookup (stores_of c) (sm_Id store) = Some s \<Longrightarrow> rank_of t = rank_of s"
    using stores_okD[OF ok(1), of "sm_Id store"]
    by (auto simp: t_def NewStoreInfo_def StoreInfo_Clone_def store_options split: option.splits)
  have S: "stores_of c' = SetStore (stores_of c) t" using putStoreLocked_stores[OF put] by simp
  have "addresses_ok (SetStore (stores_of c) t)"
    using fresh t by (intro addresses_SetStore ok) auto
  moreover have "advances (stores_of c) (SetStore (stores_of c) t)"
    using rank t by (auto simp: advances_def SetStore_def)
  ultimately show ?thesis using SetStore_ok[OF ok(1)] by (simp add: cluster_ok_def S)
qed

lemma cluster_step_ok:
  assumes "cluster_step c c'" "cluster_ok c"
  shows "stores_ok (stores_of c') \<and> (cluster_ok c' \<and> advances (stores_of c) (stores_of c') \<or> reverts c c')"
proof -
  have good: ?thesis if "cluster_ok c' \<and> advances (stores_of c) (stores_of c')" using that by (simp add: cluster_ok_def)
  have ok: "stores_ok (stores_of c)" "addresses_ok (stores_of c)" using assms(2) by (auto simp: cluster_ok_def)
  note ages = ages_step[OF assms(2)]
  from assms(1) show ?thesis
  proof cases
    case (putStore save store)
    then show ?thesis by (intro good putStore_step[OF assms(2)])
  next
    case (RemoveStore save i)
    then show ?thesis by (intro good ages RemoveStore_ages[OF ok(1)])
  next
    case (BuryStore save i force)
    then show ?thesis by (intro good ages BuryStore_ages[OF ok(1)])
  next
    case (SetStoreWeight save sw i lw rw)
    then show ?thesis by (intro good ages SetStoreWeight_ages[OF ok(1)])
  next
    case (handleStoreHeartbeat now stats)
    then show ?thesis by (intro good ages handleStoreHeartbeat_ages[OF ok(1)])
  next
    case (updateStoreStatus i)
    then show ?thesis using good ages[OF updateStoreStatus_ages[OF ok(1)]] by simp
  next
    case (checkStores stores save)
    then show ?thesis using good ages[OF checkStores_ages[OF ok]] by simp
  next
    case (RemoveTombStoneRecords stores save)
    then show ?thesis using good RemoveTombStoneRecords_step[OF assms(2)] by simp
  next
    case (SetStoreState save i state)
    then show ?thesis using SetStoreState_step[OF ok(1)] ages good by blast
  next
    case (processRegionHeartbeat q)
    then show ?thesis by (intro good ages processRegionHeartbeat_ages[OF ok])
  next
    case (BlockStore i core)
    then show ?thesis using good ages[of c'] flags_age(1) by simp
  next
    case (UnblockStore i core)
    then show ?thesis using good ages[of c'] flags_age(2) by simp
  next
    case (AttachAvailableFunc i f)
    then show ?thesis using good ages[of c'] flags_age(3) by simp
  qed
qed

section \<open>Properties\<close>

definition empty_cluster :: RaftCluster where
  "empty_cluster = \<lparr> rc_core = \<lparr> bc_Stores = fmempty, bc_Regions = empty_regions \<rparr>, rc_clusterID = 1 \<rparr>"

lemma empty_cluster_ok: "cluster_ok empty_cluster" "regions_ok (regions_of empty_cluster)" "stores_ok (stores_of empty_cluster)"
  by (simp_all add: cluster_ok_def empty_cluster_def stores_ok_def addresses_ok_def empty_regions_ok)

definition demo_heartbeat :: "u64 \<Rightarrow> u64 \<Rightarrow> RegionInfo" where
  "demo_heartbeat confVer version = (let r = demo_region 1 [] [4] in
     r\<lparr> ri_meta := (ri_meta r)\<lparr> rg_RegionEpoch := Some \<lparr> ep_ConfVer = confVer, ep_Version = version \<rparr> \<rparr> \<rparr>)"

lemma demo_heartbeat_simps [simp]:
  "info_valid (demo_heartbeat cv v)" "rg_RegionEpoch (ri_meta (demo_heartbeat cv v)) = Some \<lparr> ep_ConfVer = cv, ep_Version = v \<rparr>"
  "GetID (demo_heartbeat cv v) = 1"
  by (simp_all add: demo_heartbeat_def Let_def info_valid_def demo_region_def info_range_ok_def range_ok_def NewRegionInfo_def
      classifyVoterAndLearner_def SetApproximateSize_def)

text \<open>
  C39 (functional): a region heartbeat is rejected, and changes nothing, iff the epoch test fails
  against the stored region with its id or, without one, against a stored region that shares a key with
  it; the error names the first such region. Otherwise the handler returns, the region replaces the
  regions with its id or a common key, the indices agree again, and each store with a peer of the region
  gets the counts and sizes of the new state.
\<close>

theorem processRegionHeartbeat_spec:
  assumes "regions_ok (regions_of c)" "stores_ok (stores_of c)" "info_valid q" "rg_RegionEpoch (ri_meta q) = Some e"
    and "\<forall>r\<in>set (regs (rs_tree (regions_of c))). rg_RegionEpoch (ri_meta r) \<noteq> None"
  shows "case List.find (outdated e) (rivals q (regs (rs_tree (regions_of c)))) of
      Some r \<Rightarrow> processRegionHeartbeat c q = Some (Inl (RegionIsStale (ri_meta q) (ri_meta r)))
    | None \<Rightarrow> \<exists>c'. processRegionHeartbeat c q = Some (Inr c') \<and> regions_ok (regions_of c') \<and> stores_ok (stores_of c')
        \<and> regs (rs_tree (regions_of c')) = place q (filter (\<lambda>r. GetID r \<noteq> GetID q) (regs (rs_tree (regions_of c))))
        \<and> (\<forall>i. fmlookup (stores_of c') i = (if i \<in> GetStoreIds q
            then map_option (with_counts (regions_of c') i) (fmlookup (stores_of c) i) else fmlookup (stores_of c) i))"
  using processRegionHeartbeat_cases[OF assms(1,4,5)] updateRegion_ok[OF assms(1-3)]
  by (auto split: option.splits)

theorem processRegionHeartbeat_spec_witness:
  "\<exists>c. processRegionHeartbeat empty_cluster (demo_heartbeat 1 1) = Some (Inr c) \<and> regions_ok (regions_of c)
    \<and> regs (rs_tree (regions_of c)) = [demo_heartbeat 1 1]"
proof -
  have "regs (rs_tree (regions_of empty_cluster)) = []" by (simp add: empty_cluster_def empty_regions_ok)
  then show ?thesis
    using processRegionHeartbeat_spec[OF empty_cluster_ok(2,3), of "demo_heartbeat 1 1"]
    by (auto simp: rivals_def place_def)
qed

text \<open>
  C38 (error): the epoch test compares the version of a heartbeat with the configuration version of the
  stored region. So a region whose configuration changed more often than its range can no longer report:
  its own unchanged state is rejected as stale. And a heartbeat with an older configuration version
  is accepted, and replaces the newer region, whenever its version is large enough.
\<close>

theorem heartbeat_epoch_test:
  assumes "regions_ok (regions_of c)" "stores_ok (stores_of c)" "r \<in> set (regs (rs_tree (regions_of c)))"
    and "\<forall>r\<in>set (regs (rs_tree (regions_of c))). rg_RegionEpoch (ri_meta r) \<noteq> None"
    and "rg_RegionEpoch (ri_meta r) = Some e"
  shows "(ep_Version e < ep_ConfVer e \<longrightarrow> processRegionHeartbeat c r = Some (Inl (RegionIsStale (ri_meta r) (ri_meta r))))
    \<and> (info_valid q \<and> GetID q = GetID r \<and> rg_RegionEpoch (ri_meta q) = Some e'
        \<and> ep_Version e \<le> ep_Version e' \<and> ep_ConfVer e \<le> ep_Version e'
       \<longrightarrow> (\<exists>c'. processRegionHeartbeat c q = Some (Inr c') \<and> GetRegion (regions_of c') (GetID r) = Some q))"
proof (intro conjI impI)
  have find: "List.find (\<lambda>x. GetID x = GetID r) (regs (rs_tree (regions_of c))) = Some r"
    using GetRegion_stored[OF assms(1,3)] by (simp add: GetRegion_find[OF assms(1)])
  {
    assume "ep_Version e < ep_ConfVer e"
    then have "outdated e r" by (simp add: outdated_def assms(5))
    then show "processRegionHeartbeat c r = Some (Inl (RegionIsStale (ri_meta r) (ri_meta r)))"
      using processRegionHeartbeat_cases[OF assms(1,5,4)] by (simp add: rivals_def find)
  next
    assume q: "info_valid q \<and> GetID q = GetID r \<and> rg_RegionEpoch (ri_meta q) = Some e'
        \<and> ep_Version e \<le> ep_Version e' \<and> ep_ConfVer e \<le> ep_Version e'"
    then have "\<not> outdated e' r" by (simp add: outdated_def assms(5))
    then have "processRegionHeartbeat c q = map_option Inr (updateRegion c q)"
      using processRegionHeartbeat_cases[OF assms(1) _ assms(4), of q e'] q by (simp add: rivals_def find)
    moreover from updateRegion_ok[OF assms(1,2)] q obtain c' where
      c': "updateRegion c q = Some c'" "regions_ok (regions_of c')"
        "regs (rs_tree (regions_of c')) = place q (filter (\<lambda>r. GetID r \<noteq> GetID q) (regs (rs_tree (regions_of c))))" by blast
    moreover have "GetRegion (regions_of c') (GetID q) = Some q" using GetRegion_stored[OF c'(2)] by (simp add: c'(3))
    ultimately show "\<exists>c'. processRegionHeartbeat c q = Some (Inr c') \<and> GetRegion (regions_of c') (GetID r) = Some q"
      using q by auto
  }
qed

theorem heartbeat_epoch_test_witness:
  "\<exists>c. processRegionHeartbeat empty_cluster (demo_heartbeat 2 1) = Some (Inr c)
    \<and> processRegionHeartbeat c (demo_heartbeat 2 1)
        = Some (Inl (RegionIsStale (ri_meta (demo_heartbeat 2 1)) (ri_meta (demo_heartbeat 2 1))))
    \<and> (\<exists>c'. processRegionHeartbeat c (demo_heartbeat 1 2) = Some (Inr c') \<and> GetRegion (regions_of c') 1 = Some (demo_heartbeat 1 2))"
proof -
  have e: "regs (rs_tree (regions_of empty_cluster)) = []" by (simp add: empty_cluster_def empty_regions_ok)
  with processRegionHeartbeat_cases[OF empty_cluster_ok(2), of "demo_heartbeat 2 1"]
    updateRegion_ok[OF empty_cluster_ok(2,3), of "demo_heartbeat 2 1"] obtain c where
    c: "processRegionHeartbeat empty_cluster (demo_heartbeat 2 1) = Some (Inr c)" "regions_ok (regions_of c)"
      "stores_ok (stores_of c)" "regs (rs_tree (regions_of c)) = [demo_heartbeat 2 1]"
    by (auto simp: rivals_def place_def)
  have "demo_heartbeat 2 1 \<in> set (regs (rs_tree (regions_of c)))"
    "\<forall>r\<in>set (regs (rs_tree (regions_of c))). rg_RegionEpoch (ri_meta r) \<noteq> None" by (simp_all add: c(4))
  from heartbeat_epoch_test[OF c(2,3) this demo_heartbeat_simps(2), of "demo_heartbeat 1 2" "\<lparr> ep_ConfVer = 1, ep_Version = 2 \<rparr>"] c(1)
  show ?thesis by simp
qed

text \<open>
  C40 (invariant): the life of a store. Take a state reached from a cluster without stores by any operations,
  whichever saves fail, among them no call of \<open>SetStoreState\<close> with a state before the one the store is
  in. No two stores that are not tombstones share an address; and after every
  further operation each store is filed under its id, and, unless that operation is such a call, addresses
  are still distinct, a store has been removed only if it was a tombstone, and no state has gone back
  from tombstone to offline or up, or from offline to up.
\<close>

theorem store_lifecycle:
  assumes "rtranclp (\<lambda>c c'. cluster_step c c' \<and> \<not> reverts c c') c0 c" "stores_of c0 = fmempty" "cluster_step c c'"
  shows "addresses_ok (stores_of c) \<and> stores_ok (stores_of c') \<and>
    (reverts c c' \<or> addresses_ok (stores_of c') \<and> advances (stores_of c) (stores_of c'))"
proof -
  have "cluster_ok c0" using assms(2) by (simp add: cluster_ok_def stores_ok_def addresses_ok_def)
  with assms(1) have "cluster_ok c" by (induction rule: rtranclp_induct) (auto dest: cluster_step_ok)
  with cluster_step_ok[OF assms(3)] show ?thesis by (auto simp: cluster_ok_def)
qed

theorem store_lifecycle_witness:
  "\<exists>c c'. putStore (\<lambda>_. None) empty_cluster \<lparr> sm_Id = 7, sm_Address = ''a'', sm_State = Up \<rparr> = Inr c \<and>
     BuryStore (\<lambda>_. None) c 7 True = Inr c' \<and> addresses_ok (stores_of c) \<and> advances (stores_of c) (stores_of c')"
proof -
  obtain c where c: "putStore (\<lambda>_. None) empty_cluster \<lparr> sm_Id = 7, sm_Address = ''a'', sm_State = Up \<rparr> = Inr c"
    by (auto simp: putStore_def empty_cluster_def GetStores_def putStoreLocked_def)
  then obtain s where s: "stores_of c = fmupd 7 s fmempty" "rank_of s = 0"
    by (auto simp: putStore_def empty_cluster_def GetStores_def putStoreLocked_def PutStore_def SetStore_def BasicCluster_GetStore_def
        StoresInfo_GetStore_def NewStoreInfo_def)
  then have "\<exists>c'. BuryStore (\<lambda>_. None) c 7 True = Inr c'"
    by (simp add: BuryStore_def BasicCluster_GetStore_def StoresInfo_GetStore_def putStoreLocked_def)
  then obtain c' where c': "BuryStore (\<lambda>_. None) c 7 True = Inr c'" by blast
  have none: "\<not> reverts empty_cluster c" "\<not> reverts c c'" using s by (auto simp: reverts_def empty_cluster_def split: if_splits)
  then have run: "rtranclp (\<lambda>c c'. cluster_step c c' \<and> \<not> reverts c c') empty_cluster c"
    using cluster_step.putStore[OF c] by auto
  from store_lifecycle[OF run _ cluster_step.BuryStore[OF c']] none(2) c c' show ?thesis by (auto simp: empty_cluster_def)
qed

end
