(* ===== verification/Engine.thy ===== *)
theory Engine
  imports Metapb Key_Order Raft_Types "HOL-Library.AList" "HOL-Library.Sublist"
begin

text \<open>
  \<open>kv/util/engine_util\<close>: write batches, column families and range deletion over the engine badger.
  The engine is third-party code: its calls are a method table \<open>'db DB\<close> that the definitions take
  as an argument, and the locale \<open>kv_engine\<close> states what its documentation promises. A stored
  message is kept decoded (\<open>EngineValue\<close>): \<open>Unmarshal\<close> is the inverse of \<open>Marshal\<close>, and the one
  thing the code observes of the encoding is whether it is empty (\<open>value_empty\<close>).
\<close>

section \<open>What is stored\<close>

text \<open>The messages of \<open>proto/pkg/raft_serverpb\<close> that the engines hold.\<close>

record RaftLocalState =
  rl_HardState :: "HardState option"
  rl_LastIndex :: u64
  rl_LastTerm :: u64

record RaftTruncatedState =
  ts_Index :: u64
  ts_Term :: u64

record RaftApplyState =
  as_AppliedIndex :: u64
  as_TruncatedState :: "RaftTruncatedState option"

datatype PeerState = PeerState_Normal | PeerState_Tombstone

record RegionLocalState =
  rls_State :: PeerState
  rls_Region :: "Region option"

record StoreIdent =
  si_ClusterId :: u64
  si_StoreId :: u64

datatype EngineValue =
    VBytes bytes | VEntry Entry | VRaftState RaftLocalState | VApplyState RaftApplyState
  | VRegionState RegionLocalState | VRegion Region | VStoreIdent StoreIdent

text \<open>A message is encoded as the empty string exactly when every field has its zero value.\<close>

fun value_empty :: "EngineValue \<Rightarrow> bool" where
  "value_empty (VBytes b) \<longleftrightarrow> b = []"
| "value_empty (VEntry e) \<longleftrightarrow> e_EntryType e = EntryNormal \<and> e_Term e = 0 \<and> e_Index e = 0 \<and>
     (e_Data e = None \<or> e_Data e = Some [])"
| "value_empty (VRaftState s) \<longleftrightarrow> rl_HardState s = None \<and> rl_LastIndex s = 0 \<and> rl_LastTerm s = 0"
| "value_empty (VApplyState s) \<longleftrightarrow> as_AppliedIndex s = 0 \<and> as_TruncatedState s = None"
| "value_empty (VRegionState s) \<longleftrightarrow> rls_State s = PeerState_Normal \<and> rls_Region s = None"
| "value_empty (VRegion r) \<longleftrightarrow> rg_Id r = 0 \<and> rg_StartKey r = [] \<and> rg_EndKey r = [] \<and>
     rg_RegionEpoch r = None \<and> rg_Peers r = []"
| "value_empty (VStoreIdent s) \<longleftrightarrow> si_ClusterId s = 0 \<and> si_StoreId s = 0"

section \<open>The engine\<close>

datatype DbError = ErrKeyNotFound | DbErr string

text \<open>
  \<open>db_Get\<close> reads a key in a read-only transaction, \<open>db_Seek\<close> gives the items an iterator yields from
  a key on, and \<open>db_Update\<close> runs a transaction of writes: a value or a deletion for each key.
\<close>

record 'db DB =
  db_Get :: "'db \<Rightarrow> bytes \<Rightarrow> DbError + EngineValue"
  db_Seek :: "'db \<Rightarrow> bytes \<Rightarrow> (bytes \<times> EngineValue) list"
  db_Update :: "(bytes \<times> EngineValue option) list \<Rightarrow> 'db \<Rightarrow> DbError option \<times> 'db"

definition write_all :: "(bytes \<times> EngineValue option) list \<Rightarrow> (bytes \<rightharpoonup> EngineValue) \<Rightarrow> (bytes \<rightharpoonup> EngineValue)" where
  "write_all ws m = fold (\<lambda>(k, v) m. m(k := v)) ws m"

text \<open>
  Badger's promises: a read sees the contents, an iterator yields the keys from the sought one on
  in byte order, and a transaction either takes effect as a whole or not at all.
\<close>

locale kv_engine =
  fixes D :: "'db DB" and con :: "'db \<Rightarrow> bytes \<rightharpoonup> EngineValue"
  assumes Get: "db_Get D db k = (case con db k of None \<Rightarrow> Inl ErrKeyNotFound | Some v \<Rightarrow> Inr v)"
    and Seek_sorted: "sorted_wrt (<) (map fst (db_Seek D db k))"
    and Seek_set: "(k', v) \<in> set (db_Seek D db k) \<longleftrightarrow> k \<le> k' \<and> con db k' = Some v"
    and Update: "db_Update D ws db = (None, db') \<Longrightarrow> con db' = write_all ws (con db)"
    and Update_fails: "db_Update D ws db = (Some e, db') \<Longrightarrow> con db' = con db"

text \<open>An engine whose writes do not fail.\<close>

locale reliable_engine = kv_engine +
  assumes Update_succeeds: "fst (db_Update D ws db) = None"
begin

lemma Update_con: "\<exists>db'. db_Update D ws db = (None, db') \<and> con db' = write_all ws (con db)"
  using Update_succeeds[of ws db] Update[of ws db "snd (db_Update D ws db)"]
  by (cases "db_Update D ws db") auto

end

section \<open>Write batches\<close>

text \<open>The counters of \<open>size\<close> are only ever written and are left out.\<close>

record WriteBatch =
  wb_entries :: "(bytes \<times> EngineValue) list"
  wb_safePoint :: nat

definition new_WriteBatch :: WriteBatch where
  "new_WriteBatch = \<lparr>wb_entries = [], wb_safePoint = 0\<rparr>"

definition wb_add :: "bytes \<Rightarrow> EngineValue \<Rightarrow> WriteBatch \<Rightarrow> WriteBatch" where
  "wb_add k v wb = wb\<lparr>wb_entries := wb_entries wb @ [(k, v)]\<rparr>"

definition wb_Len :: "WriteBatch \<Rightarrow> nat" where
  "wb_Len wb = length (wb_entries wb)"

definition CfDefault :: string where "CfDefault = ''default''"
definition CfWrite :: string where "CfWrite = ''write''"
definition CfLock :: string where "CfLock = ''lock''"

definition CFs :: "string list" where
  "CFs = [CfDefault, CfWrite, CfLock]"

definition cf_prefix :: "string \<Rightarrow> bytes" where
  "cf_prefix cf = map of_char (cf @ ''_'')"

definition KeyWithCF :: "string \<Rightarrow> bytes \<Rightarrow> bytes" where
  "KeyWithCF cf key = cf_prefix cf @ key"

definition wb_SetCF :: "string \<Rightarrow> bytes \<Rightarrow> bytes \<Rightarrow> WriteBatch \<Rightarrow> WriteBatch" where
  "wb_SetCF cf key val = wb_add (KeyWithCF cf key) (VBytes val)"

definition wb_DeleteMeta :: "bytes \<Rightarrow> WriteBatch \<Rightarrow> WriteBatch" where
  "wb_DeleteMeta key = wb_add key (VBytes [])"

definition wb_DeleteCF :: "string \<Rightarrow> bytes \<Rightarrow> WriteBatch \<Rightarrow> WriteBatch" where
  "wb_DeleteCF cf key = wb_add (KeyWithCF cf key) (VBytes [])"

definition wb_SetMeta :: "bytes \<Rightarrow> EngineValue \<Rightarrow> WriteBatch \<Rightarrow> WriteBatch" where
  "wb_SetMeta key msg = wb_add key msg"

definition wb_SetSafePoint :: "WriteBatch \<Rightarrow> WriteBatch" where
  "wb_SetSafePoint wb = wb\<lparr>wb_safePoint := length (wb_entries wb)\<rparr>"

definition wb_RollbackToSafePoint :: "WriteBatch \<Rightarrow> WriteBatch option" where
  "wb_RollbackToSafePoint wb = do {
     es \<leftarrow> slice (wb_entries wb) 0 (wb_safePoint wb);
     Some (wb\<lparr>wb_entries := es\<rparr>)
   }"

text \<open>An entry with an empty value is a deletion.\<close>

definition wb_write :: "bytes \<times> EngineValue \<Rightarrow> bytes \<times> EngineValue option" where
  "wb_write e = (fst e, if value_empty (snd e) then None else Some (snd e))"

definition WriteToDB :: "'db DB \<Rightarrow> WriteBatch \<Rightarrow> 'db \<Rightarrow> DbError option \<times> 'db" where
  "WriteToDB D wb db =
     (if wb_entries wb \<noteq> [] then db_Update D (map wb_write (wb_entries wb)) db else (None, db))"

definition MustWriteToDB :: "'db DB \<Rightarrow> WriteBatch \<Rightarrow> 'db \<Rightarrow> 'db option" where
  "MustWriteToDB D wb db = (case WriteToDB D wb db of (None, db') \<Rightarrow> Some db' | (Some e, db') \<Rightarrow> None)"

definition wb_Reset :: "WriteBatch \<Rightarrow> WriteBatch" where
  "wb_Reset wb = wb\<lparr>wb_entries := [], wb_safePoint := 0\<rparr>"

record 'db Engines =
  en_Kv :: 'db
  en_Raft :: 'db

definition WriteKV :: "'db DB \<Rightarrow> WriteBatch \<Rightarrow> 'db Engines \<Rightarrow> DbError option \<times> 'db Engines" where
  "WriteKV D wb en = (case WriteToDB D wb (en_Kv en) of (err, db) \<Rightarrow> (err, en\<lparr>en_Kv := db\<rparr>))"

definition WriteRaft :: "'db DB \<Rightarrow> WriteBatch \<Rightarrow> 'db Engines \<Rightarrow> DbError option \<times> 'db Engines" where
  "WriteRaft D wb en = (case WriteToDB D wb (en_Raft en) of (err, db) \<Rightarrow> (err, en\<lparr>en_Raft := db\<rparr>))"

section \<open>Single keys and ranges\<close>

text \<open>Reading a column family, whose values are plain bytes.\<close>

definition GetCF :: "'db DB \<Rightarrow> 'db \<Rightarrow> string \<Rightarrow> bytes \<Rightarrow> DbError + bytes" where
  "GetCF D db cf key =
     (case db_Get D db (KeyWithCF cf key) of
        Inl err \<Rightarrow> Inl err
      | Inr (VBytes val) \<Rightarrow> Inr val
      | Inr _ \<Rightarrow> Inl (DbErr ''message in a column family''))"

definition PutCF :: "'db DB \<Rightarrow> string \<Rightarrow> bytes \<Rightarrow> bytes \<Rightarrow> 'db \<Rightarrow> DbError option \<times> 'db" where
  "PutCF D cf key val = db_Update D [(KeyWithCF cf key, Some (VBytes val))]"

definition PutMeta :: "'db DB \<Rightarrow> bytes \<Rightarrow> EngineValue \<Rightarrow> 'db \<Rightarrow> DbError option \<times> 'db" where
  "PutMeta D key msg = db_Update D [(key, Some msg)]"

definition DeleteCF :: "'db DB \<Rightarrow> string \<Rightarrow> bytes \<Rightarrow> 'db \<Rightarrow> DbError option \<times> 'db" where
  "DeleteCF D cf key = db_Update D [(KeyWithCF cf key, None)]"

definition ExceedEndKey :: "bytes \<Rightarrow> bytes \<Rightarrow> bool" where
  "ExceedEndKey current endKey =
     (if length endKey = 0 then False else bytes_compare current endKey \<ge> 0)"

text \<open>
  \<open>NewCFIterator\<close>: the items of a column family from a key on, without the prefix. \<open>Valid\<close> ends the
  iteration at the first key without it.
\<close>

definition cf_items :: "'db DB \<Rightarrow> 'db \<Rightarrow> string \<Rightarrow> bytes \<Rightarrow> (bytes \<times> EngineValue) list" where
  "cf_items D db cf key =
     map (\<lambda>(k, v). (drop (length (cf_prefix cf)) k, v))
       (takeWhile (\<lambda>(k, v). prefix (cf_prefix cf) k) (db_Seek D db (cf_prefix cf @ key)))"

fun deleteRange_loop :: "string \<Rightarrow> bytes \<Rightarrow> (bytes \<times> EngineValue) list \<Rightarrow> WriteBatch \<Rightarrow> WriteBatch" where
  "deleteRange_loop cf endKey [] batch = batch"
| "deleteRange_loop cf endKey ((key, v) # items) batch =
     (if ExceedEndKey key endKey then batch
      else deleteRange_loop cf endKey items (wb_DeleteCF cf key batch))"

definition deleteRangeCF :: "'db DB \<Rightarrow> 'db \<Rightarrow> string \<Rightarrow> bytes \<Rightarrow> bytes \<Rightarrow> WriteBatch \<Rightarrow> WriteBatch" where
  "deleteRangeCF D db cf startKey endKey = deleteRange_loop cf endKey (cf_items D db cf startKey)"

definition DeleteRange :: "'db DB \<Rightarrow> bytes \<Rightarrow> bytes \<Rightarrow> 'db \<Rightarrow> DbError option \<times> 'db" where
  "DeleteRange D startKey endKey db =
     WriteToDB D (fold (\<lambda>cf. deleteRangeCF D db cf startKey endKey) CFs new_WriteBatch) db"

section \<open>Writes\<close>

lemma write_all_Nil [simp]: "write_all [] m = m"
  by (simp add: write_all_def)

lemma write_all_Cons [simp]: "write_all ((k, v) # ws) m = write_all ws (m(k := v))"
  by (simp add: write_all_def)

lemma write_all_append: "write_all (ws @ ws') m = write_all ws' (write_all ws m)"
  by (simp add: write_all_def)

lemma write_all_other: "k \<notin> fst ` set ws \<Longrightarrow> write_all ws m k = m k"
  by (induction ws arbitrary: m) auto

lemma write_all_delete:
  "snd ` set ws \<subseteq> {None} \<Longrightarrow> write_all ws m k = (if k \<in> fst ` set ws then None else m k)"
proof (induction ws arbitrary: m)
  case (Cons w ws)
  obtain a where w: "w = (a, None)" using Cons.prems by (cases w) auto
  have "snd ` set ws \<subseteq> {None}" using Cons.prems by auto
  then have "write_all ws (m(a := None)) k = (if k \<in> fst ` set ws then None else (m(a := None)) k)"
    by (rule Cons.IH)
  then show ?case unfolding w write_all_Cons by (simp only:) auto
qed simp

lemma wb_write_simps [simp]:
  "wb_write (k, v) = (k, if value_empty v then None else Some v)"
  by (simp add: wb_write_def)

lemma wb_entries_simps [simp]:
  "wb_entries new_WriteBatch = []"
  "wb_entries (wb_add k v wb) = wb_entries wb @ [(k, v)]"
  "wb_entries (wb_SetCF cf key val wb) = wb_entries wb @ [(KeyWithCF cf key, VBytes val)]"
  "wb_entries (wb_DeleteMeta k wb) = wb_entries wb @ [(k, VBytes [])]"
  "wb_entries (wb_DeleteCF cf key wb) = wb_entries wb @ [(KeyWithCF cf key, VBytes [])]"
  "wb_entries (wb_SetMeta k v wb) = wb_entries wb @ [(k, v)]"
  by (simp_all add: new_WriteBatch_def wb_add_def wb_SetCF_def wb_DeleteMeta_def wb_DeleteCF_def
      wb_SetMeta_def)

text \<open>What a batch does to the contents.\<close>

definition wb_apply :: "WriteBatch \<Rightarrow> (bytes \<rightharpoonup> EngineValue) \<Rightarrow> (bytes \<rightharpoonup> EngineValue)" where
  "wb_apply wb m = write_all (map wb_write (wb_entries wb)) m"

lemma wb_apply_simps [simp]:
  "wb_apply new_WriteBatch m = m"
  "wb_apply (wb_SetCF cf key val wb) m =
     (wb_apply wb m)(KeyWithCF cf key := if val = [] then None else Some (VBytes val))"
  "wb_apply (wb_DeleteMeta k wb) m = (wb_apply wb m)(k := None)"
  "wb_apply (wb_DeleteCF cf key wb) m = (wb_apply wb m)(KeyWithCF cf key := None)"
  "wb_apply (wb_SetMeta k v wb) m = (wb_apply wb m)(k := if value_empty v then None else Some v)"
  by (simp_all add: wb_apply_def write_all_append)

context kv_engine
begin

lemma WriteToDB_con: "WriteToDB D wb db = (None, db') \<Longrightarrow> con db' = wb_apply wb (con db)"
  by (auto simp: WriteToDB_def wb_apply_def split: if_splits dest: Update)

lemma WriteToDB_fails: "WriteToDB D wb db = (Some e, db') \<Longrightarrow> con db' = con db"
  by (auto simp: WriteToDB_def split: if_splits dest: Update_fails)

end

context reliable_engine
begin

lemma WriteToDB_ok: "\<exists>db'. WriteToDB D wb db = (None, db') \<and> con db' = wb_apply wb (con db)"
  using Update_con[of "map wb_write (wb_entries wb)" db] by (auto simp: WriteToDB_def wb_apply_def)

end

section \<open>Column families\<close>

lemma KeyWithCF_inject [simp]: "KeyWithCF cf k = KeyWithCF cf k' \<longleftrightarrow> k = k'"
  by (simp add: KeyWithCF_def)

lemma KeyWithCF_disjoint:
  "cf \<in> set CFs \<Longrightarrow> cf' \<in> set CFs \<Longrightarrow> KeyWithCF cf k = KeyWithCF cf' k' \<longleftrightarrow> cf = cf' \<and> k = k'"
  by (auto simp: CFs_def CfDefault_def CfWrite_def CfLock_def KeyWithCF_def cf_prefix_def)

text \<open>The keys with a prefix are an interval of the byte order.\<close>

lemma append_le_append: "(p :: bytes) @ a \<le> p @ b \<longleftrightarrow> a \<le> b"
  by (induction p) auto

lemma append_less_append: "(p :: bytes) @ a < p @ b \<longleftrightarrow> a < b"
  by (induction p) auto

lemma prefix_interval:
  "(p :: bytes) @ a \<le> k \<Longrightarrow> k \<le> p @ b \<Longrightarrow> prefix p k"
proof (induction p arbitrary: k)
  case (Cons x p)
  from Cons.prems show ?case by (cases k) (auto intro: Cons.IH)
qed simp

lemma takeWhile_filter_sorted:
  assumes "sorted_wrt (<) (map fst xs)"
    and "\<And>x y. x \<in> set xs \<Longrightarrow> y \<in> set xs \<Longrightarrow> fst x < fst y \<Longrightarrow> P y \<Longrightarrow> P x"
  shows "takeWhile P xs = filter P xs"
  using assms
proof (induction xs)
  case (Cons x xs)
  have "P x" if "y \<in> set xs" "P y" for y
    using Cons.prems(1) that by (intro Cons.prems(2)[of x y]) auto
  then have "\<not> P x \<Longrightarrow> filter P xs = []"
    unfolding filter_empty_conv by blast
  moreover have "takeWhile P xs = filter P xs"
  proof (rule Cons.IH)
    show "sorted_wrt (<) (map fst xs)" using Cons.prems(1) by simp
  qed (rule Cons.prems(2), simp_all)
  ultimately show ?case by simp
qed simp

lemma deleteRange_loop_eq:
  "deleteRange_loop cf endKey items batch =
     batch\<lparr>wb_entries := wb_entries batch @
       map (\<lambda>(k, v). (KeyWithCF cf k, VBytes [])) (takeWhile (\<lambda>(k, v). \<not> ExceedEndKey k endKey) items)\<rparr>"
  by (induction cf endKey items batch rule: deleteRange_loop.induct) (auto simp: wb_DeleteCF_def wb_add_def)

lemma ExceedEndKey_iff: "ExceedEndKey k endKey \<longleftrightarrow> endKey \<noteq> [] \<and> endKey \<le> k"
  by (simp add: ExceedEndKey_def key_order)

context kv_engine
begin

lemma cf_items_raw:
  "takeWhile (\<lambda>(k, v). prefix (cf_prefix cf) k) (db_Seek D db (cf_prefix cf @ key)) =
   filter (\<lambda>(k, v). prefix (cf_prefix cf) k) (db_Seek D db (cf_prefix cf @ key))"
proof (rule takeWhile_filter_sorted[OF Seek_sorted])
  fix x y
  assume a: "x \<in> set (db_Seek D db (cf_prefix cf @ key))" "fst x < fst y"
    "case y of (k, v) \<Rightarrow> prefix (cf_prefix cf) k"
  then obtain b where "fst y = cf_prefix cf @ b" by (auto simp: prefix_def)
  moreover have "cf_prefix cf @ key \<le> fst x" using a(1) Seek_set[of "fst x" "snd x"] by simp
  ultimately show "case x of (k, v) \<Rightarrow> prefix (cf_prefix cf) k"
    using a(2) prefix_interval[of "cf_prefix cf" key "fst x" b] by (auto simp: less_imp_le split: prod.splits)
qed

lemma cf_items_set:
  "(k, v) \<in> set (cf_items D db cf key) \<longleftrightarrow> key \<le> k \<and> con db (KeyWithCF cf k) = Some v"
proof -
  have "(k, v) \<in> set (cf_items D db cf key) \<longleftrightarrow>
      (\<exists>k'. (k', v) \<in> set (db_Seek D db (cf_prefix cf @ key)) \<and> prefix (cf_prefix cf) k' \<and>
         k = drop (length (cf_prefix cf)) k')"
  proof -
    have "(k, v) \<in> set (cf_items D db cf key) \<longleftrightarrow> (\<exists>x. x \<in> set (db_Seek D db (cf_prefix cf @ key)) \<and>
        prefix (cf_prefix cf) (fst x) \<and> (k, v) = (drop (length (cf_prefix cf)) (fst x), snd x))"
      unfolding cf_items_def cf_items_raw case_prod_beta by (simp add: image_iff)
    then show ?thesis by simp
  qed
  also have "\<dots> \<longleftrightarrow> key \<le> k \<and> con db (KeyWithCF cf k) = Some v"
  proof
    assume "key \<le> k \<and> con db (KeyWithCF cf k) = Some v"
    then show "\<exists>k'. (k', v) \<in> set (db_Seek D db (cf_prefix cf @ key)) \<and> prefix (cf_prefix cf) k' \<and>
        k = drop (length (cf_prefix cf)) k'"
      by (intro exI[of _ "cf_prefix cf @ k"]) (simp add: Seek_set KeyWithCF_def append_le_append)
  qed (auto simp: Seek_set KeyWithCF_def prefix_def append_le_append)
  finally show ?thesis .
qed

lemma cf_items_sorted: "sorted_wrt (<) (map fst (cf_items D db cf key))"
proof -
  let ?xs = "filter (\<lambda>(k, v). prefix (cf_prefix cf) k) (db_Seek D db (cf_prefix cf @ key))"
  have "sorted_wrt (<) (map fst ?xs)"
    using Seek_sorted[of db "cf_prefix cf @ key"]
    by (simp add: sorted_wrt_map sorted_wrt_filter)
  moreover have "x < y \<Longrightarrow> prefix p x \<Longrightarrow> prefix p y \<Longrightarrow> drop (length p) x < drop (length p) y" for p x y :: bytes
    by (auto simp: prefix_def append_less_append)
  ultimately have "sorted_wrt (<) (map (\<lambda>x. drop (length (cf_prefix cf)) (fst x)) ?xs)"
    unfolding sorted_wrt_map by (rule sorted_wrt_mono_rel[rotated]) auto
  then show ?thesis unfolding cf_items_def cf_items_raw by (simp add: case_prod_beta comp_def)
qed

text \<open>The batch of \<open>deleteRangeCF\<close> deletes the keys of the range that have a value.\<close>

lemma deleteRangeCF_entries:
  "map wb_write (wb_entries (deleteRangeCF D db cf lo hi batch)) =
     map wb_write (wb_entries batch) @
     map (\<lambda>(k, v). (KeyWithCF cf k, None)) (filter (\<lambda>(k, v). \<not> ExceedEndKey k hi) (cf_items D db cf lo))"
proof -
  have "takeWhile (\<lambda>(k, v). \<not> ExceedEndKey k hi) (cf_items D db cf lo) =
      filter (\<lambda>(k, v). \<not> ExceedEndKey k hi) (cf_items D db cf lo)"
    by (rule takeWhile_filter_sorted[OF cf_items_sorted])
      (auto simp: ExceedEndKey_iff)
  then show ?thesis
    by (simp add: deleteRangeCF_def deleteRange_loop_eq case_prod_beta)
qed

lemma deleteRangeCF_apply:
  "wb_apply (deleteRangeCF D db cf lo hi batch) m k =
     (if \<exists>k' v. k = KeyWithCF cf k' \<and> in_range lo hi k' \<and> con db k = Some v then None
      else wb_apply batch m k)"
proof -
  let ?ds = "map (\<lambda>(k, v). (KeyWithCF cf k, None :: EngineValue option))
    (filter (\<lambda>(k, v). \<not> ExceedEndKey k hi) (cf_items D db cf lo))"
  have "k \<in> fst ` set ?ds \<longleftrightarrow> (\<exists>k' v. k = KeyWithCF cf k' \<and> in_range lo hi k' \<and> con db k = Some v)" (is "_ \<longleftrightarrow> ?R")
  proof -
    have "k \<in> fst ` set ?ds \<longleftrightarrow> (\<exists>k' v. k = KeyWithCF cf k' \<and> (k', v) \<in> set (cf_items D db cf lo) \<and>
        \<not> ExceedEndKey k' hi)"
      by (simp add: image_iff case_prod_beta) blast
    also have "\<dots> \<longleftrightarrow> ?R" by (auto simp: cf_items_set in_range_def ExceedEndKey_iff not_le)
    finally show ?thesis .
  qed
  then show ?thesis
    unfolding wb_apply_def deleteRangeCF_entries write_all_append
    by (subst write_all_delete) auto
qed

lemma DeleteRange_con:
  assumes "DeleteRange D lo hi db = (None, db')"
  shows "con db' k = (if \<exists>cf\<in>set CFs. \<exists>k'. k = KeyWithCF cf k' \<and> in_range lo hi k' then None else con db k)"
proof -
  define hit where "hit cf \<longleftrightarrow> (\<exists>k' v. k = KeyWithCF cf k' \<and> in_range lo hi k' \<and> con db k = Some v)" for cf
  have step: "wb_apply (deleteRangeCF D db cf lo hi batch) (con db) k =
      (if hit cf then None else wb_apply batch (con db) k)" for cf batch
    unfolding hit_def by (rule deleteRangeCF_apply)
  have *: "wb_apply (fold (\<lambda>cf. deleteRangeCF D db cf lo hi) cfs batch) (con db) k =
      (if \<exists>cf\<in>set cfs. hit cf then None else wb_apply batch (con db) k)" for cfs batch
    by (induction cfs arbitrary: batch) (simp_all add: step)
  have "con db' k = wb_apply (fold (\<lambda>cf. deleteRangeCF D db cf lo hi) CFs new_WriteBatch) (con db) k"
    using WriteToDB_con[OF assms[unfolded DeleteRange_def]] by simp
  also have "\<dots> = (if \<exists>cf\<in>set CFs. hit cf then None else con db k)"
    unfolding * by simp
  also have "\<dots> = (if \<exists>cf\<in>set CFs. \<exists>k'. k = KeyWithCF cf k' \<and> in_range lo hi k' then None else con db k)"
  proof (cases "con db k")
    case (Some v)
    then have "hit cf \<longleftrightarrow> (\<exists>k'. k = KeyWithCF cf k' \<and> in_range lo hi k')" for cf
      by (simp add: hit_def)
    then show ?thesis by presburger
  qed simp
  finally show ?thesis .
qed

end

section \<open>An engine in memory\<close>

text \<open>An association list with the promised behaviour, on which the contract is shown to be met.\<close>

definition al_engine :: "(bytes \<times> EngineValue) list DB" where
  "al_engine =
     \<lparr>db_Get = (\<lambda>db k. case map_of db k of None \<Rightarrow> Inl ErrKeyNotFound | Some v \<Rightarrow> Inr v),
      db_Seek = (\<lambda>db k. filter (\<lambda>kv. k \<le> fst kv) (sort_key fst (AList.clearjunk db))),
      db_Update = (\<lambda>ws db. (None, fold (\<lambda>(k, v) db.
        case v of None \<Rightarrow> AList.delete k db | Some v \<Rightarrow> AList.update k v db) ws db))\<rparr>"

lemma al_update_con:
  "map_of (fold (\<lambda>(k, v) db. case v of None \<Rightarrow> AList.delete k db | Some v \<Rightarrow> AList.update k v db) ws db)
     = write_all ws (map_of db)"
proof (induction ws arbitrary: db)
  case (Cons w ws)
  obtain k v where w: "w = (k, v)" by (cases w)
  show ?case
    by (cases v) (simp_all add: w Cons.IH AList.update_conv' AList.delete_conv' fun_upd_def)
qed simp

interpretation al: reliable_engine al_engine map_of
proof
  fix db :: "(bytes \<times> EngineValue) list" and k k' :: bytes and v
  have d: "distinct (map fst (sort_key fst (AList.clearjunk db)))"
    using distinct_clearjunk[of db] by (simp add: distinct_map)
  have "sorted_wrt (<) (map fst (sort_key fst (AList.clearjunk db)))"
    using d by (simp add: strict_sorted_iff)
  then show "sorted_wrt (<) (map fst (db_Seek al_engine db k))"
    by (simp add: al_engine_def sorted_wrt_map sorted_wrt_filter)
  show "(k', v) \<in> set (db_Seek al_engine db k) \<longleftrightarrow> k \<le> k' \<and> map_of db k' = Some v"
    using map_of_eq_Some_iff[OF distinct_clearjunk[of db], of k' v]
    by (auto simp: al_engine_def map_of_clearjunk)
qed (auto simp: al_engine_def al_update_con)

text \<open>
  C27 (functional): \<open>DeleteRange\<close> is exact. When its transaction succeeds, the keys of the range
  \<open>[lo, hi)\<close> are gone from the three column families, an empty \<open>hi\<close> meaning no bound, and every
  other key of the engine has the value it had.
\<close>

theorem DeleteRange_exact:
  assumes "kv_engine D con" "DeleteRange D lo hi db = (None, db')"
  shows "con db' k = (if \<exists>cf\<in>set CFs. \<exists>k'. k = KeyWithCF cf k' \<and> in_range lo hi k' then None else con db k)"
  by (rule kv_engine.DeleteRange_con[OF assms])

theorem DeleteRange_exact_witness:
  "\<exists>db'. DeleteRange al_engine [3] [7] [(KeyWithCF CfDefault [5], VBytes [1]), ([1, 1], VBytes [2])] = (None, db') \<and>
     map_of db' (KeyWithCF CfDefault [5]) = None \<and> map_of db' [1, 1] = Some (VBytes [2])"
proof -
  let ?db = "[(KeyWithCF CfDefault [5], VBytes [1]), ([1, 1], VBytes [2])]"
  obtain db' where eq: "DeleteRange al_engine [3] [7] ?db = (None, db')"
    by (cases "DeleteRange al_engine [3] [7] ?db") (auto simp: DeleteRange_def WriteToDB_def al_engine_def Let_def split: if_splits)
  have eng: "kv_engine al_engine map_of" by (rule al.kv_engine_axioms)
  have in_r: "in_range [3] [7] [5 :: byte]" by (simp add: in_range_def)
  have cf: "KeyWithCF cf k' \<noteq> [1, 1]" if "cf \<in> set CFs" for cf k'
    using that by (auto simp: CFs_def KeyWithCF_def cf_prefix_def CfDefault_def CfWrite_def CfLock_def)
  have k1: "\<exists>cf\<in>set CFs. \<exists>k'. KeyWithCF CfDefault [5] = KeyWithCF cf k' \<and> in_range [3] [7] k'"
    using in_r by (auto simp: CFs_def)
  have k2: "\<not> (\<exists>cf\<in>set CFs. \<exists>k'. [1, 1] = KeyWithCF cf k' \<and> in_range [3] [7] k')"
    using cf by metis
  have "map_of db' (KeyWithCF CfDefault [5]) = None" "map_of db' [1, 1] = Some (VBytes [2])"
    using DeleteRange_exact[OF eng eq, of "KeyWithCF CfDefault [5]"] k1
      DeleteRange_exact[OF eng eq, of "[1, 1]"] k2 cf[of CfDefault "[5]"]
    by (simp_all add: CFs_def)
  then show ?thesis using eq by blast
qed

end
