(* ===== verification/Region_Util.thy ===== *)
theory Region_Util
  imports Meta_Keys
begin

text \<open>
  The commands of \<open>proto/pkg/raft_cmdpb\<close>, the errors and checks of \<open>kv/raftstore/util\<close>, and the
  responses of \<open>kv/raftstore/cmd_resp.go\<close>. Messages are modelled as \<open>Unmarshal\<close> leaves them, where a
  byte field is nil exactly when it is empty. The texts of error messages are left out.
\<close>

section \<open>Commands\<close>

datatype CmdType = CmdType_Invalid | CmdType_Get | CmdType_Put | CmdType_Delete | CmdType_Snap

datatype AdminCmdType =
    AdminCmdType_InvalidAdmin | AdminCmdType_ChangePeer | AdminCmdType_CompactLog
  | AdminCmdType_TransferLeader | AdminCmdType_Split

record GetRequest =
  get_Cf :: string
  get_Key :: bytes

record PutRequest =
  put_Cf :: string
  put_Key :: bytes
  put_Value :: bytes

record DeleteRequest =
  delete_Cf :: string
  delete_Key :: bytes

record Request =
  rq_CmdType :: CmdType
  rq_Get :: "GetRequest option"
  rq_Put :: "PutRequest option"
  rq_Delete :: "DeleteRequest option"

record ChangePeerRequest =
  cp_ChangeType :: ConfChangeType
  cp_Peer :: "Peer option"

record CompactLogRequest =
  cl_CompactIndex :: u64
  cl_CompactTerm :: u64

record SplitRequest =
  sr_SplitKey :: bytes
  sr_NewRegionId :: u64
  sr_NewPeerIds :: "u64 list"

text \<open>\<open>TransferLeaderRequest\<close> only holds a peer.\<close>

record AdminRequest =
  ar_CmdType :: AdminCmdType
  ar_ChangePeer :: "ChangePeerRequest option"
  ar_CompactLog :: "CompactLogRequest option"
  ar_TransferLeader :: "Peer option option"
  ar_Split :: "SplitRequest option"

record RaftRequestHeader =
  rh_RegionId :: u64
  rh_Peer :: "Peer option"
  rh_RegionEpoch :: "RegionEpoch option"
  rh_Term :: u64

record RaftCmdRequest =
  rc_Header :: "RaftRequestHeader option"
  rc_Requests :: "Request list"
  rc_AdminRequest :: "AdminRequest option"

section \<open>Errors and responses\<close>

datatype RaftstoreError =
    ErrNotLeader u64 "Peer option"
  | ErrRegionNotFound u64
  | ErrKeyNotInRegion bytes Region
  | ErrEpochNotMatch "Region list"
  | ErrStaleCommand
  | ErrStoreNotMatch u64 u64
  | ErrMsg string

text \<open>\<open>errorpb.Error\<close>: at most one of its pointers is set, or only the message.\<close>

datatype PbError =
    PbNotLeader u64 "Peer option"
  | PbRegionNotFound u64
  | PbKeyNotInRegion bytes u64 bytes bytes
  | PbEpochNotMatch "Region list"
  | PbStaleCommand
  | PbStoreNotMatch u64 u64
  | PbMessage string

fun RaftstoreErrToPbError :: "RaftstoreError \<Rightarrow> PbError" where
  "RaftstoreErrToPbError (ErrNotLeader r leader) = PbNotLeader r leader"
| "RaftstoreErrToPbError (ErrRegionNotFound r) = PbRegionNotFound r"
| "RaftstoreErrToPbError (ErrKeyNotInRegion key region) =
     PbKeyNotInRegion key (rg_Id region) (rg_StartKey region) (rg_EndKey region)"
| "RaftstoreErrToPbError (ErrEpochNotMatch regions) = PbEpochNotMatch regions"
| "RaftstoreErrToPbError ErrStaleCommand = PbStaleCommand"
| "RaftstoreErrToPbError (ErrStoreNotMatch req actual) = PbStoreNotMatch req actual"
| "RaftstoreErrToPbError (ErrMsg m) = PbMessage m"

datatype Response =
    GetResponse bytes | PutResponse | DeleteResponse | SnapResponse Region

record RaftResponseHeader =
  ph_Error :: "PbError option"
  ph_CurrentTerm :: u64

text \<open>The answer to an administrative command repeats its type and holds an empty \<open>ChangePeerResponse\<close>.\<close>

record RaftCmdResponse =
  rp_Header :: "RaftResponseHeader option"
  rp_Responses :: "Response list"
  rp_AdminResponse :: "AdminCmdType option"

definition newCmdResp :: RaftCmdResponse where
  "newCmdResp = \<lparr>rp_Header = Some \<lparr>ph_Error = None, ph_CurrentTerm = 0\<rparr>, rp_Responses = [], rp_AdminResponse = None\<rparr>"

definition ensureRespHeader :: "RaftCmdResponse \<Rightarrow> RaftCmdResponse" where
  "ensureRespHeader resp =
     (case rp_Header resp of None \<Rightarrow> resp\<lparr>rp_Header := Some \<lparr>ph_Error = None, ph_CurrentTerm = 0\<rparr>\<rparr> | Some h \<Rightarrow> resp)"

definition BindRespTerm :: "RaftCmdResponse \<Rightarrow> u64 \<Rightarrow> RaftCmdResponse" where
  "BindRespTerm resp term =
     (if term = 0 then resp
      else let resp = ensureRespHeader resp in
        resp\<lparr>rp_Header := map_option (\<lambda>h. h\<lparr>ph_CurrentTerm := term\<rparr>) (rp_Header resp)\<rparr>)"

definition BindRespError :: "RaftCmdResponse \<Rightarrow> RaftstoreError \<Rightarrow> RaftCmdResponse" where
  "BindRespError resp err =
     (let resp = ensureRespHeader resp in
        resp\<lparr>rp_Header := map_option (\<lambda>h. h\<lparr>ph_Error := Some (RaftstoreErrToPbError err)\<rparr>) (rp_Header resp)\<rparr>)"

definition ErrResp :: "RaftstoreError \<Rightarrow> RaftCmdResponse" where
  "ErrResp err = BindRespError newCmdResp err"

definition ErrRespWithTerm :: "RaftstoreError \<Rightarrow> u64 \<Rightarrow> RaftCmdResponse" where
  "ErrRespWithTerm err term = BindRespTerm (ErrResp err) term"

definition ErrRespStaleCommand :: "u64 \<Rightarrow> RaftCmdResponse" where
  "ErrRespStaleCommand term = ErrRespWithTerm ErrStaleCommand term"

section \<open>Checks\<close>

definition IsInitialMsg :: "Message \<Rightarrow> bool" where
  "IsInitialMsg msg \<longleftrightarrow>
     m_MsgType msg = MsgRequestVote \<or> (m_MsgType msg = MsgHeartbeat \<and> m_Commit msg = 0)"

definition CheckKeyInRegion :: "bytes \<Rightarrow> Region \<Rightarrow> RaftstoreError option" where
  "CheckKeyInRegion key region =
     (if bytes_compare key (rg_StartKey region) \<ge> 0 \<and>
         (length (rg_EndKey region) = 0 \<or> bytes_compare key (rg_EndKey region) < 0)
      then None else Some (ErrKeyNotInRegion key region))"

definition CheckKeyInRegionExclusive :: "bytes \<Rightarrow> Region \<Rightarrow> RaftstoreError option" where
  "CheckKeyInRegionExclusive key region =
     (if bytes_compare (rg_StartKey region) key < 0 \<and>
         (length (rg_EndKey region) = 0 \<or> bytes_compare key (rg_EndKey region) < 0)
      then None else Some (ErrKeyNotInRegion key region))"

definition CheckKeyInRegionInclusive :: "bytes \<Rightarrow> Region \<Rightarrow> RaftstoreError option" where
  "CheckKeyInRegionInclusive key region =
     (if bytes_compare key (rg_StartKey region) \<ge> 0 \<and>
         (length (rg_EndKey region) = 0 \<or> bytes_compare key (rg_EndKey region) \<le> 0)
      then None else Some (ErrKeyNotInRegion key region))"

definition IsEpochStale :: "RegionEpoch \<Rightarrow> RegionEpoch \<Rightarrow> bool" where
  "IsEpochStale epoch checkEpoch \<longleftrightarrow>
     ep_Version epoch < ep_Version checkEpoch \<or> ep_ConfVer epoch < ep_ConfVer checkEpoch"

definition IsVoteMessage :: "Message \<Rightarrow> bool" where
  "IsVoteMessage msg \<longleftrightarrow> m_MsgType msg = MsgRequestVote"

definition IsFirstVoteMessage :: "Message \<Rightarrow> bool" where
  "IsFirstVoteMessage msg \<longleftrightarrow> IsVoteMessage msg \<and> m_Term msg = RaftInitLogTerm + 1"

text \<open>Which halves of the epoch a command has to match.\<close>

definition epoch_checks :: "RaftCmdRequest \<Rightarrow> bool \<times> bool" where
  "epoch_checks req =
     (case rc_AdminRequest req of
        None \<Rightarrow> (True, False)
      | Some a \<Rightarrow>
          (case ar_CmdType a of
             AdminCmdType_CompactLog \<Rightarrow> (False, False)
           | AdminCmdType_InvalidAdmin \<Rightarrow> (False, False)
           | AdminCmdType_ChangePeer \<Rightarrow> (False, True)
           | AdminCmdType_Split \<Rightarrow> (True, True)
           | AdminCmdType_TransferLeader \<Rightarrow> (True, True)))"

definition CheckRegionEpoch :: "RaftCmdRequest \<Rightarrow> Region \<Rightarrow> bool \<Rightarrow> RaftstoreError option option" where
  "CheckRegionEpoch req region includeRegion =
     (let (checkVer, checkConfVer) = epoch_checks req in
      if \<not> checkVer \<and> \<not> checkConfVer then Some None
      else case rc_Header req of
        None \<Rightarrow> Some (Some (ErrMsg ''missing header!''))
      | Some header \<Rightarrow>
          (case rh_RegionEpoch header of
             None \<Rightarrow> Some (Some (ErrMsg ''missing epoch!''))
           | Some fromEpoch \<Rightarrow> do {
               currentEpoch \<leftarrow> rg_RegionEpoch region;
               Some (if (checkConfVer \<and> ep_ConfVer fromEpoch \<noteq> ep_ConfVer currentEpoch) \<or>
                        (checkVer \<and> ep_Version fromEpoch \<noteq> ep_Version currentEpoch)
                     then Some (ErrEpochNotMatch (if includeRegion then [region] else []))
                     else None)
             }))"

definition FindPeer :: "Region \<Rightarrow> u64 \<Rightarrow> Peer option" where
  "FindPeer region storeID = find (\<lambda>peer. peer_StoreId peer = storeID) (rg_Peers region)"

definition util_RemovePeer :: "Region \<Rightarrow> u64 \<Rightarrow> Region \<times> Peer option" where
  "util_RemovePeer region storeID =
     (case FindPeer region storeID of
        None \<Rightarrow> (region, None)
      | Some peer \<Rightarrow>
          (region\<lparr>rg_Peers := remove_first (\<lambda>p. peer_StoreId p = storeID) (rg_Peers region)\<rparr>, Some peer))"

definition ConfStateFromRegion :: "Region \<Rightarrow> ConfState" where
  "ConfStateFromRegion region = \<lparr>cs_Nodes = map peer_Id (rg_Peers region)\<rparr>"

text \<open>A missing header or peer is a nil pointer.\<close>

definition header_peer :: "RaftCmdRequest \<Rightarrow> Peer option" where
  "header_peer req = do { header \<leftarrow> rc_Header req; rh_Peer header }"

definition CheckStoreID :: "RaftCmdRequest \<Rightarrow> u64 \<Rightarrow> RaftstoreError option option" where
  "CheckStoreID req storeID = do {
     peer \<leftarrow> header_peer req;
     Some (if peer_StoreId peer = storeID then None else Some (ErrMsg ''store not match''))
   }"

definition CheckTerm :: "RaftCmdRequest \<Rightarrow> u64 \<Rightarrow> RaftstoreError option option" where
  "CheckTerm req term = do {
     header \<leftarrow> rc_Header req;
     Some (if rh_Term header = 0 \<or> term \<le> u64_add (rh_Term header) 1 then None else Some ErrStaleCommand)
   }"

definition CheckPeerID :: "RaftCmdRequest \<Rightarrow> u64 \<Rightarrow> RaftstoreError option option" where
  "CheckPeerID req peerID = do {
     peer \<leftarrow> header_peer req;
     Some (if peer_Id peer = peerID then None else Some (ErrMsg ''mismatch peer id''))
   }"

definition PeerEqual :: "Peer \<Rightarrow> Peer \<Rightarrow> bool" where
  "PeerEqual l r \<longleftrightarrow> peer_Id l = peer_Id r \<and> peer_StoreId l = peer_StoreId r"

definition RegionEqual :: "Region option \<Rightarrow> Region option \<Rightarrow> bool option" where
  "RegionEqual l r =
     (case (l, r) of
        (Some l, Some r) \<Rightarrow> do {
          if rg_Id l \<noteq> rg_Id r then Some False
          else do {
            le \<leftarrow> rg_RegionEpoch l;
            re \<leftarrow> rg_RegionEpoch r;
            Some (ep_Version le = ep_Version re \<and> ep_ConfVer le = ep_ConfVer re)
          }
        }
      | _ \<Rightarrow> Some False)"

section \<open>What the checks decide\<close>

lemma CheckKeyInRegion_iff:
  "CheckKeyInRegion key region = None \<longleftrightarrow> in_range (rg_StartKey region) (rg_EndKey region) key"
  by (simp add: CheckKeyInRegion_def in_range_def key_order)

lemma CheckKeyInRegionExclusive_iff:
  "CheckKeyInRegionExclusive key region = None \<longleftrightarrow>
     in_range (rg_StartKey region) (rg_EndKey region) key \<and> key \<noteq> rg_StartKey region"
  by (auto simp: CheckKeyInRegionExclusive_def in_range_def key_order)

lemma CheckKeyInRegionInclusive_iff:
  "range_ok (rg_StartKey region) (rg_EndKey region) \<Longrightarrow>
   CheckKeyInRegionInclusive key region = None \<longleftrightarrow>
     in_range (rg_StartKey region) (rg_EndKey region) key \<or> rg_EndKey region \<noteq> [] \<and> key = rg_EndKey region"
  by (auto simp: CheckKeyInRegionInclusive_def in_range_def range_ok_def key_order)

lemma FindPeer_Some: "FindPeer region s = Some p \<Longrightarrow> p \<in> set (rg_Peers region) \<and> peer_StoreId p = s"
  by (auto simp: FindPeer_def find_Some_iff)

lemma FindPeer_None: "FindPeer region s = None \<longleftrightarrow> (\<forall>p\<in>set (rg_Peers region). peer_StoreId p \<noteq> s)"
  by (auto simp: FindPeer_def find_None_iff)

lemma ErrResp_eq:
  "ErrResp err = \<lparr>rp_Header = Some \<lparr>ph_Error = Some (RaftstoreErrToPbError err), ph_CurrentTerm = 0\<rparr>,
     rp_Responses = [], rp_AdminResponse = None\<rparr>"
  by (simp add: ErrResp_def BindRespError_def newCmdResp_def ensureRespHeader_def)

lemma ErrRespStaleCommand_eq:
  "ErrRespStaleCommand term = \<lparr>rp_Header = Some \<lparr>ph_Error = Some PbStaleCommand, ph_CurrentTerm = term\<rparr>,
     rp_Responses = [], rp_AdminResponse = None\<rparr>"
  by (simp add: ErrRespStaleCommand_def ErrRespWithTerm_def BindRespTerm_def ErrResp_eq ensureRespHeader_def)

text \<open>The order of the decided checks: stale means that one half of the epoch is behind.\<close>

lemma IsEpochStale_irrefl [simp]: "\<not> IsEpochStale e e"
  by (simp add: IsEpochStale_def)

end
