(* ===== verification/Peer_Storage.thy ===== *)
theory Peer_Storage
  imports Region_Util Raw_Node
begin

text \<open>
  \<open>PeerStorage\<close> of \<open>kv/raftstore/peer_storage.go\<close>: the second implementation of the \<open>Storage\<close>
  interface, over the two engines of a store. The engines are kept inside the storage; the task
  channel of the region worker is the list of the tasks sent on it, and the channel on which a
  generated snapshot comes back is the value waiting in it. Decoding the data of a snapshot is
  generated code and a parameter \<open>U\<close>. The name of the peer in log lines is left out.
\<close>

section \<open>State\<close>

record RaftSnapshotData =
  sd_Region :: "Region option"

type_synonym SnapDecoder = "bytes option \<Rightarrow> RaftSnapshotData option"

record ApplySnapResult =
  asr_PrevRegion :: Region
  asr_Region :: Region

datatype SnapStateType = SnapState_Relax | SnapState_Generating | SnapState_Applying

text \<open>The receiver's buffer holds at most one pointer to a snapshot, which may be nil.\<close>

record SnapState =
  st_StateType :: SnapStateType
  st_Receiver :: "Snapshot option option"

datatype RegionTask =
    RegionTaskGen u64
  | RegionTaskApply u64 SnapshotMetadata bytes bytes
  | RegionTaskDestroy u64 bytes bytes

record 'db PeerStorage =
  ps_region :: Region
  ps_raftState :: RaftLocalState
  ps_applyState :: RaftApplyState
  ps_snapState :: SnapState
  ps_regionSched :: "RegionTask list"
  ps_snapTriedCnt :: nat
  ps_Engines :: "'db Engines"

definition NewPeerStorage ::
  "'db DB \<Rightarrow> Region \<Rightarrow> RegionTask list \<Rightarrow> 'db Engines \<Rightarrow> ((DbError + 'db PeerStorage) \<times> 'db Engines) option" where
  "NewPeerStorage D region regionSched engines =
     (case InitRaftLocalState D region (en_Raft engines) of
        (Inl err, raft) \<Rightarrow> Some (Inl err, engines\<lparr>en_Raft := raft\<rparr>)
      | (Inr raftState, raft) \<Rightarrow>
          (let engines = engines\<lparr>en_Raft := raft\<rparr> in
           case InitApplyState D region (en_Kv engines) of
             (Inl err, kv) \<Rightarrow> Some (Inl err, engines\<lparr>en_Kv := kv\<rparr>)
           | (Inr applyState, kv) \<Rightarrow>
               (let engines = engines\<lparr>en_Kv := kv\<rparr> in
                if rl_LastIndex raftState < as_AppliedIndex applyState then None
                else Some (Inr \<lparr>ps_region = region, ps_raftState = raftState, ps_applyState = applyState,
                  ps_snapState = \<lparr>st_StateType = SnapState_Relax, st_Receiver = None\<rparr>,
                  ps_regionSched = regionSched, ps_snapTriedCnt = 0, ps_Engines = engines\<rparr>, engines))))"

section \<open>The storage interface\<close>

definition ps_isInitialized :: "'db PeerStorage \<Rightarrow> bool" where
  "ps_isInitialized ps \<longleftrightarrow> length (rg_Peers (ps_region ps)) > 0"

definition ps_SetRegion :: "Region \<Rightarrow> 'db PeerStorage \<Rightarrow> 'db PeerStorage" where
  "ps_SetRegion region ps = ps\<lparr>ps_region := region\<rparr>"

definition truncatedIndex :: "'db PeerStorage \<Rightarrow> u64 option" where
  "truncatedIndex ps = map_option ts_Index (as_TruncatedState (ps_applyState ps))"

definition truncatedTerm :: "'db PeerStorage \<Rightarrow> u64 option" where
  "truncatedTerm ps = map_option ts_Term (as_TruncatedState (ps_applyState ps))"

definition AppliedIndex :: "'db PeerStorage \<Rightarrow> u64" where
  "AppliedIndex ps = as_AppliedIndex (ps_applyState ps)"

definition checkRange :: "'db PeerStorage \<Rightarrow> u64 \<Rightarrow> u64 \<Rightarrow> raft_error option option" where
  "checkRange ps low high =
     (if low > high then Some (Some (ErrOther ''low is greater than high''))
      else do {
        ti \<leftarrow> truncatedIndex ps;
        Some (if low \<le> ti then Some ErrCompacted
          else if high > u64_add (rl_LastIndex (ps_raftState ps)) 1
          then Some (ErrOther ''high is out of bound'') else None)
      })"

definition ps_InitialState :: "'db PeerStorage \<Rightarrow> (raft_error + HardState \<times> ConfState) option" where
  "ps_InitialState ps = do {
     hs \<leftarrow> rl_HardState (ps_raftState ps);
     if IsEmptyHardState hs
     then if \<not> ps_isInitialized ps then Some (Inr (zero_HardState, \<lparr>cs_Nodes = []\<rparr>)) else None
     else Some (Inr (hs, ConfStateFromRegion (ps_region ps)))
   }"

text \<open>The loop of \<open>Entries\<close> over the items of the iterator.\<close>

fun entries_loop :: "bytes \<Rightarrow> (bytes \<times> EngineValue) list \<Rightarrow> u64 \<Rightarrow> Entry list \<Rightarrow> raft_error + Entry list" where
  "entries_loop endKey [] nextIndex buf = Inr buf"
| "entries_loop endKey ((k, v) # items) nextIndex buf =
     (if bytes_compare k endKey \<ge> 0 then Inr buf
      else case v of
        VEntry entry \<Rightarrow>
          if e_Index entry \<noteq> nextIndex then Inr buf
          else entries_loop endKey items (u64_add nextIndex 1) (buf @ [entry])
      | _ \<Rightarrow> Inl (ErrOther ''unmarshal''))"

definition ps_Entries :: "'db DB \<Rightarrow> 'db PeerStorage \<Rightarrow> u64 \<Rightarrow> u64 \<Rightarrow> (raft_error + Entry list) option" where
  "ps_Entries D ps low high = do {
     err \<leftarrow> checkRange ps low high;
     case err of
       Some e \<Rightarrow> Some (Inl e)
     | None \<Rightarrow>
         if low = high then Some (Inr [])
         else
           let startKey = RaftLogKey (rg_Id (ps_region ps)) low;
               endKey = RaftLogKey (rg_Id (ps_region ps)) high
           in (case entries_loop endKey (db_Seek D (en_Raft (ps_Engines ps)) startKey) low [] of
                 Inl e \<Rightarrow> Some (Inl e)
               | Inr buf \<Rightarrow>
                   if int (length buf) = u64_to_int (u64_sub high low) then Some (Inr buf)
                   else Some (Inl ErrUnavailable))
   }"

definition ps_Term :: "'db DB \<Rightarrow> 'db PeerStorage \<Rightarrow> u64 \<Rightarrow> (raft_error + u64) option" where
  "ps_Term D ps idx = do {
     ti \<leftarrow> truncatedIndex ps;
     tt \<leftarrow> truncatedTerm ps;
     if idx = ti then Some (Inr tt)
     else do {
       err \<leftarrow> checkRange ps idx (u64_add idx 1);
       case err of
         Some e \<Rightarrow> Some (Inl e)
       | None \<Rightarrow>
           if tt = rl_LastTerm (ps_raftState ps) \<or> idx = rl_LastIndex (ps_raftState ps)
           then Some (Inr (rl_LastTerm (ps_raftState ps)))
           else (case GetRaftEntry D (en_Raft (ps_Engines ps)) (rg_Id (ps_region ps)) idx of
                   Inl e \<Rightarrow> Some (Inl (ErrOther ''engine''))
                 | Inr entry \<Rightarrow> Some (Inr (e_Term entry)))
     }
   }"

definition ps_LastIndex :: "'db PeerStorage \<Rightarrow> (raft_error + u64) option" where
  "ps_LastIndex ps = Some (Inr (rl_LastIndex (ps_raftState ps)))"

definition ps_FirstIndex :: "'db PeerStorage \<Rightarrow> (raft_error + u64) option" where
  "ps_FirstIndex ps = do { ti \<leftarrow> truncatedIndex ps; Some (Inr (u64_add ti 1)) }"

text \<open>The getters of a snapshot are nil-safe.\<close>

definition GetConfVer :: "RegionEpoch option \<Rightarrow> u64" where
  "GetConfVer e = (case e of None \<Rightarrow> 0 | Some e \<Rightarrow> ep_ConfVer e)"

definition validateSnap :: "SnapDecoder \<Rightarrow> 'db PeerStorage \<Rightarrow> Snapshot \<Rightarrow> bool option" where
  "validateSnap U ps snap = do {
     let idx = (case sn_Metadata snap of None \<Rightarrow> 0 | Some md \<Rightarrow> sm_Index md);
     ti \<leftarrow> truncatedIndex ps;
     if idx < ti then Some False
     else case U (sn_Data snap) of
       None \<Rightarrow> Some False
     | Some snapData \<Rightarrow>
         Some (\<not> GetConfVer (Option.bind (sd_Region snapData) rg_RegionEpoch)
                  < GetConfVer (rg_RegionEpoch (ps_region ps)))
   }"

text \<open>The tail of \<open>Snapshot\<close>: give up after five tries, otherwise ask the worker for a snapshot.\<close>

definition request_snapshot :: "'db PeerStorage \<Rightarrow> (raft_error + Snapshot) \<times> 'db PeerStorage" where
  "request_snapshot ps =
     (if ps_snapTriedCnt ps \<ge> 5
      then (Inl (ErrOther ''failed to get snapshot''), ps\<lparr>ps_snapTriedCnt := 0\<rparr>)
      else (Inl ErrSnapshotTemporarilyUnavailable,
        ps\<lparr>ps_snapTriedCnt := ps_snapTriedCnt ps + 1,
           ps_snapState := \<lparr>st_StateType = SnapState_Generating, st_Receiver = None\<rparr>,
           ps_regionSched := ps_regionSched ps @ [RegionTaskGen (rg_Id (ps_region ps))]\<rparr>))"

definition ps_Snapshot :: "SnapDecoder \<Rightarrow> 'db PeerStorage \<Rightarrow> ((raft_error + Snapshot) \<times> 'db PeerStorage) option" where
  "ps_Snapshot U ps =
     (if st_StateType (ps_snapState ps) = SnapState_Generating then
        (case st_Receiver (ps_snapState ps) of
           None \<Rightarrow> Some (Inl ErrSnapshotTemporarilyUnavailable, ps)
         | Some s \<Rightarrow>
             (let snapshot = (case s of None \<Rightarrow> zero_Snapshot | Some s \<Rightarrow> s);
                  ps = ps\<lparr>ps_snapState := \<lparr>st_StateType = SnapState_Relax, st_Receiver = None\<rparr>\<rparr> in
              if sn_Metadata snapshot \<noteq> None then do {
                let ps = ps\<lparr>ps_snapTriedCnt := 0\<rparr>;
                valid \<leftarrow> validateSnap U ps snapshot;
                Some (if valid then (Inr snapshot, ps) else request_snapshot ps)
              }
              else Some (request_snapshot ps)))
      else Some (request_snapshot ps))"

definition peer_storage_ops :: "'db DB \<Rightarrow> SnapDecoder \<Rightarrow> 'db PeerStorage StorageOps" where
  "peer_storage_ops D U =
     \<lparr>so_InitialState = ps_InitialState, so_Entries = ps_Entries D, so_Term = ps_Term D,
      so_LastIndex = ps_LastIndex, so_FirstIndex = ps_FirstIndex, so_Snapshot = ps_Snapshot U\<rparr>"

section \<open>Saving what a peer produced\<close>

definition clearRange :: "u64 \<Rightarrow> bytes \<Rightarrow> bytes \<Rightarrow> 'db PeerStorage \<Rightarrow> 'db PeerStorage" where
  "clearRange regionID start end_key ps =
     ps\<lparr>ps_regionSched := ps_regionSched ps @ [RegionTaskDestroy regionID start end_key]\<rparr>"

definition ClearData :: "'db PeerStorage \<Rightarrow> 'db PeerStorage" where
  "ClearData ps = clearRange (rg_Id (ps_region ps)) (rg_StartKey (ps_region ps)) (rg_EndKey (ps_region ps)) ps"

definition clearExtraData :: "Region \<Rightarrow> 'db PeerStorage \<Rightarrow> 'db PeerStorage" where
  "clearExtraData newRegion ps =
     (let oldStartKey = rg_StartKey (ps_region ps); oldEndKey = rg_EndKey (ps_region ps);
          newStartKey = rg_StartKey newRegion; newEndKey = rg_EndKey newRegion;
          ps = (if bytes_compare oldStartKey newStartKey < 0
                then clearRange (rg_Id newRegion) oldStartKey newStartKey ps else ps)
      in if bytes_compare newEndKey oldEndKey < 0
         then clearRange (rg_Id newRegion) newEndKey oldEndKey ps else ps)"

text \<open>
  The first log key of the region decides where the deletion of the log starts. (The loop over the
  indices assumes that the last index is not the last \<open>uint64\<close>.)
\<close>

definition ClearMeta_first :: "'db DB \<Rightarrow> 'db Engines \<Rightarrow> u64 \<Rightarrow> u64 \<Rightarrow> (KeyError + u64) option" where
  "ClearMeta_first D engines regionID lastIndex =
     (let firstIndex = u64_add lastIndex 1 in
      case db_Seek D (en_Raft engines) (RaftLogKey regionID 0) of
        [] \<Rightarrow> Some (Inr firstIndex)
      | (k, v) # items \<Rightarrow>
          if bytes_compare k (RaftLogKey regionID firstIndex) < 0 then RaftLogIndex k
          else Some (Inr firstIndex))"

definition ClearMeta ::
  "'db DB \<Rightarrow> 'db Engines \<Rightarrow> WriteBatch \<Rightarrow> WriteBatch \<Rightarrow> u64 \<Rightarrow> u64 \<Rightarrow>
   (KeyError option \<times> WriteBatch \<times> WriteBatch) option" where
  "ClearMeta D engines kvWB raftWB regionID lastIndex = do {
     let kvWB = wb_DeleteMeta (RegionStateKey regionID) kvWB;
     let kvWB = wb_DeleteMeta (ApplyStateKey regionID) kvWB;
     first \<leftarrow> ClearMeta_first D engines regionID lastIndex;
     case first of
       Inl err \<Rightarrow> Some (Some err, kvWB, raftWB)
     | Inr firstIndex \<Rightarrow>
         let raftWB = fold (\<lambda>i. wb_DeleteMeta (RaftLogKey regionID i)) [firstIndex..<lastIndex + 1] raftWB
         in Some (None, kvWB, wb_DeleteMeta (RaftStateKey regionID) raftWB)
   }"

definition clearMeta ::
  "'db DB \<Rightarrow> 'db PeerStorage \<Rightarrow> WriteBatch \<Rightarrow> WriteBatch \<Rightarrow> (KeyError option \<times> WriteBatch \<times> WriteBatch) option" where
  "clearMeta D ps kvWB raftWB =
     ClearMeta D (ps_Engines ps) kvWB raftWB (rg_Id (ps_region ps)) (rl_LastIndex (ps_raftState ps))"

definition append_entry :: "Entry \<Rightarrow> 'db PeerStorage \<times> WriteBatch \<Rightarrow> 'db PeerStorage \<times> WriteBatch" where
  "append_entry e s =
     (fst s, wb_SetMeta (RaftLogKey (rg_Id (ps_region (fst s))) (e_Index e)) (VEntry e) (snd s))"

definition ps_Append :: "Entry list \<Rightarrow> 'db PeerStorage \<Rightarrow> WriteBatch \<Rightarrow> 'db PeerStorage \<times> WriteBatch" where
  "ps_Append ents ps raftWB =
     (let (ps, raftWB) = fold append_entry ents (ps, raftWB) in
      (if ents = [] then ps
       else ps\<lparr>ps_raftState := (ps_raftState ps)\<lparr>rl_LastIndex := e_Index (last ents),
              rl_LastTerm := e_Term (last ents)\<rparr>\<rparr>, raftWB))"

text \<open>
  The error of \<open>clearMeta\<close> is a panic; so is a snapshot without metadata or without a region, and
  an apply state without its truncated state.
\<close>

definition ps_ApplySnapshot ::
  "'db DB \<Rightarrow> SnapDecoder \<Rightarrow> Snapshot \<Rightarrow> 'db PeerStorage \<Rightarrow> WriteBatch \<Rightarrow> WriteBatch \<Rightarrow>
   ((raft_error + ApplySnapResult) \<times> 'db PeerStorage \<times> WriteBatch \<times> WriteBatch) option" where
  "ps_ApplySnapshot D U snapshot ps kvWB raftWB =
     (case U (sn_Data snapshot) of
        None \<Rightarrow> Some (Inl (ErrOther ''unmarshal''), ps, kvWB, raftWB)
      | Some snapData \<Rightarrow> do {
          (err, kvWB, raftWB) \<leftarrow> clearMeta D ps kvWB raftWB;
          if err \<noteq> None then None
          else do {
            region \<leftarrow> sd_Region snapData;
            let ps = clearExtraData region ps;
            metadata \<leftarrow> sn_Metadata snapshot;
            ts \<leftarrow> as_TruncatedState (ps_applyState ps);
            let ps = ps\<lparr>
              ps_raftState := (ps_raftState ps)\<lparr>rl_LastIndex := sm_Index metadata, rl_LastTerm := sm_Term metadata\<rparr>,
              ps_snapState := (ps_snapState ps)\<lparr>st_StateType := SnapState_Applying\<rparr>,
              ps_applyState := (ps_applyState ps)\<lparr>as_AppliedIndex := sm_Index metadata,
                as_TruncatedState := Some (ts\<lparr>ts_Index := sm_Index metadata, ts_Term := sm_Term metadata\<rparr>)\<rparr>\<rparr>;
            let kvWB = wb_SetMeta (ApplyStateKey (rg_Id region)) (VApplyState (ps_applyState ps)) kvWB;
            let ps = ps\<lparr>ps_regionSched := ps_regionSched ps @
              [RegionTaskApply (rg_Id region) metadata (rg_StartKey region) (rg_EndKey region)]\<rparr>;
            let res = \<lparr>asr_PrevRegion = ps_region ps, asr_Region = region\<rparr>;
            Some (Inr res, ps, WriteRegionState kvWB region PeerState_Normal, raftWB)
          }
        })"

text \<open>The error of \<open>ApplySnapshot\<close> is a panic, those of the two writes are dropped.\<close>

definition SaveReadyState ::
  "'db DB \<Rightarrow> SnapDecoder \<Rightarrow> Ready \<Rightarrow> 'db PeerStorage \<Rightarrow> (ApplySnapResult option \<times> 'db PeerStorage) option" where
  "SaveReadyState D U ready ps = do {
     (res, ps, kvWb, raftWb) \<leftarrow>
       (if \<not> IsEmptySnap (Some (rd_Snapshot ready)) then do {
          (r, ps, kvWb, raftWb) \<leftarrow> ps_ApplySnapshot D U (rd_Snapshot ready) ps new_WriteBatch new_WriteBatch;
          res \<leftarrow> errPanic r;
          Some (Some res, ps, kvWb, raftWb)
        }
        else Some (None, ps, new_WriteBatch, new_WriteBatch));
     let (ps, raftWb) = ps_Append (rd_Entries ready) ps raftWb;
     let (ps, raftWb) =
       (if \<not> IsEmptyHardState (rd_HardState ready) then
          let st = (ps_raftState ps)\<lparr>rl_HardState := Some (rd_HardState ready)\<rparr> in
          (ps\<lparr>ps_raftState := st\<rparr>, wb_SetMeta (RaftStateKey (rg_Id (ps_region ps))) (VRaftState st) raftWb)
        else (ps, raftWb));
     let engines = snd (WriteRaft D raftWb (ps_Engines ps));
     let engines = snd (WriteKV D kvWb engines);
     Some (res, ps\<lparr>ps_Engines := engines\<rparr>)
   }"

section \<open>The invariant\<close>

text \<open>The entry stored under an index of the region's log.\<close>

definition ps_ent :: "('db \<Rightarrow> bytes \<rightharpoonup> EngineValue) \<Rightarrow> 'db PeerStorage \<Rightarrow> u64 \<Rightarrow> Entry option" where
  "ps_ent con ps i =
     (case con (en_Raft (ps_Engines ps)) (RaftLogKey (rg_Id (ps_region ps)) i) of
        Some (VEntry e) \<Rightarrow> Some e | _ \<Rightarrow> None)"

abbreviation ps_li :: "'db PeerStorage \<Rightarrow> u64" where
  "ps_li ps \<equiv> rl_LastIndex (ps_raftState ps)"

abbreviation ps_ts :: "'db PeerStorage \<Rightarrow> RaftTruncatedState" where
  "ps_ts ps \<equiv> the (as_TruncatedState (ps_applyState ps))"

abbreviation ps_fi :: "'db PeerStorage \<Rightarrow> u64" where
  "ps_fi ps \<equiv> Suc (ts_Index (ps_ts ps))"

text \<open>Between two log keys of a region there are only log keys of the region.\<close>

definition log_keys_ok :: "(bytes \<rightharpoonup> EngineValue) \<Rightarrow> u64 \<Rightarrow> bool" where
  "log_keys_ok m r \<longleftrightarrow> (\<forall>k. m k \<noteq> None \<longrightarrow> RaftLogKey r 0 \<le> k \<longrightarrow> k \<le> RaftLogKey r (2 ^ 64 - 1) \<longrightarrow>
     (\<exists>i < 2 ^ 64. k = RaftLogKey r i))"

text \<open>
  The entries after the truncated index up to the last one are stored, carry their index, and have
  terms that do not go down; the in-memory states agree with them.
\<close>

definition ps_wf :: "('db \<Rightarrow> bytes \<rightharpoonup> EngineValue) \<Rightarrow> 'db PeerStorage \<Rightarrow> bool" where
  "ps_wf con ps \<longleftrightarrow>
     rg_Id (ps_region ps) < 2 ^ 64 \<and> Suc (ps_li ps) < 2 ^ 63 \<and>
     as_TruncatedState (ps_applyState ps) \<noteq> None \<and> ts_Index (ps_ts ps) \<le> ps_li ps \<and>
     (\<forall>i. ps_fi ps \<le> i \<and> i \<le> ps_li ps \<longrightarrow> (\<exists>e. ps_ent con ps i = Some e \<and> e_Index e = i \<and> ts_Term (ps_ts ps) \<le> e_Term e)) \<and>
     (\<forall>i j. ps_fi ps \<le> i \<and> i \<le> j \<and> j \<le> ps_li ps \<longrightarrow>
        e_Term (the (ps_ent con ps i)) \<le> e_Term (the (ps_ent con ps j))) \<and>
     (ps_fi ps \<le> ps_li ps \<longrightarrow> e_Term (the (ps_ent con ps (ps_li ps))) = rl_LastTerm (ps_raftState ps)) \<and>
     log_keys_ok (con (en_Raft (ps_Engines ps))) (rg_Id (ps_region ps)) \<and>
     (\<exists>hs. rl_HardState (ps_raftState ps) = Some hs \<and> (IsEmptyHardState hs \<longrightarrow> \<not> ps_isInitialized ps))"

lemma sorted_items_unique:
  fixes xs ys :: "('k :: linorder \<times> 'v) list"
  assumes "sorted_wrt (<) (map fst xs)" "sorted_wrt (<) (map fst ys)" "set xs = set ys"
  shows "xs = ys"
  using assms map_sorted_distinct_set_unique[of fst xs ys]
  by (auto simp: strict_sorted_iff distinct_map)

lemma entries_loop_run:
  assumes "\<And>i. n \<le> i \<Longrightarrow> i < hi \<Longrightarrow> f i = (RaftLogKey r i, VEntry (g i)) \<and> e_Index (g i) = i"
    and "hi < 2 ^ 64" "rest = [] \<or> RaftLogKey r hi \<le> fst (hd rest)" "n \<le> hi"
  shows "entries_loop (RaftLogKey r hi) (map f [n..<hi] @ rest) n buf = Inr (buf @ map g [n..<hi])"
  using assms(1,4)
proof (induction "hi - n" arbitrary: n buf)
  case 0
  then have "n = hi" by simp
  then show ?case using assms(3) by (cases rest) (auto simp: key_order)
next
  case (Suc d)
  then have n: "n < hi" by simp
  have f: "f n = (RaftLogKey r n, VEntry (g n))" "e_Index (g n) = n" using Suc.prems(1)[of n] n by auto
  have "bytes_compare (RaftLogKey r n) (RaftLogKey r hi) < 0"
    using n assms(2) by (simp add: key_order RaftLogKey_less)
  moreover have "u64_add n 1 = Suc n" using n assms(2) by (simp add: u64_simps)
  moreover have "entries_loop (RaftLogKey r hi) (map f [Suc n..<hi] @ rest) (Suc n) (buf @ [g n]) =
      Inr ((buf @ [g n]) @ map g [Suc n..<hi])"
    using Suc.hyps(2) Suc.prems n by (intro Suc.hyps(1)) auto
  ultimately show ?case using f n by (simp add: upt_conv_Cons)
qed

lemma ps_wf_parts:
  assumes "ps_wf con ps"
  shows "rg_Id (ps_region ps) < 2 ^ 64" "Suc (ps_li ps) < 2 ^ 63"
    "as_TruncatedState (ps_applyState ps) = Some (ps_ts ps)" "ts_Index (ps_ts ps) \<le> ps_li ps"
    "log_keys_ok (con (en_Raft (ps_Engines ps))) (rg_Id (ps_region ps))"
    "\<exists>hs. rl_HardState (ps_raftState ps) = Some hs \<and> (IsEmptyHardState hs \<longrightarrow> \<not> ps_isInitialized ps)"
  using assms unfolding ps_wf_def by (simp_all only: option.collapse simp_thms)

lemma ps_wf_ent:
  assumes "ps_wf con ps" "ps_fi ps \<le> i" "i \<le> ps_li ps"
  shows "\<exists>e. ps_ent con ps i = Some e \<and> e_Index e = i \<and> ts_Term (ps_ts ps) \<le> e_Term e"
  using assms unfolding ps_wf_def by (elim conjE allE[of _ i]) (simp only: simp_thms)

lemma ps_wf_terms:
  assumes "ps_wf con ps" "ps_fi ps \<le> i" "i \<le> j" "j \<le> ps_li ps"
  shows "e_Term (the (ps_ent con ps i)) \<le> e_Term (the (ps_ent con ps j))"
  using assms unfolding ps_wf_def by (elim conjE allE[of _ i] allE[of _ j]) (simp only: simp_thms)

lemma ps_wf_last:
  assumes "ps_wf con ps" "ps_fi ps \<le> ps_li ps"
  shows "e_Term (the (ps_ent con ps (ps_li ps))) = rl_LastTerm (ps_raftState ps)"
  using assms unfolding ps_wf_def by (elim conjE) (simp only: simp_thms)

lemma ps_wfD:
  assumes "ps_wf con ps" "ps_fi ps \<le> i" "i \<le> ps_li ps"
  obtains e where "ps_ent con ps i = Some e" "e_Index e = i" "ts_Term (ps_ts ps) \<le> e_Term e"
    "e_Term e \<le> rl_LastTerm (ps_raftState ps)"
    "con (en_Raft (ps_Engines ps)) (RaftLogKey (rg_Id (ps_region ps)) i) = Some (VEntry e)"
proof -
  from assms obtain e where e: "ps_ent con ps i = Some e" "e_Index e = i" "ts_Term (ps_ts ps) \<le> e_Term e"
    using ps_wf_ent by blast
  have "e_Term (the (ps_ent con ps i)) \<le> rl_LastTerm (ps_raftState ps)"
    using ps_wf_terms[OF assms order.refl] ps_wf_last[OF assms(1) le_trans[OF assms(2,3)]] by simp
  moreover have "con (en_Raft (ps_Engines ps)) (RaftLogKey (rg_Id (ps_region ps)) i) = Some (VEntry e)"
    using e(1) by (auto simp: ps_ent_def split: option.splits EngineValue.splits)
  ultimately show ?thesis using that[OF e] e(1) by simp
qed

lemma truncated_wf:
  assumes "ps_wf con ps"
  shows "truncatedIndex ps = Some (ts_Index (ps_ts ps))" "truncatedTerm ps = Some (ts_Term (ps_ts ps))"
  using ps_wf_parts(3)[OF assms]
  by (cases "as_TruncatedState (ps_applyState ps)"; simp add: truncatedIndex_def truncatedTerm_def)+

lemma checkRange_wf:
  assumes "ps_wf con ps" "ps_fi ps \<le> lo" "lo \<le> hi" "hi \<le> Suc (ps_li ps)"
  shows "checkRange ps lo hi = Some None"
  using assms ps_wf_parts(2)[OF assms(1)]
  by (auto simp: checkRange_def truncated_wf u64_simps)

context kv_engine
begin

lemma seek_log:
  assumes "log_keys_ok (con db) r" "lo \<le> hi" "hi < 2 ^ 64"
    and "\<And>i. lo \<le> i \<Longrightarrow> i < hi \<Longrightarrow> con db (RaftLogKey r i) = Some (v i)"
  shows "\<exists>rest. db_Seek D db (RaftLogKey r lo) = map (\<lambda>i. (RaftLogKey r i, v i)) [lo..<hi] @ rest \<and>
    (rest = [] \<or> RaftLogKey r hi \<le> fst (hd rest))"
proof -
  let ?P = "\<lambda>x. fst x < RaftLogKey r hi" and ?S = "db_Seek D db (RaftLogKey r lo)"
  let ?m = "map (\<lambda>i. (RaftLogKey r i, v i)) [lo..<hi]"
  have tw: "takeWhile ?P ?S = filter ?P ?S"
    by (rule takeWhile_filter_sorted[OF Seek_sorted]) auto
  have "filter ?P ?S = ?m"
  proof (rule sorted_items_unique)
    show "sorted_wrt (<) (map fst (filter ?P ?S))"
      using Seek_sorted[of db "RaftLogKey r lo"] by (simp add: sorted_wrt_map sorted_wrt_filter)
    show "sorted_wrt (<) (map fst ?m)"
      using assms(2,3) by (auto simp: sorted_wrt_map comp_def RaftLogKey_less sorted_wrt_iff_nth_less)
    show "set (filter ?P ?S) = set ?m"
    proof (rule set_eqI)
      fix x :: "bytes \<times> EngineValue"
      obtain k w where x: "x = (k, w)" by (cases x)
      have in_log: "\<exists>i. k = RaftLogKey r i \<and> lo \<le> i \<and> i < hi"
        if "RaftLogKey r lo \<le> k" "k < RaftLogKey r hi" "con db k = Some w"
      proof -
        have "RaftLogKey r 0 \<le> k" "k \<le> RaftLogKey r (2 ^ 64 - 1)"
          using that(1,2) RaftLogKey_le[of 0 lo r] RaftLogKey_le[of hi "2 ^ 64 - 1" r] assms(2,3) by auto
        with that(3) assms(1) obtain i where "i < 2 ^ 64" "k = RaftLogKey r i"
          unfolding log_keys_ok_def by fastforce
        with that assms(2,3) show ?thesis by (auto simp: RaftLogKey_le RaftLogKey_less)
      qed
      show "x \<in> set (filter ?P ?S) \<longleftrightarrow> x \<in> set ?m"
        using in_log assms(2,3,4) by (auto simp: x Seek_set RaftLogKey_le RaftLogKey_less)
    qed
  qed
  moreover have "?S = takeWhile ?P ?S @ dropWhile ?P ?S" by simp
  moreover have "dropWhile ?P ?S = [] \<or> RaftLogKey r hi \<le> fst (hd (dropWhile ?P ?S))"
    using hd_dropWhile[of ?P ?S]
    by (cases "dropWhile ?P ?S = []") (simp_all add: not_less del: dropWhile_eq_Nil_conv)
  ultimately show ?thesis using tw by auto
qed

lemma ps_Entries_wf:
  assumes "ps_wf con ps" "ps_fi ps \<le> lo" "lo \<le> hi" "hi \<le> Suc (ps_li ps)"
  shows "ps_Entries D ps lo hi = Some (Inr (map (\<lambda>i. the (ps_ent con ps i)) [lo..<hi]))"
proof -
  let ?r = "rg_Id (ps_region ps)" and ?db = "en_Raft (ps_Engines ps)" and ?g = "\<lambda>i. the (ps_ent con ps i)"
  have b: "hi < 2 ^ 63" using assms ps_wf_parts(2)[OF assms(1)] by simp
  have ent: "con ?db (RaftLogKey ?r i) = Some (VEntry (?g i))" "e_Index (?g i) = i" if "lo \<le> i" "i < hi" for i
    using ps_wfD[OF assms(1), of i "con ?db (RaftLogKey ?r i) = Some (VEntry (?g i)) \<and> e_Index (?g i) = i"] that assms(2,4)
    by auto
  obtain rest where rest: "db_Seek D ?db (RaftLogKey ?r lo) = map (\<lambda>i. (RaftLogKey ?r i, VEntry (?g i))) [lo..<hi] @ rest"
    "rest = [] \<or> RaftLogKey ?r hi \<le> fst (hd rest)"
    using seek_log[OF ps_wf_parts(5)[OF assms(1)] assms(3) _ ent(1)] b by auto
  have loop: "entries_loop (RaftLogKey ?r hi) (db_Seek D ?db (RaftLogKey ?r lo)) lo [] = Inr (map ?g [lo..<hi])"
    unfolding rest(1)
    using entries_loop_run[OF _ _ rest(2) assms(3), of "\<lambda>i. (RaftLogKey ?r i, VEntry (?g i))" ?g "[]"] ent(2) b
    by auto
  have "u64_to_int (u64_sub hi lo) = int (hi - lo)"
    using assms(3) b by (simp add: u64_simps u64_to_int_def)
  with loop checkRange_wf[OF assms] show ?thesis
    by (simp add: ps_Entries_def Let_def)
qed

lemma ps_Term_wf:
  assumes "ps_wf con ps" "ps_fi ps \<le> i" "i \<le> ps_li ps"
  shows "ps_Term D ps i = Some (Inr (e_Term (the (ps_ent con ps i))))"
proof -
  from assms obtain e where e: "ps_ent con ps i = Some e" "ts_Term (ps_ts ps) \<le> e_Term e"
    "e_Term e \<le> rl_LastTerm (ps_raftState ps)"
    "con (en_Raft (ps_Engines ps)) (RaftLogKey (rg_Id (ps_region ps)) i) = Some (VEntry e)"
    by (blast elim: ps_wfD)
  have "u64_add i 1 = Suc i" using assms(3) ps_wf_parts(2)[OF assms(1)] by (simp add: u64_simps)
  moreover have "e_Term e = rl_LastTerm (ps_raftState ps)" if "i = ps_li ps"
    using ps_wf_last[OF assms(1)] assms(2,3) that e(1) by simp
  ultimately show ?thesis
    using assms(2,3) e checkRange_wf[OF assms(1,2), of "Suc i"]
    by (auto simp: ps_Term_def truncated_wf[OF assms(1)] GetRaftEntry_def Get)
qed

lemma request_snapshot_wf:
  assumes "ps_wf con ps" "request_snapshot ps = (r, ps')"
  shows "ps_wf con ps'" "ps_fi ps' = ps_fi ps" "ps_li ps' = ps_li ps" "\<exists>e. r = Inl e"
  using assms by (auto simp: request_snapshot_def ps_wf_def ps_ent_def ps_isInitialized_def split: if_splits)

lemma ps_wf_snap:
  "ps_wf con (ps\<lparr>ps_snapState := a, ps_snapTriedCnt := b\<rparr>) = ps_wf con ps"
  "ps_wf con (ps\<lparr>ps_snapState := a\<rparr>) = ps_wf con ps"
  by (simp_all add: ps_wf_def ps_ent_def ps_isInitialized_def)

lemma ps_Snapshot_wf:
  assumes "ps_wf con ps"
  shows "\<exists>r ps'. ps_Snapshot U ps = Some (r, ps') \<and> ps_wf con ps' \<and> ps_fi ps' = ps_fi ps \<and>
    ps_li ps' = ps_li ps \<and> (\<forall>sn. r = Inr sn \<longrightarrow> sn_Metadata sn \<noteq> None)"
proof -
  have req: "\<exists>r ps'. Some (request_snapshot p) = Some (r, ps') \<and> ps_wf con ps' \<and> ps_fi ps' = ps_fi p \<and>
      ps_li ps' = ps_li p \<and> (\<forall>sn. r = Inr sn \<longrightarrow> sn_Metadata sn \<noteq> None)" if "ps_wf con p" for p :: "'db PeerStorage"
    using request_snapshot_wf[OF that] by (cases "request_snapshot p") auto
  have valid: "\<exists>b. validateSnap U p sn = Some b" if "ps_wf con p" for p :: "'db PeerStorage" and sn
    using truncated_wf[OF that] by (auto simp: validateSnap_def split: option.splits)
  show ?thesis
  proof (cases "st_StateType (ps_snapState ps) = SnapState_Generating")
    case False
    then show ?thesis using req[OF assms] by (simp add: ps_Snapshot_def)
  next
    case True
    show ?thesis
    proof (cases "st_Receiver (ps_snapState ps)")
      case None
      then show ?thesis using True assms by (simp add: ps_Snapshot_def)
    next
      case (Some s)
      define sn where "sn = (case s of None \<Rightarrow> zero_Snapshot | Some s \<Rightarrow> s)"
      define p where "p = ps\<lparr>ps_snapState := \<lparr>st_StateType = SnapState_Relax, st_Receiver = None\<rparr>\<rparr>"
      have eq: "ps_Snapshot U ps = (if sn_Metadata sn \<noteq> None then do {
          valid \<leftarrow> validateSnap U (p\<lparr>ps_snapTriedCnt := 0\<rparr>) sn;
          Some (if valid then (Inr sn, p\<lparr>ps_snapTriedCnt := 0\<rparr>) else request_snapshot (p\<lparr>ps_snapTriedCnt := 0\<rparr>))}
          else Some (request_snapshot p))"
        unfolding ps_Snapshot_def True Some sn_def p_def by (simp only: Let_def simp_thms if_True option.case)
      have wf: "ps_wf con p" "ps_wf con (p\<lparr>ps_snapTriedCnt := 0\<rparr>)"
        using assms by (simp_all add: p_def ps_wf_snap)
      have same: "ps_fi p = ps_fi ps" "ps_li p = ps_li ps" by (simp_all add: p_def)
      obtain b where "validateSnap U (p\<lparr>ps_snapTriedCnt := 0\<rparr>) sn = Some b" using valid[OF wf(2)] by blast
      then show ?thesis
        using eq wf same req[OF wf(1)] req[OF wf(2)] by (cases b; cases "sn_Metadata sn = None") auto
    qed
  qed
qed

sublocale ps: raft_storage "peer_storage_ops D U" "ps_wf con" ps_fi ps_li for U
proof
  fix s :: "'db PeerStorage" and lo hi
  assume a: "ps_wf con s" "ps_fi s \<le> lo" "lo \<le> hi" "hi \<le> Suc (ps_li s)"
  have "e_Index (the (ps_ent con s (lo + k))) = lo + k" if "k < hi - lo" for k
  proof -
    have "ps_fi s \<le> lo + k" "lo + k \<le> ps_li s" using a that by linarith+
    from ps_wf_ent[OF a(1) this] show ?thesis by auto
  qed
  with a show "\<exists>es. so_Entries (peer_storage_ops D U) s lo hi = Some (Inr es) \<and> length es = hi - lo \<and> contig lo es"
    using ps_Entries_wf[of s lo hi]
    by (auto simp: peer_storage_ops_def contig_nth)
next
  fix s :: "'db PeerStorage" and lo i hi es
  assume a: "ps_wf con s" "ps_fi s \<le> lo" "lo \<le> i" "i < hi" "hi \<le> Suc (ps_li s)"
    "so_Entries (peer_storage_ops D U) s lo hi = Some (Inr es)"
  then have "es = map (\<lambda>i. the (ps_ent con s i)) [lo..<hi]"
    using ps_Entries_wf[of s lo hi] by (simp add: peer_storage_ops_def)
  moreover have "[lo..<hi] ! (i - lo) = i" using a(3,4) by simp
  ultimately show "so_Term (peer_storage_ops D U) s i = Some (Inr (e_Term (es ! (i - lo))))"
    using a ps_Term_wf[of s i] by (simp add: peer_storage_ops_def)
next
  fix s :: "'db PeerStorage"
  assume a: "ps_wf con s"
  show "so_FirstIndex (peer_storage_ops D U) s = Some (Inr (ps_fi s))"
    using truncated_wf[OF a] ps_wf_parts(2,4)[OF a]
    by (simp add: peer_storage_ops_def ps_FirstIndex_def u64_simps)
  show "so_LastIndex (peer_storage_ops D U) s = Some (Inr (ps_li s))"
    by (simp add: peer_storage_ops_def ps_LastIndex_def)
  show "0 < ps_fi s \<and> ps_fi s \<le> Suc (ps_li s) \<and> Suc (ps_li s) < 2 ^ 64"
    using ps_wf_parts(2,4)[OF a] by simp
  show "\<exists>t. so_Term (peer_storage_ops D U) s (ps_fi s - 1) = Some (Inr t)"
    using truncated_wf[OF a] by (simp add: peer_storage_ops_def ps_Term_def)
  show "\<exists>hs cs. so_InitialState (peer_storage_ops D U) s = Some (Inr (hs, cs))"
    using ps_wf_parts(6)[OF a] by (auto simp: peer_storage_ops_def ps_InitialState_def)
  show "\<exists>r s'. so_Snapshot (peer_storage_ops D U) s = Some (r, s') \<and> ps_wf con s' \<and> ps_fi s' = ps_fi s \<and>
      ps_li s' = ps_li s \<and> (\<forall>sn. r = Inr sn \<longrightarrow> sn_Metadata sn \<noteq> None)"
    using ps_Snapshot_wf[OF a] by (simp add: peer_storage_ops_def)
qed

end

end
