(* ===== verification/Peer_Save.thy ===== *)
theory Peer_Save
  imports Peer_Storage
begin

text \<open>
  What \<open>SaveReadyState\<close> leaves in the engines. \<open>ps_log\<close> reads a storage as a partial map from indices to
  entries; saving a \<open>Ready\<close> overwrites that map from the first new entry on, which keeps the storage in
  step with the raft log above it. The last part is about what a restart finds.
\<close>

section \<open>What is saved\<close>

text \<open>The log a storage holds, as a partial map.\<close>

definition ps_log :: "('db \<Rightarrow> bytes \<rightharpoonup> EngineValue) \<Rightarrow> 'db PeerStorage \<Rightarrow> u64 \<rightharpoonup> Entry" where
  "ps_log con ps i = (if ps_fi ps \<le> i \<and> i \<le> ps_li ps then ps_ent con ps i else None)"

text \<open>The entries of a \<open>Ready\<close>, placed at \<open>f\<close>, continue a log without going back in term.\<close>

definition ents_ok :: "('db \<Rightarrow> bytes \<rightharpoonup> EngineValue) \<Rightarrow> 'db PeerStorage \<Rightarrow> u64 \<Rightarrow> Entry list \<Rightarrow> bool" where
  "ents_ok con ps f es \<longleftrightarrow> contig f es \<and> ps_fi ps \<le> f \<and> f \<le> Suc (ps_li ps) \<and>
     f + length es < 2 ^ 63 \<and> sorted (map e_Term es) \<and>
     (\<forall>e\<in>set es. (if f = ps_fi ps then ts_Term (ps_ts ps) else e_Term (the (ps_ent con ps (f - 1)))) \<le> e_Term e)"

lemma fold_append_entry:
  "fold append_entry es (ps, wb) =
     (ps, wb\<lparr>wb_entries := wb_entries wb @ map (\<lambda>e. (RaftLogKey (rg_Id (ps_region ps)) (e_Index e), VEntry e)) es\<rparr>)"
  by (induction es arbitrary: wb) (simp_all add: append_entry_def wb_SetMeta_def wb_add_def)

lemma ps_Append_eq:
  "ps_Append es ps wb =
     (if es = [] then ps else ps\<lparr>ps_raftState := (ps_raftState ps)\<lparr>rl_LastIndex := e_Index (last es), rl_LastTerm := e_Term (last es)\<rparr>\<rparr>,
      wb\<lparr>wb_entries := wb_entries wb @ map (\<lambda>e. (RaftLogKey (rg_Id (ps_region ps)) (e_Index e), VEntry e)) es\<rparr>)"
  by (simp add: ps_Append_def fold_append_entry)

text \<open>Writing a contiguous run of entries, and then the states.\<close>

lemma write_entries:
  assumes "contig f es" "0 < f" "f + length es < 2 ^ 64" "r < 2 ^ 64" "i < 2 ^ 64"
  shows "write_all (map wb_write (map (\<lambda>e. (RaftLogKey r (e_Index e), VEntry e)) es)) m (RaftLogKey r i) =
    (if f \<le> i \<and> i < f + length es then Some (VEntry (es ! (i - f))) else m (RaftLogKey r i))"
  using assms(1-3)
proof (induction es arbitrary: f m)
  case (Cons e es)
  have "write_all (map wb_write (map (\<lambda>e. (RaftLogKey r (e_Index e), VEntry e)) es)) (m(RaftLogKey r f \<mapsto> VEntry e)) (RaftLogKey r i) =
      (if Suc f \<le> i \<and> i < Suc f + length es then Some (VEntry (es ! (i - Suc f)))
       else (m(RaftLogKey r f \<mapsto> VEntry e)) (RaftLogKey r i))"
    using Cons.prems by (intro Cons.IH) auto
  moreover have "RaftLogKey r i = RaftLogKey r f \<longleftrightarrow> i = f"
    using Cons.prems assms(4,5) by (intro trans[OF RaftLogKey_inject]) auto
  ultimately show ?case using Cons.prems(1,2) by (auto simp: nth_Cons')
qed auto

lemma write_entries_other:
  assumes "\<And>e. e \<in> set es \<Longrightarrow> k \<noteq> RaftLogKey r (e_Index e)"
  shows "write_all (map wb_write (map (\<lambda>e. (RaftLogKey r (e_Index e), VEntry e)) es)) m k = m k"
  using assms by (intro write_all_other) (auto simp: wb_write_def image_iff)

lemma log_keys_ok_upd:
  assumes "log_keys_ok m r" "(\<exists>i < 2 ^ 64. k = RaftLogKey r i) \<or> \<not> k \<le> RaftLogKey r (2 ^ 64 - 1)"
  shows "log_keys_ok (m(k := v)) r"
  using assms by (auto simp: log_keys_ok_def)

lemma RaftStateKey_above: "\<not> RaftStateKey r \<le> RaftLogKey r i"
  by (simp add: key_defs append_le_append RaftLogSuffix_def RaftStateSuffix_def)

lemma log_keys_ok_write:
  assumes "log_keys_ok m r"
    and "\<And>k v. (k, v) \<in> set ws \<Longrightarrow> (\<exists>i < 2 ^ 64. k = RaftLogKey r i) \<or> \<not> k \<le> RaftLogKey r (2 ^ 64 - 1)"
  shows "log_keys_ok (write_all ws m) r"
  using assms
proof (induction ws arbitrary: m)
  case (Cons w ws)
  obtain k v where w: "w = (k, v)" by (cases w)
  have "log_keys_ok (m(k := v)) r"
    using Cons.prems by (intro log_keys_ok_upd) (auto simp: w)
  moreover have "\<And>k v. (k, v) \<in> set ws \<Longrightarrow> (\<exists>i < 2 ^ 64. k = RaftLogKey r i) \<or> \<not> k \<le> RaftLogKey r (2 ^ 64 - 1)"
    using Cons.prems(2) by (meson list.set_intros(2))
  ultimately show ?case unfolding w write_all_Cons by (rule Cons.IH)
qed simp

text \<open>The storage after a run of entries was written over the log from \<open>f\<close> on.\<close>

lemma ps_wf_overwrite:
  assumes wf: "ps_wf con ps" and ok: "ents_ok con ps f es" "es \<noteq> []"
    and region: "ps_region ps' = ps_region ps" and apply_state: "ps_applyState ps' = ps_applyState ps"
    and li: "ps_li ps' = e_Index (last es)" and lt: "rl_LastTerm (ps_raftState ps') = e_Term (last es)"
    and ent: "\<And>i. i < 2 ^ 64 \<Longrightarrow> ps_ent con ps' i = (if f \<le> i \<and> i < f + length es then Some (es ! (i - f)) else ps_ent con ps i)"
    and keys: "log_keys_ok (con (en_Raft (ps_Engines ps'))) (rg_Id (ps_region ps))"
    and hs: "\<exists>hs. rl_HardState (ps_raftState ps') = Some hs \<and> (IsEmptyHardState hs \<longrightarrow> \<not> ps_isInitialized ps)"
  shows "ps_wf con ps'"
proof -
  have c: "contig f es" "ps_fi ps \<le> f" "f \<le> Suc (ps_li ps)" "f + length es < 2 ^ 63" "sorted (map e_Term es)"
    and above: "\<And>e. e \<in> set es \<Longrightarrow>
      (if f = ps_fi ps then ts_Term (ps_ts ps) else e_Term (the (ps_ent con ps (f - 1)))) \<le> e_Term e"
    using ok(1) by (auto simp: ents_ok_def)
  have last: "Suc (ps_li ps') = f + length es" using contig_last[OF c(1) ok(2)] li by simp
  have ts: "ps_ts ps' = ps_ts ps" by (simp add: apply_state)
  have new: "ps_ent con ps' i = Some (es ! (i - f))" "e_Index (es ! (i - f)) = i" if "f \<le> i" "i \<le> ps_li ps'" for i
  proof -
    have "i < f + length es" "i < 2 ^ 64" using that last c(4) by auto
    with that ent[of i] c(1) show "ps_ent con ps' i = Some (es ! (i - f))" "e_Index (es ! (i - f)) = i"
      by (auto simp: contig_nth)
  qed
  have old: "ps_ent con ps' i = ps_ent con ps i" if "i < f" for i
    using that ent[of i] c(4) by simp
  have low: "ts_Term (ps_ts ps) \<le> e_Term e" if "e \<in> set es" for e
  proof (cases "f = ps_fi ps")
    case False
    then have "ps_fi ps \<le> f - 1" "f - 1 \<le> ps_li ps" using c(2,3) by auto
    with ps_wf_ent[OF wf] above[OF that] False show ?thesis by fastforce
  qed (use above[OF that] in simp)
  have prev: "e_Term (the (ps_ent con ps i)) \<le> e_Term e" if "ps_fi ps \<le> i" "i < f" "e \<in> set es" for i e
  proof -
    have "i \<le> f - 1" "f - 1 \<le> ps_li ps" "f \<noteq> ps_fi ps" using that(1,2) c(3) by linarith+
    with ps_wf_terms[OF wf that(1), of "f - 1"] above[OF that(3)] show ?thesis by simp
  qed
  have mono: "e_Term (the (ps_ent con ps' i)) \<le> e_Term (the (ps_ent con ps' j))"
    if "ps_fi ps \<le> i" "i \<le> j" "j \<le> ps_li ps'" for i j
  proof (cases "f \<le> j")
    case True
    then have "es ! (j - f) \<in> set es" using that(3) last by simp
    moreover have "e_Term (es ! (i - f)) \<le> e_Term (es ! (j - f))" if "f \<le> i"
      using sorted_nth_mono[OF c(5), of "i - f" "j - f"] that \<open>i \<le> j\<close> \<open>j \<le> ps_li ps'\<close> last by simp
    ultimately show ?thesis
      using True that new(1)[of i] new(1)[of j] old[of i] prev[of i] by (cases "f \<le> i") auto
  next
    case False
    then show ?thesis using that old ps_wf_terms[OF wf that(1,2)] c(3) by simp
  qed
  have "\<exists>e. ps_ent con ps' i = Some e \<and> e_Index e = i \<and> ts_Term (ps_ts ps) \<le> e_Term e"
    if "ps_fi ps \<le> i" "i \<le> ps_li ps'" for i
    using that new[of i] old[of i] low[of "es ! (i - f)"] ps_wf_ent[OF wf that(1)] last c(3) by (cases "f \<le> i") auto
  moreover have "e_Term (the (ps_ent con ps' (ps_li ps'))) = rl_LastTerm (ps_raftState ps')"
  proof -
    have "0 < length es" using ok(2) by simp
    then have "f \<le> ps_li ps'" "ps_li ps' - f = length es - 1" using last by linarith+
    with new(1)[of "ps_li ps'"] ok(2) show ?thesis by (simp add: lt last_conv_nth)
  qed
  moreover have "Suc (ps_li ps') < 2 ^ 63" "ts_Index (ps_ts ps) \<le> ps_li ps'" using last c by linarith+
  moreover have "as_TruncatedState (ps_applyState ps) \<noteq> None" using ps_wf_parts(3)[OF wf] by (metis option.discI)
  ultimately show ?thesis
    unfolding ps_wf_def region ts apply_state ps_isInitialized_def
    using ps_wf_parts(1)[OF wf] hs[unfolded ps_isInitialized_def] keys mono by blast
qed

definition ready_batch :: "Ready \<Rightarrow> 'db PeerStorage \<Rightarrow> (bytes \<times> EngineValue) list" where
  "ready_batch rd ps =
     map (\<lambda>e. (RaftLogKey (rg_Id (ps_region ps)) (e_Index e), VEntry e)) (rd_Entries rd) @
     (if IsEmptyHardState (rd_HardState rd) then []
      else [(RaftStateKey (rg_Id (ps_region ps)), VRaftState ((ps_raftState (fst (ps_Append (rd_Entries rd) ps new_WriteBatch)))
        \<lparr>rl_HardState := Some (rd_HardState rd)\<rparr>))])"

text \<open>\<open>SaveReadyState\<close> when there is no snapshot.\<close>

lemma SaveReadyState_eq:
  assumes "IsEmptySnap (Some (rd_Snapshot rd))"
  shows "SaveReadyState D U rd ps =
    (let st = ps_raftState (fst (ps_Append (rd_Entries rd) ps new_WriteBatch));
         st = (if IsEmptyHardState (rd_HardState rd) then st else st\<lparr>rl_HardState := Some (rd_HardState rd)\<rparr>)
     in Some (None, ps\<lparr>ps_raftState := st, ps_Engines := (ps_Engines ps)\<lparr>en_Raft :=
          snd (WriteToDB D \<lparr>wb_entries = ready_batch rd ps, wb_safePoint = 0\<rparr> (en_Raft (ps_Engines ps)))\<rparr>\<rparr>))"
  using assms
  by (cases "IsEmptyHardState (rd_HardState rd)"; cases "rd_Entries rd = []")
    (auto simp: SaveReadyState_def ps_Append_eq ready_batch_def WriteRaft_def WriteKV_def WriteToDB_def
      new_WriteBatch_def wb_SetMeta_def wb_add_def Let_def split: prod.splits)

lemma ps_wf_cong:
  assumes wf: "ps_wf con ps" and same: "ps_region ps' = ps_region ps" "ps_applyState ps' = ps_applyState ps"
    "ps_li ps' = ps_li ps" "rl_LastTerm (ps_raftState ps') = rl_LastTerm (ps_raftState ps)"
    and ent: "\<And>i. i < 2 ^ 64 \<Longrightarrow> ps_ent con ps' i = ps_ent con ps i"
    and keys: "log_keys_ok (con (en_Raft (ps_Engines ps'))) (rg_Id (ps_region ps))"
    and hs: "\<exists>hs. rl_HardState (ps_raftState ps') = Some hs \<and> (IsEmptyHardState hs \<longrightarrow> \<not> ps_isInitialized ps)"
  shows "ps_wf con ps'"
proof -
  have "Suc (ps_li ps) < 2 ^ 63" by (rule ps_wf_parts[OF wf])
  then have e: "ps_ent con ps' i = ps_ent con ps i" if "i \<le> ps_li ps" for i using that by (intro ent) simp
  have "as_TruncatedState (ps_applyState ps) \<noteq> None" using ps_wf_parts(3)[OF wf] by (metis option.discI)
  moreover have "\<exists>e. ps_ent con ps' i = Some e \<and> e_Index e = i \<and> ts_Term (ps_ts ps) \<le> e_Term e"
    if "ps_fi ps \<le> i" "i \<le> ps_li ps" for i using ps_wf_ent[OF wf that] e[OF that(2)] by simp
  moreover have "e_Term (the (ps_ent con ps' i)) \<le> e_Term (the (ps_ent con ps' j))"
    if "ps_fi ps \<le> i" "i \<le> j" "j \<le> ps_li ps" for i j using ps_wf_terms[OF wf that] e[of i] e[of j] that by simp
  moreover have "ps_fi ps \<le> ps_li ps \<Longrightarrow> e_Term (the (ps_ent con ps' (ps_li ps))) = rl_LastTerm (ps_raftState ps)"
    using ps_wf_last[OF wf] e[of "ps_li ps"] by simp
  ultimately show ?thesis
    unfolding ps_wf_def same ps_isInitialized_def
    using ps_wf_parts(1,2,4)[OF wf] hs[unfolded ps_isInitialized_def] keys by blast
qed

lemma ready_batch_log:
  assumes "contig f (rd_Entries rd)" "0 < f" "f + length (rd_Entries rd) < 2 ^ 64" "rg_Id (ps_region ps) < 2 ^ 64"
  shows "i < 2 ^ 64 \<Longrightarrow>
    write_all (map wb_write (ready_batch rd ps)) m (RaftLogKey (rg_Id (ps_region ps)) i) =
    (if f \<le> i \<and> i < f + length (rd_Entries rd) then Some (VEntry (rd_Entries rd ! (i - f)))
     else m (RaftLogKey (rg_Id (ps_region ps)) i))"
  using write_entries[OF assms(1-4), of i m] by (simp add: ready_batch_def write_all_append)

lemma ready_batch_keys:
  assumes "log_keys_ok m (rg_Id (ps_region ps))" "contig f (rd_Entries rd)" "f + length (rd_Entries rd) < 2 ^ 64"
  shows "log_keys_ok (write_all (map wb_write (ready_batch rd ps)) m) (rg_Id (ps_region ps))"
proof (rule log_keys_ok_write[OF assms(1)])
  fix k v assume "(k, v) \<in> set (map wb_write (ready_batch rd ps))"
  moreover have "e_Index e < 2 ^ 64" if "e \<in> set (rd_Entries rd)" for e
    using that assms(2,3) by (auto simp: contig_nth in_set_conv_nth)
  ultimately show "(\<exists>i < 2 ^ 64. k = RaftLogKey (rg_Id (ps_region ps)) i) \<or> \<not> k \<le> RaftLogKey (rg_Id (ps_region ps)) (2 ^ 64 - 1)"
    using RaftStateKey_above[of "rg_Id (ps_region ps)" "2 ^ 64 - 1"]
    by (auto simp: ready_batch_def wb_write_def split: if_splits)
qed

context reliable_engine
begin

lemma WriteToDB_snd: "con (snd (WriteToDB D wb db)) = wb_apply wb (con db)"
  using WriteToDB_ok[of wb db] by auto

lemma SaveReadyState_ok:
  assumes wf: "ps_wf con ps" and snap: "IsEmptySnap (Some (rd_Snapshot rd))" and ok: "ents_ok con ps f (rd_Entries rd)"
  shows "\<exists>ps'. SaveReadyState D U rd ps = Some (None, ps') \<and> ps_wf con ps' \<and>
    ps_log con ps' = (\<lambda>i. if rd_Entries rd \<noteq> [] \<and> f \<le> i
      then (if i < f + length (rd_Entries rd) then Some (rd_Entries rd ! (i - f)) else None) else ps_log con ps i)"
proof -
  let ?es = "rd_Entries rd" and ?r = "rg_Id (ps_region ps)" and ?m = "con (en_Raft (ps_Engines ps))"
  let ?m' = "write_all (map wb_write (ready_batch rd ps)) ?m"
  obtain ps' where ps': "SaveReadyState D U rd ps = Some (None, ps')" and
    same: "ps_region ps' = ps_region ps" "ps_applyState ps' = ps_applyState ps" and
    m': "con (en_Raft (ps_Engines ps')) = ?m'" and
    li: "ps_li ps' = (if ?es = [] then ps_li ps else e_Index (last ?es))" and
    lt: "rl_LastTerm (ps_raftState ps') = (if ?es = [] then rl_LastTerm (ps_raftState ps) else e_Term (last ?es))" and
    hs: "rl_HardState (ps_raftState ps') = (if IsEmptyHardState (rd_HardState rd) then rl_HardState (ps_raftState ps)
      else Some (rd_HardState rd))"
    unfolding SaveReadyState_eq[OF snap] Let_def by (auto simp: ps_Append_eq WriteToDB_snd wb_apply_def)
  have c: "contig f ?es" "ps_fi ps \<le> f" "f \<le> Suc (ps_li ps)" "f + length ?es < 2 ^ 63"
    using ok by (auto simp: ents_ok_def)
  have b: "0 < f" "f + length ?es < 2 ^ 64" using c by auto
  have ent: "ps_ent con ps' i = (if f \<le> i \<and> i < f + length ?es then Some (?es ! (i - f)) else ps_ent con ps i)" if "i < 2 ^ 64" for i
    using ready_batch_log[OF c(1) b ps_wf_parts(1)[OF wf] that, of ?m] by (simp add: ps_ent_def same m')
  have keys: "log_keys_ok (con (en_Raft (ps_Engines ps'))) ?r"
    unfolding m' using ready_batch_keys[OF ps_wf_parts(5)[OF wf] c(1) b(2)] .
  have hs': "\<exists>hs. rl_HardState (ps_raftState ps') = Some hs \<and> (IsEmptyHardState hs \<longrightarrow> \<not> ps_isInitialized ps)"
    using ps_wf_parts(6)[OF wf] hs by auto
  have "ps_wf con ps'"
  proof (cases "?es = []")
    case True
    with same li lt ent keys hs' show ?thesis by (intro ps_wf_cong[OF wf]) auto
  next
    case False
    with same li lt ent keys hs' show ?thesis by (intro ps_wf_overwrite[OF wf ok]) simp_all
  qed
  moreover have "ps_log con ps' i = (if ?es \<noteq> [] \<and> f \<le> i
      then (if i < f + length ?es then Some (?es ! (i - f)) else None) else ps_log con ps i)" for i
  proof (cases "?es = []")
    case True
    then show ?thesis using ent[of i] li ps_wf_parts(2)[OF wf] by (auto simp: ps_log_def same)
  next
    case False
    then have "Suc (ps_li ps') = f + length ?es" using contig_last[OF c(1)] li by simp
    then show ?thesis using False ent[of i] c by (auto simp: ps_log_def same)
  qed
  ultimately show ?thesis using ps' by blast
qed

end

text \<open>The raft state of the region that the raft engine holds, which is what a restart reads.\<close>

definition disk_state :: "('db \<Rightarrow> bytes \<rightharpoonup> EngineValue) \<Rightarrow> 'db PeerStorage \<Rightarrow> RaftLocalState option" where
  "disk_state con ps = (case con (en_Raft (ps_Engines ps)) (RaftStateKey (rg_Id (ps_region ps))) of
     Some (VRaftState rs) \<Rightarrow> Some rs | _ \<Rightarrow> None)"

context reliable_engine
begin

lemma SaveReadyState_disk:
  assumes "SaveReadyState D U rd ps = Some (res, ps')" "IsEmptySnap (Some (rd_Snapshot rd))"
  shows "disk_state con ps' = (if IsEmptyHardState (rd_HardState rd) then disk_state con ps else Some (ps_raftState ps'))"
proof -
  let ?r = "rg_Id (ps_region ps)"
  have k: "RaftStateKey ?r \<noteq> RaftLogKey ?r i" for i using RaftStateKey_above[of ?r i] by auto
  have w: "write_all (map wb_write (map (\<lambda>e. (RaftLogKey ?r (e_Index e), VEntry e)) (rd_Entries rd))) m (RaftStateKey ?r) = m (RaftStateKey ?r)" for m
    by (rule write_entries_other) (rule k)
  have "ps_region ps' = ps_region ps" "con (en_Raft (ps_Engines ps')) = write_all (map wb_write (ready_batch rd ps)) (con (en_Raft (ps_Engines ps)))"
    "\<not> IsEmptyHardState (rd_HardState rd) \<Longrightarrow> ps_raftState ps' =
      (ps_raftState (fst (ps_Append (rd_Entries rd) ps new_WriteBatch)))\<lparr>rl_HardState := Some (rd_HardState rd)\<rparr>"
    using assms(1) unfolding SaveReadyState_eq[OF assms(2)] Let_def by (auto simp: WriteToDB_snd wb_apply_def)
  then show ?thesis by (cases "IsEmptyHardState (rd_HardState rd)")
      (simp_all add: disk_state_def ready_batch_def write_all_append w wb_write_def del: map_map)
qed

end

section \<open>The raft log and its storage\<close>

text \<open>
  A log and its storage agree: they start at the same index, the entries up to \<open>stabled\<close> are the
  stored ones, and terms do not go down.
\<close>

definition log_synced :: "('db \<Rightarrow> bytes \<rightharpoonup> EngineValue) \<Rightarrow> 'db PeerStorage RaftLog \<Rightarrow> bool" where
  "log_synced con l \<longleftrightarrow> log_wf l \<and> ps_wf con (storage l) \<and>
     lastIdxOfSnapshot l = ts_Index (ps_ts (storage l)) \<and> lastTermOfSnapshot l = ts_Term (ps_ts (storage l)) \<and>
     lastIdxOfSnapshot l \<le> stabled l \<and> stabled l \<le> ps_li (storage l) \<and>
     (stabled l = LastIndex l \<longrightarrow> ps_li (storage l) = stabled l) \<and>
     (\<forall>i \<le> stabled l. log_view l i = ps_log con (storage l) i) \<and>
     sorted (lastTermOfSnapshot l # map e_Term (entries l))"

lemma log_view_terms:
  assumes "sorted (lastTermOfSnapshot l # map e_Term (entries l))" "log_view l i = Some a" "log_view l j = Some b" "i \<le> j"
  shows "e_Term a \<le> e_Term b" "lastTermOfSnapshot l \<le> e_Term a"
proof -
  have "sorted (map e_Term (entries l))" using assms(1) by simp
  then show "e_Term a \<le> e_Term b"
    using assms(2-4) sorted_nth_mono[of "map e_Term (entries l)" "i - lastIdxOfSnapshot l - 1" "j - lastIdxOfSnapshot l - 1"]
    by (auto simp: log_view_def split: if_splits)
  show "lastTermOfSnapshot l \<le> e_Term a"
    using assms(1,2) by (auto simp: log_view_def split: if_splits)
qed

lemma synced_ents_ok:
  assumes "log_synced con l" "unstableEntries l = Some es"
  shows "es = log_range l (stabled l) (LastIndex l)" "ents_ok con (storage l) (Suc (stabled l)) es"
proof -
  let ?ps = "storage l"
  have wf: "log_wf l" "ps_wf con ?ps" and b: "lastIdxOfSnapshot l \<le> stabled l" "stabled l \<le> ps_li ?ps"
    and base: "lastIdxOfSnapshot l = ts_Index (ps_ts ?ps)" "lastTermOfSnapshot l = ts_Term (ps_ts ?ps)"
    and view: "\<And>i. i \<le> stabled l \<Longrightarrow> log_view l i = ps_log con ?ps i"
    and sorted: "sorted (lastTermOfSnapshot l # map e_Term (entries l))"
    using assms(1) by (auto simp: log_synced_def)
  show es: "es = log_range l (stabled l) (LastIndex l)"
    using assms(2) unstableEntries_range[OF wf(1)] b(1) by (simp add: max_absorb1)
  have last: "stabled l \<le> LastIndex l" "LastIndex l = lastIdxOfSnapshot l + length (entries l)" "Suc (LastIndex l) < 2 ^ 63"
    using wf(1) by (auto simp: LastIndex_eq) (auto simp: log_wf_def)
  have es_drop: "es = drop (stabled l - lastIdxOfSnapshot l) (entries l)"
    using es log_range_drop[OF b(1), of "LastIndex l"] last(2) by simp
  have len: "length es = LastIndex l - stabled l" using es_drop last(2) b(1) by simp
  have "contig (Suc (lastIdxOfSnapshot l)) (entries l)" using wf(1) by (simp add: log_wf_def)
  then have "contig (Suc (stabled l)) es"
    using contig_drop[of "Suc (lastIdxOfSnapshot l)" "entries l" "stabled l - lastIdxOfSnapshot l"] es_drop last b(1) by simp
  moreover have "sorted (map e_Term es)"
    using sorted by (simp add: es_drop drop_map[symmetric] sorted_wrt_drop)
  moreover have "(if Suc (stabled l) = ps_fi ?ps then ts_Term (ps_ts ?ps) else e_Term (the (ps_ent con ?ps (stabled l)))) \<le> e_Term e"
    if "e \<in> set es" for e
  proof -
    obtain k where k: "k < length es" "e = es ! k" using \<open>e \<in> set es\<close> by (auto simp: in_set_conv_nth)
    have v: "log_view l (Suc (stabled l + k)) = Some e"
      using k len last b(1) es_drop by (auto simp: log_view_def)
    show ?thesis
    proof (cases "stabled l = lastIdxOfSnapshot l")
      case True
      then show ?thesis using log_view_terms(2)[OF sorted v v] base by simp
    next
      case False
      then have "log_view l (stabled l) = ps_ent con ?ps (stabled l)"
        using view[of "stabled l"] b base by (simp add: ps_log_def)
      moreover obtain a where "log_view l (stabled l) = Some a"
        using False b(1) last by (auto simp: log_view_def)
      ultimately have "ps_ent con ?ps (stabled l) = Some a" "e_Term a \<le> e_Term e"
        using log_view_terms(1)[OF sorted _ v, of "stabled l" a] by simp_all
      then show ?thesis using False base by simp
    qed
  qed
  ultimately show "ents_ok con ?ps (Suc (stabled l)) es"
    using b base last len by (auto simp: ents_ok_def)
qed

context reliable_engine
begin

lemma SaveReadyState_log:
  assumes sync: "log_synced con l" and es: "unstableEntries l = Some (rd_Entries rd)"
    and snap: "IsEmptySnap (Some (rd_Snapshot rd))"
  shows "\<exists>ps'. SaveReadyState D U rd (storage l) = Some (None, ps') \<and> ps_wf con ps' \<and> ps_log con ps' = log_view l"
proof -
  let ?es = "rd_Entries rd" and ?f = "Suc (stabled l)"
  have wf: "log_wf l" "ps_wf con (storage l)" and b: "lastIdxOfSnapshot l \<le> stabled l"
    and li: "stabled l = LastIndex l \<longrightarrow> ps_li (storage l) = stabled l"
    and view: "\<And>i. i \<le> stabled l \<Longrightarrow> log_view l i = ps_log con (storage l) i"
    using sync by (auto simp: log_synced_def)
  have range: "?es = log_range l (stabled l) (LastIndex l)" and ok: "ents_ok con (storage l) ?f ?es"
    by (rule synced_ents_ok[OF sync es])+
  have last: "stabled l \<le> LastIndex l" "LastIndex l = lastIdxOfSnapshot l + length (entries l)"
    using wf(1) by (auto simp: LastIndex_eq) (auto simp: log_wf_def)
  obtain ps' where ps': "SaveReadyState D U rd (storage l) = Some (None, ps')" "ps_wf con ps'"
    "ps_log con ps' = (\<lambda>i. if ?es \<noteq> [] \<and> ?f \<le> i
      then (if i < ?f + length ?es then Some (?es ! (i - ?f)) else None) else ps_log con (storage l) i)"
    using SaveReadyState_ok[OF wf(2) snap ok] by blast
  have len: "length ?es = LastIndex l - stabled l" using range by (simp add: log_range_def del: upt_Suc)
  have "ps_log con ps' i = log_view l i" for i
  proof (cases "?f \<le> i")
    case False
    then show ?thesis using view[of i] by (simp add: ps'(3))
  next
    case True
    show ?thesis
    proof (cases "i \<le> LastIndex l")
      case True
      with \<open>?f \<le> i\<close> have "i < ?f + length ?es" "?es \<noteq> []" "?es ! (i - ?f) = the (log_view l i)"
        using len range by (auto simp: log_range_def simp del: upt_Suc)
      moreover have "log_view l i \<noteq> None" using True \<open>?f \<le> i\<close> b last(2) by (simp add: log_view_def)
      ultimately show ?thesis using \<open>?f \<le> i\<close> by (auto simp: ps'(3))
    next
      case False
      then have "log_view l i = None" using last by (simp add: log_view_def)
      moreover have "ps_log con (storage l) i = None" if "?es = []"
        using that len last(1) li \<open>?f \<le> i\<close> by (simp add: ps_log_def)
      ultimately show ?thesis using False len \<open>?f \<le> i\<close> by (auto simp: ps'(3))
    qed
  qed
  then show ?thesis using ps'(1,2) by blast
qed

end

text \<open>
  Saving a \<open>Ready\<close> keeps the storage in step with the raft log. For a log and a
  storage that agree up to \<open>stabled\<close>, when a \<open>Ready\<close> without a snapshot carries the unstable entries of
  the log, \<open>SaveReadyState\<close> returns, the storage is well-formed again, and the log it holds, read as a
  map from indices to entries, is exactly the raft log.
\<close>

theorem SaveReadyState_stores_log:
  assumes "reliable_engine D con" "log_synced con l" "unstableEntries l = Some (rd_Entries rd)"
    "IsEmptySnap (Some (rd_Snapshot rd))"
  shows "\<exists>ps'. SaveReadyState D U rd (storage l) = Some (None, ps') \<and> ps_wf con ps' \<and> ps_log con ps' = log_view l"
  by (rule reliable_engine.SaveReadyState_log[OF assms])

section \<open>What a restart finds\<close>

text \<open>
  C16 (safety): what survives a restart. When a \<open>Ready\<close> without a snapshot is saved and the peer storage
  is then created again from the engines, the raft state it loads, with its last index and last term,
  is the one in memory only if the \<open>Ready\<close> carried a hard state. Otherwise it is the state that was
  persisted before, whatever entries have been appended since.
\<close>

theorem restart_after_SaveReadyState:
  assumes eng: "reliable_engine D con" and snap: "IsEmptySnap (Some (rd_Snapshot rd))"
    and save: "SaveReadyState D U rd ps = Some (res, ps')"
    and raft: "con (en_Raft (ps_Engines ps)) (RaftStateKey (rg_Id (ps_region ps))) = Some (VRaftState st)"
    and kv: "con (en_Kv (ps_Engines ps)) (ApplyStateKey (rg_Id (ps_region ps))) = Some (VApplyState ap)"
    and applied: "as_AppliedIndex ap \<le> rl_LastIndex st" "as_AppliedIndex ap \<le> ps_li ps'"
  shows "\<exists>ps''. NewPeerStorage D (ps_region ps') sched (ps_Engines ps') = Some (Inr ps'', ps_Engines ps') \<and>
    ps_raftState ps'' = (if IsEmptyHardState (rd_HardState rd) then st else ps_raftState ps')"
proof -
  from eng have Get: "\<And>db k. db_Get D db k = (case con db k of None \<Rightarrow> Inl ErrKeyNotFound | Some v \<Rightarrow> Inr v)"
    by (rule kv_engine.Get[OF reliable_engine.axioms(1)])
  have ps': "ps_region ps' = ps_region ps" "en_Kv (ps_Engines ps') = en_Kv (ps_Engines ps)"
    "con (en_Raft (ps_Engines ps')) = write_all (map wb_write (ready_batch rd ps)) (con (en_Raft (ps_Engines ps)))"
    "\<not> IsEmptyHardState (rd_HardState rd) \<Longrightarrow> ps_raftState ps' =
      (ps_raftState (fst (ps_Append (rd_Entries rd) ps new_WriteBatch)))\<lparr>rl_HardState := Some (rd_HardState rd)\<rparr>"
    using save unfolding SaveReadyState_eq[OF snap] Let_def
    by (auto simp: reliable_engine.WriteToDB_snd[OF eng] wb_apply_def)
  have "write_all (map wb_write (map (\<lambda>e. (RaftLogKey r (e_Index e), VEntry e)) es)) m (RaftStateKey r') = m (RaftStateKey r')"
    for r r' es m by (rule write_entries_other) simp
  then have "con (en_Raft (ps_Engines ps')) (RaftStateKey (rg_Id (ps_region ps))) =
      Some (VRaftState (if IsEmptyHardState (rd_HardState rd) then st else ps_raftState ps'))"
    using raft ps'(4) by (simp add: ps'(3) ready_batch_def write_all_append)
  then have "InitRaftLocalState D (ps_region ps') (en_Raft (ps_Engines ps')) =
      (Inr (if IsEmptyHardState (rd_HardState rd) then st else ps_raftState ps'), en_Raft (ps_Engines ps'))"
    by (simp add: InitRaftLocalState_def GetRaftLocalState_def Get ps'(1))
  moreover have "InitApplyState D (ps_region ps') (en_Kv (ps_Engines ps')) = (Inr ap, en_Kv (ps_Engines ps'))"
    using kv by (simp add: InitApplyState_def GetApplyState_def Get ps'(1,2))
  ultimately show ?thesis using applied by (auto simp: NewPeerStorage_def Let_def)
qed

section \<open>Witnesses\<close>

text \<open>A region of three peers, initialised and then given one more entry.\<close>

definition demo_kv_region :: Region where
  "demo_kv_region = \<lparr>rg_Id = 1, rg_StartKey = [], rg_EndKey = [], rg_RegionEpoch = Some \<lparr>ep_ConfVer = 1, ep_Version = 1\<rparr>,
     rg_Peers = [\<lparr>peer_Id = 1, peer_StoreId = 1\<rparr>, \<lparr>peer_Id = 2, peer_StoreId = 2\<rparr>, \<lparr>peer_Id = 3, peer_StoreId = 3\<rparr>]\<rparr>"

definition demo_storage :: "(bytes \<times> EngineValue) list PeerStorage" where
  "demo_storage = (case NewPeerStorage al_engine demo_kv_region [] \<lparr>en_Kv = [], en_Raft = []\<rparr> of
     Some (Inr ps, en) \<Rightarrow> ps)"

definition demo_ready :: Ready where
  "demo_ready = \<lparr>rd_SoftState = None, rd_HardState = zero_HardState,
     rd_Entries = [zero_Entry\<lparr>e_Term := 6, e_Index := 6\<rparr>], rd_Snapshot = zero_Snapshot,
     rd_CommittedEntries = [], rd_Messages = []\<rparr>"

definition demo_raft_state :: RaftLocalState where
  "demo_raft_state = \<lparr>rl_HardState = Some \<lparr>hs_Term = 5, hs_Vote = 0, hs_Commit = 5\<rparr>, rl_LastIndex = 5, rl_LastTerm = 5\<rparr>"

definition demo_apply_state :: RaftApplyState where
  "demo_apply_state = \<lparr>as_AppliedIndex = 5, as_TruncatedState = Some \<lparr>ts_Index = 5, ts_Term = 5\<rparr>\<rparr>"

lemma demo_storage_eq:
  "demo_storage = \<lparr>ps_region = demo_kv_region, ps_raftState = demo_raft_state, ps_applyState = demo_apply_state,
     ps_snapState = \<lparr>st_StateType = SnapState_Relax, st_Receiver = None\<rparr>, ps_regionSched = [], ps_snapTriedCnt = 0,
     ps_Engines = \<lparr>en_Kv = [(ApplyStateKey 1, VApplyState demo_apply_state)],
       en_Raft = [(RaftStateKey 1, VRaftState demo_raft_state)]\<rparr>\<rparr>"
  by (simp add: demo_storage_def NewPeerStorage_def InitRaftLocalState_def GetRaftLocalState_def InitApplyState_def
      GetApplyState_def PutMeta_def al_engine_def demo_kv_region_def RaftInitLogIndex_def RaftInitLogTerm_def
      zero_HardState_def demo_raft_state_def demo_apply_state_def Let_def)

lemma demo_storage_wf: "ps_wf map_of demo_storage"
  using RaftStateKey_above[of 1 "2 ^ 64 - 1"]
  by (auto simp: ps_wf_def demo_storage_eq demo_raft_state_def demo_apply_state_def demo_kv_region_def
      log_keys_ok_def IsEmptyHardState_def zero_HardState_def)

lemma demo_ready_saved:
  "SaveReadyState al_engine (\<lambda>b. None) demo_ready demo_storage = Some (None, demo_storage\<lparr>
     ps_raftState := demo_raft_state\<lparr>rl_LastIndex := 6, rl_LastTerm := 6\<rparr>,
     ps_Engines := \<lparr>en_Kv = [(ApplyStateKey 1, VApplyState demo_apply_state)],
       en_Raft = [(RaftStateKey 1, VRaftState demo_raft_state), (RaftLogKey 1 6, VEntry (zero_Entry\<lparr>e_Term := 6, e_Index := 6\<rparr>))]\<rparr>\<rparr>)"
  by (simp add: SaveReadyState_eq demo_ready_def IsEmptySnap_def zero_Snapshot_def IsEmptyHardState_def ready_batch_def
      ps_Append_eq WriteToDB_def al_engine_def demo_storage_eq demo_kv_region_def zero_Entry_def)

text \<open>The acknowledged entry 6 is gone after the restart.\<close>

theorem restart_after_SaveReadyState_witness:
  "\<exists>ps' ps''. SaveReadyState al_engine (\<lambda>b. None) demo_ready demo_storage = Some (None, ps') \<and> ps_li ps' = 6 \<and>
     NewPeerStorage al_engine (ps_region ps') [] (ps_Engines ps') = Some (Inr ps'', ps_Engines ps') \<and> ps_li ps'' = 5"
  using restart_after_SaveReadyState[OF al.reliable_engine_axioms _ demo_ready_saved, of demo_raft_state demo_apply_state "[]"]
    demo_ready_saved
  by (auto simp: demo_storage_eq demo_ready_def demo_raft_state_def demo_apply_state_def demo_kv_region_def
      IsEmptySnap_def zero_Snapshot_def IsEmptyHardState_def)

definition demo_peer_log :: "(bytes \<times> EngineValue) list PeerStorage RaftLog" where
  "demo_peer_log = \<lparr>storage_ops = peer_storage_ops al_engine (\<lambda>b. None), storage = demo_storage, committed = 5,
     applied = 5, stabled = 5, entries = [zero_Entry\<lparr>e_Term := 6, e_Index := 6\<rparr>], pendingSnapshot = None,
     lastIdxOfSnapshot = 5, lastTermOfSnapshot = 5\<rparr>"

lemma demo_storage_fields:
  "ps_li demo_storage = 5" "ps_ts demo_storage = \<lparr>ts_Index = 5, ts_Term = 5\<rparr>"
  by (simp_all add: demo_storage_eq demo_raft_state_def demo_apply_state_def)

lemma demo_peer_log_synced: "log_synced map_of demo_peer_log"
  using demo_storage_wf
  by (simp add: log_synced_def demo_peer_log_def log_wf_def LastIndex_def log_view_def ps_log_def demo_storage_fields)

lemma demo_peer_log_unstable: "unstableEntries demo_peer_log = Some (rd_Entries demo_ready)"
  by (simp add: unstableEntries_def realIdx_def demo_peer_log_def LastIndex_def u64_sub_def u64_to_int_def
      copy_ents.simps at_int_def demo_ready_def)

theorem SaveReadyState_stores_log_witness:
  "\<exists>ps'. SaveReadyState al_engine (\<lambda>b. None) demo_ready demo_storage = Some (None, ps') \<and>
     ps_log map_of ps' 6 = Some (zero_Entry\<lparr>e_Term := 6, e_Index := 6\<rparr>)"
proof -
  have "IsEmptySnap (Some (rd_Snapshot demo_ready))" by (simp add: demo_ready_def IsEmptySnap_def zero_Snapshot_def)
  from SaveReadyState_stores_log[OF al.reliable_engine_axioms demo_peer_log_synced demo_peer_log_unstable this, of "\<lambda>b. None"]
  show ?thesis by (auto simp: demo_peer_log_def log_view_def)
qed

end
