(* ===== verification/Store_Meta.thy ===== *)
theory Store_Meta
  imports Region_Tree Peer_Save
begin

text \<open>
  \<open>storeMeta\<close> of \<open>kv/raftstore/raftstore.go\<close>: the regions of a store by id and, in a B-tree, by start
  key. The items of the tree are regions ordered by start key; \<open>store_item\<close> interprets the contract of
  the B-tree on them. \<open>regionRanges\<close> is described by the list of its items.
\<close>

section \<open>Definitions\<close>

text \<open>\<open>raft_serverpb.RaftMessage\<close>.\<close>

record RaftMessage =
  rm_RegionId :: u64
  rm_FromPeer :: "Peer option"
  rm_ToPeer :: "Peer option"
  rm_Message :: "Message option"
  rm_RegionEpoch :: "RegionEpoch option"
  rm_IsTombstone :: bool
  rm_StartKey :: bytes
  rm_EndKey :: bytes

record storeMeta =
  regionRanges :: "Region BTree"
  regions :: "(u64, Region) fmap"
  pendingVotes :: "RaftMessage list"

definition storeItem_Less :: "Region \<Rightarrow> Region \<Rightarrow> bool" where
  "storeItem_Less r other \<longleftrightarrow> bytes_compare (rg_StartKey r) (rg_StartKey other) < 0"

definition newStoreMeta :: "storeMeta option" where
  "newStoreMeta = do {
     t \<leftarrow> NewBTree 2;
     Some \<lparr>regionRanges = t, regions = fmempty, pendingVotes = []\<rparr>
   }"

text \<open>The half of \<open>setRegion\<close> that concerns the store; the other half sets the region of the peer.\<close>

definition meta_setRegion :: "Region \<Rightarrow> storeMeta \<Rightarrow> storeMeta" where
  "meta_setRegion region m = m\<lparr>regions := fmupd (rg_Id region) region (regions m)\<rparr>"

definition getOverlapRegions :: "storeMeta \<Rightarrow> Region \<Rightarrow> Region list option" where
  "getOverlapRegions m region = do {
     found \<leftarrow> DescendLessOrEqual storeItem_Less (regionRanges m) region (\<lambda>i _. (False, Some i)) None;
     let result = (case found of
         None \<Rightarrow> region
       | Some r \<Rightarrow> if ExceedEndKey (rg_StartKey region) (rg_EndKey r) then region else r);
     AscendGreaterOrEqual storeItem_Less (regionRanges m) result
       (\<lambda>over overlaps.
          if ExceedEndKey (rg_StartKey over) (rg_EndKey region) then (False, overlaps)
          else (True, overlaps @ [over])) []
   }"

text \<open>The changes of the tree in \<open>mayUpdateRegion\<close> and when a region is destroyed or created.\<close>

definition ranges_delete :: "Region \<Rightarrow> storeMeta \<Rightarrow> (Region option \<times> storeMeta) option" where
  "ranges_delete region m = do {
     (t, out) \<leftarrow> Delete storeItem_Less (regionRanges m) (Some region);
     Some (out, m\<lparr>regionRanges := t\<rparr>)
   }"

definition ranges_insert_item :: "Region \<Rightarrow> storeMeta \<Rightarrow> storeMeta option" where
  "ranges_insert_item region m = do {
     (t, out) \<leftarrow> ReplaceOrInsert storeItem_Less (regionRanges m) (Some region);
     Some (m\<lparr>regionRanges := t\<rparr>)
   }"

section \<open>Items meet the contract of the B-tree\<close>

lemma storeItem_Less_iff: "storeItem_Less a b \<longleftrightarrow> rg_StartKey a < rg_StartKey b"
  by (simp add: storeItem_Less_def key_order)

interpretation store_item: item_order storeItem_Less
  by unfold_locales (auto simp: storeItem_Less_iff)

definition meta_wf :: "storeMeta \<Rightarrow> bool" where
  "meta_wf m \<longleftrightarrow> wf_tree storeItem_Less (regionRanges m)"

definition ranges :: "storeMeta \<Rightarrow> Region list" where
  "ranges m = tree_items (regionRanges m)"

text \<open>The ranges as those of region infos, whose lemmas then apply.\<close>

definition as_info :: "Region \<Rightarrow> RegionInfo" where
  "as_info r = (key_region [])\<lparr>ri_meta := r\<rparr>"

lemma as_info_keys [simp]: "GetStartKey (as_info r) = rg_StartKey r" "GetEndKey (as_info r) = rg_EndKey r"
  by (simp_all add: as_info_def key_region_def)

lemma as_info_inject [simp]: "as_info a = as_info b \<longleftrightarrow> a = b"
  by (simp add: as_info_def key_region_def)

definition share_key :: "Region \<Rightarrow> Region \<Rightarrow> bool" where
  "share_key a b \<longleftrightarrow> (\<exists>k. in_range (rg_StartKey a) (rg_EndKey a) k \<and> in_range (rg_StartKey b) (rg_EndKey b) k)"

lemma share_key_iff:
  "range_ok (rg_StartKey a) (rg_EndKey a) \<Longrightarrow> range_ok (rg_StartKey b) (rg_EndKey b) \<Longrightarrow>
   overlapping (as_info a) (as_info b) \<longleftrightarrow> share_key a b"
  by (simp add: overlapping_iff info_range_ok_def covers_def share_key_def)

lemma Descend_ranges:
  assumes "meta_wf m"
  shows "DescendLessOrEqual storeItem_Less (regionRanges m) q (\<lambda>i _. (False, Some i)) None =
    Some (let A = filter (\<lambda>r. rg_StartKey r \<le> rg_StartKey q) (ranges m) in if A = [] then None else Some (last A))"
  using store_item.scan_descend_ok[OF assms[unfolded meta_wf_def], of True "Some q" None "\<lambda>i _. (False, Some i)" None]
  by (simp add: DescendLessOrEqual_def store_item.at_most_def store_item.descend_stops_def ranges_def
      storeItem_Less_iff not_less run_iter_first hd_rev Let_def)

lemma Ascend_ranges:
  assumes "meta_wf m"
  shows "AscendGreaterOrEqual storeItem_Less (regionRanges m) q iter s =
    Some (snd (run_iter iter (filter (\<lambda>r. rg_StartKey q \<le> rg_StartKey r) (ranges m)) s))"
  using store_item.scan_ascend_ok[OF assms[unfolded meta_wf_def], of True "Some q" None iter s]
  by (simp add: AscendGreaterOrEqual_def store_item.at_least_def store_item.ascend_stops_def ranges_def
      storeItem_Less_iff not_less)

text \<open>The start of the scan is the region that covers the start key, if there is one.\<close>

lemma last_below_covers:
  fixes k :: bytes
  assumes L: "ranges_ok (map as_info L)"
  defines "A \<equiv> filter (\<lambda>r. rg_StartKey r \<le> k) L"
  shows "List.find (\<lambda>r. covers r k) (map as_info L) =
    (if A \<noteq> [] \<and> \<not> ExceedEndKey k (rg_EndKey (last A)) then Some (as_info (last A)) else None)"
proof (cases "A \<noteq> [] \<and> \<not> ExceedEndKey k (rg_EndKey (last A))")
  case True
  then have "last A \<in> set A" by simp
  then have "last A \<in> set L" "covers (as_info (last A)) k"
    using True by (auto simp: A_def covers_def in_range_def ExceedEndKey_iff not_le)
  with True show ?thesis by (simp add: find_covers_iff[OF L])
next
  case False
  have "\<not> covers (as_info r) k" if "r \<in> set L" for r
  proof
    assume r: "covers (as_info r) k"
    then have "r \<in> set A" using that by (simp add: A_def covers_def in_range_def)
    then obtain us vs where A: "A = us @ r # vs" by (auto dest: split_list)
    have "vs = []"
    proof (rule ccontr)
      assume "vs \<noteq> []"
      then have v: "last vs \<in> set vs" by simp
      have "map as_info A = filter (\<lambda>r. GetStartKey r \<le> k) (map as_info L)" by (simp add: A_def filter_map comp_def)
      then have "ranges_ok (map as_info (us @ r # vs))" using ranges_filter[OF L] A by simp
      with v have "before (as_info r) (as_info (last vs))"
        by (auto simp: ranges_ok_def sorted_wrt_append sorted_wrt_map)
      moreover have "last vs \<in> set A" using v A by simp
      then have "rg_StartKey (last vs) \<le> k" by (simp add: A_def)
      ultimately show False using r by (auto simp: covers_def in_range_def before_def)
    qed
    with A r False show False by (auto simp: covers_def in_range_def ExceedEndKey_iff)
  qed
  then show ?thesis using False by (auto simp: find_None_iff)
qed

lemma getOverlapRegions_ok:
  assumes wf: "meta_wf m" and L: "ranges_ok (map as_info (ranges m))" and q: "range_ok (rg_StartKey q) (rg_EndKey q)"
  shows "getOverlapRegions m q = Some (filter (share_key q) (ranges m))"
proof -
  let ?L = "map as_info (ranges m)"
  define A where "A = filter (\<lambda>r. rg_StartKey r \<le> rg_StartKey q) (ranges m)"
  define st where "st = (if A \<noteq> [] \<and> \<not> ExceedEndKey (rg_StartKey q) (rg_EndKey (last A)) then last A else q)"
  have find: "(case List.find (\<lambda>r. covers r (GetStartKey (as_info q))) ?L of None \<Rightarrow> as_info q | Some r \<Rightarrow> r) = as_info st"
    using last_below_covers[OF L, of "rg_StartKey q"] by (simp add: st_def A_def)
  have qi: "info_range_ok (as_info q)" using q by (simp add: info_range_ok_def)
  have "rg_StartKey st \<le> rg_StartKey r \<longleftrightarrow> \<not> before (as_info r) (as_info q)" if "r \<in> set (ranges m)" for r
    using overlap_start[OF L qi, of "as_info r"] that find by simp
  then have from_st: "filter (\<lambda>r. rg_StartKey st \<le> rg_StartKey r) (ranges m) =
      filter (\<lambda>r. \<not> before (as_info r) (as_info q)) (ranges m)" (is "_ = ?M")
    by (intro filter_cong) auto
  have "sorted_wrt (\<lambda>a b. rg_StartKey a < rg_StartKey b) (ranges m)"
    using ranges_starts[OF L] by (simp add: sorted_wrt_map)
  then have "takeWhile (\<lambda>r. \<not> ExceedEndKey (rg_StartKey r) (rg_EndKey q)) ?M =
      filter (\<lambda>r. \<not> ExceedEndKey (rg_StartKey r) (rg_EndKey q)) ?M"
    by (intro takeWhile_sorted[where R = "\<lambda>a b. rg_StartKey a < rg_StartKey b"])
      (auto simp: sorted_wrt_filter ExceedEndKey_iff)
  also have "\<dots> = filter (share_key q) (ranges m)"
    unfolding filter_filter
  proof (rule filter_cong)
    fix r assume r: "r \<in> set (ranges m)"
    then have "range_ok (rg_StartKey r) (rg_EndKey r)" using L by (auto simp: ranges_ok_def info_range_ok_def)
    then show "(\<not> before (as_info r) (as_info q) \<and> \<not> ExceedEndKey (rg_StartKey r) (rg_EndKey q)) = share_key q r"
      by (auto simp: overlapping_def before_def ExceedEndKey_iff simp flip: share_key_iff[OF q])
  qed simp
  finally have tw: "takeWhile (\<lambda>r. \<not> ExceedEndKey (rg_StartKey r) (rg_EndKey q)) ?M = filter (share_key q) (ranges m)" .
  have "getOverlapRegions m q = AscendGreaterOrEqual storeItem_Less (regionRanges m) st
      (\<lambda>over overlaps. if ExceedEndKey (rg_StartKey over) (rg_EndKey q) then (False, overlaps) else (True, overlaps @ [over])) []"
    by (simp add: getOverlapRegions_def Descend_ranges[OF wf] Let_def st_def flip: A_def)
  then show ?thesis
    using tw run_iter_while[of "\<lambda>r. ExceedEndKey (rg_StartKey r) (rg_EndKey q)" "\<lambda>r. r" ?M "[]"]
    by (simp add: Ascend_ranges[OF wf] from_st)
qed

lemma ranges_delete_ok:
  assumes "meta_wf m"
  shows "\<exists>m'. ranges_delete q m = Some (List.find (\<lambda>r. rg_StartKey r = rg_StartKey q) (ranges m), m') \<and>
    meta_wf m' \<and> regions m' = regions m \<and> pendingVotes m' = pendingVotes m \<and>
    ranges m' = filter (\<lambda>r. rg_StartKey r \<noteq> rg_StartKey q) (ranges m)"
proof -
  have "find_list storeItem_Less q (ranges m) = List.find (\<lambda>r. rg_StartKey r = rg_StartKey q) (ranges m)"
    unfolding find_list_def storeItem_Less_iff
    by (rule arg_cong[where f = "\<lambda>P. List.find P (ranges m)"]) (auto simp: not_less)
  then show ?thesis
    using store_item.Delete_ok[OF assms[unfolded meta_wf_def], of q]
    by (auto simp: ranges_delete_def meta_wf_def ranges_def del_list_def storeItem_Less_iff neq_iff)
qed

lemma ranges_insert_ok:
  assumes "meta_wf m"
  shows "\<exists>m'. ranges_insert_item q m = Some m' \<and> meta_wf m' \<and> regions m' = regions m \<and> pendingVotes m' = pendingVotes m \<and>
    ranges m' = filter (\<lambda>r. rg_StartKey r < rg_StartKey q) (ranges m) @ q # filter (\<lambda>r. rg_StartKey q < rg_StartKey r) (ranges m)"
  using store_item.ReplaceOrInsert_ok[OF assms[unfolded meta_wf_def], of q]
  by (auto simp: ranges_insert_item_def meta_wf_def ranges_def ins_list_def storeItem_Less_iff)

lemma newStoreMeta_ok: "\<exists>m. newStoreMeta = Some m \<and> meta_wf m \<and> ranges m = [] \<and> regions m = fmempty \<and> pendingVotes m = []"
  by (auto simp: newStoreMeta_def NewBTree_def meta_wf_def ranges_def wf_tree_def tree_items_def)

text \<open>
  C26 (functional): \<open>getOverlapRegions\<close> is exact. On a well-formed tree of regions with disjoint
  non-empty ranges, and for a region with a non-empty range, it returns, in order, precisely the
  regions of the tree that have a key in common with the region.
\<close>

theorem getOverlapRegions_exact:
  assumes "meta_wf m" "ranges_ok (map as_info (ranges m))" "range_ok (rg_StartKey q) (rg_EndKey q)"
  shows "getOverlapRegions m q = Some (filter (share_key q) (ranges m))"
  by (rule getOverlapRegions_ok[OF assms])

text \<open>Two neighbouring regions, put into an empty tree.\<close>

definition demo_range :: "u64 \<Rightarrow> bytes \<Rightarrow> bytes \<Rightarrow> Region" where
  "demo_range i lo hi = demo_kv_region\<lparr>rg_Id := i, rg_StartKey := lo, rg_EndKey := hi\<rparr>"

lemma demo_range_keys [simp]: "rg_Id (demo_range i lo hi) = i" "rg_StartKey (demo_range i lo hi) = lo" "rg_EndKey (demo_range i lo hi) = hi"
  by (simp_all add: demo_range_def)

lemma demo_meta_exists: "\<exists>m. meta_wf m \<and> ranges m = [demo_range 1 [] [4], demo_range 2 [4] []]"
proof -
  obtain m0 where m0: "meta_wf m0" "ranges m0 = []" using newStoreMeta_ok by blast
  obtain m1 where m1: "meta_wf m1" "ranges m1 = [demo_range 1 [] [4]]"
    using ranges_insert_ok[OF m0(1), of "demo_range 1 [] [4]"] m0(2) by auto
  show ?thesis using ranges_insert_ok[OF m1(1), of "demo_range 2 [4] []"] m1(2) by auto
qed

theorem getOverlapRegions_exact_witness:
  "\<exists>m. meta_wf m \<and> ranges m = [demo_range 1 [] [4], demo_range 2 [4] []] \<and>
     getOverlapRegions m (demo_range 3 [5] [7]) = Some [demo_range 2 [4] []]"
proof -
  obtain m where m: "meta_wf m" "ranges m = [demo_range 1 [] [4], demo_range 2 [4] []]"
    using demo_meta_exists by blast
  have "ranges_ok (map as_info (ranges m))"
    by (simp add: m(2) ranges_ok_def before_def info_range_ok_def range_ok_def)
  from getOverlapRegions_exact[OF m(1) this, of "demo_range 3 [5] [7]"]
  have eq: "getOverlapRegions m (demo_range 3 [5] [7]) = Some (filter (share_key (demo_range 3 [5] [7])) (ranges m))"
    by (simp add: range_ok_def)
  have "\<not> share_key (demo_range 3 [5] [7]) (demo_range 1 [] [4])" "share_key (demo_range 3 [5] [7]) (demo_range 2 [4] [])"
    by (simp_all add: range_ok_def overlapping_def before_def flip: share_key_iff)
  with eq m show ?thesis by auto
qed

end
