(* ===== verification/Raft_Peer.thy ===== *)
theory Raft_Peer
  imports Raft_Driver Store_Meta
begin

text \<open>
  The peer of a region on a store: \<open>kv/raftstore/peer.go\<close>, with the ticker of \<open>ticker.go\<close> and the
  initial states of \<open>bootstrap.go\<close>. The field \<open>peerStorage\<close> of the code points to the storage inside
  the raft log, so it is kept there once (\<open>ps_of\<close>); the engines, which all peers of a store share, are
  in the storage of the peer at hand. A callback is an identity, and what is done with it is the list
  of the answers given. Clock times are left out: the code only tests whether one is recorded.
\<close>

section \<open>Tickers\<close>

record KvConfig =
  cfg_RaftBaseTickInterval :: nat
  cfg_RaftLogGCTickInterval :: nat
  cfg_SplitRegionCheckTickInterval :: nat
  cfg_SchedulerHeartbeatTickInterval :: nat
  cfg_RaftElectionTimeoutTicks :: int
  cfg_RaftHeartbeatTicks :: int
  cfg_RaftLogGcCountLimit :: u64
  cfg_RegionMaxSize :: u64
  cfg_RegionSplitSize :: u64

datatype PeerTick = PeerTickRaft | PeerTickRaftLogGC | PeerTickSplitRegionCheck | PeerTickSchedulerHeartbeat

fun tick_int :: "PeerTick \<Rightarrow> nat" where
  "tick_int PeerTickRaft = 0"
| "tick_int PeerTickRaftLogGC = 1"
| "tick_int PeerTickSplitRegionCheck = 2"
| "tick_int PeerTickSchedulerHeartbeat = 3"

record tickSchedule =
  runAt :: int
  interval :: int

record ticker =
  tk_regionID :: u64
  tk_tick :: int
  tk_schedules :: "tickSchedule list"

definition zero_schedule :: tickSchedule where
  "zero_schedule = \<lparr>runAt = 0, interval = 0\<rparr>"

text \<open>Dividing by a zero base interval panics.\<close>

definition newTicker :: "u64 \<Rightarrow> KvConfig \<Rightarrow> ticker option" where
  "newTicker regionID cfg =
     (let base = cfg_RaftBaseTickInterval cfg; every = (\<lambda>d. \<lparr>runAt = 0, interval = int (d div base)\<rparr>) in
      if base = 0 then None
      else Some \<lparr>tk_regionID = regionID, tk_tick = 0, tk_schedules =
        [\<lparr>runAt = 0, interval = 1\<rparr>, every (cfg_RaftLogGCTickInterval cfg),
         every (cfg_SplitRegionCheckTickInterval cfg), every (cfg_SchedulerHeartbeatTickInterval cfg),
         zero_schedule, zero_schedule]\<rparr>)"

definition tickClock :: "ticker \<Rightarrow> ticker" where
  "tickClock t = t\<lparr>tk_tick := tk_tick t + 1\<rparr>"

definition schedule :: "PeerTick \<Rightarrow> ticker \<Rightarrow> ticker option" where
  "schedule tp t = do {
     sched \<leftarrow> at (tk_schedules t) (tick_int tp);
     let sched = (if interval sched \<le> 0 then sched\<lparr>runAt := -1\<rparr>
                  else sched\<lparr>runAt := tk_tick t + interval sched\<rparr>);
     Some (t\<lparr>tk_schedules := (tk_schedules t)[tick_int tp := sched]\<rparr>)
   }"

definition isOnTick :: "PeerTick \<Rightarrow> ticker \<Rightarrow> bool option" where
  "isOnTick tp t = do { sched \<leftarrow> at (tk_schedules t) (tick_int tp); Some (runAt sched = tk_tick t) }"

section \<open>Initial states\<close>

definition InitEpochVer :: u64 where "InitEpochVer = 1"
definition InitEpochConfVer :: u64 where "InitEpochConfVer = 1"

definition writeInitialApplyState :: "u64 \<Rightarrow> WriteBatch \<Rightarrow> WriteBatch" where
  "writeInitialApplyState regionID kvWB =
     wb_SetMeta (ApplyStateKey regionID) (VApplyState \<lparr>as_AppliedIndex = RaftInitLogIndex,
       as_TruncatedState = Some \<lparr>ts_Index = RaftInitLogIndex, ts_Term = RaftInitLogTerm\<rparr>\<rparr>) kvWB"

definition writeInitialRaftState :: "u64 \<Rightarrow> WriteBatch \<Rightarrow> WriteBatch" where
  "writeInitialRaftState regionID raftWB =
     wb_SetMeta (RaftStateKey regionID) (VRaftState \<lparr>rl_HardState =
       Some (zero_HardState\<lparr>hs_Term := RaftInitLogTerm, hs_Commit := RaftInitLogIndex\<rparr>),
       rl_LastIndex = RaftInitLogIndex, rl_LastTerm = 0\<rparr>) raftWB"

section \<open>The peer\<close>

type_synonym Callback = "nat option"
type_synonym Answers = "(nat \<times> RaftCmdResponse) list"

text \<open>\<open>Done\<close> does nothing on a nil callback.\<close>

definition cb_Done :: "RaftCmdResponse \<Rightarrow> Callback \<Rightarrow> Answers \<Rightarrow> Answers" where
  "cb_Done resp cb as = (case cb of None \<Rightarrow> as | Some c \<Rightarrow> as @ [(c, resp)])"

definition cb_AdminDone :: "AdminCmdType \<Rightarrow> Callback \<Rightarrow> Answers \<Rightarrow> Answers" where
  "cb_AdminDone t = cb_Done (newCmdResp\<lparr>rp_AdminResponse := Some t\<rparr>)"

definition NotifyStaleReq :: "u64 \<Rightarrow> Callback \<Rightarrow> Answers \<Rightarrow> Answers" where
  "NotifyStaleReq term cb = cb_Done (ErrRespStaleCommand term) cb"

definition NotifyReqRegionRemoved :: "u64 \<Rightarrow> Callback \<Rightarrow> Answers \<Rightarrow> Answers" where
  "NotifyReqRegionRemoved regionId cb = cb_Done (ErrResp (ErrRegionNotFound regionId)) cb"

record proposal =
  pp_index :: u64
  pp_term :: u64
  pp_cb :: Callback

record 'db peer =
  p_ticker :: ticker
  p_RaftGroup :: "'db PeerStorage RawNode"
  p_Meta :: Peer
  p_regionId :: u64
  p_proposals :: "proposal list"
  p_LastCompactedIdx :: u64
  p_peerCache :: "(u64, Peer) fmap"
  p_PeersStartPendingTime :: "u64 list"
  p_stopped :: bool
  p_SizeDiffHint :: u64
  p_ApproximateSize :: "u64 option"

definition ps_of :: "'db peer \<Rightarrow> 'db PeerStorage" where
  "ps_of p = storage (r_RaftLog (rn_Raft (p_RaftGroup p)))"

definition set_ps :: "'db PeerStorage \<Rightarrow> 'db peer \<Rightarrow> 'db peer" where
  "set_ps ps p = p\<lparr>p_RaftGroup := (p_RaftGroup p)\<lparr>rn_Raft := (rn_Raft (p_RaftGroup p))\<lparr>r_RaftLog :=
     (r_RaftLog (rn_Raft (p_RaftGroup p)))\<lparr>storage := ps\<rparr>\<rparr>\<rparr>\<rparr>"

definition p_Region :: "'db peer \<Rightarrow> Region" where
  "p_Region p = ps_region (ps_of p)"

definition p_SetRegion :: "Region \<Rightarrow> 'db peer \<Rightarrow> 'db peer" where
  "p_SetRegion region p = set_ps (ps_SetRegion region (ps_of p)) p"

definition p_isInitialized :: "'db peer \<Rightarrow> bool" where
  "p_isInitialized p = ps_isInitialized (ps_of p)"

definition storeID :: "'db peer \<Rightarrow> u64" where
  "storeID p = peer_StoreId (p_Meta p)"

definition PeerId :: "'db peer \<Rightarrow> u64" where
  "PeerId p = peer_Id (p_Meta p)"

definition LeaderId :: "'db peer \<Rightarrow> u64" where
  "LeaderId p = r_Lead (rn_Raft (p_RaftGroup p))"

definition IsLeader :: "'db peer \<Rightarrow> bool" where
  "IsLeader p \<longleftrightarrow> r_State (rn_Raft (p_RaftGroup p)) = StateLeader"

definition p_Term :: "'db peer \<Rightarrow> u64" where
  "p_Term p = r_Term (rn_Raft (p_RaftGroup p))"

definition nextProposalIndex :: "'db peer \<Rightarrow> u64" where
  "nextProposalIndex p = u64_add (LastIndex (r_RaftLog (rn_Raft (p_RaftGroup p)))) 1"

text \<open>\<open>src\<close> is the random source of the new raft instance.\<close>

definition NewPeer ::
  "'db DB \<Rightarrow> SnapDecoder \<Rightarrow> KvConfig \<Rightarrow> (nat \<Rightarrow> nat) \<Rightarrow> u64 \<Rightarrow> 'db Engines \<Rightarrow> Region \<Rightarrow> RegionTask list \<Rightarrow> Peer \<Rightarrow>
   (string + 'db peer) option" where
  "NewPeer D U cfg src storeId engines region regionSched metaPeer =
     (if peer_Id metaPeer = 0 then Some (Inl ''invalid peer id'')
      else do {
        (r, _) \<leftarrow> NewPeerStorage D region regionSched engines;
        case r of
          Inl err \<Rightarrow> Some (Inl ''engine'')
        | Inr ps \<Rightarrow> do {
            raftGroup \<leftarrow> NewRawNode \<lparr>c_ID = peer_Id metaPeer, c_peers = None,
              c_ElectionTick = cfg_RaftElectionTimeoutTicks cfg, c_HeartbeatTick = cfg_RaftHeartbeatTicks cfg,
              c_Storage = Some (peer_storage_ops D U, ps), c_Applied = AppliedIndex ps\<rparr> src;
            t \<leftarrow> newTicker (rg_Id region) cfg;
            let p = \<lparr>p_ticker = t, p_RaftGroup = raftGroup, p_Meta = metaPeer, p_regionId = rg_Id region,
              p_proposals = [], p_LastCompactedIdx = 0, p_peerCache = fmempty, p_PeersStartPendingTime = [],
              p_stopped = False, p_SizeDiffHint = 0, p_ApproximateSize = None\<rparr>;
            if length (rg_Peers region) = 1 \<and> peer_StoreId (hd (rg_Peers region)) = storeId then do {
              raftGroup \<leftarrow> Campaign (p_RaftGroup p);
              Some (Inr (p\<lparr>p_RaftGroup := raftGroup\<rparr>))
            }
            else Some (Inr p)
          }
      })"

definition createPeer ::
  "'db DB \<Rightarrow> SnapDecoder \<Rightarrow> KvConfig \<Rightarrow> (nat \<Rightarrow> nat) \<Rightarrow> u64 \<Rightarrow> RegionTask list \<Rightarrow> 'db Engines \<Rightarrow> Region \<Rightarrow>
   (string + 'db peer) option" where
  "createPeer D U cfg src storeId sched engines region =
     (case FindPeer region storeId of
        None \<Rightarrow> Some (Inl ''find no peer for store'')
      | Some metaPeer \<Rightarrow> NewPeer D U cfg src storeId engines region sched metaPeer)"

definition replicatePeer ::
  "'db DB \<Rightarrow> SnapDecoder \<Rightarrow> KvConfig \<Rightarrow> (nat \<Rightarrow> nat) \<Rightarrow> u64 \<Rightarrow> RegionTask list \<Rightarrow> 'db Engines \<Rightarrow> u64 \<Rightarrow> Peer \<Rightarrow>
   (string + 'db peer) option" where
  "replicatePeer D U cfg src storeId sched engines regionID metaPeer =
     NewPeer D U cfg src storeId engines
       \<lparr>rg_Id = regionID, rg_StartKey = [], rg_EndKey = [], rg_RegionEpoch = Some \<lparr>ep_ConfVer = 0, ep_Version = 0\<rparr>,
        rg_Peers = []\<rparr> sched metaPeer"

definition insertPeerCache :: "Peer \<Rightarrow> 'db peer \<Rightarrow> 'db peer" where
  "insertPeerCache peer p = p\<lparr>p_peerCache := fmupd (peer_Id peer) peer (p_peerCache p)\<rparr>"

definition removePeerCache :: "u64 \<Rightarrow> 'db peer \<Rightarrow> 'db peer" where
  "removePeerCache peerID p = p\<lparr>p_peerCache := fmdrop peerID (p_peerCache p)\<rparr>"

definition getPeerFromCache :: "u64 \<Rightarrow> 'db peer \<Rightarrow> Peer option \<times> 'db peer" where
  "getPeerFromCache peerID p =
     (case fmlookup (p_peerCache p) peerID of
        Some peer \<Rightarrow> (Some peer, p)
      | None \<Rightarrow>
          (case find (\<lambda>peer. peer_Id peer = peerID) (rg_Peers (p_Region p)) of
             None \<Rightarrow> (None, p)
           | Some peer \<Rightarrow> (Some peer, insertPeerCache peer p)))"

definition MaybeDestroy :: "'db peer \<Rightarrow> bool" where
  "MaybeDestroy p \<longleftrightarrow> \<not> p_stopped p"

text \<open>\<open>Destroy\<close> with \<open>keepData = false\<close>, its only use; the result is the error, the peer and the answers.\<close>

definition Destroy :: "'db DB \<Rightarrow> 'db peer \<Rightarrow> Answers \<Rightarrow> (string option \<times> 'db peer \<times> Answers) option" where
  "Destroy D p as = do {
     let region = p_Region p;
     (err, kvWB, raftWB) \<leftarrow> clearMeta D (ps_of p) new_WriteBatch new_WriteBatch;
     case err of
       Some e \<Rightarrow> Some (Some ''key'', p, as)
     | None \<Rightarrow>
         let kvWB = WriteRegionState kvWB region PeerState_Tombstone in
         (case WriteToDB D kvWB (en_Kv (ps_Engines (ps_of p))) of
            (Some e, kv) \<Rightarrow> Some (Some ''engine'', set_ps ((ps_of p)\<lparr>ps_Engines := (ps_Engines (ps_of p))\<lparr>en_Kv := kv\<rparr>\<rparr>) p, as)
          | (None, kv) \<Rightarrow>
              let p = set_ps ((ps_of p)\<lparr>ps_Engines := (ps_Engines (ps_of p))\<lparr>en_Kv := kv\<rparr>\<rparr>) p in
              (case WriteToDB D raftWB (en_Raft (ps_Engines (ps_of p))) of
                 (Some e, raft) \<Rightarrow> Some (Some ''engine'', set_ps ((ps_of p)\<lparr>ps_Engines := (ps_Engines (ps_of p))\<lparr>en_Raft := raft\<rparr>\<rparr>) p, as)
               | (None, raft) \<Rightarrow>
                   let p = set_ps ((ps_of p)\<lparr>ps_Engines := (ps_Engines (ps_of p))\<lparr>en_Raft := raft\<rparr>\<rparr>) p;
                       p = (if p_isInitialized p then set_ps (ClearData (ps_of p)) p else p);
                       as = fold (\<lambda>pp. NotifyReqRegionRemoved (rg_Id region) (pp_cb pp)) (p_proposals p) as
                   in Some (None, p\<lparr>p_proposals := []\<rparr>, as)))
   }"

definition sendRaftMessage :: "Message \<Rightarrow> 'db peer \<Rightarrow> (RaftMessage option \<times> 'db peer) option" where
  "sendRaftMessage msg p = do {
     epoch \<leftarrow> rg_RegionEpoch (p_Region p);
     let (toPeer, p) = getPeerFromCache (m_To msg) p;
     case toPeer of
       None \<Rightarrow> Some (None, p)
     | Some to \<Rightarrow>
         let bounds = ps_isInitialized (ps_of p) \<and> IsInitialMsg msg in
         Some (Some \<lparr>rm_RegionId = p_regionId p, rm_FromPeer = Some (p_Meta p), rm_ToPeer = Some to,
           rm_Message = Some msg, rm_RegionEpoch = Some epoch, rm_IsTombstone = False,
           rm_StartKey = (if bounds then rg_StartKey (p_Region p) else []),
           rm_EndKey = (if bounds then rg_EndKey (p_Region p) else [])\<rparr>, p)
   }"

text \<open>\<open>Send\<close>: a message whose receiver is not known is dropped with a log line.\<close>

definition peer_Send :: "Message list \<Rightarrow> 'db peer \<Rightarrow> (RaftMessage list \<times> 'db peer) option" where
  "peer_Send ms p = foldM (\<lambda>m (out, p). do {
     (sent, p) \<leftarrow> sendRaftMessage m p;
     Some (out @ (case sent of None \<Rightarrow> [] | Some s \<Rightarrow> [s]), p)
   }) ms ([], p)"

text \<open>The loop over the progress map, here in the order of the ids; the code's order is arbitrary.\<close>

definition pending_step :: "u64 \<Rightarrow> u64 \<times> Progress \<Rightarrow> Peer list \<times> 'db peer \<Rightarrow> Peer list \<times> 'db peer" where
  "pending_step truncatedIdx idp s =
     (let (out, p) = s; pid = fst idp in
      if pid = PeerId p then (out, p)
      else if p_Match (snd idp) < truncatedIdx then
        (case getPeerFromCache pid p of
           (None, p) \<Rightarrow> (out, p)
         | (Some peer, p) \<Rightarrow>
             (out @ [peer], p\<lparr>p_PeersStartPendingTime :=
                (if pid \<in> set (p_PeersStartPendingTime p) then p_PeersStartPendingTime p
                 else p_PeersStartPendingTime p @ [pid])\<rparr>))
      else (out, p))"

definition CollectPendingPeers :: "'db peer \<Rightarrow> (Peer list \<times> 'db peer) option" where
  "CollectPendingPeers p = do {
     truncatedIdx \<leftarrow> truncatedIndex (ps_of p);
     let prs = GetProgress (p_RaftGroup p);
     Some (fold (pending_step truncatedIdx)
       (map (\<lambda>i. (i, the (fmlookup prs i))) (sorted_list_of_fset (fmdom prs))) ([], p))
   }"

definition clearPeersStartPendingTime :: "'db peer \<Rightarrow> 'db peer" where
  "clearPeersStartPendingTime p = p\<lparr>p_PeersStartPendingTime := []\<rparr>"

definition AnyNewPeerCatchUp :: "u64 \<Rightarrow> 'db peer \<Rightarrow> (bool \<times> 'db peer) option" where
  "AnyNewPeerCatchUp peerId p =
     (if p_PeersStartPendingTime p = [] then Some (False, p)
      else if \<not> IsLeader p then Some (False, clearPeersStartPendingTime p)
      else if peerId \<in> set (p_PeersStartPendingTime p) then do {
        truncatedIdx \<leftarrow> truncatedIndex (ps_of p);
        Some (case fmlookup (Prs (rn_Raft (p_RaftGroup p))) peerId of
            None \<Rightarrow> (False, p)
          | Some progress \<Rightarrow>
              if p_Match progress \<ge> truncatedIdx
              then (True, p\<lparr>p_PeersStartPendingTime := filter (\<lambda>i. i \<noteq> peerId) (p_PeersStartPendingTime p)\<rparr>)
              else (False, p))
      }
      else Some (False, p))"

definition MaybeCampaign :: "bool \<Rightarrow> 'db peer \<Rightarrow> (bool \<times> 'db peer) option" where
  "MaybeCampaign parentIsLeader p =
     (if length (rg_Peers (p_Region p)) \<le> 1 \<or> \<not> parentIsLeader then Some (False, p)
      else do { rg \<leftarrow> Campaign (p_RaftGroup p); Some (True, p\<lparr>p_RaftGroup := rg\<rparr>) })"

datatype SchedulerTask =
    SchedulerRegionHeartbeatTask Region Peer "Peer list" "u64 option"
  | SchedulerAskSplitTask Region bytes Peer Callback

definition HeartbeatScheduler :: "'db peer \<Rightarrow> (SchedulerTask \<times> 'db peer) option" where
  "HeartbeatScheduler p = do {
     (pending, p') \<leftarrow> CollectPendingPeers p;
     Some (SchedulerRegionHeartbeatTask (p_Region p) (p_Meta p) pending (p_ApproximateSize p), p')
   }"

end
