(* ===== verification/Peer_Apply.thy ===== *)
theory Peer_Apply
  imports Raft_Peer
begin

text \<open>
  Applying committed entries: the first half of \<open>kv/raftstore/peer_msg_handler.go\<close>. A handler is the
  peer together with the parts of \<open>GlobalContext\<close> it touches; a channel is the list of what has been
  sent on it. The generated encoders and decoders, the random source of a new peer and the files of
  the snapshot manager are the fields of an environment \<open>Env\<close>. \<open>ctx.engine\<close> and the engines of the peer's
  storage are the same object, kept in the storage.
\<close>

section \<open>The handler\<close>

record SnapKey =
  sk_RegionID :: u64
  sk_Term :: u64
  sk_Index :: u64

record 'db Env =
  env_DB :: "'db DB"
  env_snap :: SnapDecoder
  env_cmd :: "bytes \<Rightarrow> RaftCmdRequest option"
  env_cmd_bytes :: "RaftCmdRequest \<Rightarrow> bytes option"
  env_cc :: "bytes \<Rightarrow> ConfChange option"
  env_cc_bytes :: "ConfChange \<Rightarrow> raft_error + bytes"
  env_rand :: "nat \<Rightarrow> nat"
  env_snapFile :: "SnapKey \<Rightarrow> string option"
  env_sendFile :: "SnapKey \<Rightarrow> nat option option"

text \<open>
  \<open>env_snapFile\<close> is the error of \<open>GetSnapshotForApplying\<close>, if any; \<open>env_sendFile\<close> is the result of
  \<open>GetSnapshotForSending\<close>, the age of the file in seconds where its metadata can be read.
\<close>

text \<open>
  The messages to a peer, with the data of each type; \<open>MsgGCSnap\<close> pairs a key with \<open>IsSending\<close>. The
  router knows the ids of the regions that have a peer; messages it passes on are listed.
\<close>

datatype PeerMsg =
    MsgTypeNull
  | MsgTypeStart
  | MsgTypeTick
  | MsgTypeRaftMessage RaftMessage
  | MsgTypeRaftCmd RaftCmdRequest Callback
  | MsgTypeSplitRegion "RegionEpoch option" bytes Callback
  | MsgTypeRegionApproximateSize u64
  | MsgTypeGcSnap "(SnapKey \<times> bool) list"

record router =
  rt_peers :: "u64 list"
  rt_peerSender :: "(u64 \<times> PeerMsg) list"
  rt_storeSender :: "RaftMessage list"

definition router_register :: "u64 \<Rightarrow> router \<Rightarrow> router" where
  "router_register regionID pr = pr\<lparr>rt_peers := List.insert regionID (rt_peers pr)\<rparr>"

definition router_close :: "u64 \<Rightarrow> router \<Rightarrow> router" where
  "router_close regionID pr = pr\<lparr>rt_peers := filter (\<lambda>i. i \<noteq> regionID) (rt_peers pr)\<rparr>"

text \<open>\<open>send\<close> fails with \<open>errPeerNotFound\<close> when there is no peer.\<close>

definition router_send :: "u64 \<Rightarrow> PeerMsg \<Rightarrow> router \<Rightarrow> router option" where
  "router_send regionID msg pr =
     (if regionID \<in> set (rt_peers pr) then Some (pr\<lparr>rt_peerSender := rt_peerSender pr @ [(regionID, msg)]\<rparr>) else None)"

definition router_sendStore :: "RaftMessage \<Rightarrow> router \<Rightarrow> router" where
  "router_sendStore msg pr = pr\<lparr>rt_storeSender := rt_storeSender pr @ [msg]\<rparr>"

record RaftLogGCTask =
  gc_RegionID :: u64
  gc_StartIdx :: u64
  gc_EndIdx :: u64

record 'db Handler =
  h_peer :: "'db peer"
  h_cfg :: KvConfig
  h_storeMeta :: storeMeta
  h_trans :: "RaftMessage list"
  h_answers :: Answers
  h_txns :: "(nat \<times> 'db) list"
  h_router :: router
  h_newPeers :: "'db peer list"
  h_schedulerTasks :: "SchedulerTask list"
  h_gcTasks :: "RaftLogGCTask list"
  h_splitCheckTasks :: "Region list"
  h_tickDriver :: "u64 list"
  h_deletedSnaps :: "SnapKey list"

definition h_region :: "'db Handler \<Rightarrow> Region" where
  "h_region h = p_Region (h_peer h)"

definition kv_of :: "'db Handler \<Rightarrow> 'db" where
  "kv_of h = en_Kv (ps_Engines (ps_of (h_peer h)))"

definition raft_of :: "'db Handler \<Rightarrow> 'db" where
  "raft_of h = en_Raft (ps_Engines (ps_of (h_peer h)))"

definition set_engines :: "'db Engines \<Rightarrow> 'db Handler \<Rightarrow> 'db Handler" where
  "set_engines en h = h\<lparr>h_peer := set_ps ((ps_of (h_peer h))\<lparr>ps_Engines := en\<rparr>) (h_peer h)\<rparr>"

definition set_kv :: "'db \<Rightarrow> 'db Handler \<Rightarrow> 'db Handler" where
  "set_kv db h = set_engines ((ps_Engines (ps_of (h_peer h)))\<lparr>en_Kv := db\<rparr>) h"

definition set_raft :: "'db \<Rightarrow> 'db Handler \<Rightarrow> 'db Handler" where
  "set_raft db h = set_engines ((ps_Engines (ps_of (h_peer h)))\<lparr>en_Raft := db\<rparr>) h"

definition answer :: "Callback \<Rightarrow> RaftCmdResponse \<Rightarrow> 'db Handler \<Rightarrow> 'db Handler" where
  "answer cb resp h = h\<lparr>h_answers := cb_Done resp cb (h_answers h)\<rparr>"

text \<open>\<open>storeMeta.setRegion(region, d.peer)\<close>.\<close>

definition h_setRegion :: "Region \<Rightarrow> 'db Handler \<Rightarrow> 'db Handler" where
  "h_setRegion region h =
     h\<lparr>h_storeMeta := meta_setRegion region (h_storeMeta h), h_peer := p_SetRegion region (h_peer h)\<rparr>"

section \<open>Proposals\<close>

text \<open>
  \<open>popProposal\<close>: the queue, the current term of the peer, and the term and index of the entry. A
  proposal of an older term is answered as stale and ends the call without a result; one with a
  smaller index is dropped and the search goes on.
\<close>

fun pop_proposal :: "u64 \<Rightarrow> u64 \<Rightarrow> u64 \<Rightarrow> proposal list \<Rightarrow> Answers \<Rightarrow> proposal option \<times> proposal list \<times> Answers" where
  "pop_proposal cur term index [] as = (None, [], as)"
| "pop_proposal cur term index (p # ps) as =
     (if pp_term p > term \<or> (pp_term p = term \<and> pp_index p > index) then (None, p # ps, as)
      else if pp_term p \<noteq> term then (None, ps, NotifyStaleReq cur (pp_cb p) as)
      else if pp_index p \<noteq> index then pop_proposal cur term index ps as
      else (Some p, ps, as))"

definition popProposal :: "u64 \<Rightarrow> u64 \<Rightarrow> 'db Handler \<Rightarrow> proposal option \<times> 'db Handler" where
  "popProposal term index h =
     (let (p, ps, as) = pop_proposal (p_Term (h_peer h)) term index (p_proposals (h_peer h)) (h_answers h) in
      (p, h\<lparr>h_peer := (h_peer h)\<lparr>p_proposals := ps\<rparr>, h_answers := as\<rparr>))"

text \<open>Pop the proposal of an entry and answer it with an error.\<close>

definition reject :: "Entry \<Rightarrow> RaftstoreError \<Rightarrow> 'db Handler \<Rightarrow> 'db Handler" where
  "reject ent err h =
     (case popProposal (e_Term ent) (e_Index ent) h of
        (None, h) \<Rightarrow> h
      | (Some p, h) \<Rightarrow> answer (pp_cb p) (ErrResp err) h)"

definition checkRegionVersion :: "Entry \<Rightarrow> RegionEpoch option \<Rightarrow> 'db Handler \<Rightarrow> (bool \<times> 'db Handler) option" where
  "checkRegionVersion ent msgRegionEpoch h = do {
     epoch \<leftarrow> rg_RegionEpoch (h_region h);
     msgEpoch \<leftarrow> msgRegionEpoch;
     Some (if ep_Version epoch \<noteq> ep_Version msgEpoch then (False, reject ent (ErrEpochNotMatch [h_region h]) h) else (True, h))
   }"

definition getKey :: "Request \<Rightarrow> bytes option" where
  "getKey req =
     (case rq_CmdType req of
        CmdType_Put \<Rightarrow> map_option put_Key (rq_Put req)
      | CmdType_Get \<Rightarrow> map_option get_Key (rq_Get req)
      | CmdType_Delete \<Rightarrow> map_option delete_Key (rq_Delete req)
      | _ \<Rightarrow> Some [])"

text \<open>An empty key is the nil key, which is not checked.\<close>

definition checkKeyRange :: "Entry \<Rightarrow> Request \<Rightarrow> 'db Handler \<Rightarrow> (bool \<times> 'db Handler) option" where
  "checkKeyRange ent req h = do {
     key \<leftarrow> getKey req;
     Some (if key = [] then (True, h)
       else case CheckKeyInRegion key (h_region h) of
         None \<Rightarrow> (True, h)
       | Some err \<Rightarrow> (False, reject ent err h))
   }"

section \<open>Requests\<close>

definition handleProposal :: "'db Env \<Rightarrow> Request \<Rightarrow> Entry \<Rightarrow> 'db Handler \<Rightarrow> 'db Handler option" where
  "handleProposal env req ent h =
     (case popProposal (e_Term ent) (e_Index ent) h of
        (None, h) \<Rightarrow> Some h
      | (Some p, h) \<Rightarrow>
          if pp_index p \<noteq> e_Index ent then None
          else do {
            let res = newCmdResp;
            (case rq_CmdType req of
               CmdType_Get \<Rightarrow> do {
                 g \<leftarrow> rq_Get req;
                 (case GetCF (env_DB env) (kv_of h) (get_Cf g) (get_Key g) of
                    Inl err \<Rightarrow> None
                  | Inr val \<Rightarrow> Some (answer (pp_cb p) (res\<lparr>rp_Responses := [GetResponse val]\<rparr>) h))
               }
             | CmdType_Put \<Rightarrow> Some (answer (pp_cb p) (res\<lparr>rp_Responses := [PutResponse]\<rparr>) h)
             | CmdType_Delete \<Rightarrow> Some (answer (pp_cb p) (res\<lparr>rp_Responses := [DeleteResponse]\<rparr>) h)
             | CmdType_Snap \<Rightarrow> do {
                 c \<leftarrow> pp_cb p;
                 let h = h\<lparr>h_txns := h_txns h @ [(c, kv_of h)]\<rparr>;
                 Some (answer (pp_cb p) (res\<lparr>rp_Responses := [SnapResponse (h_region h)]\<rparr>) h)
               }
             | CmdType_Invalid \<Rightarrow> Some (answer (pp_cb p) res h))
          })"

text \<open>The write a request asks for; a missing body is a nil pointer.\<close>

definition request_write :: "Request \<Rightarrow> WriteBatch \<Rightarrow> WriteBatch option" where
  "request_write req wb =
     (case rq_CmdType req of
        CmdType_Put \<Rightarrow> do { r \<leftarrow> rq_Put req; Some (wb_SetCF (put_Cf r) (put_Key r) (put_Value r) wb) }
      | CmdType_Delete \<Rightarrow> do { r \<leftarrow> rq_Delete req; Some (wb_DeleteCF (delete_Cf r) (delete_Key r) wb) }
      | _ \<Rightarrow> Some wb)"

definition handleRequest ::
  "'db Env \<Rightarrow> RaftCmdRequest \<Rightarrow> Entry \<Rightarrow> WriteBatch \<Rightarrow> 'db Handler \<Rightarrow> (WriteBatch \<times> 'db Handler) option" where
  "handleRequest env msg ent wb h =
     (if length (rc_Requests msg) \<noteq> 1 then None
      else do {
        let req = hd (rc_Requests msg);
        header \<leftarrow> rc_Header msg;
        (okv, h) \<leftarrow> checkRegionVersion ent (rh_RegionEpoch header) h;
        if \<not> okv then Some (wb, h)
        else do {
          (okk, h) \<leftarrow> checkKeyRange ent req h;
          if \<not> okk then Some (wb, h)
          else do {
            wb \<leftarrow> request_write req wb;
            (case WriteToDB (env_DB env) wb (kv_of h) of
               (Some err, db) \<Rightarrow> None
             | (None, db) \<Rightarrow> do {
                 h \<leftarrow> handleProposal env req ent (set_kv db h);
                 Some (new_WriteBatch, h)
               })
          }
        }
      })"

section \<open>Destroying the peer\<close>

definition destroyPeer :: "'db Env \<Rightarrow> 'db Handler \<Rightarrow> 'db Handler option" where
  "destroyPeer env h = do {
     let regionID = p_regionId (h_peer h);
     let initialized = p_isInitialized (h_peer h);
     (err, p, as) \<leftarrow> Destroy (env_DB env) (h_peer h) (h_answers h);
     if err \<noteq> None then None
     else do {
       let h = h\<lparr>h_peer := p\<lparr>p_stopped := True\<rparr>, h_answers := as, h_router := router_close regionID (h_router h)\<rparr>;
       m \<leftarrow> (if initialized then do {
           (out, m) \<leftarrow> ranges_delete (h_region h) (h_storeMeta h);
           if out = None then None else Some m
         } else Some (h_storeMeta h));
       if fmlookup (regions m) regionID = None then None
       else Some (h\<lparr>h_storeMeta := m\<lparr>regions := fmdrop regionID (regions m)\<rparr>\<rparr>)
     }
   }"

section \<open>Administrative commands\<close>

definition ScheduleCompactLog :: "u64 \<Rightarrow> 'db Handler \<Rightarrow> 'db Handler" where
  "ScheduleCompactLog truncated h =
     (let p = h_peer h; endIdx = u64_add truncated 1 in
      h\<lparr>h_gcTasks := h_gcTasks h @ [\<lparr>gc_RegionID = p_regionId p, gc_StartIdx = p_LastCompactedIdx p, gc_EndIdx = endIdx\<rparr>],
        h_peer := p\<lparr>p_LastCompactedIdx := endIdx\<rparr>\<rparr>)"

definition handleCompactLog :: "AdminRequest \<Rightarrow> WriteBatch \<Rightarrow> 'db Handler \<Rightarrow> (WriteBatch \<times> 'db Handler) option" where
  "handleCompactLog req wb h = do {
     let ps = ps_of (h_peer h);
     compactLog \<leftarrow> ar_CompactLog req;
     ts \<leftarrow> as_TruncatedState (ps_applyState ps);
     if cl_CompactIndex compactLog > ts_Index ts then do {
       let applySt = (ps_applyState ps)\<lparr>as_TruncatedState :=
         Some (ts\<lparr>ts_Index := cl_CompactIndex compactLog, ts_Term := cl_CompactTerm compactLog\<rparr>)\<rparr>;
       let h = h\<lparr>h_peer := set_ps (ps\<lparr>ps_applyState := applySt\<rparr>) (h_peer h)\<rparr>;
       let wb = wb_SetMeta (ApplyStateKey (p_regionId (h_peer h))) (VApplyState applySt) wb;
       Some (wb, ScheduleCompactLog (cl_CompactIndex compactLog) h)
     }
     else Some (wb, h)
   }"

definition bump_ConfVer :: "Region \<Rightarrow> Region option" where
  "bump_ConfVer region = do {
     e \<leftarrow> rg_RegionEpoch region;
     Some (region\<lparr>rg_RegionEpoch := Some (e\<lparr>ep_ConfVer := u64_add (ep_ConfVer e) 1\<rparr>)\<rparr>)
   }"

text \<open>The end of the branch: store the region and tell the raft instance.\<close>

definition finish_ConfChange :: "Region \<Rightarrow> ConfChange \<Rightarrow> 'db Handler \<Rightarrow> 'db Handler option" where
  "finish_ConfChange region cc h = do {
     let h = h_setRegion region h;
     (_, rn) \<leftarrow> ApplyConfChange cc (p_RaftGroup (h_peer h));
     Some (h\<lparr>h_peer := (h_peer h)\<lparr>p_RaftGroup := rn\<rparr>\<rparr>)
   }"

definition handleChangePeer :: "'db Env \<Rightarrow> Entry \<Rightarrow> 'db Handler \<Rightarrow> 'db Handler option" where
  "handleChangePeer env ent h = do {
     cc \<leftarrow> env_cc env (case e_Data ent of None \<Rightarrow> [] | Some d \<Rightarrow> d);
     let region = h_region h;
     msg \<leftarrow> env_cmd env (case cc_Context cc of None \<Rightarrow> [] | Some d \<Rightarrow> d);
     check \<leftarrow> CheckRegionEpoch msg region True;
     case check of
       Some (ErrEpochNotMatch rs) \<Rightarrow> Some h
     | _ \<Rightarrow>
       (case cc_ChangeType cc of
          AddNode \<Rightarrow> do {
            admin \<leftarrow> rc_AdminRequest msg;
            change \<leftarrow> ar_ChangePeer admin;
            pr \<leftarrow> cp_Peer change;
            (region, added) \<leftarrow> Region_AddPeer region pr;
            if added then do {
              region \<leftarrow> bump_ConfVer region;
              (case WriteToDB (env_DB env) (WriteRegionState new_WriteBatch region PeerState_Normal) (kv_of h) of
                 (Some err, db) \<Rightarrow> None
               | (None, db) \<Rightarrow>
                   let h = set_kv db h;
                       h = h\<lparr>h_peer := insertPeerCache pr (h_peer h)\<rparr>
                   in finish_ConfChange region cc h)
            }
            else Some h
          }
        | RemoveNode \<Rightarrow>
            (case Region_RemovePeer region (cc_NodeId cc) of
               (region, True) \<Rightarrow>
                 if cc_NodeId cc = r_id (rn_Raft (p_RaftGroup (h_peer h))) then destroyPeer env (h_setRegion region h)
                 else do {
                   region \<leftarrow> bump_ConfVer region;
                   let wb = wb_SetMeta (RegionStateKey (p_regionId (h_peer h)))
                     (VRegionState \<lparr>rls_State = PeerState_Normal, rls_Region = Some region\<rparr>) new_WriteBatch;
                   let h = set_kv (snd (WriteToDB (env_DB env) wb (kv_of h))) h;
                   let h = h\<lparr>h_peer := removePeerCache (cc_NodeId cc) (h_peer h)\<rparr>;
                   finish_ConfChange region cc h
                 }
             | (region, False) \<Rightarrow> finish_ConfChange region cc h))
   }"

text \<open>The keys come from a region that went through \<open>CloneMsg\<close>, so a nil key is an empty one.\<close>

definition validSplitKey :: "bytes \<Rightarrow> bytes \<Rightarrow> bytes \<Rightarrow> bool" where
  "validSplitKey key start end_key =
     (let res = (if start \<noteq> [] then bytes_compare start key < 0 else True) in
      if \<not> res then res
      else if end_key \<noteq> [] then bytes_compare key end_key < 0 else res)"

definition split_peers :: "Peer list \<Rightarrow> u64 list \<Rightarrow> Peer list option" where
  "split_peers ps peerIds =
     (if length ps < length peerIds then None
      else Some (map (\<lambda>(p, i). \<lparr>peer_Id = i, peer_StoreId = peer_StoreId p\<rparr>) (zip ps peerIds)))"

definition regionSplit :: "'db Env \<Rightarrow> Region \<Rightarrow> SplitRequest \<Rightarrow> 'db Handler \<Rightarrow> (Region \<times> 'db Handler) option" where
  "regionSplit env region req h =
     (if sr_NewPeerIds req = [] then None
      else do {
        newPeers \<leftarrow> split_peers (rg_Peers region) (sr_NewPeerIds req);
        let newRegion = \<lparr>rg_Id = sr_NewRegionId req, rg_StartKey = sr_SplitKey req, rg_EndKey = rg_EndKey region,
          rg_RegionEpoch = Some \<lparr>ep_ConfVer = InitEpochConfVer, ep_Version = InitEpochVer\<rparr>, rg_Peers = newPeers\<rparr>;
        let kvWB = writeInitialApplyState (rg_Id newRegion) new_WriteBatch;
        let kvWB = WriteRegionState kvWB newRegion PeerState_Normal;
        e \<leftarrow> rg_RegionEpoch region;
        let region = region\<lparr>rg_RegionEpoch := Some (e\<lparr>ep_Version := u64_add (ep_Version e) 1\<rparr>), rg_EndKey := sr_SplitKey req\<rparr>;
        let kvWB = WriteRegionState kvWB region PeerState_Normal;
        let h = set_kv (snd (WriteToDB (env_DB env) kvWB (kv_of h))) h;
        let h = h_setRegion region h;
        let raftWB = writeInitialRaftState (rg_Id newRegion) new_WriteBatch;
        let h = set_raft (snd (WriteToDB (env_DB env) raftWB (raft_of h))) h;
        Some (newRegion, h)
      })"

definition handleSplit :: "'db Env \<Rightarrow> AdminRequest \<Rightarrow> 'db Handler \<Rightarrow> 'db Handler option" where
  "handleSplit env admin h = do {
     req \<leftarrow> ar_Split admin;
     let region = h_region h;
     if \<not> validSplitKey (sr_SplitKey req) (rg_StartKey region) (rg_EndKey region) then Some h
     else if length (rg_Peers region) \<noteq> length (sr_NewPeerIds req) then Some h
     else do {
       (newRegion, h) \<leftarrow> regionSplit env region req h;
       r \<leftarrow> createPeer (env_DB env) (env_snap env) (h_cfg h) (env_rand env) (storeID (h_peer h)) []
         (ps_Engines (ps_of (h_peer h))) newRegion;
       (case r of
          Inl err \<Rightarrow> None
        | Inr newPeer \<Rightarrow> do {
            let h = set_engines (ps_Engines (ps_of newPeer)) h;
            let newPeer = p_SetRegion newRegion newPeer;
            m \<leftarrow> ranges_insert_item newRegion (meta_setRegion newRegion (h_storeMeta h));
            rt \<leftarrow> router_send (rg_Id newRegion) MsgTypeStart (router_register (rg_Id newRegion) (h_router h));
            Some (h\<lparr>h_storeMeta := m, h_newPeers := h_newPeers h @ [newPeer], h_router := rt\<rparr>)
          })
     }
   }"

definition handleAdminRequest ::
  "'db Env \<Rightarrow> AdminRequest \<Rightarrow> Entry \<Rightarrow> WriteBatch \<Rightarrow> 'db Handler \<Rightarrow> (WriteBatch \<times> 'db Handler) option" where
  "handleAdminRequest env admin ent wb h =
     (case ar_CmdType admin of
        AdminCmdType_CompactLog \<Rightarrow> handleCompactLog admin wb h
      | AdminCmdType_ChangePeer \<Rightarrow> map_option (Pair wb) (handleChangePeer env ent h)
      | AdminCmdType_Split \<Rightarrow> map_option (Pair wb) (handleSplit env admin h)
      | _ \<Rightarrow> Some (wb, h))"

section \<open>Committed entries\<close>

definition change_peer_admin :: AdminRequest where
  "change_peer_admin = \<lparr>ar_CmdType = AdminCmdType_ChangePeer, ar_ChangePeer = None, ar_CompactLog = None,
     ar_TransferLeader = None, ar_Split = None\<rparr>"

definition handle_entry :: "'db Env \<Rightarrow> Entry \<Rightarrow> bytes \<Rightarrow> WriteBatch \<Rightarrow> 'db Handler \<Rightarrow> (WriteBatch \<times> 'db Handler) option" where
  "handle_entry env ent data wb h =
     (if e_EntryType ent = EntryConfChange then handleAdminRequest env change_peer_admin ent wb h
      else do {
        msg \<leftarrow> env_cmd env data;
        (case rc_AdminRequest msg of
           Some admin \<Rightarrow> if rc_Requests msg \<noteq> [] then None else handleAdminRequest env admin ent wb h
         | None \<Rightarrow> handleRequest env msg ent wb h)
      })"

fun commit_loop :: "'db Env \<Rightarrow> Entry list \<Rightarrow> WriteBatch \<Rightarrow> 'db Handler \<Rightarrow> (WriteBatch \<times> 'db Handler) option" where
  "commit_loop env [] wb h = Some (wb, h)"
| "commit_loop env (ent # ents) wb h =
     (case e_Data ent of
        None \<Rightarrow> commit_loop env ents wb h
      | Some data \<Rightarrow>
          (case handle_entry env ent data wb h of
             None \<Rightarrow> None
           | Some (wb, h) \<Rightarrow> if p_stopped (h_peer h) then Some (wb, h) else commit_loop env ents wb h))"

definition HandleCommitEnts :: "'db Env \<Rightarrow> Entry list \<Rightarrow> 'db Handler \<Rightarrow> 'db Handler option" where
  "HandleCommitEnts env ents h =
     (if ents = [] then Some h
      else do {
        (wb, h) \<leftarrow> commit_loop env ents new_WriteBatch h;
        if p_stopped (h_peer h) then Some h
        else do {
          let ps = ps_of (h_peer h);
          let applySt = (ps_applyState ps)\<lparr>as_AppliedIndex := e_Index (last ents)\<rparr>;
          let h = h\<lparr>h_peer := set_ps (ps\<lparr>ps_applyState := applySt\<rparr>) (h_peer h)\<rparr>;
          let wb = wb_SetMeta (ApplyStateKey (p_regionId (h_peer h))) (VApplyState applySt) wb;
          Some (set_kv (snd (WriteToDB (env_DB env) wb (kv_of h))) h)
        }
      })"

end
