(* ===== verification/Peer_Replay.thy ===== *)
theory Peer_Replay
  imports Peer_Apply
begin

text \<open>
  What applying committed entries does to the data. \<open>apply_data\<close> is the state machine that a log of
  put, delete and snapshot commands stands for; \<open>HandleCommitEnts\<close> refines it: its effect on the engine
  depends on the entries and the region only, never on the proposals that wait on this peer.
\<close>

section \<open>What the bookkeeping of proposals leaves alone\<close>

text \<open>Two handlers that differ only in proposals, answers and transactions handed out.\<close>

definition same_store :: "'db Handler \<Rightarrow> 'db Handler \<Rightarrow> bool" where
  "same_store h h' \<longleftrightarrow>
     h'\<lparr>h_peer := (h_peer h')\<lparr>p_proposals := p_proposals (h_peer h)\<rparr>, h_answers := h_answers h, h_txns := h_txns h\<rparr> = h \<and>
     set (p_proposals (h_peer h')) \<subseteq> set (p_proposals (h_peer h))"

lemma same_store_refl [simp]: "same_store h h"
  by (simp add: same_store_def)

lemma same_store_fields:
  assumes "same_store h h'"
  shows "ps_of (h_peer h') = ps_of (h_peer h)" "p_stopped (h_peer h') = p_stopped (h_peer h)"
    "p_regionId (h_peer h') = p_regionId (h_peer h)" "kv_of h' = kv_of h" "raft_of h' = raft_of h" "h_region h' = h_region h"
    "set (p_proposals (h_peer h')) \<subseteq> set (p_proposals (h_peer h))"
proof -
  have eq: "(h_peer h')\<lparr>p_proposals := p_proposals (h_peer h)\<rparr> = h_peer h"
    using arg_cong[where f = h_peer, OF conjunct1[OF assms[unfolded same_store_def]]] by simp
  show "ps_of (h_peer h') = ps_of (h_peer h)" "p_stopped (h_peer h') = p_stopped (h_peer h)"
    "p_regionId (h_peer h') = p_regionId (h_peer h)"
    using arg_cong[where f = ps_of, OF eq] arg_cong[where f = p_stopped, OF eq] arg_cong[where f = p_regionId, OF eq]
    by (simp_all add: ps_of_def)
  then show "kv_of h' = kv_of h" "raft_of h' = raft_of h" "h_region h' = h_region h"
    by (simp_all add: kv_of_def raft_of_def h_region_def p_Region_def)
  show "set (p_proposals (h_peer h')) \<subseteq> set (p_proposals (h_peer h))" using assms by (simp add: same_store_def)
qed

lemma pop_proposal_subset:
  "set (fst (snd (pop_proposal cur t i ps as))) \<subseteq> set ps"
proof (induction ps)
  case (Cons p ps)
  then show ?case by (cases "pp_term p = t"; cases "pp_index p = i") auto
qed simp

lemma pop_proposal_Some:
  "fst (pop_proposal cur t i ps as) = Some q \<Longrightarrow> q \<in> set ps \<and> pp_term q = t \<and> pp_index q = i"
proof (induction ps)
  case (Cons p ps)
  then show ?case by (cases "pp_term p = t"; cases "pp_index p = i") (auto split: if_splits)
qed simp

lemma popProposal_same:
  assumes "popProposal t i h = (p, h')"
  shows "same_store h h'" "p = Some q \<Longrightarrow> q \<in> set (p_proposals (h_peer h)) \<and> pp_term q = t \<and> pp_index q = i"
proof -
  obtain ps as where e: "pop_proposal (p_Term (h_peer h)) t i (p_proposals (h_peer h)) (h_answers h) = (p, ps, as)"
    and h': "h' = h\<lparr>h_peer := (h_peer h)\<lparr>p_proposals := ps\<rparr>, h_answers := as\<rparr>"
    using assms by (auto simp: popProposal_def split: prod.splits)
  have s: "set ps \<subseteq> set (p_proposals (h_peer h))" using pop_proposal_subset[of _ t i _ _] by (metis e fst_conv snd_conv)
  show "same_store h h'"
    unfolding same_store_def h' using s by simp
  show "p = Some q \<Longrightarrow> q \<in> set (p_proposals (h_peer h)) \<and> pp_term q = t \<and> pp_index q = i"
    using pop_proposal_Some[of "p_Term (h_peer h)" t i "p_proposals (h_peer h)" "h_answers h" q] e by simp
qed

lemma same_store_answer: "same_store h h' \<Longrightarrow> same_store h (answer cb resp h')"
  by (simp add: same_store_def answer_def)

lemma same_store_txn: "same_store h h' \<Longrightarrow> same_store h (h'\<lparr>h_txns := tx\<rparr>)"
  by (simp add: same_store_def)

lemma reject_same: "same_store h (reject ent err h)"
  by (auto simp: reject_def split: prod.splits option.splits intro: same_store_answer dest: popProposal_same(1))

lemma handleProposal_same:
  assumes "rq_CmdType req \<in> {CmdType_Put, CmdType_Delete, CmdType_Snap}"
    and "\<And>p. p \<in> set (p_proposals (h_peer h)) \<Longrightarrow> pp_cb p \<noteq> None"
  shows "\<exists>h'. handleProposal env req ent h = Some h' \<and> same_store h h'"
proof -
  obtain p h1 where pop: "popProposal (e_Term ent) (e_Index ent) h = (p, h1)" by fastforce
  note s = popProposal_same[OF pop]
  show ?thesis
  proof (cases p)
    case None
    then show ?thesis using pop s(1) by (simp add: handleProposal_def)
  next
    case (Some q)
    with s(2) assms(2) obtain c where "pp_cb q = Some c" "pp_index q = e_Index ent" by blast
    then show ?thesis
      using pop Some s(1) assms(1)
      by (auto simp: handleProposal_def Let_def intro!: same_store_answer same_store_txn)
  qed
qed

section \<open>The state machine\<close>

text \<open>The write of a request that passed the checks.\<close>

definition request_effect :: "Request \<Rightarrow> (bytes \<rightharpoonup> EngineValue) \<Rightarrow> (bytes \<rightharpoonup> EngineValue)" where
  "request_effect req m =
     (case rq_CmdType req of
        CmdType_Put \<Rightarrow> (let r = the (rq_Put req) in
          m(KeyWithCF (put_Cf r) (put_Key r) := if put_Value r = [] then None else Some (VBytes (put_Value r))))
      | CmdType_Delete \<Rightarrow> (let r = the (rq_Delete req) in m(KeyWithCF (delete_Cf r) (delete_Key r) := None))
      | _ \<Rightarrow> m)"

text \<open>
  A command takes effect when its epoch has the version of the region and its key is in the region;
  otherwise it is skipped.
\<close>

definition command_effect :: "Region \<Rightarrow> RaftCmdRequest \<Rightarrow> (bytes \<rightharpoonup> EngineValue) \<Rightarrow> (bytes \<rightharpoonup> EngineValue)" where
  "command_effect region msg m =
     (let req = hd (rc_Requests msg); key = the (getKey req) in
      if ep_Version (the (rh_RegionEpoch (the (rc_Header msg)))) = ep_Version (the (rg_RegionEpoch region)) \<and>
         (key = [] \<or> in_range (rg_StartKey region) (rg_EndKey region) key)
      then request_effect req m else m)"

definition apply_data :: "(bytes \<Rightarrow> RaftCmdRequest option) \<Rightarrow> Region \<Rightarrow> Entry \<Rightarrow> (bytes \<rightharpoonup> EngineValue) \<Rightarrow> (bytes \<rightharpoonup> EngineValue)" where
  "apply_data decode region e m =
     (case e_Data e of None \<Rightarrow> m | Some d \<Rightarrow> command_effect region (the (decode d)) m)"

text \<open>Commands with one put, delete or snapshot request, as a store proposes them.\<close>

definition plain_command :: "RaftCmdRequest \<Rightarrow> bool" where
  "plain_command msg \<longleftrightarrow> rc_AdminRequest msg = None \<and>
     (\<exists>hd ep. rc_Header msg = Some hd \<and> rh_RegionEpoch hd = Some ep) \<and>
     (\<exists>req. rc_Requests msg = [req] \<and>
        (rq_CmdType req = CmdType_Put \<and> rq_Put req \<noteq> None \<or> rq_CmdType req = CmdType_Delete \<and> rq_Delete req \<noteq> None \<or>
         rq_CmdType req = CmdType_Snap))"

definition plain_entry :: "(bytes \<Rightarrow> RaftCmdRequest option) \<Rightarrow> Entry \<Rightarrow> bool" where
  "plain_entry decode e \<longleftrightarrow> e_EntryType e = EntryNormal \<and>
     (\<forall>d. e_Data e = Some d \<longrightarrow> (\<exists>msg. decode d = Some msg \<and> plain_command msg))"

text \<open>A peer that can apply them.\<close>

definition ready_to_apply :: "'db Handler \<Rightarrow> bool" where
  "ready_to_apply h \<longleftrightarrow> \<not> p_stopped (h_peer h) \<and> rg_RegionEpoch (h_region h) \<noteq> None \<and>
     (\<forall>p \<in> set (p_proposals (h_peer h)). pp_cb p \<noteq> None)"

lemma request_write_ok:
  assumes "rq_CmdType req = CmdType_Put \<and> rq_Put req \<noteq> None \<or> rq_CmdType req = CmdType_Delete \<and> rq_Delete req \<noteq> None \<or>
      rq_CmdType req = CmdType_Snap"
  shows "\<exists>wb. request_write req new_WriteBatch = Some wb \<and> (\<forall>m. wb_apply wb m = request_effect req m)"
  using assms by (auto simp: request_write_def request_effect_def Let_def)

lemma ready_same: "ready_to_apply h \<Longrightarrow> same_store h h' \<Longrightarrow> ready_to_apply h'"
  using same_store_fields[of h h'] by (auto simp: ready_to_apply_def)

lemma set_kv_fields [simp]:
  "kv_of (set_kv db h) = db" "raft_of (set_kv db h) = raft_of h" "h_region (set_kv db h) = h_region h"
  "p_stopped (h_peer (set_kv db h)) = p_stopped (h_peer h)" "p_proposals (h_peer (set_kv db h)) = p_proposals (h_peer h)"
  "p_regionId (h_peer (set_kv db h)) = p_regionId (h_peer h)"
  "ps_applyState (ps_of (h_peer (set_kv db h))) = ps_applyState (ps_of (h_peer h))"
  "ps_raftState (ps_of (h_peer (set_kv db h))) = ps_raftState (ps_of (h_peer h))"
  by (simp_all add: set_kv_def set_engines_def set_ps_def kv_of_def raft_of_def ps_of_def h_region_def p_Region_def)

lemma ready_set_kv [simp]: "ready_to_apply (set_kv db h) = ready_to_apply h"
  by (simp add: ready_to_apply_def)

lemma set_kv_kv [simp]: "set_kv (kv_of h) h = h" "set_kv db (set_kv db' h) = set_kv db h"
  by (simp_all add: set_kv_def set_engines_def set_ps_def kv_of_def ps_of_def)

lemma same_store_trans:
  assumes "same_store h1 h2" "same_store h2 h3"
  shows "same_store h1 h3"
proof -
  have 1: "h2\<lparr>h_peer := (h_peer h2)\<lparr>p_proposals := p_proposals (h_peer h1)\<rparr>, h_answers := h_answers h1, h_txns := h_txns h1\<rparr> = h1"
    and 2: "h3\<lparr>h_peer := (h_peer h3)\<lparr>p_proposals := p_proposals (h_peer h2)\<rparr>, h_answers := h_answers h2, h_txns := h_txns h2\<rparr> = h2"
    using assms by (simp_all add: same_store_def)
  have "h3\<lparr>h_peer := (h_peer h3)\<lparr>p_proposals := q\<rparr>, h_answers := a, h_txns := t\<rparr> =
      h2\<lparr>h_peer := (h_peer h2)\<lparr>p_proposals := q\<rparr>, h_answers := a, h_txns := t\<rparr>" for q a t
    using arg_cong[OF 2, of "\<lambda>x. x\<lparr>h_peer := (h_peer x)\<lparr>p_proposals := q\<rparr>, h_answers := a, h_txns := t\<rparr>"] by simp
  with 1 show ?thesis using assms by (simp add: same_store_def)
qed

lemma same_store_set_kv:
  assumes "same_store h h'"
  shows "same_store (set_kv db h) (set_kv db h')"
proof -
  have 1: "h'\<lparr>h_peer := (h_peer h')\<lparr>p_proposals := p_proposals (h_peer h)\<rparr>, h_answers := h_answers h, h_txns := h_txns h\<rparr> = h"
    using assms by (simp add: same_store_def)
  have "(set_kv db h')\<lparr>h_peer := (h_peer (set_kv db h'))\<lparr>p_proposals := q\<rparr>, h_answers := a, h_txns := t\<rparr> =
      set_kv db (h'\<lparr>h_peer := (h_peer h')\<lparr>p_proposals := q\<rparr>, h_answers := a, h_txns := t\<rparr>)" for q a t
    by (simp add: set_kv_def set_engines_def set_ps_def ps_of_def)
  moreover have "h_answers (set_kv db h) = h_answers h" "h_txns (set_kv db h) = h_txns h"
    by (simp_all add: set_kv_def set_engines_def)
  ultimately show ?thesis using 1 assms by (simp add: same_store_def)
qed

text \<open>What applying entries changes: the contents of the engine, and the bookkeeping of proposals.\<close>

definition applied_to :: "('db \<Rightarrow> bytes \<rightharpoonup> EngineValue) \<Rightarrow> 'db Handler \<Rightarrow> (bytes \<rightharpoonup> EngineValue) \<Rightarrow> 'db Handler \<Rightarrow> bool" where
  "applied_to con h m h' \<longleftrightarrow> ready_to_apply h' \<and> con (kv_of h') = m \<and> same_store h (set_kv (kv_of h) h')"

lemma applied_to_fields:
  assumes "applied_to con h m h'"
  shows "h_region h' = h_region h" "ps_applyState (ps_of (h_peer h')) = ps_applyState (ps_of (h_peer h))"
    "ps_raftState (ps_of (h_peer h')) = ps_raftState (ps_of (h_peer h))"
    "raft_of h' = raft_of h" "p_regionId (h_peer h') = p_regionId (h_peer h)" "con (kv_of h') = m" "ready_to_apply h'"
proof -
  note s = same_store_fields[of h "set_kv (kv_of h) h'"]
  have "same_store h (set_kv (kv_of h) h')" using assms by (simp add: applied_to_def)
  note s = s[OF this]
  have "ps_applyState (ps_of (h_peer (set_kv (kv_of h) h'))) = ps_applyState (ps_of (h_peer h'))"
    "ps_raftState (ps_of (h_peer (set_kv (kv_of h) h'))) = ps_raftState (ps_of (h_peer h'))"
    by (simp_all add: set_kv_def set_engines_def set_ps_def ps_of_def)
  then show "h_region h' = h_region h" "ps_applyState (ps_of (h_peer h')) = ps_applyState (ps_of (h_peer h))"
    "ps_raftState (ps_of (h_peer h')) = ps_raftState (ps_of (h_peer h))"
    "raft_of h' = raft_of h" "p_regionId (h_peer h') = p_regionId (h_peer h)" "con (kv_of h') = m" "ready_to_apply h'"
    using s assms unfolding applied_to_def by simp_all
qed

lemma applied_to_same:
  assumes "ready_to_apply h" "same_store h h'"
  shows "applied_to con h (con (kv_of h)) h'"
proof -
  have kv: "kv_of h' = kv_of h" using same_store_fields(4)[OF assms(2)] .
  have "set_kv (kv_of h) h' = h'" using set_kv_kv(1)[of h'] by (simp add: kv)
  then show ?thesis using assms ready_same[OF assms] kv by (simp add: applied_to_def)
qed

lemma applied_to_write:
  assumes "ready_to_apply h" "same_store (set_kv db h) h'"
  shows "applied_to con h (con db) h'"
proof -
  have "ready_to_apply (set_kv db h)" using assms(1) by simp
  from applied_to_same[OF this assms(2), of con] have "ready_to_apply h'" "con (kv_of h') = con db"
    by (simp_all add: applied_to_def)
  moreover have "same_store h (set_kv (kv_of h) h')"
    using same_store_set_kv[OF assms(2), of "kv_of h"] by simp
  ultimately show ?thesis by (simp add: applied_to_def)
qed

lemma applied_to_trans:
  assumes "applied_to con h m h1" "applied_to con h1 m' h2"
  shows "applied_to con h m' h2"
proof -
  have "same_store (set_kv (kv_of h) h1) (set_kv (kv_of h) (set_kv (kv_of h1) h2))"
    using assms(2) by (intro same_store_set_kv) (simp add: applied_to_def)
  then show ?thesis using assms same_store_trans by (fastforce simp: applied_to_def)
qed

context reliable_engine
begin

lemma handleRequest_plain:
  assumes env: "env_DB env = D" and h: "ready_to_apply h" and msg: "plain_command msg"
  shows "\<exists>h'. handleRequest env msg ent new_WriteBatch h = Some (new_WriteBatch, h') \<and>
    applied_to con h (command_effect (h_region h) msg (con (kv_of h))) h'"
proof -
  obtain hd ep req where hd: "rc_Header msg = Some hd" "rh_RegionEpoch hd = Some ep" "rc_Requests msg = [req]"
    and req: "rq_CmdType req = CmdType_Put \<and> rq_Put req \<noteq> None \<or> rq_CmdType req = CmdType_Delete \<and> rq_Delete req \<noteq> None \<or>
      rq_CmdType req = CmdType_Snap"
    using msg by (auto simp: plain_command_def)
  obtain rep where rep: "rg_RegionEpoch (h_region h) = Some rep" using h by (auto simp: ready_to_apply_def)
  obtain key where key: "getKey req = Some key" using req by (auto simp: getKey_def)
  consider (version) "ep_Version rep \<noteq> ep_Version ep"
    | (range) "ep_Version rep = ep_Version ep" "key \<noteq> []" "\<not> in_range (rg_StartKey (h_region h)) (rg_EndKey (h_region h)) key"
    | (ok) "ep_Version rep = ep_Version ep" "key = [] \<or> in_range (rg_StartKey (h_region h)) (rg_EndKey (h_region h)) key"
    by blast
  then show ?thesis
  proof cases
    case version
    have "handleRequest env msg ent new_WriteBatch h = Some (new_WriteBatch, reject ent (ErrEpochNotMatch [h_region h]) h)"
      using version by (simp add: handleRequest_def hd rep checkRegionVersion_def)
    moreover have "command_effect (h_region h) msg (con (kv_of h)) = con (kv_of h)"
      using not_sym[OF version] by (simp add: command_effect_def hd rep)
    ultimately show ?thesis using applied_to_same[OF h reject_same] by simp
  next
    case range
    then obtain err where err: "CheckKeyInRegion key (h_region h) = Some err"
      using CheckKeyInRegion_iff[of key "h_region h"] by (cases "CheckKeyInRegion key (h_region h)") simp_all
    have "handleRequest env msg ent new_WriteBatch h = Some (new_WriteBatch, reject ent err h)"
      using range(1,2) by (simp add: handleRequest_def hd rep checkRegionVersion_def checkKeyRange_def key err)
    moreover have "command_effect (h_region h) msg (con (kv_of h)) = con (kv_of h)"
      using range(2,3) by (simp add: command_effect_def hd rep key)
    ultimately show ?thesis using applied_to_same[OF h reject_same] by simp
  next
    case ok
    then have chk: "checkKeyRange ent req h = Some (True, h)"
      by (cases "key = []") (simp_all add: checkKeyRange_def key flip: CheckKeyInRegion_iff)
    obtain wb where wb: "request_write req new_WriteBatch = Some wb" "\<forall>m. wb_apply wb m = request_effect req m"
      using request_write_ok[OF req] by blast
    obtain db where db: "WriteToDB D wb (kv_of h) = (None, db)" "con db = wb_apply wb (con (kv_of h))"
      using WriteToDB_ok by blast
    have "\<exists>h'. handleProposal env req ent (set_kv db h) = Some h' \<and> same_store (set_kv db h) h'"
    proof (rule handleProposal_same)
      show "rq_CmdType req \<in> {CmdType_Put, CmdType_Delete, CmdType_Snap}" using req by blast
    qed (use h in \<open>simp add: ready_to_apply_def\<close>)
    then obtain h' where h': "handleProposal env req ent (set_kv db h) = Some h'" "same_store (set_kv db h) h'" by blast
    have "applied_to con h (con db) h'"
      by (rule applied_to_write[OF h h'(2)])
    moreover have "con db = command_effect (h_region h) msg (con (kv_of h))"
      using ok wb(2) db(2) by (simp add: command_effect_def hd rep key)
    moreover have "handleRequest env msg ent new_WriteBatch h = Some (new_WriteBatch, h')"
      using ok(1) by (simp add: handleRequest_def hd rep checkRegionVersion_def chk wb(1) env db(1) h'(1))
    ultimately show ?thesis by simp
  qed
qed

lemma commit_loop_plain:
  assumes "env_DB env = D" "ready_to_apply h" "\<And>e. e \<in> set ents \<Longrightarrow> plain_entry (env_cmd env) e"
  shows "\<exists>h'. commit_loop env ents new_WriteBatch h = Some (new_WriteBatch, h') \<and>
    applied_to con h (fold (apply_data (env_cmd env) (h_region h)) ents (con (kv_of h))) h'"
  using assms(2,3)
proof (induction ents arbitrary: h)
  case Nil
  then show ?case using applied_to_same[OF Nil.prems(1) same_store_refl] by simp
next
  case (Cons e ents)
  have step: "\<exists>h1. (case e_Data e of None \<Rightarrow> Some (new_WriteBatch, h) | Some data \<Rightarrow> handle_entry env e data new_WriteBatch h) =
      Some (new_WriteBatch, h1) \<and> applied_to con h (apply_data (env_cmd env) (h_region h) e (con (kv_of h))) h1"
  proof (cases "e_Data e")
    case None
    then show ?thesis using applied_to_same[OF Cons.prems(1) same_store_refl] by (simp add: apply_data_def)
  next
    case (Some d)
    then obtain msg where msg: "env_cmd env d = Some msg" "plain_command msg" "e_EntryType e = EntryNormal"
      using Cons.prems(2)[of e] by (auto simp: plain_entry_def)
    then show ?thesis
      using handleRequest_plain[OF assms(1) Cons.prems(1) msg(2), of e] Some
      by (auto simp: handle_entry_def apply_data_def plain_command_def)
  qed
  then obtain h1 where h1: "(case e_Data e of None \<Rightarrow> Some (new_WriteBatch, h) | Some data \<Rightarrow> handle_entry env e data new_WriteBatch h) =
      Some (new_WriteBatch, h1)" "applied_to con h (apply_data (env_cmd env) (h_region h) e (con (kv_of h))) h1" by blast
  have r1: "ready_to_apply h1" "\<not> p_stopped (h_peer h1)" using h1(2) by (auto simp: applied_to_def ready_to_apply_def)
  obtain h' where h': "commit_loop env ents new_WriteBatch h1 = Some (new_WriteBatch, h')"
    "applied_to con h1 (fold (apply_data (env_cmd env) (h_region h1)) ents (con (kv_of h1))) h'"
    using Cons.IH[OF r1(1)] Cons.prems(2) by auto
  have "commit_loop env (e # ents) new_WriteBatch h = Some (new_WriteBatch, h')"
    using h1(1) h'(1) r1(2) by (cases "e_Data e") simp_all
  moreover have "applied_to con h (fold (apply_data (env_cmd env) (h_region h)) (e # ents) (con (kv_of h))) h'"
    using applied_to_trans[OF h1(2) h'(2)] by (simp add: applied_to_fields[OF h1(2)])
  ultimately show ?case by blast
qed

text \<open>The whole call: the peer after the loop, with the applied index recorded in memory and in the engine.\<close>

lemma HandleCommitEnts_run:
  assumes env: "env_DB env = D" and h: "ready_to_apply h" "as_TruncatedState (ps_applyState (ps_of (h_peer h))) \<noteq> None"
    and ents: "ents \<noteq> []" "\<And>e. e \<in> set ents \<Longrightarrow> plain_entry (env_cmd env) e"
  defines "as \<equiv> (ps_applyState (ps_of (h_peer h)))\<lparr>as_AppliedIndex := e_Index (last ents)\<rparr>"
    and "m \<equiv> fold (apply_data (env_cmd env) (h_region h)) ents (con (kv_of h))"
  shows "\<exists>h1 db. applied_to con h m h1 \<and> con db = m(ApplyStateKey (p_regionId (h_peer h)) \<mapsto> VApplyState as) \<and>
    HandleCommitEnts env ents h =
      Some (set_kv db (h1\<lparr>h_peer := set_ps ((ps_of (h_peer h1))\<lparr>ps_applyState := as\<rparr>) (h_peer h1)\<rparr>))"
proof -
  obtain h1 where h1: "commit_loop env ents new_WriteBatch h = Some (new_WriteBatch, h1)" "applied_to con h m h1"
    using commit_loop_plain[OF env h(1) ents(2)] m_def by blast
  note f1 = applied_to_fields[OF h1(2)]
  define h2 where "h2 = h1\<lparr>h_peer := set_ps ((ps_of (h_peer h1))\<lparr>ps_applyState := as\<rparr>) (h_peer h1)\<rparr>"
  define wb where "wb = wb_SetMeta (ApplyStateKey (p_regionId (h_peer h1))) (VApplyState as) new_WriteBatch"
  have f: "kv_of h2 = kv_of h1" "p_regionId (h_peer h2) = p_regionId (h_peer h1)"
    by (simp_all add: h2_def kv_of_def ps_of_def set_ps_def)
  have nonempty: "\<not> value_empty (VApplyState as)" using h(2) by (simp add: as_def)
  have stop: "\<not> p_stopped (h_peer h1)" using f1(7) by (simp add: ready_to_apply_def)
  have "HandleCommitEnts env ents h = Some (set_kv (snd (WriteToDB D wb (kv_of h2))) h2)"
    using h1(1) ents(1) f(2) env stop f1(2) by (simp add: HandleCommitEnts_def as_def h2_def wb_def Let_def)
  moreover have "con (snd (WriteToDB D wb (kv_of h2))) = m(ApplyStateKey (p_regionId (h_peer h)) \<mapsto> VApplyState as)"
    using WriteToDB_snd[of wb "kv_of h2"] nonempty f1 by (simp add: wb_def f del: value_empty.simps)
  ultimately show ?thesis using h1(2) unfolding h2_def by blast
qed

lemma HandleCommitEnts_plain:
  assumes env: "env_DB env = D" and h: "ready_to_apply h" "as_TruncatedState (ps_applyState (ps_of (h_peer h))) \<noteq> None"
    and ents: "ents \<noteq> []" "\<And>e. e \<in> set ents \<Longrightarrow> plain_entry (env_cmd env) e"
  shows "\<exists>h'. HandleCommitEnts env ents h = Some h' \<and>
    con (kv_of h') = (fold (apply_data (env_cmd env) (h_region h)) ents (con (kv_of h)))
      (ApplyStateKey (p_regionId (h_peer h)) \<mapsto>
         VApplyState ((ps_applyState (ps_of (h_peer h)))\<lparr>as_AppliedIndex := e_Index (last ents)\<rparr>)) \<and>
    AppliedIndex (ps_of (h_peer h')) = e_Index (last ents) \<and> h_region h' = h_region h \<and> ready_to_apply h'"
proof -
  from HandleCommitEnts_run[OF assms] obtain h1 db where h1: "applied_to con h (fold (apply_data (env_cmd env) (h_region h)) ents (con (kv_of h))) h1"
    and db: "con db = (fold (apply_data (env_cmd env) (h_region h)) ents (con (kv_of h)))(ApplyStateKey (p_regionId (h_peer h)) \<mapsto>
      VApplyState ((ps_applyState (ps_of (h_peer h)))\<lparr>as_AppliedIndex := e_Index (last ents)\<rparr>))"
    and eq: "HandleCommitEnts env ents h = Some (set_kv db (h1\<lparr>h_peer := set_ps ((ps_of (h_peer h1))\<lparr>ps_applyState :=
      (ps_applyState (ps_of (h_peer h)))\<lparr>as_AppliedIndex := e_Index (last ents)\<rparr>\<rparr>) (h_peer h1)\<rparr>))" by blast
  define h2 where "h2 = h1\<lparr>h_peer := set_ps ((ps_of (h_peer h1))\<lparr>ps_applyState :=
      (ps_applyState (ps_of (h_peer h)))\<lparr>as_AppliedIndex := e_Index (last ents)\<rparr>\<rparr>) (h_peer h1)\<rparr>"
  have "h_region h2 = h_region h1" "ready_to_apply h2 = ready_to_apply h1"
      "AppliedIndex (ps_of (h_peer (set_kv db h2))) = e_Index (last ents)"
    by (simp_all add: h2_def h_region_def p_Region_def ps_of_def set_ps_def ready_to_apply_def AppliedIndex_def set_kv_def set_engines_def)
  then show ?thesis using eq db applied_to_fields[OF h1] unfolding h2_def[symmetric] by simp
qed

end

text \<open>
  C15 (refinement): applying committed entries refines the state machine of the log. On an engine whose
  writes succeed, for a peer that is not stopped, \<open>HandleCommitEnts\<close> returns for every list of put,
  delete and snapshot commands. The contents of the engine are then the commands applied in order, a
  command of another region version or with a key outside the region being skipped, together with the
  apply state that records the last index. Nothing depends on the proposals that wait on the peer, so
  replicas with equal contents stay equal.
\<close>

theorem HandleCommitEnts_refines:
  assumes "reliable_engine (env_DB env) con" "ready_to_apply h" "as_TruncatedState (ps_applyState (ps_of (h_peer h))) \<noteq> None"
    and "ents \<noteq> []" "\<And>e. e \<in> set ents \<Longrightarrow> plain_entry (env_cmd env) e"
  shows "\<exists>h'. HandleCommitEnts env ents h = Some h' \<and>
    con (kv_of h') = (fold (apply_data (env_cmd env) (h_region h)) ents (con (kv_of h)))
      (ApplyStateKey (p_regionId (h_peer h)) \<mapsto>
         VApplyState ((ps_applyState (ps_of (h_peer h)))\<lparr>as_AppliedIndex := e_Index (last ents)\<rparr>)) \<and>
    AppliedIndex (ps_of (h_peer h')) = e_Index (last ents) \<and> h_region h' = h_region h \<and> ready_to_apply h'"
  using reliable_engine.HandleCommitEnts_plain[OF assms(1) refl assms(2-4)] assms(5) by blast

text \<open>A store with one region of three peers, as it is created.\<close>

definition demo_cfg :: KvConfig where
  "demo_cfg = \<lparr>cfg_RaftBaseTickInterval = 1, cfg_RaftLogGCTickInterval = 10, cfg_SplitRegionCheckTickInterval = 10,
     cfg_SchedulerHeartbeatTickInterval = 100, cfg_RaftElectionTimeoutTicks = 10, cfg_RaftHeartbeatTicks = 2,
     cfg_RaftLogGcCountLimit = 128000, cfg_RegionMaxSize = 144, cfg_RegionSplitSize = 96\<rparr>"

definition demo_peer :: "(bytes \<times> EngineValue) list peer" where
  "demo_peer = (case createPeer al_engine (\<lambda>b. None) demo_cfg (\<lambda>n. 0) 1 [] \<lparr>en_Kv = [], en_Raft = []\<rparr> demo_kv_region of
     Some (Inr p) \<Rightarrow> p)"

lemma demo_storage_new:
  "NewPeerStorage al_engine demo_kv_region [] \<lparr>en_Kv = [], en_Raft = []\<rparr> = Some (Inr demo_storage, ps_Engines demo_storage)"
  by (simp add: demo_storage_def NewPeerStorage_def InitRaftLocalState_def GetRaftLocalState_def InitApplyState_def
      GetApplyState_def PutMeta_def al_engine_def demo_kv_region_def RaftInitLogIndex_def RaftInitLogTerm_def
      zero_HardState_def Let_def)

lemma demo_kv_region_fields:
  "rg_Id demo_kv_region = 1" "rg_StartKey demo_kv_region = []" "rg_EndKey demo_kv_region = []"
  "rg_RegionEpoch demo_kv_region = Some \<lparr>ep_ConfVer = 1, ep_Version = 1\<rparr>"
  "FindPeer demo_kv_region (Suc 0) = Some \<lparr>peer_Id = 1, peer_StoreId = 1\<rparr>" "length (rg_Peers demo_kv_region) = 3"
  by (simp_all add: demo_kv_region_def FindPeer_def)

lemmas demo_peer_simps =
  demo_peer_def createPeer_def demo_kv_region_fields NewPeer_def demo_storage_new ps_isInitialized_def
      NewRawNode_def newRaft_def Config_validate_def demo_cfg_def None_id_def rand_mod_def newLog_def peer_storage_ops_def
      ps_FirstIndex_def ps_LastIndex_def ps_Entries_def checkRange_def ps_Term_def ps_InitialState_def truncatedIndex_def truncatedTerm_def
      demo_storage_eq demo_raft_state_def demo_apply_state_def value_or_def errPanic_def u64_add_def u64_sub_def
      IsEmptyHardState_def zero_HardState_def Let_def newTicker_def ps_of_def p_Term_def ConfStateFromRegion_def

lemma demo_peer_created:
  "createPeer al_engine (\<lambda>b. None) demo_cfg (\<lambda>n. 0) 1 [] \<lparr>en_Kv = [], en_Raft = []\<rparr> demo_kv_region = Some (Inr demo_peer)"
  "ps_of demo_peer = demo_storage" "p_proposals demo_peer = []" "\<not> p_stopped demo_peer" "p_regionId demo_peer = 1"
  "p_Term demo_peer = 5"
  by (simp_all add: demo_peer_simps)

definition demo_header :: RaftRequestHeader where
  "demo_header = \<lparr>rh_RegionId = 1, rh_Peer = Some \<lparr>peer_Id = 1, peer_StoreId = 1\<rparr>,
     rh_RegionEpoch = Some \<lparr>ep_ConfVer = 1, ep_Version = 1\<rparr>, rh_Term = 0\<rparr>"

definition demo_put :: "bytes \<Rightarrow> RaftCmdRequest" where
  "demo_put key = \<lparr>rc_Header = Some demo_header, rc_Requests = [\<lparr>rq_CmdType = CmdType_Put, rq_Get = None,
     rq_Put = Some \<lparr>put_Cf = CfDefault, put_Key = key, put_Value = [1]\<rparr>, rq_Delete = None\<rparr>], rc_AdminRequest = None\<rparr>"

definition demo_env :: "(bytes \<times> EngineValue) list Env" where
  "demo_env = \<lparr>env_DB = al_engine, env_snap = (\<lambda>b. None), env_cmd = (\<lambda>d. Some (demo_put d)), env_cmd_bytes = (\<lambda>m. Some []),
     env_cc = (\<lambda>d. None), env_cc_bytes = (\<lambda>cc. Inr []), env_rand = (\<lambda>n. 0), env_snapFile = (\<lambda>k. None),
     env_sendFile = (\<lambda>k. None)\<rparr>"

definition demo_handler :: "(bytes \<times> EngineValue) list Handler" where
  "demo_handler = \<lparr>h_peer = demo_peer, h_cfg = demo_cfg,
     h_storeMeta = \<lparr>regionRanges = \<lparr>degree = 2, len = 0, root = None\<rparr>, regions = fmempty, pendingVotes = []\<rparr>,
     h_trans = [], h_answers = [], h_txns = [], h_router = \<lparr>rt_peers = [1], rt_peerSender = [], rt_storeSender = []\<rparr>,
     h_newPeers = [], h_schedulerTasks = [], h_gcTasks = [], h_splitCheckTasks = [], h_tickDriver = [],
     h_deletedSnaps = []\<rparr>"

lemma demo_handler_ready: "ready_to_apply demo_handler" "h_region demo_handler = demo_kv_region"
    "ps_of (h_peer demo_handler) = demo_storage" "p_regionId (h_peer demo_handler) = 1"
  by (simp_all add: ready_to_apply_def demo_handler_def demo_peer_created h_region_def p_Region_def demo_storage_eq
      demo_kv_region_fields)

lemma demo_put_plain: "plain_command (demo_put k)"
  by (simp add: plain_command_def demo_put_def demo_header_def)

theorem HandleCommitEnts_refines_witness:
  "\<exists>h'. HandleCommitEnts demo_env [zero_Entry\<lparr>e_Term := 5, e_Index := 6, e_Data := Some [7]\<rparr>] demo_handler = Some h' \<and>
     map_of (kv_of h') (KeyWithCF CfDefault [7]) = Some (VBytes [1]) \<and> AppliedIndex (ps_of (h_peer h')) = 6"
proof -
  have eng: "reliable_engine (env_DB demo_env) map_of" by (simp add: demo_env_def al.reliable_engine_axioms)
  have ts: "as_TruncatedState (ps_applyState (ps_of (h_peer demo_handler))) \<noteq> None"
    by (simp add: demo_handler_ready demo_storage_eq demo_apply_state_def)
  have pl: "plain_entry (env_cmd demo_env) (zero_Entry\<lparr>e_Term := 5, e_Index := 6, e_Data := Some [7]\<rparr>)"
    using demo_put_plain by (simp add: plain_entry_def zero_Entry_def demo_env_def)
  have "KeyWithCF CfDefault [7] \<noteq> ApplyStateKey 1" by (rule cf_key_not_local) (simp add: CFs_def)
  with HandleCommitEnts_refines[OF eng demo_handler_ready(1) ts, of "[zero_Entry\<lparr>e_Term := 5, e_Index := 6, e_Data := Some [7]\<rparr>]"] pl
  show ?thesis
    by (auto simp: demo_handler_ready apply_data_def demo_env_def command_effect_def demo_put_def demo_header_def
        demo_kv_region_fields getKey_def in_range_def request_effect_def)
qed

section \<open>Answers that are lost\<close>

text \<open>
  C17 (error): reading a key that is not there stops the server. When a committed get command passes the
  checks, its proposal is at the head of the queue and the key has no value, \<open>handleRequest\<close> panics
  instead of answering that the key was not found.
\<close>

theorem Get_missing_panics:
  assumes "rc_Requests msg = [req]" "rq_CmdType req = CmdType_Get" "rq_Get req = Some g"
    and "rc_Header msg = Some hdr" "rh_RegionEpoch hdr = rg_RegionEpoch (h_region h)"
    and "get_Key g = [] \<or> in_range (rg_StartKey (h_region h)) (rg_EndKey (h_region h)) (get_Key g)"
    and "p_proposals (h_peer h) = p # ps" "pp_term p = e_Term ent" "pp_index p = e_Index ent"
    and "GetCF (env_DB env) (kv_of h) (get_Cf g) (get_Key g) = Inl ErrKeyNotFound"
  shows "handleRequest env msg ent new_WriteBatch h = None"
proof (cases "rg_RegionEpoch (h_region h)")
  case None
  then show ?thesis using assms(1,4) by (simp add: handleRequest_def checkRegionVersion_def)
next
  case (Some ep)
  have key: "checkKeyRange ent req h = Some (True, h)"
    using assms(6) by (auto simp: checkKeyRange_def getKey_def assms(2,3) simp flip: CheckKeyInRegion_iff)
  have w: "WriteToDB (env_DB env) new_WriteBatch (kv_of h) = (None, kv_of h)"
    by (simp add: WriteToDB_def new_WriteBatch_def)
  have "popProposal (e_Term ent) (e_Index ent) (set_kv (kv_of h) h) =
      (Some p, (set_kv (kv_of h) h)\<lparr>h_peer := (h_peer (set_kv (kv_of h) h))\<lparr>p_proposals := ps\<rparr>\<rparr>)"
    using assms(7-9) by (simp add: popProposal_def)
  moreover have "kv_of (h'\<lparr>h_peer := (h_peer h')\<lparr>p_proposals := ps\<rparr>\<rparr>) = kv_of h'" for h' :: "'a Handler"
    by (simp add: kv_of_def ps_of_def)
  ultimately have "handleProposal env req ent (set_kv (kv_of h) h) = None"
    using assms(2,3,9,10) by (simp add: handleProposal_def)
  then show ?thesis
    using assms(1,4,5) Some by (simp add: handleRequest_def checkRegionVersion_def key request_write_def assms(2) w)
qed

theorem Get_missing_panics_witness:
  "handleRequest demo_env (demo_put [] \<lparr>rc_Requests := [\<lparr>rq_CmdType = CmdType_Get,
      rq_Get = Some \<lparr>get_Cf = CfDefault, get_Key = [9]\<rparr>, rq_Put = None, rq_Delete = None\<rparr>]\<rparr>)
     (zero_Entry\<lparr>e_Term := 5, e_Index := 6\<rparr>) new_WriteBatch
     (demo_handler\<lparr>h_peer := demo_peer\<lparr>p_proposals := [\<lparr>pp_index = 6, pp_term = 5, pp_cb = Some 0\<rparr>]\<rparr>\<rparr>) = None"
proof (rule Get_missing_panics[where g = "\<lparr>get_Cf = CfDefault, get_Key = [9]\<rparr>" and hdr = demo_header and ps = "[]"
      and req = "\<lparr>rq_CmdType = CmdType_Get, rq_Get = Some \<lparr>get_Cf = CfDefault, get_Key = [9]\<rparr>, rq_Put = None, rq_Delete = None\<rparr>"
      and p = "\<lparr>pp_index = 6, pp_term = 5, pp_cb = Some 0\<rparr>"])
  have "KeyWithCF CfDefault [9] \<noteq> ApplyStateKey 1" by (rule cf_key_not_local) (simp add: CFs_def)
  then show "GetCF (env_DB demo_env) (kv_of (demo_handler\<lparr>h_peer := demo_peer\<lparr>p_proposals := [\<lparr>pp_index = 6, pp_term = 5, pp_cb = Some 0\<rparr>]\<rparr>\<rparr>))
      (get_Cf \<lparr>get_Cf = CfDefault, get_Key = [9]\<rparr>) (get_Key \<lparr>get_Cf = CfDefault, get_Key = [9]\<rparr>) = Inl ErrKeyNotFound"
    using demo_peer_created(2) by (simp add: GetCF_def demo_env_def al_engine_def kv_of_def ps_of_def demo_storage_eq)
qed (use demo_peer_created(2) in \<open>simp_all add: demo_put_def demo_header_def h_region_def p_Region_def ps_of_def demo_storage_eq
    demo_kv_region_fields in_range_def zero_Entry_def\<close>)

end
