(* ===== verification/Raft_Storage_Frame.thy ===== *)
theory Raft_Storage_Frame
  imports Raft_Frame
begin

text \<open>
  What a step leaves alone in the storage. A peer reads its storage through the interface and only
  \<open>Snapshot\<close> may change it, so every property of the storage that \<open>Snapshot\<close> keeps is kept by every
  operation of the peer, together with its id and the implementation of the storage.
\<close>

definition stored :: "'s StorageOps \<Rightarrow> ('s \<Rightarrow> bool) \<Rightarrow> u64 \<Rightarrow> 's Raft \<Rightarrow> bool" where
  "stored ops Q i r \<longleftrightarrow> storage_ops (r_RaftLog r) = ops \<and> Q (storage (r_RaftLog r)) \<and> r_id r = i"

lemma stored_send [simp]: "stored ops Q i (send m r) = stored ops Q i r"
  by (simp add: stored_def send_def)

lemma stored_set_pr [simp]: "stored ops Q i (set_pr p pr r) = stored ops Q i r"
  by (simp add: stored_def set_pr_def)

lemma stored_fields [simp]:
  "stored ops Q i (r\<lparr>r_Term := t\<rparr>) = stored ops Q i r" "stored ops Q i (r\<lparr>r_Lead := l\<rparr>) = stored ops Q i r"
  "stored ops Q i (r\<lparr>r_State := s\<rparr>) = stored ops Q i r" "stored ops Q i (r\<lparr>r_Vote := v\<rparr>) = stored ops Q i r"
  "stored ops Q i (r\<lparr>VoteTotal := a\<rparr>) = stored ops Q i r" "stored ops Q i (r\<lparr>VoteReceived := a\<rparr>) = stored ops Q i r"
  "stored ops Q i (r\<lparr>heartbeatElapsed := a'\<rparr>) = stored ops Q i r" "stored ops Q i (r\<lparr>electionElapsed := a'\<rparr>) = stored ops Q i r"
  "stored ops Q i (r\<lparr>leadTransferee := l\<rparr>) = stored ops Q i r" "stored ops Q i (r\<lparr>PendingConfIndex := l\<rparr>) = stored ops Q i r"
  "stored ops Q i (r\<lparr>electionTimeoutRandom := a'\<rparr>) = stored ops Q i r" "stored ops Q i (r\<lparr>rand_src := f\<rparr>) = stored ops Q i r"
  "stored ops Q i (r\<lparr>votes := vs\<rparr>) = stored ops Q i r" "stored ops Q i (r\<lparr>Prs := prs\<rparr>) = stored ops Q i r"
  "stored ops Q i (r\<lparr>peers := ps\<rparr>) = stored ops Q i r"
  by (simp_all add: stored_def)

lemma stored_log:
  "storage_ops l = storage_ops (r_RaftLog r) \<Longrightarrow> storage l = storage (r_RaftLog r) \<Longrightarrow>
   stored ops Q i (r\<lparr>r_RaftLog := l\<rparr>) = stored ops Q i r"
  by (simp add: stored_def)

lemma stored_fold:
  "(\<And>x r. stored ops Q i r \<Longrightarrow> stored ops Q i (f x r)) \<Longrightarrow> stored ops Q i r \<Longrightarrow> stored ops Q i (fold f xs r)"
  by (induction xs arbitrary: r) auto

lemma propose_entry_stored: "stored ops Q i r \<Longrightarrow> stored ops Q i (propose_entry e r)"
  by (simp add: propose_entry_def Let_def stored_def AppendEntry_def)

lemma handleMsgPropose_stored: "handleMsgPropose m r = Some r' \<Longrightarrow> stored ops Q i r \<Longrightarrow> stored ops Q i r'"
  using stored_fold[of ops Q i propose_entry r "m_Entries m"] propose_entry_stored[of ops Q i]
  by (auto simp: handleMsgPropose_def Let_def stored_log elim!: bind_SomeE split: if_splits)

lemma becomeFollower_stored: "becomeFollower t l r = Some r' \<Longrightarrow> stored ops Q i r \<Longrightarrow> stored ops Q i r'"
  by (auto simp: becomeFollower_def elim!: bind_SomeE)

lemma sendHeartbeats_stored: "stored ops Q i r \<Longrightarrow> stored ops Q i (sendHeartbeats r)"
  unfolding sendHeartbeats_def by (rule stored_fold) (auto simp: sendHeartbeat_def)

lemma requestVotes_stored:
  assumes "requestVotes r = Some r'" "stored ops Q i r"
  shows "stored ops Q i r'"
  by (rule foldM_invariant[where P = "stored ops Q i", OF assms(1)[unfolded requestVotes_def] assms(2)])
     (auto simp: requestVote_def Let_def split: if_splits elim!: bind_SomeE)

lemma handleVoteRequest_stored: "handleVoteRequest m r = Some r' \<Longrightarrow> stored ops Q i r \<Longrightarrow> stored ops Q i r'"
  by (auto simp: handleVoteRequest_def Let_def elim!: bind_SomeE split: if_splits) (auto intro: becomeFollower_stored)

lemma handleAppendAccepted_stored: "handleAppendAccepted m r = Some r' \<Longrightarrow> stored ops Q i r \<Longrightarrow> stored ops Q i r'"
  by (auto simp: handleAppendAccepted_def Let_def stored_log elim!: bind_SomeE split: if_splits intro!: stored_fold)

lemma ae_merge_storage: "storage_ops (ae_merge m k d l) = storage_ops l" "storage (ae_merge m k d l) = storage l"
  by (simp_all add: ae_merge_def split: prod.splits)

text \<open>The end of the append handler, where the message has been accepted.\<close>

definition ae_apply :: "Message \<Rightarrow> Message \<Rightarrow> 's Raft \<Rightarrow> 's Raft option" where
  "ae_apply m reply r =
     (case ae_attach m (r_RaftLog r) of
        None \<Rightarrow> do { reply \<leftarrow> ae_conflict m (r_RaftLog r) reply; Some (send reply r) }
      | Some (kept, dropped) \<Rightarrow> do {
          let l = ae_merge m kept dropped (r_RaftLog r);
          let reply = reply\<lparr>m_Reject := False, m_Index := LastIndex l\<rparr>;
          let lastNewEntIndex = (if m_Entries m \<noteq> [] then e_Index (last (m_Entries m)) else m_Index m);
          if m_Commit m > committed l then do {
            let l = l\<lparr>committed := raft_max (raft_min (m_Commit m) lastNewEntIndex) (committed l)\<rparr>;
            if committed l > LastIndex l then None else Some (send reply (r\<lparr>r_RaftLog := l\<rparr>))
          }
          else Some (send reply (r\<lparr>r_RaftLog := l\<rparr>))
        })"

lemma ae_apply_stored: "ae_apply m reply r = Some r' \<Longrightarrow> stored ops Q i r \<Longrightarrow> stored ops Q i r'"
  by (auto simp: ae_apply_def Let_def stored_log ae_merge_storage split: option.splits if_splits elim!: bind_SomeE)

lemma handleAppendEntries_eq:
  assumes "\<not> m_CommitUse m" "\<not> m_Term m < r_Term r"
  shows "handleAppendEntries m r = do {
    r1 \<leftarrow> (if r_State (r\<lparr>r_Term := m_Term m, r_Lead := m_From m\<rparr>) \<noteq> StateFollower
      then becomeFollower (m_Term m) (m_From m) (r\<lparr>r_Term := m_Term m, r_Lead := m_From m\<rparr>)
      else Some (r\<lparr>r_Term := m_Term m, r_Lead := m_From m\<rparr>));
    ae_apply m (zero_Message\<lparr>m_MsgType := MsgAppendResponse, m_From := r_id r, m_To := m_From m, m_Reject := True,
      m_Term := r_Term (r\<lparr>r_Term := m_Term m, r_Lead := m_From m\<rparr>)\<rparr>) r1 }"
  unfolding handleAppendEntries_def ae_apply_def Let_def by (simp only: assms if_False)

lemma handleAppendEntries_stored:
  assumes "handleAppendEntries m r = Some r'" "stored ops Q i r"
  shows "stored ops Q i r'"
proof (cases "m_CommitUse m \<or> m_Term m < r_Term r")
  case True
  show ?thesis
  proof (cases "m_CommitUse m")
    case True
    with assms(1) have "r' = r\<lparr>r_RaftLog := (r_RaftLog r)\<lparr>committed := raft_max (committed (r_RaftLog r)) (m_Commit m)\<rparr>\<rparr>"
      by (simp add: handleAppendEntries_def Let_def split: if_splits)
    then show ?thesis using assms(2) by (simp add: stored_log)
  next
    case False
    with True assms show ?thesis by (auto simp: handleAppendEntries_def Let_def)
  qed
next
  case False
  let ?r = "r\<lparr>r_Term := m_Term m, r_Lead := m_From m\<rparr>"
  from False assms(1) obtain r1 reply where
      r1: "(if r_State ?r \<noteq> StateFollower then becomeFollower (m_Term m) (m_From m) ?r else Some ?r) = Some r1"
    and res: "ae_apply m reply r1 = Some r'"
    unfolding handleAppendEntries_eq[OF conjunct1[OF False[unfolded de_Morgan_disj]] conjunct2[OF False[unfolded de_Morgan_disj]]]
    by (elim bind_SomeE) blast
  have "stored ops Q i ?r" using assms(2) by simp
  then have "stored ops Q i r1"
    using r1 becomeFollower_stored[of "m_Term m" "m_From m" ?r r1 ops Q i] by (cases "r_State r = StateFollower") auto
  then show ?thesis using ae_apply_stored[OF res] by blast
qed

lemma handleHeartbeat_stored: "handleHeartbeat m r = Some r' \<Longrightarrow> stored ops Q i r \<Longrightarrow> stored ops Q i r'"
  by (auto simp: handleHeartbeat_def Let_def elim!: bind_SomeE split: if_splits intro: becomeFollower_stored)

lemma handleSnapshot_stored:
  assumes "handleSnapshot m r = Some r'" "stored ops Q i r"
  shows "stored ops Q i r'"
proof -
  obtain snap md where sn: "m_Snapshot m = Some snap" "sn_Metadata snap = Some md"
    using assms(1) by (auto simp: handleSnapshot_def elim!: bind_SomeE)
  show ?thesis
  proof (cases "sm_Index md \<le> LastIndex (r_RaftLog r)")
    case True
    then show ?thesis using assms sn by (simp add: handleSnapshot_def)
  next
    case False
    with assms(1) sn obtain prs ps r1 rep where r1: "becomeFollower (m_Term m) (m_From m) (r\<lparr>r_RaftLog := (r_RaftLog r)
        \<lparr>lastIdxOfSnapshot := sm_Index md, lastTermOfSnapshot := sm_Term md, committed := sm_Index md, applied := sm_Index md,
         stabled := sm_Index md, pendingSnapshot := Some snap, entries := []\<rparr>, peers := ps, Prs := prs\<rparr>) = Some r1" "r' = send rep r1"
      by (auto simp: handleSnapshot_def Let_def elim!: bind_SomeE)
    show ?thesis unfolding r1(2) stored_send by (rule becomeFollower_stored[OF r1(1)]) (simp add: stored_log assms(2))
  qed
qed

locale snapshot_closed =
  fixes ops :: "'s StorageOps" and Q :: "'s \<Rightarrow> bool"
  assumes closed: "Q s \<Longrightarrow> so_Snapshot ops s = Some (res, s') \<Longrightarrow> Q s'"
begin

lemma sendSnapshot_stored:
  assumes "sendSnapshot to r = Some r'" "stored ops Q i r"
  shows "stored ops Q i r'"
proof -
  have st: "storage_ops (r_RaftLog r) = ops" "Q (storage (r_RaftLog r))" "r_id r = i" using assms(2) by (simp_all add: stored_def)
  obtain res s' where res: "so_Snapshot ops (storage (r_RaftLog r)) = Some (res, s')"
    using assms(1) st(1) by (auto simp: sendSnapshot_def elim!: bind_SomeE)
  have "stored ops Q i (r\<lparr>r_RaftLog := (r_RaftLog r)\<lparr>storage := s'\<rparr>\<rparr>)"
    using st closed[OF st(2) res] by (simp add: stored_def)
  then show ?thesis
    using assms(1) st(1) res by (auto simp: sendSnapshot_def Let_def split: sum.splits elim!: bind_SomeE)
qed

lemma sendAppend_stored: "sendAppend to r = Some (b, r') \<Longrightarrow> stored ops Q i r \<Longrightarrow> stored ops Q i r'"
  by (auto simp: sendAppend_def Let_def split: if_splits elim!: bind_SomeE intro: sendSnapshot_stored)

lemma broadCastAE_stored:
  assumes "broadCastAE r = Some r'" "stored ops Q i r"
  shows "stored ops Q i r'"
  by (rule foldM_invariant[where P = "stored ops Q i", OF assms(1)[unfolded broadCastAE_def] assms(2)])
     (auto split: if_splits intro: sendAppend_stored)

lemma becomeLeader_stored: "becomeLeader r = Some r' \<Longrightarrow> stored ops Q i r \<Longrightarrow> stored ops Q i r'"
  by (auto simp: becomeLeader_def Let_def elim!: bind_SomeE) (erule broadCastAE_stored, erule handleMsgPropose_stored, simp)

lemma becomeCandidate_stored: "becomeCandidate r = Some r' \<Longrightarrow> stored ops Q i r \<Longrightarrow> stored ops Q i r'"
  by (auto simp: becomeCandidate_def Let_def elim!: bind_SomeE split: if_splits) (erule becomeLeader_stored, simp)

lemma campaign_stored: "(do { r \<leftarrow> becomeCandidate r; requestVotes r }) = Some r' \<Longrightarrow> stored ops Q i r \<Longrightarrow> stored ops Q i r'"
  by (auto elim!: bind_SomeE intro: becomeCandidate_stored requestVotes_stored)

lemma tick_stored: "tick r = Some r' \<Longrightarrow> stored ops Q i r \<Longrightarrow> stored ops Q i r'"
  by (auto simp: tick_def Let_def sendHeartbeats_stored split: if_splits intro: campaign_stored)

lemma handleVoteResponse_stored: "handleVoteResponse m r = Some r' \<Longrightarrow> stored ops Q i r \<Longrightarrow> stored ops Q i r'"
  by (auto simp: handleVoteResponse_def Let_def split: if_splits intro: becomeLeader_stored becomeFollower_stored)

lemma Step_Hup_stored: "Step_Hup r = Some r' \<Longrightarrow> stored ops Q i r \<Longrightarrow> stored ops Q i r'"
  by (auto simp: Step_Hup_def split: if_splits intro: campaign_stored)

lemma handleLeaderTransfer_stored: "handleLeaderTransfer m r = Some r' \<Longrightarrow> stored ops Q i r \<Longrightarrow> stored ops Q i r'"
  by (auto simp: handleLeaderTransfer_def Let_def split: if_splits elim!: bind_SomeE) ((erule Step_Hup_stored sendAppend_stored, simp)+)

lemma handleMsgAppendResponse_stored: "handleMsgAppendResponse m r = Some r' \<Longrightarrow> stored ops Q i r \<Longrightarrow> stored ops Q i r'"
  by (auto simp: handleMsgAppendResponse_def handleAppendRejected_def Let_def split: if_splits elim!: bind_SomeE
      intro: handleAppendAccepted_stored sendAppend_stored)

lemma handleHeartbeatResponse_stored: "handleHeartbeatResponse m r = Some r' \<Longrightarrow> stored ops Q i r \<Longrightarrow> stored ops Q i r'"
  by (auto simp: handleHeartbeatResponse_def split: if_splits intro: becomeFollower_stored sendSnapshot_stored sendAppend_stored)

lemma propose_stored: "(do { r \<leftarrow> handleMsgPropose m r; broadCastAE r }) = Some r' \<Longrightarrow> stored ops Q i r \<Longrightarrow> stored ops Q i r'"
  by (auto elim!: bind_SomeE intro: handleMsgPropose_stored broadCastAE_stored)

lemma timeout_stored: "handleMsgTimeOut r = Some r' \<Longrightarrow> stored ops Q i r \<Longrightarrow> stored ops Q i r'"
  by (auto simp: handleMsgTimeOut_def split: if_splits intro: Step_Hup_stored)

lemma Step_stored:
  assumes "Step m r = Some r'" "stored ops Q i r"
  shows "stored ops Q i r'"
proof (cases "m_MsgType m = MsgHup")
  case True
  then show ?thesis using assms Step_Hup_stored by (simp add: Step_Hup_eq)
next
  case False
  note hs = handleSnapshot_stored[OF _ assms(2), of m r'] handleAppendEntries_stored[OF _ assms(2), of m r']
    handleVoteRequest_stored[OF _ assms(2), of m r'] handleHeartbeat_stored[OF _ assms(2), of m r']
    handleLeaderTransfer_stored[OF _ assms(2), of m r'] handleVoteResponse_stored[OF _ assms(2), of m r']
    propose_stored[OF _ assms(2), of m r'] handleMsgAppendResponse_stored[OF _ assms(2), of m r']
    handleHeartbeatResponse_stored[OF _ assms(2), of m r'] timeout_stored[OF _ assms(2), of r']
  have beat: "stored ops Q i (sendHeartbeats (r\<lparr>heartbeatElapsed := 0\<rparr>))"
    using assms(2) by (simp add: sendHeartbeats_stored)
  show ?thesis
    using assms(1) False beat assms(2)
    by (cases "r_State r"; cases "m_MsgType m") (simp_all add: Step_def hs)
qed

end

end
