(* ===== verification/Peer_Admin.thy ===== *)
theory Peer_Admin
  imports Peer_Replay Raft_Storage_Frame
begin

text \<open>
  The administrative commands: what a membership change does to the region, to the raft
  instance, to the engines and to the tables of the store.
\<close>

section \<open>Sending does not touch the region\<close>

lemma ps_Snapshot_region:
  assumes "ps_Snapshot U ps = Some (r, ps')"
  shows "ps_region ps' = ps_region ps" "ps_Engines ps' = ps_Engines ps" "ps_applyState ps' = ps_applyState ps"
    "ps_raftState ps' = ps_raftState ps"
  using assms
  by (auto simp: ps_Snapshot_def request_snapshot_def Let_def split: if_splits option.splits elim!: bind_SomeE)

text \<open>The parts of a storage that sending leaves alone.\<close>

definition same_data :: "'db PeerStorage \<Rightarrow> 'db PeerStorage \<Rightarrow> bool" where
  "same_data ps ps' \<longleftrightarrow> ps_region ps' = ps_region ps \<and> ps_Engines ps' = ps_Engines ps \<and>
     ps_applyState ps' = ps_applyState ps \<and> ps_raftState ps' = ps_raftState ps"

lemma same_data_refl [simp]: "same_data ps ps"
  by (simp add: same_data_def)

lemma same_data_trans: "same_data a b \<Longrightarrow> same_data b c \<Longrightarrow> same_data a c"
  by (simp add: same_data_def)

abbreviation r_ps :: "'db PeerStorage Raft \<Rightarrow> 'db PeerStorage" where
  "r_ps r \<equiv> storage (r_RaftLog r)"

abbreviation r_ops :: "'db PeerStorage Raft \<Rightarrow> 'db PeerStorage StorageOps" where
  "r_ops r \<equiv> storage_ops (r_RaftLog r)"

interpretation ps_data: snapshot_closed "peer_storage_ops D U" "same_data ps" for D U ps
  by unfold_locales (auto simp: peer_storage_ops_def same_data_def ps_Snapshot_region)

lemma stored_data: "r_ops r = peer_storage_ops D U \<Longrightarrow> stored (peer_storage_ops D U) (same_data (r_ps r)) (r_id r) r"
  by (simp add: stored_def)

lemma broadCastAE_data:
  assumes "broadCastAE r = Some r'" "r_ops r = peer_storage_ops D U"
  shows "same_data (r_ps r) (r_ps r') \<and> r_ops r' = r_ops r"
  using ps_data.broadCastAE_stored[OF assms(1) stored_data[OF assms(2)]] assms(2) by (simp add: stored_def)

lemma recommit_frame:
  assumes "recommit r = Some res"
  shows "peers (snd res) = peers r \<and> storage (r_RaftLog (snd res)) = storage (r_RaftLog r) \<and>
    storage_ops (r_RaftLog (snd res)) = storage_ops (r_RaftLog r) \<and> r_id (snd res) = r_id r"
proof -
  define P where "P s \<longleftrightarrow> peers (snd s) = peers r \<and> storage (r_RaftLog (snd s)) = storage (r_RaftLog r) \<and>
    storage_ops (r_RaftLog (snd s)) = storage_ops (r_RaftLog r) \<and> r_id (snd s) = r_id r" for s :: "bool \<times> 'a Raft"
  have "P res"
  proof (rule foldM_invariant[where P = P, OF assms[unfolded recommit_def]])
    show "P (False, r)" by (simp add: P_def)
  next
    fix x s t
    assume P: "P s" and eq: "(case s of (newCommit, r) \<Rightarrow> do {
         matched \<leftarrow> count_reached x r;
         t \<leftarrow> Term (r_RaftLog r) x;
         Some (if t = r_Term r \<and> matched > length (peers r) div 2
               then (True, r\<lparr>r_RaftLog := (r_RaftLog r)\<lparr>committed := x\<rparr>\<rparr>)
               else (newCommit, r))
       }) = Some t"
    obtain c q where s: "s = (c, q)" by (cases s)
    obtain matched tm where t: "t = (if tm = r_Term q \<and> matched > length (peers q) div 2
        then (True, q\<lparr>r_RaftLog := (r_RaftLog q)\<lparr>committed := x\<rparr>\<rparr>) else (c, q))"
      using eq by (auto simp: s elim!: bind_SomeE)
    show "P t" using P by (simp add: P_def s t)
  qed
  then show ?thesis by (simp add: P_def)
qed

lemma removeNode_config:
  assumes "removeNode nid r = Some r'" "distinct (peers r)" "r_ops r = peer_storage_ops D U"
  shows "peers r' = filter (\<lambda>p. p \<noteq> nid) (peers r)" "same_data (r_ps r) (r_ps r')"
proof -
  have "peers r' = filter (\<lambda>p. p \<noteq> nid) (peers r) \<and> same_data (r_ps r) (r_ps r')"
  proof (cases "containsPeer nid r")
    case False
    then show ?thesis using assms(1) by (auto simp: removeNode_def containsPeer_def intro!: filter_True[symmetric])
  next
    case True
    define r1 where "r1 = r\<lparr>Prs := fmdrop nid (Prs r), peers := filter (\<lambda>p. p \<noteq> nid) (peers r)\<rparr>"
    have "removePeer nid (r\<lparr>Prs := fmdrop nid (Prs r)\<rparr>) = Some r1"
      using removePeer_loop_eq[OF assms(2), of 0 nid] by (simp add: removePeer_def r1_def)
    with assms(1) True obtain r2 where r2: "(if r_State r1 = StateLeader then do {
        res \<leftarrow> recommit r1; if fst res then broadCastAE (snd res) else Some (snd res) } else Some r1) = Some r2"
      "r' = r2\<lparr>PendingConfIndex := None_id\<rparr>"
      by (auto simp: removeNode_def elim!: bind_SomeE)
    have "peers r2 = peers r1 \<and> same_data (r_ps r1) (r_ps r2)"
    proof (cases "r_State r1 = StateLeader")
      case False
      then show ?thesis using r2(1) by simp
    next
      case True
      with r2(1) obtain res where res: "recommit r1 = Some res"
        "(if fst res then broadCastAE (snd res) else Some (snd res)) = Some r2" by (auto elim!: bind_SomeE)
      have f: "peers (snd res) = peers r1" "r_ps (snd res) = r_ps r1" "r_ops (snd res) = peer_storage_ops D U"
        using recommit_frame[OF res(1)] assms(3) by (simp_all add: r1_def)
      show ?thesis
      proof (cases "fst res")
        case True
        then have b: "broadCastAE (snd res) = Some r2" using res(2) by simp
        show ?thesis using broadCastAE_data[OF b f(3)] sends_frame(9)[OF sends_broadCastAE[OF b]] f by simp
      qed (use res(2) f in simp)
    qed
    then show ?thesis by (simp add: r2(2) r1_def)
  qed
  then show "peers r' = filter (\<lambda>p. p \<noteq> nid) (peers r)" "same_data (r_ps r) (r_ps r')" by blast+
qed

section \<open>Membership changes\<close>

abbreviation h_raft :: "'db Handler \<Rightarrow> 'db PeerStorage Raft" where
  "h_raft h \<equiv> rn_Raft (p_RaftGroup (h_peer h))"

text \<open>
  A peer in the invariant of the consensus module over its own storage, and a configuration that the
  raft instance and the region agree on.
\<close>

definition peer_ok :: "'db Env \<Rightarrow> ('db \<Rightarrow> bytes \<rightharpoonup> EngineValue) \<Rightarrow> 'db Handler \<Rightarrow> bool" where
  "peer_ok env con h \<longleftrightarrow> raft_ok (peer_storage_ops (env_DB env) (env_snap env)) (ps_wf con) (h_raft h) \<and>
     p_regionId (h_peer h) = rg_Id (h_region h)"

definition config_synced :: "'db Handler \<Rightarrow> bool" where
  "config_synced h \<longleftrightarrow> peers (h_raft h) = map peer_Id (rg_Peers (h_region h)) \<and> peers_ok (rg_Peers (h_region h))"

lemma ps_wf_region:
  assumes "ps_wf con ps" "rg_Id region = rg_Id (ps_region ps)" "en_Raft en = en_Raft (ps_Engines ps)"
    "ps_isInitialized ps \<or> rg_Peers region = []"
  shows "ps_wf con (ps\<lparr>ps_region := region, ps_Engines := en\<rparr>)"
proof -
  have "ps_ent con (ps\<lparr>ps_region := region, ps_Engines := en\<rparr>) = ps_ent con ps"
    using assms(2,3) by (simp add: ps_ent_def fun_eq_iff)
  then show ?thesis
    using assms unfolding ps_wf_def ps_isInitialized_def by (auto simp del: not_less)
qed

lemma raft_ok_storage:
  assumes "raft_ok ops I r" "I st"
  shows "raft_ok ops I (r\<lparr>r_RaftLog := (r_RaftLog r)\<lparr>storage := st\<rparr>\<rparr>)"
  using assms by (simp add: raft_ok_def)

lemma raft_ok_addNode:
  assumes "raft_ok ops I r"
  shows "raft_ok ops I (addNode nid r)"
  using assms by (auto simp: raft_ok_def addNode_def)

lemma addNode_peers:
  "peers (addNode nid r) = (if nid \<in> set (peers r) then peers r else peers r @ [nid])"
  "r_RaftLog (addNode nid r) = r_RaftLog r" "PendingConfIndex (addNode nid r) = 0"
  by (simp_all add: addNode_def containsPeer_def None_id_def)

text \<open>The handler after the region has been written and the tables updated, before the raft instance changes.\<close>

definition with_region :: "'db \<Rightarrow> Region \<Rightarrow> (u64, Peer) fmap \<Rightarrow> 'db Handler \<Rightarrow> 'db Handler" where
  "with_region db region cache h =
     h_setRegion region ((set_kv db h)\<lparr>h_peer := (h_peer (set_kv db h))\<lparr>p_peerCache := cache\<rparr>\<rparr>)"

lemma with_region_fields:
  "h_raft (with_region db region cache h) = (h_raft h)\<lparr>r_RaftLog := (r_RaftLog (h_raft h))\<lparr>storage :=
     (ps_of (h_peer h))\<lparr>ps_region := region, ps_Engines := (ps_Engines (ps_of (h_peer h)))\<lparr>en_Kv := db\<rparr>\<rparr>\<rparr>\<rparr>"
  "p_regionId (h_peer (with_region db region cache h)) = p_regionId (h_peer h)"
  "h_storeMeta (with_region db region cache h) = meta_setRegion region (h_storeMeta h)"
  by (simp_all add: with_region_def h_setRegion_def p_SetRegion_def ps_SetRegion_def set_kv_def set_engines_def set_ps_def ps_of_def)

lemma peer_ok_with_region:
  assumes "peer_ok env con h" "rg_Id region = rg_Id (h_region h)" "rg_Peers (h_region h) \<noteq> []"
  shows "raft_ok (peer_storage_ops (env_DB env) (env_snap env)) (ps_wf con) (h_raft (with_region db region cache h))"
  unfolding with_region_fields
proof (rule raft_ok_storage)
  show r: "raft_ok (peer_storage_ops (env_DB env) (env_snap env)) (ps_wf con) (h_raft h)"
    using assms(1) by (simp add: peer_ok_def)
  then have "ps_wf con (ps_of (h_peer h))" by (simp add: raft_ok_def ps_of_def)
  then show "ps_wf con ((ps_of (h_peer h))\<lparr>ps_region := region, ps_Engines := (ps_Engines (ps_of (h_peer h)))\<lparr>en_Kv := db\<rparr>\<rparr>)"
    using assms(2,3) by (intro ps_wf_region) (auto simp: h_region_def p_Region_def ps_isInitialized_def)
qed

text \<open>Telling the raft instance about a change keeps everything the storage holds.\<close>

definition changed_peers :: "ConfChange \<Rightarrow> u64 list \<Rightarrow> u64 list" where
  "changed_peers cc ps =
     (case cc_ChangeType cc of
        AddNode \<Rightarrow> if cc_NodeId cc \<in> set ps then ps else ps @ [cc_NodeId cc]
      | RemoveNode \<Rightarrow> filter (\<lambda>p. p \<noteq> cc_NodeId cc) ps)"

context kv_engine
begin

lemma ApplyConfChange_ok:
  assumes ok: "raft_ok (peer_storage_ops D U) (ps_wf con) (rn_Raft rn)"
    and dist: "distinct (peers (rn_Raft rn))" and nid: "cc_NodeId cc \<noteq> 0"
    and mem: "cc_ChangeType cc = RemoveNode \<Longrightarrow> cc_NodeId cc \<in> set (peers (rn_Raft rn))"
  shows "\<exists>cs rn'. ApplyConfChange cc rn = Some (cs, rn') \<and> raft_ok (peer_storage_ops D U) (ps_wf con) (rn_Raft rn') \<and>
    peers (rn_Raft rn') = changed_peers cc (peers (rn_Raft rn)) \<and> PendingConfIndex (rn_Raft rn') = 0 \<and>
    same_data (r_ps (rn_Raft rn)) (r_ps (rn_Raft rn'))"
proof (cases "cc_ChangeType cc")
  case AddNode
  then show ?thesis
    using nid raft_ok_addNode[OF ok, of "cc_NodeId cc"]
    by (simp add: ApplyConfChange_def None_id_def changed_peers_def addNode_peers)
next
  case RemoveNode
  let ?r = "rn_Raft rn"
  obtain r' where r': "removeNode (cc_NodeId cc) ?r = Some r'" "raft_ok (peer_storage_ops D U) (ps_wf con) r'"
      "PendingConfIndex r' = 0"
    using ps.removeNode_ok[OF ok dist, of "cc_NodeId cc"] mem[OF RemoveNode] by (auto simp del: One_nat_def)
  have "r_ops ?r = peer_storage_ops D U" using ok by (simp add: raft_ok_def)
  from removeNode_config[OF r'(1) dist this] RemoveNode nid r' show ?thesis
    by (simp add: ApplyConfChange_def None_id_def changed_peers_def)
qed

end

text \<open>An accepted change of another member: it decodes, passes the epoch check and really changes the configuration.\<close>

definition valid_change :: "'db Env \<Rightarrow> Entry \<Rightarrow> ConfChange \<Rightarrow> Peer list \<Rightarrow> 'db Handler \<Rightarrow> bool" where
  "valid_change env ent cc ps h \<longleftrightarrow>
     (\<exists>msg. env_cc env (case e_Data ent of None \<Rightarrow> [] | Some d \<Rightarrow> d) = Some cc \<and>
       env_cmd env (case cc_Context cc of None \<Rightarrow> [] | Some d \<Rightarrow> d) = Some msg \<and>
       CheckRegionEpoch msg (h_region h) True = Some None \<and>
       (case cc_ChangeType cc of
          AddNode \<Rightarrow> \<exists>admin change pr. rc_AdminRequest msg = Some admin \<and> ar_ChangePeer admin = Some change \<and>
            cp_Peer change = Some pr \<and> peer_Id pr = cc_NodeId cc \<and>
            cc_NodeId cc \<notin> peer_Id ` set (rg_Peers (h_region h)) \<and>
            peer_StoreId pr \<notin> peer_StoreId ` set (rg_Peers (h_region h)) \<and> ps = rg_Peers (h_region h) @ [pr]
        | RemoveNode \<Rightarrow> cc_NodeId cc \<in> peer_Id ` set (rg_Peers (h_region h)) \<and>
            ps = filter (\<lambda>p. peer_Id p \<noteq> cc_NodeId cc) (rg_Peers (h_region h)))) \<and>
     cc_NodeId cc \<noteq> 0 \<and> cc_NodeId cc \<noteq> r_id (h_raft h)"

lemma finish_ConfChange_with_region:
  "finish_ConfChange region cc ((set_kv db h)\<lparr>h_peer := (h_peer (set_kv db h))\<lparr>p_peerCache := cache\<rparr>\<rparr>) =
     map_option (\<lambda>(cs, rn). let h' = with_region db region cache h in h'\<lparr>h_peer := (h_peer h')\<lparr>p_RaftGroup := rn\<rparr>\<rparr>)
       (ApplyConfChange cc (p_RaftGroup (h_peer (with_region db region cache h))))"
  by (cases "ApplyConfChange cc (p_RaftGroup (h_peer (with_region db region cache h)))")
     (auto simp: finish_ConfChange_def with_region_def Let_def)

definition bumped :: "Region \<Rightarrow> RegionEpoch \<Rightarrow> Peer list \<Rightarrow> Region" where
  "bumped region ep ps = region\<lparr>rg_Peers := ps, rg_RegionEpoch := Some (ep\<lparr>ep_ConfVer := u64_add (ep_ConfVer ep) 1\<rparr>)\<rparr>"

context reliable_engine
begin

text \<open>Both kinds of change write the new region under the region's key and end in the same way.\<close>

lemma handleChangePeer_eq:
  assumes D: "D = env_DB env" and valid: "valid_change env ent cc ps h" and ep: "rg_RegionEpoch (h_region h) = Some ep"
    and ok: "peer_ok env con h" and sync: "config_synced h"
  defines "region \<equiv> bumped (h_region h) ep ps"
  shows "\<exists>db cache. handleChangePeer env ent h =
      finish_ConfChange region cc ((set_kv db h)\<lparr>h_peer := (h_peer (set_kv db h))\<lparr>p_peerCache := cache\<rparr>\<rparr>) \<and>
    con db = (con (kv_of h))(RegionStateKey (p_regionId (h_peer h)) := Some (VRegionState \<lparr>rls_State = PeerState_Normal, rls_Region = Some region\<rparr>))"
proof -
  obtain msg where msg: "env_cc env (case e_Data ent of None \<Rightarrow> [] | Some d \<Rightarrow> d) = Some cc"
      "env_cmd env (case cc_Context cc of None \<Rightarrow> [] | Some d \<Rightarrow> d) = Some msg"
      "CheckRegionEpoch msg (h_region h) True = Some None"
    using valid by (auto simp: valid_change_def)
  define wb where "wb = wb_SetMeta (RegionStateKey (p_regionId (h_peer h)))
    (VRegionState \<lparr>rls_State = PeerState_Normal, rls_Region = Some region\<rparr>) new_WriteBatch"
  obtain db where db: "WriteToDB (env_DB env) wb (kv_of h) = (None, db)" "con db = wb_apply wb (con (kv_of h))"
    using WriteToDB_ok[of wb "kv_of h"] D by auto
  have rid: "rg_Id (h_region h) = p_regionId (h_peer h)" using ok by (simp add: peer_ok_def)
  have con: "con db = (con (kv_of h))(RegionStateKey (p_regionId (h_peer h)) := Some (VRegionState \<lparr>rls_State = PeerState_Normal, rls_Region = Some region\<rparr>))"
    by (simp add: db(2) wb_def)
  show ?thesis
  proof (cases "cc_ChangeType cc")
    case AddNode
    with valid msg(1,2) obtain admin change pr where pr: "rc_AdminRequest msg = Some admin" "ar_ChangePeer admin = Some change"
        "cp_Peer change = Some pr" "peer_Id pr = cc_NodeId cc" "cc_NodeId cc \<notin> peer_Id ` set (rg_Peers (h_region h))"
        "peer_StoreId pr \<notin> peer_StoreId ` set (rg_Peers (h_region h))" "ps = rg_Peers (h_region h) @ [pr]"
      by (auto simp: valid_change_def)
    have "AddPeer_loop pr (rg_Peers (h_region h)) = Some True"
      unfolding AddPeer_loop_True_iff using pr(4-6) by (auto simp: image_def)
    then have add: "Region_AddPeer (h_region h) pr = Some ((h_region h)\<lparr>rg_Peers := ps\<rparr>, True)"
      by (simp add: Region_AddPeer_def pr(7))
    have bump: "bump_ConfVer ((h_region h)\<lparr>rg_Peers := ps\<rparr>) = Some region"
      by (simp add: bump_ConfVer_def ep region_def bumped_def)
    have wr: "WriteRegionState new_WriteBatch region PeerState_Normal = wb"
      by (simp add: WriteRegionState_def wb_def region_def bumped_def rid)
    have "handleChangePeer env ent h = finish_ConfChange region cc
        ((set_kv db h)\<lparr>h_peer := (h_peer (set_kv db h))\<lparr>p_peerCache := fmupd (peer_Id pr) pr (p_peerCache (h_peer (set_kv db h)))\<rparr>\<rparr>)"
      using AddNode msg pr(1-3) add bump wr db(1)
      by (simp add: handleChangePeer_def insertPeerCache_def Let_def)
    then show ?thesis using con by blast
  next
    case RemoveNode
    with valid have rm: "cc_NodeId cc \<in> peer_Id ` set (rg_Peers (h_region h))"
        "ps = filter (\<lambda>p. peer_Id p \<noteq> cc_NodeId cc) (rg_Peers (h_region h))" "cc_NodeId cc \<noteq> r_id (h_raft h)"
      by (auto simp: valid_change_def)
    have "peers_ok (rg_Peers (h_region h))" using sync by (simp add: config_synced_def)
    then have "Region_RemovePeer (h_region h) (cc_NodeId cc) = ((h_region h)\<lparr>rg_Peers := ps\<rparr>, True)"
      using rm(1) remove_first_distinct[of peer_Id "rg_Peers (h_region h)" "cc_NodeId cc"]
      by (auto simp: Region_RemovePeer_def peers_ok_def rm(2))
    moreover have "bump_ConfVer ((h_region h)\<lparr>rg_Peers := ps\<rparr>) = Some region"
      by (simp add: bump_ConfVer_def ep region_def bumped_def)
    ultimately have "handleChangePeer env ent h = finish_ConfChange region cc
        ((set_kv db h)\<lparr>h_peer := (h_peer (set_kv db h))\<lparr>p_peerCache := fmdrop (cc_NodeId cc) (p_peerCache (h_peer (set_kv db h)))\<rparr>\<rparr>)"
      using RemoveNode msg rm(3) db(1) by (simp add: handleChangePeer_def removePeerCache_def wb_def Let_def)
    then show ?thesis using con by blast
  qed
qed

lemma handleChangePeer_ok:
  assumes D: "D = env_DB env" and valid: "valid_change env ent cc ps h" and ep: "rg_RegionEpoch (h_region h) = Some ep"
    and ok: "peer_ok env con h" and sync: "config_synced h" and init: "p_isInitialized (h_peer h)"
  defines "region \<equiv> bumped (h_region h) ep ps"
  shows "\<exists>h'. handleChangePeer env ent h = Some h' \<and> peer_ok env con h' \<and> config_synced h' \<and> h_region h' = region \<and>
    con (kv_of h') = (con (kv_of h))(RegionStateKey (rg_Id (h_region h)) := Some (VRegionState \<lparr>rls_State = PeerState_Normal, rls_Region = Some region\<rparr>)) \<and>
    fmlookup (regions (h_storeMeta h')) (rg_Id (h_region h)) = Some region \<and> PendingConfIndex (h_raft h') = 0"
proof -
  obtain db cache where eq: "handleChangePeer env ent h =
      finish_ConfChange region cc ((set_kv db h)\<lparr>h_peer := (h_peer (set_kv db h))\<lparr>p_peerCache := cache\<rparr>\<rparr>)"
    and con: "con db = (con (kv_of h))(RegionStateKey (p_regionId (h_peer h)) := Some (VRegionState \<lparr>rls_State = PeerState_Normal, rls_Region = Some region\<rparr>))"
    using handleChangePeer_eq[OF D valid ep ok sync] unfolding region_def by blast
  let ?h = "with_region db region cache h"
  have f: "rg_Id region = rg_Id (h_region h)" "rg_Peers region = ps" by (simp_all add: region_def bumped_def)
  have pok: "peers_ok (rg_Peers (h_region h))" "peers (h_raft h) = map peer_Id (rg_Peers (h_region h))"
    using sync by (simp_all add: config_synced_def)
  have ne: "rg_Peers (h_region h) \<noteq> []"
    using init by (simp add: p_isInitialized_def ps_isInitialized_def h_region_def p_Region_def)
  have r: "raft_ok (peer_storage_ops D (env_snap env)) (ps_wf con) (h_raft ?h)"
    using peer_ok_with_region[OF ok f(1) ne] D by simp
  have ps: "peers (h_raft ?h) = map peer_Id (rg_Peers (h_region h))" using pok(2) by (simp add: with_region_fields)
  have new: "peers_ok ps" "map peer_Id ps = changed_peers cc (map peer_Id (rg_Peers (h_region h)))"
    using valid pok(1)
    by (cases "cc_ChangeType cc"; auto simp: valid_change_def peers_ok_def changed_peers_def distinct_map_filter filter_map o_def)+
  have "distinct (peers (h_raft ?h))" using pok(1) ps by (simp add: peers_ok_def)
  moreover have "cc_NodeId cc \<noteq> 0" using valid by (simp add: valid_change_def)
  moreover have "cc_NodeId cc \<in> set (peers (h_raft ?h))" if "cc_ChangeType cc = RemoveNode"
    using valid that ps by (auto simp: valid_change_def)
  ultimately obtain cs rn where rn: "ApplyConfChange cc (p_RaftGroup (h_peer ?h)) = Some (cs, rn)"
      "raft_ok (peer_storage_ops D (env_snap env)) (ps_wf con) (rn_Raft rn)"
      "peers (rn_Raft rn) = changed_peers cc (peers (h_raft ?h))" "PendingConfIndex (rn_Raft rn) = 0"
      "same_data (r_ps (h_raft ?h)) (r_ps (rn_Raft rn))"
    using ApplyConfChange_ok[OF r] by blast
  define h' where "h' = ?h\<lparr>h_peer := (h_peer ?h)\<lparr>p_RaftGroup := rn\<rparr>\<rparr>"
  have h': "handleChangePeer env ent h = Some h'"
    unfolding eq finish_ConfChange_with_region by (simp add: rn(1) h'_def Let_def)
  have d: "ps_region (r_ps (rn_Raft rn)) = region" "en_Kv (ps_Engines (r_ps (rn_Raft rn))) = db"
    using rn(5) by (simp_all add: same_data_def with_region_fields)
  have "h_region h' = region" "kv_of h' = db" "h_storeMeta h' = meta_setRegion region (h_storeMeta h)"
      "p_regionId (h_peer h') = p_regionId (h_peer h)" "h_raft h' = rn_Raft rn"
    using d by (simp_all add: h'_def h_region_def p_Region_def ps_of_def kv_of_def with_region_fields)
  then show ?thesis
    using h' rn con new ps f ok D
    by (simp add: peer_ok_def config_synced_def meta_setRegion_def)
qed

end

text \<open>
  C12 (invariant): a committed membership change keeps the raft instance and the region in step. On an
  engine whose writes succeed, for an initialised peer in the invariant whose raft configuration lists
  the peers of its region, applying an accepted change of another member returns. The new peer is added
  at the end or the removed one deleted, in the raft configuration and in the region alike; the
  configuration version goes up by one; the new region is stored under the region's key and in the table
  of regions, and nothing else in the engine changes; the pending change of the raft instance is cleared;
  and the invariant holds again.
\<close>

theorem ConfChange_keeps_config:
  assumes "reliable_engine (env_DB env) con" "peer_ok env con h" "config_synced h" "p_isInitialized (h_peer h)"
    and "valid_change env ent cc ps h" "rg_RegionEpoch (h_region h) = Some ep"
  defines "region \<equiv> (h_region h)\<lparr>rg_Peers := ps, rg_RegionEpoch := Some (ep\<lparr>ep_ConfVer := u64_add (ep_ConfVer ep) 1\<rparr>)\<rparr>"
  shows "\<exists>h'. handleChangePeer env ent h = Some h' \<and> peer_ok env con h' \<and> config_synced h' \<and> h_region h' = region \<and>
    con (kv_of h') = (con (kv_of h))(RegionStateKey (rg_Id (h_region h)) := Some (VRegionState \<lparr>rls_State = PeerState_Normal, rls_Region = Some region\<rparr>)) \<and>
    fmlookup (regions (h_storeMeta h')) (rg_Id (h_region h)) = Some region \<and> PendingConfIndex (h_raft h') = 0"
  using reliable_engine.handleChangePeer_ok[OF assms(1) refl assms(5,6,2,3,4)] by (simp add: region_def bumped_def)

lemma fold_fmupd_lookup:
  "fmlookup (fold (\<lambda>p. fmupd p pr) ps m) q = (if q \<in> set ps then Some pr else fmlookup m q)"
  by (induction ps arbitrary: m) auto

lemma demo_raft_eq:
  "h_raft demo_handler = \<lparr>r_id = 1, r_Term = 5, r_Vote = 0, VoteTotal = 0, VoteReceived = 0,
     r_RaftLog = demo_peer_log\<lparr>entries := []\<rparr>,
     Prs = fold (\<lambda>p. fmupd p \<lparr>p_Match = 5, p_Next = 6\<rparr>) (map peer_Id (rg_Peers demo_kv_region)) fmempty,
     r_State = StateFollower, votes = fmempty, msgs = [], r_Lead = 0, heartbeatTimeout = 2, electionTimeout = 10,
     electionTimeoutRandom = 10, heartbeatElapsed = 0, electionElapsed = 0, leadTransferee = 0, PendingConfIndex = 0,
     peers = map peer_Id (rg_Peers demo_kv_region), rand_src = rand_next (\<lambda>n. 0)\<rparr>"
  by (simp add: demo_peer_simps demo_handler_def AppliedIndex_def demo_peer_log_def LastIndex_def raft_max_def)

lemma demo_raft:
  "storage_ops (r_RaftLog (h_raft demo_handler)) = peer_storage_ops al_engine (\<lambda>b. None)"
  "storage (r_RaftLog (h_raft demo_handler)) = demo_storage"
  "entries (r_RaftLog (h_raft demo_handler)) = []" "lastIdxOfSnapshot (r_RaftLog (h_raft demo_handler)) = 5"
  "committed (r_RaftLog (h_raft demo_handler)) = 5" "applied (r_RaftLog (h_raft demo_handler)) = 5"
  "stabled (r_RaftLog (h_raft demo_handler)) = 5" "electionTimeout (h_raft demo_handler) = 10"
  "peers (h_raft demo_handler) = map peer_Id (rg_Peers demo_kv_region)" "r_id (h_raft demo_handler) = 1"
  "\<forall>p\<in>set (peers (h_raft demo_handler)). fmlookup (Prs (h_raft demo_handler)) p \<noteq> None"
  by (simp_all add: demo_raft_eq demo_peer_log_def fold_fmupd_lookup)

lemma demo_handler_ok:
  "peer_ok demo_env map_of demo_handler" "config_synced demo_handler" "p_isInitialized (h_peer demo_handler)"
proof -
  have "log_ok (r_RaftLog (h_raft demo_handler))"
    by (simp add: log_ok_def log_wf_def demo_raft)
  then show "peer_ok demo_env map_of demo_handler"
    using demo_storage_wf demo_raft(11)
    by (simp add: peer_ok_def raft_ok_def demo_raft demo_env_def demo_handler_ready demo_kv_region_fields)
  show "config_synced demo_handler"
    by (simp add: config_synced_def demo_raft demo_handler_ready peers_ok_def demo_kv_region_def)
  show "p_isInitialized (h_peer demo_handler)"
    by (simp add: p_isInitialized_def ps_isInitialized_def demo_handler_ready demo_storage_eq demo_kv_region_def)
qed

definition demo_cc :: ConfChange where
  "demo_cc = \<lparr>cc_ChangeType = AddNode, cc_NodeId = 4, cc_Context = Some [1]\<rparr>"

definition demo_admin :: "AdminRequest \<Rightarrow> RaftCmdRequest" where
  "demo_admin a = \<lparr>rc_Header = Some demo_header, rc_Requests = [], rc_AdminRequest = Some a\<rparr>"

definition demo_change :: AdminRequest where
  "demo_change = change_peer_admin\<lparr>ar_ChangePeer := Some \<lparr>cp_ChangeType = AddNode, cp_Peer = Some \<lparr>peer_Id = 4, peer_StoreId = 4\<rparr>\<rparr>\<rparr>"

definition demo_admin_env :: "AdminRequest \<Rightarrow> (bytes \<times> EngineValue) list Env" where
  "demo_admin_env a = demo_env\<lparr>env_cmd := \<lambda>d. Some (demo_admin a), env_cc := \<lambda>d. Some demo_cc\<rparr>"

lemma demo_admin_ok: "peer_ok (demo_admin_env a) map_of demo_handler"
  using demo_handler_ok(1) by (simp add: peer_ok_def demo_admin_env_def)

theorem ConfChange_keeps_config_witness:
  "\<exists>h'. handleChangePeer (demo_admin_env demo_change) (zero_Entry\<lparr>e_EntryType := EntryConfChange, e_Data := Some [1]\<rparr>) demo_handler = Some h' \<and>
     config_synced h' \<and> map peer_Id (rg_Peers (h_region h')) = [1, 2, 3, 4]"
proof -
  let ?ent = "zero_Entry\<lparr>e_EntryType := EntryConfChange, e_Data := Some [1]\<rparr>"
  let ?ps = "rg_Peers demo_kv_region @ [\<lparr>peer_Id = 4, peer_StoreId = 4\<rparr>]"
  have valid: "valid_change (demo_admin_env demo_change) ?ent demo_cc ?ps demo_handler"
    by (simp add: valid_change_def demo_admin_env_def demo_cc_def demo_admin_def demo_change_def change_peer_admin_def
        demo_header_def CheckRegionEpoch_def epoch_checks_def demo_handler_ready demo_raft demo_kv_region_def zero_Entry_def)
  have eng: "reliable_engine (env_DB (demo_admin_env demo_change)) map_of"
    by (simp add: demo_admin_env_def demo_env_def al.reliable_engine_axioms)
  have ep: "rg_RegionEpoch (h_region demo_handler) = Some \<lparr>ep_ConfVer = 1, ep_Version = 1\<rparr>"
    by (simp add: demo_handler_ready demo_kv_region_fields)
  obtain h' where h': "handleChangePeer (demo_admin_env demo_change) ?ent demo_handler = Some h'" "config_synced h'"
      "h_region h' = (h_region demo_handler)\<lparr>rg_Peers := ?ps, rg_RegionEpoch := Some (\<lparr>ep_ConfVer = 1, ep_Version = 1\<rparr>\<lparr>ep_ConfVer := u64_add 1 1\<rparr>)\<rparr>"
    using ConfChange_keeps_config[OF eng demo_admin_ok demo_handler_ok(2,3) valid ep] by auto
  have "map peer_Id ?ps = [1, 2, 3, 4]" by (simp add: demo_kv_region_def)
  then show ?thesis using h' by (intro exI[of _ h']) simp
qed

end
