(* ===== verification/Peer_Handler.thy ===== *)
theory Peer_Handler
  imports Peer_Admin
begin

text \<open>
  The second half of \<open>kv/raftstore/peer_msg_handler.go\<close>: the loop that saves and applies what the
  raft instance is ready with, proposals, ticks, messages of other peers and requests to split. An
  error that only reaches the log is part of the result of \<open>onRaftMsg\<close>, where it ends the handling.
\<close>

section \<open>Ready\<close>

definition h_RaftGroup :: "'db Handler \<Rightarrow> 'db PeerStorage RawNode" where
  "h_RaftGroup h = p_RaftGroup (h_peer h)"

definition set_RaftGroup :: "'db PeerStorage RawNode \<Rightarrow> 'db Handler \<Rightarrow> 'db Handler" where
  "set_RaftGroup rg h = h\<lparr>h_peer := (h_peer h)\<lparr>p_RaftGroup := rg\<rparr>\<rparr>"

definition mayUpdateRegion :: "ApplySnapResult option \<Rightarrow> 'db Handler \<Rightarrow> 'db Handler option" where
  "mayUpdateRegion res h =
     (case res of
        None \<Rightarrow> Some h
      | Some res \<Rightarrow>
          if asr_PrevRegion res = asr_Region res then Some h
          else do {
            let h = h\<lparr>h_peer := p_SetRegion (asr_Region res) (h_peer h)\<rparr>;
            (out, m) \<leftarrow> ranges_delete (asr_PrevRegion res) (h_storeMeta h);
            m \<leftarrow> ranges_insert_item (asr_Region res) m;
            Some (h\<lparr>h_storeMeta := meta_setRegion (asr_Region res) m\<rparr>)
          })"

definition HandleRaftReady :: "'db Env \<Rightarrow> 'db Handler \<Rightarrow> 'db Handler option" where
  "HandleRaftReady env h =
     (if p_stopped (h_peer h) then Some h
      else do {
        ready \<leftarrow> HasReady (h_RaftGroup h);
        if ready then do {
          (rd, rg) \<leftarrow> rn_Ready (h_RaftGroup h);
          let h = set_RaftGroup rg h;
          (res, ps) \<leftarrow> SaveReadyState (env_DB env) (env_snap env) rd (ps_of (h_peer h));
          h \<leftarrow> mayUpdateRegion res (h\<lparr>h_peer := set_ps ps (h_peer h)\<rparr>);
          (out, p) \<leftarrow> peer_Send (rd_Messages rd) (h_peer h);
          h \<leftarrow> HandleCommitEnts env (rd_CommittedEntries rd) (h\<lparr>h_peer := p, h_trans := h_trans h @ out\<rparr>);
          rg \<leftarrow> Advance rd (h_RaftGroup h);
          Some (set_RaftGroup rg h)
        }
        else Some h
      })"

section \<open>Changes of the configuration outside the log\<close>

text \<open>\<open>updateConfChange\<close> with \<open>addNode\<close> and \<open>removeNode\<close> of the handler, which nothing calls.\<close>

definition h_addNode :: "'db Env \<Rightarrow> Region \<Rightarrow> ConfChange \<Rightarrow> 'db Handler \<Rightarrow> 'db Handler option" where
  "h_addNode env region cc h =
     (case env_cmd env (case cc_Context cc of None \<Rightarrow> [] | Some d \<Rightarrow> d) of
        None \<Rightarrow> Some h
      | Some msg \<Rightarrow> do {
          admin \<leftarrow> rc_AdminRequest msg;
          change \<leftarrow> ar_ChangePeer admin;
          pr \<leftarrow> cp_Peer change;
          (region, added) \<leftarrow> Region_AddPeer region pr;
          if added then do {
            region \<leftarrow> bump_ConfVer region;
            (case WriteToDB (env_DB env) (WriteRegionState new_WriteBatch region PeerState_Normal) (kv_of h) of
               (Some err, db) \<Rightarrow> None
             | (None, db) \<Rightarrow>
                 let h = h_setRegion region (set_kv db h) in
                 Some (h\<lparr>h_peer := insertPeerCache pr (h_peer h)\<rparr>))
          }
          else Some h
        })"

definition h_removeNode :: "'db Env \<Rightarrow> Region \<Rightarrow> ConfChange \<Rightarrow> 'db Handler \<Rightarrow> 'db Handler option" where
  "h_removeNode env region cc h =
     (case Region_RemovePeer region (cc_NodeId cc) of
        (region, False) \<Rightarrow> Some h
      | (region, True) \<Rightarrow>
          if cc_NodeId cc = r_id (rn_Raft (h_RaftGroup h)) then destroyPeer env (h_setRegion region h)
          else do {
            region \<leftarrow> bump_ConfVer region;
            let wb = wb_SetMeta (RegionStateKey (p_regionId (h_peer h)))
              (VRegionState \<lparr>rls_State = PeerState_Normal, rls_Region = Some region\<rparr>) new_WriteBatch;
            let h = h_setRegion region h;
            let h = h\<lparr>h_peer := removePeerCache (cc_NodeId cc) (h_peer h)\<rparr>;
            Some (set_kv (snd (WriteToDB (env_DB env) wb (kv_of h))) h)
          })"

definition updateConfChange :: "'db Env \<Rightarrow> ConfChange \<Rightarrow> 'db Handler \<Rightarrow> 'db Handler option" where
  "updateConfChange env cc h =
     (case cc_ChangeType cc of
        AddNode \<Rightarrow> h_addNode env (h_region h) cc h
      | RemoveNode \<Rightarrow> h_removeNode env (h_region h) cc h)"

section \<open>Proposals\<close>

text \<open>The scan runs to its end, so the last region of the tree is found.\<close>

definition findSiblingRegion :: "'db Handler \<Rightarrow> Region option option" where
  "findSiblingRegion h =
     AscendGreaterOrEqual storeItem_Less (regionRanges (h_storeMeta h)) (h_region h) (\<lambda>i result. (True, Some i)) None"

definition preProposeRaftCommand :: "RaftCmdRequest \<Rightarrow> 'db Handler \<Rightarrow> (RaftstoreError option \<times> 'db Handler) option" where
  "preProposeRaftCommand req h = do {
     let p = h_peer h;
     err \<leftarrow> CheckStoreID req (storeID p);
     if err \<noteq> None then Some (err, h)
     else if \<not> IsLeader p then
       let (leader, p') = getPeerFromCache (LeaderId p) p in
       Some (Some (ErrNotLeader (p_regionId p) leader), h\<lparr>h_peer := p'\<rparr>)
     else do {
       err \<leftarrow> CheckPeerID req (PeerId p);
       if err \<noteq> None then Some (err, h)
       else do {
         err \<leftarrow> CheckTerm req (p_Term p);
         if err \<noteq> None then Some (err, h)
         else do {
           err \<leftarrow> CheckRegionEpoch req (h_region h) True;
           case err of
             Some (ErrEpochNotMatch rs) \<Rightarrow> do {
               sibling \<leftarrow> findSiblingRegion h;
               Some (Some (ErrEpochNotMatch (rs @ (case sibling of None \<Rightarrow> [] | Some s \<Rightarrow> [s]))), h)
             }
           | _ \<Rightarrow> Some (err, h)
         }
       }
     }
   }"

definition propose_data :: "'db Env \<Rightarrow> RaftCmdRequest \<Rightarrow> 'db Handler \<Rightarrow> 'db Handler option" where
  "propose_data env msg h = do {
     data \<leftarrow> env_cmd_bytes env msg;
     rg \<leftarrow> Propose (Some data) (h_RaftGroup h);
     Some (set_RaftGroup rg h)
   }"

definition proposeRequest :: "'db Env \<Rightarrow> RaftCmdRequest \<Rightarrow> Callback \<Rightarrow> 'db Handler \<Rightarrow> 'db Handler option" where
  "proposeRequest env msg cb h = do {
     let p = h_peer h;
     let p = (if cb \<noteq> None
              then p\<lparr>p_proposals := p_proposals p @ [\<lparr>pp_index = nextProposalIndex p, pp_term = p_Term p, pp_cb = cb\<rparr>]\<rparr>
              else p);
     propose_data env msg (h\<lparr>h_peer := p\<rparr>)
   }"

definition adminDone :: "AdminCmdType \<Rightarrow> Callback \<Rightarrow> 'db Handler \<Rightarrow> 'db Handler" where
  "adminDone t cb h = h\<lparr>h_answers := cb_AdminDone t cb (h_answers h)\<rparr>"

definition proposeChangePeer :: "'db Env \<Rightarrow> RaftCmdRequest \<Rightarrow> AdminRequest \<Rightarrow> Callback \<Rightarrow> 'db Handler \<Rightarrow> 'db Handler option" where
  "proposeChangePeer env msg admin cb h =
     (if PendingConfIndex (rn_Raft (h_RaftGroup h)) > 0 then Some (adminDone AdminCmdType_ChangePeer cb h)
      else do {
        data \<leftarrow> env_cmd_bytes env msg;
        cmd \<leftarrow> ar_ChangePeer admin;
        pr \<leftarrow> cp_Peer cmd;
        (err, rg) \<leftarrow> ProposeConfChange (env_cc_bytes env)
          \<lparr>cc_ChangeType = cp_ChangeType cmd, cc_NodeId = peer_Id pr, cc_Context = Some data\<rparr> (h_RaftGroup h);
        if err \<noteq> None then None
        else Some (adminDone AdminCmdType_ChangePeer cb (set_RaftGroup rg h))
      })"

definition proposeAdminRequest :: "'db Env \<Rightarrow> RaftCmdRequest \<Rightarrow> Callback \<Rightarrow> 'db Handler \<Rightarrow> 'db Handler option" where
  "proposeAdminRequest env msg cb h = do {
     admin \<leftarrow> rc_AdminRequest msg;
     case ar_CmdType admin of
       AdminCmdType_CompactLog \<Rightarrow> propose_data env msg h
     | AdminCmdType_TransferLeader \<Rightarrow> do {
         req \<leftarrow> ar_TransferLeader admin;
         peer \<leftarrow> req;
         rg \<leftarrow> TransferLeader (peer_Id peer) (h_RaftGroup h);
         Some (adminDone AdminCmdType_TransferLeader cb (set_RaftGroup rg h))
       }
     | AdminCmdType_ChangePeer \<Rightarrow> proposeChangePeer env msg admin cb h
     | AdminCmdType_Split \<Rightarrow> proposeRequest env msg cb h
     | AdminCmdType_InvalidAdmin \<Rightarrow> Some h
   }"

definition proposeRaftCommand :: "'db Env \<Rightarrow> RaftCmdRequest \<Rightarrow> Callback \<Rightarrow> 'db Handler \<Rightarrow> 'db Handler option" where
  "proposeRaftCommand env msg cb h = do {
     (err, h) \<leftarrow> preProposeRaftCommand msg h;
     case err of
       Some err \<Rightarrow> Some (answer cb (ErrResp err) h)
     | None \<Rightarrow> if rc_AdminRequest msg \<noteq> None then proposeAdminRequest env msg cb h else proposeRequest env msg cb h
   }"

section \<open>Ticks\<close>

definition h_schedule :: "PeerTick \<Rightarrow> 'db Handler \<Rightarrow> 'db Handler option" where
  "h_schedule tp h = do {
     t \<leftarrow> schedule tp (p_ticker (h_peer h));
     Some (h\<lparr>h_peer := (h_peer h)\<lparr>p_ticker := t\<rparr>\<rparr>)
   }"

definition startTicker :: "'db Handler \<Rightarrow> 'db Handler option" where
  "startTicker h = do {
     t \<leftarrow> newTicker (p_regionId (h_peer h)) (h_cfg h);
     let h = h\<lparr>h_peer := (h_peer h)\<lparr>p_ticker := t\<rparr>, h_tickDriver := h_tickDriver h @ [p_regionId (h_peer h)]\<rparr>;
     h \<leftarrow> h_schedule PeerTickRaft h;
     h \<leftarrow> h_schedule PeerTickRaftLogGC h;
     h \<leftarrow> h_schedule PeerTickSplitRegionCheck h;
     h_schedule PeerTickSchedulerHeartbeat h
   }"

definition onRaftBaseTick :: "'db Handler \<Rightarrow> 'db Handler option" where
  "onRaftBaseTick h = do {
     rg \<leftarrow> rn_Tick (h_RaftGroup h);
     h_schedule PeerTickRaft (set_RaftGroup rg h)
   }"

definition newAdminRequest :: "u64 \<Rightarrow> Peer \<Rightarrow> RaftCmdRequest" where
  "newAdminRequest regionID peer = \<lparr>rc_Header = Some \<lparr>rh_RegionId = regionID, rh_Peer = Some peer, rh_RegionEpoch = None, rh_Term = 0\<rparr>,
     rc_Requests = [], rc_AdminRequest = None\<rparr>"

definition newCompactLogRequest :: "u64 \<Rightarrow> Peer \<Rightarrow> u64 \<Rightarrow> u64 \<Rightarrow> RaftCmdRequest" where
  "newCompactLogRequest regionID peer compactIndex compactTerm =
     (newAdminRequest regionID peer)\<lparr>rc_AdminRequest := Some \<lparr>ar_CmdType = AdminCmdType_CompactLog, ar_ChangePeer = None,
       ar_CompactLog = Some \<lparr>cl_CompactIndex = compactIndex, cl_CompactTerm = compactTerm\<rparr>, ar_TransferLeader = None, ar_Split = None\<rparr>\<rparr>"

definition onRaftGCLogTick :: "'db Env \<Rightarrow> 'db Handler \<Rightarrow> 'db Handler option" where
  "onRaftGCLogTick env h = do {
     h \<leftarrow> h_schedule PeerTickRaftLogGC h;
     if \<not> IsLeader (h_peer h) then Some h
     else do {
       let appliedIdx = AppliedIndex (ps_of (h_peer h));
       first \<leftarrow> ps_FirstIndex (ps_of (h_peer h));
       let firstIdx = value_or 0 first;
       if appliedIdx > firstIdx \<and> u64_sub appliedIdx firstIdx \<ge> cfg_RaftLogGcCountLimit (h_cfg h) then do {
         let compactIdx = appliedIdx;
         if compactIdx = 0 then None
         else do {
           let compactIdx = u64_sub compactIdx 1;
           if compactIdx < firstIdx then Some h
           else do {
             term \<leftarrow> Term (r_RaftLog (rn_Raft (h_RaftGroup h))) compactIdx;
             proposeRaftCommand env (newCompactLogRequest (p_regionId (h_peer h)) (p_Meta (h_peer h)) compactIdx term) None h
           }
         }
       }
       else Some h
     }
   }"

definition onSplitRegionCheckTick :: "'db Handler \<Rightarrow> 'db Handler option" where
  "onSplitRegionCheckTick h = do {
     h \<leftarrow> h_schedule PeerTickSplitRegionCheck h;
     let p = h_peer h;
     if h_splitCheckTasks h \<noteq> [] then Some h
     else if \<not> IsLeader p then Some h
     else if p_ApproximateSize p \<noteq> None \<and> p_SizeDiffHint p < cfg_RegionSplitSize (h_cfg h) div 8 then Some h
     else Some (h\<lparr>h_splitCheckTasks := h_splitCheckTasks h @ [h_region h], h_peer := p\<lparr>p_SizeDiffHint := 0\<rparr>\<rparr>)
   }"

definition h_HeartbeatScheduler :: "'db Handler \<Rightarrow> 'db Handler option" where
  "h_HeartbeatScheduler h = do {
     (task, p) \<leftarrow> HeartbeatScheduler (h_peer h);
     Some (h\<lparr>h_peer := p, h_schedulerTasks := h_schedulerTasks h @ [task]\<rparr>)
   }"

definition onSchedulerHeartbeatTick :: "'db Handler \<Rightarrow> 'db Handler option" where
  "onSchedulerHeartbeatTick h = do {
     h \<leftarrow> h_schedule PeerTickSchedulerHeartbeat h;
     if \<not> IsLeader (h_peer h) then Some h else h_HeartbeatScheduler h
   }"

definition on_tick :: "PeerTick \<Rightarrow> ('db Handler \<Rightarrow> 'db Handler option) \<Rightarrow> 'db Handler \<Rightarrow> 'db Handler option" where
  "on_tick tp f h = do { b \<leftarrow> isOnTick tp (p_ticker (h_peer h)); if b then f h else Some h }"

definition onTick :: "'db Env \<Rightarrow> 'db Handler \<Rightarrow> 'db Handler option" where
  "onTick env h =
     (if p_stopped (h_peer h) then Some h
      else do {
        let h = h\<lparr>h_peer := (h_peer h)\<lparr>p_ticker := tickClock (p_ticker (h_peer h))\<rparr>\<rparr>;
        h \<leftarrow> on_tick PeerTickRaft onRaftBaseTick h;
        h \<leftarrow> on_tick PeerTickRaftLogGC (onRaftGCLogTick env) h;
        h \<leftarrow> on_tick PeerTickSchedulerHeartbeat onSchedulerHeartbeatTick h;
        h \<leftarrow> on_tick PeerTickSplitRegionCheck onSplitRegionCheckTick h;
        Some (h\<lparr>h_tickDriver := h_tickDriver h @ [p_regionId (h_peer h)]\<rparr>)
      })"

section \<open>Messages of other peers\<close>

definition validateRaftMessage :: "RaftMessage \<Rightarrow> 'db Handler \<Rightarrow> bool" where
  "validateRaftMessage msg h =
     (if (case rm_ToPeer msg of None \<Rightarrow> 0 | Some to \<Rightarrow> peer_StoreId to) \<noteq> storeID (h_peer h) then False
      else rm_RegionEpoch msg \<noteq> None)"

definition handleStaleMsg :: "RaftMessage \<Rightarrow> RegionEpoch \<Rightarrow> bool \<Rightarrow> 'db Handler \<Rightarrow> 'db Handler" where
  "handleStaleMsg msg curEpoch needGC h =
     (if \<not> needGC then h
      else h\<lparr>h_trans := h_trans h @ [\<lparr>rm_RegionId = rm_RegionId msg, rm_FromPeer = rm_ToPeer msg, rm_ToPeer = rm_FromPeer msg,
        rm_Message = None, rm_RegionEpoch = Some curEpoch, rm_IsTombstone = True, rm_StartKey = [], rm_EndKey = []\<rparr>]\<rparr>)"

definition checkMessage :: "'db Env \<Rightarrow> RaftMessage \<Rightarrow> 'db Handler \<Rightarrow> (bool \<times> 'db Handler) option" where
  "checkMessage env msg h = do {
     fromEpoch \<leftarrow> rm_RegionEpoch msg;
     let isVoteMsg = (case rm_Message msg of None \<Rightarrow> False | Some m \<Rightarrow> IsVoteMessage m);
     let fromStoreID = (case rm_FromPeer msg of None \<Rightarrow> 0 | Some p \<Rightarrow> peer_StoreId p);
     epoch \<leftarrow> rg_RegionEpoch (h_region h);
     if IsEpochStale fromEpoch epoch \<and> FindPeer (h_region h) fromStoreID = None
     then Some (True, handleStaleMsg msg epoch isVoteMsg h)
     else do {
       target \<leftarrow> rm_ToPeer msg;
       if peer_Id target < PeerId (h_peer h) then Some (True, h)
       else if peer_Id target > PeerId (h_peer h) then
         if MaybeDestroy (h_peer h) then do {
           h \<leftarrow> destroyPeer env h;
           Some (True, h\<lparr>h_router := router_sendStore msg (h_router h)\<rparr>)
         }
         else Some (True, h)
       else Some (False, h)
     }
   }"

definition handleGCPeerMsg :: "'db Env \<Rightarrow> RaftMessage \<Rightarrow> 'db Handler \<Rightarrow> 'db Handler option" where
  "handleGCPeerMsg env msg h = do {
     epoch \<leftarrow> rg_RegionEpoch (h_region h);
     fromEpoch \<leftarrow> rm_RegionEpoch msg;
     if \<not> IsEpochStale epoch fromEpoch then Some h
     else do {
       to \<leftarrow> rm_ToPeer msg;
       if \<not> PeerEqual (p_Meta (h_peer h)) to then Some h
       else if MaybeDestroy (h_peer h) then destroyPeer env h else Some h
     }
   }"

definition SnapKeyFromRegionSnap :: "u64 \<Rightarrow> Snapshot \<Rightarrow> SnapKey option" where
  "SnapKeyFromRegionSnap regionID snap = do {
     md \<leftarrow> sn_Metadata snap;
     Some \<lparr>sk_RegionID = regionID, sk_Term = sm_Term md, sk_Index = sm_Index md\<rparr>
   }"

definition checkSnapshot :: "'db Env \<Rightarrow> RaftMessage \<Rightarrow> 'db Handler \<Rightarrow> (string + SnapKey option) option" where
  "checkSnapshot env msg h = do {
     m \<leftarrow> rm_Message msg;
     case m_Snapshot m of
       None \<Rightarrow> Some (Inr None)
     | Some snapshot \<Rightarrow> do {
         key \<leftarrow> SnapKeyFromRegionSnap (rm_RegionId msg) snapshot;
         case env_snap env (sn_Data snapshot) of
           None \<Rightarrow> Some (Inl ''unmarshal'')
         | Some snapData \<Rightarrow> do {
             snapRegion \<leftarrow> sd_Region snapData;
             to \<leftarrow> rm_ToPeer msg;
             if \<not> (\<exists>peer\<in>set (rg_Peers snapRegion). peer_Id peer = peer_Id to) then Some (Inr (Some key))
             else do {
               let m = h_storeMeta h;
               same \<leftarrow> RegionEqual (fmlookup (regions m) (p_regionId (h_peer h))) (Some (h_region h));
               if \<not> same then (if \<not> p_isInitialized (h_peer h) then Some (Inr (Some key)) else None)
               else do {
                 existRegions \<leftarrow> getOverlapRegions m snapRegion;
                 if \<exists>r\<in>set existRegions. rg_Id r \<noteq> rg_Id snapRegion then Some (Inr (Some key))
                 else Some (case env_snapFile env key of Some err \<Rightarrow> Inl err | None \<Rightarrow> Inr None)
               }
             }
           }
       }
   }"

definition step_message :: "RaftMessage \<Rightarrow> 'db Handler \<Rightarrow> (string option \<times> 'db Handler) option" where
  "step_message msg h = do {
     let h = (case rm_FromPeer msg of None \<Rightarrow> h | Some from \<Rightarrow> h\<lparr>h_peer := insertPeerCache from (h_peer h)\<rparr>);
     m \<leftarrow> rm_Message msg;
     (err, rg) \<leftarrow> rn_Step m (h_RaftGroup h);
     let h = set_RaftGroup rg h;
     if err \<noteq> None then Some (Some ''step'', h)
     else do {
       from \<leftarrow> rm_FromPeer msg;
       (caught, p) \<leftarrow> AnyNewPeerCatchUp (peer_Id from) (h_peer h);
       let h = h\<lparr>h_peer := p\<rparr>;
       h \<leftarrow> (if caught then h_HeartbeatScheduler h else Some h);
       Some (None, h)
     }
   }"

definition onRaftMsg :: "'db Env \<Rightarrow> RaftMessage \<Rightarrow> 'db Handler \<Rightarrow> (string option \<times> 'db Handler) option" where
  "onRaftMsg env msg h =
     (if \<not> validateRaftMessage msg h then Some (None, h)
      else if p_stopped (h_peer h) then Some (None, h)
      else if rm_IsTombstone msg then map_option (Pair None) (handleGCPeerMsg env msg h)
      else do {
        (drop, h) \<leftarrow> checkMessage env msg h;
        if drop then Some (None, h)
        else do {
          res \<leftarrow> checkSnapshot env msg h;
          case res of
            Inl err \<Rightarrow> Some (Some err, h)
          | Inr (Some key) \<Rightarrow>
              (case env_snapFile env key of
                 Some err \<Rightarrow> Some (Some err, h)
               | None \<Rightarrow> Some (None, h\<lparr>h_deletedSnaps := h_deletedSnaps h @ [key]\<rparr>))
          | Inr None \<Rightarrow> step_message msg h
        }
      })"

section \<open>Splits and snapshots\<close>

definition validateSplitRegion :: "RegionEpoch option \<Rightarrow> bytes \<Rightarrow> 'db Handler \<Rightarrow> (RaftstoreError option \<times> 'db Handler) option" where
  "validateSplitRegion epoch splitKey h =
     (if splitKey = [] then Some (Some (ErrMsg ''split key should not be empty''), h)
      else if \<not> IsLeader (h_peer h) then
        let (leader, p) = getPeerFromCache (LeaderId (h_peer h)) (h_peer h) in
        Some (Some (ErrNotLeader (p_regionId p) leader), h\<lparr>h_peer := p\<rparr>)
      else do {
        latestEpoch \<leftarrow> rg_RegionEpoch (h_region h);
        epoch \<leftarrow> epoch;
        if ep_Version latestEpoch \<noteq> ep_Version epoch then Some (Some (ErrEpochNotMatch [h_region h]), h)
        else Some (None, h)
      })"

definition onPrepareSplitRegion :: "RegionEpoch option \<Rightarrow> bytes \<Rightarrow> Callback \<Rightarrow> 'db Handler \<Rightarrow> 'db Handler option" where
  "onPrepareSplitRegion epoch splitKey cb h = do {
     (err, h) \<leftarrow> validateSplitRegion epoch splitKey h;
     Some (case err of
         Some err \<Rightarrow> answer cb (ErrResp err) h
       | None \<Rightarrow> h\<lparr>h_schedulerTasks := h_schedulerTasks h @
           [SchedulerAskSplitTask (h_region h) splitKey (p_Meta (h_peer h)) cb]\<rparr>)
   }"

definition onApproximateRegionSize :: "u64 \<Rightarrow> 'db Handler \<Rightarrow> 'db Handler" where
  "onApproximateRegionSize sz h = h\<lparr>h_peer := (h_peer h)\<lparr>p_ApproximateSize := Some sz\<rparr>\<rparr>"

text \<open>\<open>onGCSnap\<close>: a sent snapshot goes when it is compacted or older than four hours, a received one when it has been applied.\<close>

definition gc_snap :: "'db Env \<Rightarrow> u64 \<Rightarrow> u64 \<Rightarrow> SnapKey \<times> bool \<Rightarrow> 'db Handler \<Rightarrow> 'db Handler" where
  "gc_snap env compactedIdx compactedTerm snap h =
     (let (key, isSending) = snap; delete = h\<lparr>h_deletedSnaps := h_deletedSnaps h @ [key]\<rparr> in
      if isSending then
        (case env_sendFile env key of
           None \<Rightarrow> h
         | Some age \<Rightarrow>
             if sk_Term key < compactedTerm \<or> sk_Index key < compactedIdx then delete
             else (case age of None \<Rightarrow> h | Some seconds \<Rightarrow> if seconds > 4 * 60 * 60 then delete else h))
      else if sk_Term key \<le> compactedTerm \<and> (sk_Index key < compactedIdx \<or> sk_Index key = compactedIdx) then
        (case env_snapFile env key of Some err \<Rightarrow> h | None \<Rightarrow> delete)
      else h)"

definition onGCSnap :: "'db Env \<Rightarrow> (SnapKey \<times> bool) list \<Rightarrow> 'db Handler \<Rightarrow> 'db Handler option" where
  "onGCSnap env snaps h = do {
     compactedIdx \<leftarrow> truncatedIndex (ps_of (h_peer h));
     compactedTerm \<leftarrow> truncatedTerm (ps_of (h_peer h));
     Some (fold (gc_snap env compactedIdx compactedTerm) snaps h)
   }"

definition HandleMsg :: "'db Env \<Rightarrow> PeerMsg \<Rightarrow> 'db Handler \<Rightarrow> 'db Handler option" where
  "HandleMsg env msg h =
     (case msg of
        MsgTypeNull \<Rightarrow> Some h
      | MsgTypeRaftMessage m \<Rightarrow> map_option snd (onRaftMsg env m h)
      | MsgTypeRaftCmd req cb \<Rightarrow> proposeRaftCommand env req cb h
      | MsgTypeTick \<Rightarrow> onTick env h
      | MsgTypeSplitRegion epoch splitKey cb \<Rightarrow> onPrepareSplitRegion epoch splitKey cb h
      | MsgTypeRegionApproximateSize sz \<Rightarrow> Some (onApproximateRegionSize sz h)
      | MsgTypeGcSnap snaps \<Rightarrow> onGCSnap env snaps h
      | MsgTypeStart \<Rightarrow> startTicker h)"

end
