(* ===== verification/Peer_Ready.thy ===== *)
theory Peer_Ready
  imports Peer_Handler
begin

text \<open>
  One round of the ready loop, from the raft instance through the engines and back: \<open>HandleRaftReady\<close>
  as the composition of the consensus module, the peer storage and the state machine.
\<close>

section \<open>Sending\<close>

definition known_receiver :: "'db peer \<Rightarrow> Message \<Rightarrow> bool" where
  "known_receiver p m \<longleftrightarrow> fmlookup (p_peerCache p) (m_To m) \<noteq> None \<or> m_To m \<in> peer_Id ` set (rg_Peers (p_Region p))"

text \<open>Sending changes nothing but the cache of peers, which it fills from the region.\<close>

definition same_but_cache :: "'db peer \<Rightarrow> 'db peer \<Rightarrow> bool" where
  "same_but_cache p p' \<longleftrightarrow> p'\<lparr>p_peerCache := p_peerCache p\<rparr> = p \<and> known_receiver p' = known_receiver p"

lemma same_but_cache_refl [simp]: "same_but_cache p p"
  by (simp add: same_but_cache_def)

lemma same_but_cache_trans:
  assumes "same_but_cache p q" "same_but_cache q s"
  shows "same_but_cache p s"
proof -
  have "s\<lparr>p_peerCache := p_peerCache p\<rparr> = q\<lparr>p_peerCache := p_peerCache p\<rparr>"
    using arg_cong[OF conjunct1[OF assms(2)[unfolded same_but_cache_def]], of "\<lambda>x. x\<lparr>p_peerCache := p_peerCache p\<rparr>"] by simp
  with assms show ?thesis by (simp add: same_but_cache_def)
qed

lemma same_but_cache_fields:
  assumes "same_but_cache p p'"
  shows "p_RaftGroup p' = p_RaftGroup p" "p_stopped p' = p_stopped p" "p_proposals p' = p_proposals p"
    "p_regionId p' = p_regionId p" "ps_of p' = ps_of p" "p_Region p' = p_Region p"
proof -
  have eq: "p = p'\<lparr>p_peerCache := p_peerCache p\<rparr>" using assms by (simp add: same_but_cache_def)
  show "p_RaftGroup p' = p_RaftGroup p" "p_stopped p' = p_stopped p" "p_proposals p' = p_proposals p"
    "p_regionId p' = p_regionId p" "ps_of p' = ps_of p" "p_Region p' = p_Region p"
    by (subst eq, simp add: ps_of_def p_Region_def)+
qed

lemma getPeerFromCache_known:
  "(fst (getPeerFromCache (m_To m) p) \<noteq> None) = known_receiver p m"
  "same_but_cache p (snd (getPeerFromCache i p))"
proof -
  have f: "find (\<lambda>peer. peer_Id peer = i) ps \<noteq> None \<longleftrightarrow> i \<in> peer_Id ` set ps" for i ps
    by (auto simp: find_None_iff)
  show "(fst (getPeerFromCache (m_To m) p) \<noteq> None) = known_receiver p m"
    using f[of "m_To m" "rg_Peers (p_Region p)"]
    by (auto simp: getPeerFromCache_def known_receiver_def split: option.splits)
  have x: "i \<in> peer_Id ` set ps \<and> peer_Id x = i" if "find (\<lambda>peer. peer_Id peer = i) ps = Some x" for x i ps
    using that by (auto simp: find_Some_iff)
  show "same_but_cache p (snd (getPeerFromCache i p))"
    by (auto simp: getPeerFromCache_def same_but_cache_def known_receiver_def insertPeerCache_def p_Region_def ps_of_def
        fun_eq_iff dest!: x split: option.splits)
qed

lemma sendRaftMessage_ok:
  assumes "rg_RegionEpoch (p_Region p) \<noteq> None"
  shows "\<exists>out p'. sendRaftMessage m p = Some (out, p') \<and> same_but_cache p p' \<and>
    map_option rm_Message out = (if known_receiver p m then Some (Some m) else None)"
proof -
  obtain to p' where to: "getPeerFromCache (m_To m) p = (to, p')" by (cases "getPeerFromCache (m_To m) p")
  have "same_but_cache p p'" "known_receiver p m = (to \<noteq> None)"
    using getPeerFromCache_known(1)[of m p] getPeerFromCache_known(2)[of p "m_To m"] to by simp_all
  with assms to show ?thesis by (cases to) (auto simp: sendRaftMessage_def Let_def)
qed

lemma peer_Send_ok:
  assumes "rg_RegionEpoch (p_Region p) \<noteq> None"
  shows "\<exists>out p'. peer_Send ms p = Some (out, p') \<and> same_but_cache p p' \<and>
    map rm_Message out = map Some (filter (known_receiver p) ms)"
proof -
  have "\<exists>out' p'. foldM (\<lambda>m (out, p). do {
       (sent, p) \<leftarrow> sendRaftMessage m p;
       Some (out @ (case sent of None \<Rightarrow> [] | Some s \<Rightarrow> [s]), p)
     }) ms (out, p) = Some (out', p') \<and> same_but_cache p p' \<and>
     map rm_Message out' = map rm_Message out @ map Some (filter (known_receiver p) ms)" for out
    using assms
  proof (induction ms arbitrary: out p)
    case (Cons m ms)
    obtain sent p1 where s: "sendRaftMessage m p = Some (sent, p1)" "same_but_cache p p1"
      "map_option rm_Message sent = (if known_receiver p m then Some (Some m) else None)"
      using sendRaftMessage_ok[OF Cons.prems] by blast
    have k: "known_receiver p1 = known_receiver p" using s(2) by (simp add: same_but_cache_def)
    obtain out' p' where IH: "foldM (\<lambda>m (out, p). do {
         (sent, p) \<leftarrow> sendRaftMessage m p;
         Some (out @ (case sent of None \<Rightarrow> [] | Some s \<Rightarrow> [s]), p)
       }) ms (out @ (case sent of None \<Rightarrow> [] | Some s \<Rightarrow> [s]), p1) = Some (out', p')" "same_but_cache p1 p'"
      "map rm_Message out' = map rm_Message (out @ (case sent of None \<Rightarrow> [] | Some s \<Rightarrow> [s])) @ map Some (filter (known_receiver p1) ms)"
      using Cons.IH[of p1 "out @ (case sent of None \<Rightarrow> [] | Some s \<Rightarrow> [s])"] Cons.prems same_but_cache_fields(6)[OF s(2)] by auto
    have "map rm_Message out' = map rm_Message out @ map Some (filter (known_receiver p) (m # ms))"
      using s(3) unfolding IH(3) k by (auto split: if_splits)
    with s(1) IH(1) same_but_cache_trans[OF s(2) IH(2)] show ?case by simp
  qed simp
  from this[of "[]"] show ?thesis by (simp add: peer_Send_def)
qed

section \<open>Advancing over a changed storage\<close>

lemma Advance_eq:
  assumes ok: "log_ok l" and log: "r_RaftLog (rn_Raft rn) = l\<lparr>storage := st\<rparr>"
    and first: "so_FirstIndex (storage_ops l) st = Some (Inr (Suc (lastIdxOfSnapshot l)))"
    and rd: "rd_Entries rd = log_range l (stabled l) (LastIndex l)" "rd_CommittedEntries rd = log_range l (applied l) (committed l)"
  shows "Advance rd rn = Some (rn\<lparr>rn_Raft := (rn_Raft rn)\<lparr>r_RaftLog :=
    l\<lparr>storage := st, stabled := LastIndex l, applied := committed l\<rparr>\<rparr>\<rparr>)"
proof -
  note L = log_okE[OF ok] and wf = log_ok_wf[OF ok]
  have 1: "(if rd_Entries rd \<noteq> [] then l\<lparr>storage := st, stabled := e_Index (last (rd_Entries rd))\<rparr> else l\<lparr>storage := st\<rparr>) =
      l\<lparr>storage := st, stabled := LastIndex l\<rparr>"
    using log_range_last[OF wf L(4) _ order.refl] L(5)
    by (cases "stabled l = LastIndex l") (auto simp: rd log_range_empty)
  have 2: "(if rd_CommittedEntries rd \<noteq> []
      then l\<lparr>storage := st, stabled := LastIndex l, applied := e_Index (last (rd_CommittedEntries rd))\<rparr>
      else l\<lparr>storage := st, stabled := LastIndex l\<rparr>) = l\<lparr>storage := st, stabled := LastIndex l, applied := committed l\<rparr>"
    using log_range_last[OF wf L(1) _ L(3)] L(2)
    by (cases "applied l = committed l") (auto simp: rd log_range_empty)
  have 3: "maybeCompact (l\<lparr>storage := st, stabled := LastIndex l, applied := committed l\<rparr>) =
      Some (l\<lparr>storage := st, stabled := LastIndex l, applied := committed l\<rparr>)"
    using first L(6,7) by (intro maybeCompact_idle[where fi = "Suc (lastIdxOfSnapshot l)"]) auto
  show ?thesis unfolding Advance_def Let_def log 1 2 3 Option.bind.simps(2) ..
qed

section \<open>Applying, with everything it leaves alone\<close>

text \<open>A storage after entries have been applied: new contents of the key-value engine, a new apply state.\<close>

definition ps_applied :: "'db \<Rightarrow> RaftApplyState \<Rightarrow> 'db PeerStorage \<Rightarrow> 'db PeerStorage" where
  "ps_applied db as ps = ps\<lparr>ps_applyState := as, ps_Engines := (ps_Engines ps)\<lparr>en_Kv := db\<rparr>\<rparr>"

lemma ps_applied_same [simp]: "ps_applied (en_Kv (ps_Engines ps)) (ps_applyState ps) ps = ps"
  by (simp add: ps_applied_def)

lemma ps_applied_wf:
  assumes "ps_wf con ps" "as_TruncatedState as = as_TruncatedState (ps_applyState ps)"
  shows "ps_wf con (ps_applied db as ps)" "ps_log con (ps_applied db as ps) = ps_log con ps"
    "ps_ts (ps_applied db as ps) = ps_ts ps" "ps_li (ps_applied db as ps) = ps_li ps"
proof -
  have e: "ps_ent con (ps_applied db as ps) = ps_ent con ps" by (simp add: ps_ent_def ps_applied_def fun_eq_iff)
  show "ps_wf con (ps_applied db as ps)"
    using assms unfolding ps_wf_def e by (simp add: ps_applied_def ps_isInitialized_def)
  show "ps_log con (ps_applied db as ps) = ps_log con ps"
    unfolding ps_log_def e using assms(2) by (simp add: ps_applied_def)
  show "ps_ts (ps_applied db as ps) = ps_ts ps" "ps_li (ps_applied db as ps) = ps_li ps"
    using assms(2) by (simp_all add: ps_applied_def)
qed

definition applied_state :: "Entry list \<Rightarrow> RaftApplyState \<Rightarrow> RaftApplyState" where
  "applied_state ents as = (if ents = [] then as else as\<lparr>as_AppliedIndex := e_Index (last ents)\<rparr>)"

text \<open>The contents of the engine after entries have been applied, with the record of how far.\<close>

definition replayed :: "'db Env \<Rightarrow> Region \<Rightarrow> u64 \<Rightarrow> RaftApplyState \<Rightarrow> Entry list \<Rightarrow> (bytes \<rightharpoonup> EngineValue) \<Rightarrow> (bytes \<rightharpoonup> EngineValue)" where
  "replayed env region rid as ents m =
     (if ents = [] then m
      else (fold (apply_data (env_cmd env) region) ents m)(ApplyStateKey rid \<mapsto> VApplyState (applied_state ents as)))"

lemma same_store_group:
  assumes "same_store h h'"
  shows "p_RaftGroup (h_peer h') = p_RaftGroup (h_peer h)" "h_trans h' = h_trans h"
proof -
  have eq: "h = h'\<lparr>h_peer := (h_peer h')\<lparr>p_proposals := p_proposals (h_peer h)\<rparr>, h_answers := h_answers h, h_txns := h_txns h\<rparr>"
    using assms by (simp add: same_store_def)
  show "p_RaftGroup (h_peer h') = p_RaftGroup (h_peer h)" "h_trans h' = h_trans h"
    by (subst eq, simp)+
qed

context reliable_engine
begin

lemma HandleCommitEnts_storage:
  assumes env: "env_DB env = D" and h: "ready_to_apply h" "as_TruncatedState (ps_applyState (ps_of (h_peer h))) \<noteq> None"
    and ents: "\<And>e. e \<in> set ents \<Longrightarrow> plain_entry (env_cmd env) e"
  defines "as \<equiv> applied_state ents (ps_applyState (ps_of (h_peer h)))"
  shows "\<exists>h' db. HandleCommitEnts env ents h = Some h' \<and>
    p_RaftGroup (h_peer h') = p_RaftGroup (set_ps (ps_applied db as (ps_of (h_peer h))) (h_peer h)) \<and>
    con db = replayed env (h_region h) (p_regionId (h_peer h)) (ps_applyState (ps_of (h_peer h))) ents (con (kv_of h)) \<and>
    h_trans h' = h_trans h \<and> p_regionId (h_peer h') = p_regionId (h_peer h) \<and> ready_to_apply h'"
proof (cases "ents = []")
  case True
  then show ?thesis using h(1)
    by (intro exI[of _ h] exI[of _ "kv_of h"])
      (simp add: HandleCommitEnts_def as_def applied_state_def replayed_def kv_of_def set_ps_def ps_of_def)
next
  case False
  let ?m = "fold (apply_data (env_cmd env) (h_region h)) ents (con (kv_of h))"
  have as: "as = (ps_applyState (ps_of (h_peer h)))\<lparr>as_AppliedIndex := e_Index (last ents)\<rparr>"
    using False by (simp add: as_def applied_state_def)
  obtain h1 db where h1: "applied_to con h ?m h1" "con db = ?m(ApplyStateKey (p_regionId (h_peer h)) \<mapsto> VApplyState as)"
    "HandleCommitEnts env ents h = Some (set_kv db (h1\<lparr>h_peer := set_ps ((ps_of (h_peer h1))\<lparr>ps_applyState := as\<rparr>) (h_peer h1)\<rparr>))"
    using HandleCommitEnts_run[OF env h False ents] unfolding as by blast
  define h2 where "h2 = set_kv db (h1\<lparr>h_peer := set_ps ((ps_of (h_peer h1))\<lparr>ps_applyState := as\<rparr>) (h_peer h1)\<rparr>)"
  have s: "same_store h (set_kv (kv_of h) h1)" using h1(1) by (simp add: applied_to_def)
  have "p_RaftGroup (h_peer h2) = p_RaftGroup (set_ps (ps_applied db as (ps_of (h_peer (set_kv (kv_of h) h1)))) (h_peer (set_kv (kv_of h) h1)))"
    by (simp add: h2_def set_kv_def set_engines_def set_ps_def ps_of_def ps_applied_def)
  also have "\<dots> = p_RaftGroup (set_ps (ps_applied db as (ps_of (h_peer h))) (h_peer h))"
    using same_store_group(1)[OF s] same_store_fields(1)[OF s] by (simp add: set_ps_def)
  finally have 1: "p_RaftGroup (h_peer h2) = p_RaftGroup (set_ps (ps_applied db as (ps_of (h_peer h))) (h_peer h))" .
  have 2: "h_trans h2 = h_trans h"
    using same_store_group(2)[OF s] by (simp add: h2_def set_kv_def set_engines_def)
  have 3: "p_regionId (h_peer h2) = p_regionId (h_peer h)" "ready_to_apply h2"
    using applied_to_fields(5,7)[OF h1(1)]
    unfolding h2_def ready_set_kv set_kv_fields
    by (simp_all add: set_ps_def ready_to_apply_def h_region_def p_Region_def ps_of_def)
  show ?thesis using h1(2,3) 1 2 3 False unfolding h2_def[symmetric]
    by (intro exI[of _ h2] exI[of _ db]) (simp add: replayed_def as_def)
qed

end

section \<open>The round\<close>

lemma rn_Ready_eq:
  assumes ok: "log_ok (r_RaftLog (rn_Raft rn))" and snap: "IsEmptySnap (pendingSnapshot (r_RaftLog (rn_Raft rn)))"
  defines "l \<equiv> r_RaftLog (rn_Raft rn)"
  shows "\<exists>rd soft. rn_Ready rn = Some (rd, rn\<lparr>rn_Raft := (rn_Raft rn)\<lparr>msgs := []\<rparr>, prevSoftState := soft,
      prevHardState := raft_HardState (rn_Raft rn)\<rparr>) \<and> SoftState_equal (raft_SoftState (rn_Raft rn)) soft \<and>
    rd_Entries rd = log_range l (stabled l) (LastIndex l) \<and> unstableEntries l = Some (rd_Entries rd) \<and>
    rd_CommittedEntries rd = log_range l (applied l) (committed l) \<and> rd_Messages rd = msgs (rn_Raft rn) \<and>
    rd_Snapshot rd = zero_Snapshot \<and>
    rd_HardState rd = (if prevHardState rn = raft_HardState (rn_Raft rn) then zero_HardState else raft_HardState (rn_Raft rn))"
proof -
  have lok: "log_ok l" using ok by (simp add: l_def)
  note L = log_okE[OF lok] and wf = log_ok_wf[OF lok]
  have u: "unstableEntries l = Some (log_range l (stabled l) (LastIndex l))"
    using unstableEntries_range[OF wf] L(4) by (simp add: max_def)
  have n: "nextEnts l = Some (log_range l (applied l) (committed l))"
    using nextEnts_range[OF wf L(2)] L(1) order.trans[OF L(1,2)] by (simp add: max_absorb1)
  have eq: "HardState_Equal a b \<longleftrightarrow> a = b" for a b by (auto simp: HardState_Equal_def)
  define soft where "soft = (if SoftState_equal (prevSoftState rn) (raft_SoftState (rn_Raft rn)) then prevSoftState rn
    else raft_SoftState (rn_Raft rn))"
  have "SoftState_equal (raft_SoftState (rn_Raft rn)) soft" by (simp add: soft_def SoftState_equal_def)
  moreover have "rn\<lparr>prevHardState := hd\<rparr> = rn\<lparr>prevSoftState := prevSoftState rn, prevHardState := hd\<rparr>" for rn :: "'a RawNode" and hd
    by simp
  ultimately show ?thesis using u n snap
    by (auto simp: rn_Ready_def Let_def eq l_def soft_def intro!: exI[of _ soft])
qed

lemma SaveReadyState_frame:
  assumes "SaveReadyState D U rd ps = Some (res, ps')" "IsEmptySnap (Some (rd_Snapshot rd))"
  shows "ps_region ps' = ps_region ps" "ps_applyState ps' = ps_applyState ps" "en_Kv (ps_Engines ps') = en_Kv (ps_Engines ps)"
    "ps_li ps' = (if rd_Entries rd = [] then ps_li ps else e_Index (last (rd_Entries rd)))"
    "rl_HardState (ps_raftState ps') = (if IsEmptyHardState (rd_HardState rd) then rl_HardState (ps_raftState ps) else Some (rd_HardState rd))"
  using assms(1) unfolding SaveReadyState_eq[OF assms(2)] by (auto simp: Let_def ps_Append_eq)

lemma log_synced_after:
  assumes sync: "log_synced con l" and ok: "log_ok l"
    and st: "ps_wf con st" "ps_log con st = log_view l" "ps_ts st = ps_ts (storage l)" "ps_li st = LastIndex l"
  shows "log_synced con (l\<lparr>storage := st, stabled := LastIndex l, applied := committed l\<rparr>)"
    "log_ok (l\<lparr>storage := st, stabled := LastIndex l, applied := committed l\<rparr>)"
proof -
  have view: "log_view (l\<lparr>storage := st, stabled := LastIndex l, applied := committed l\<rparr>) = log_view l"
    by (simp add: log_view_def fun_eq_iff)
  have last: "LastIndex (l\<lparr>storage := st, stabled := LastIndex l, applied := committed l\<rparr>) = LastIndex l"
    by (simp add: LastIndex_def)
  show ok': "log_ok (l\<lparr>storage := st, stabled := LastIndex l, applied := committed l\<rparr>)"
    using ok log_okE[OF ok] by (auto simp: log_ok_def log_wf_def)
  show "log_synced con (l\<lparr>storage := st, stabled := LastIndex l, applied := committed l\<rparr>)"
    using sync st log_ok_wf[OF ok'] order.trans[OF log_okE(4,5)[OF ok]] unfolding log_synced_def view last by auto
qed

text \<open>
  A peer between two rounds: the consensus module and the storage are well-formed and in step, the
  hard state of the last round is in the storage and on disk, and no snapshot waits.
\<close>

definition ready_state :: "'db Env \<Rightarrow> ('db \<Rightarrow> bytes \<rightharpoonup> EngineValue) \<Rightarrow> 'db Handler \<Rightarrow> bool" where
  "ready_state env con h \<longleftrightarrow> peer_ok env con h \<and> log_synced con (r_RaftLog (h_raft h)) \<and> ready_to_apply h \<and>
     IsEmptySnap (pendingSnapshot (r_RaftLog (h_raft h))) \<and> \<not> IsEmptyHardState (raft_HardState (h_raft h)) \<and>
     rl_HardState (ps_raftState (ps_of (h_peer h))) = Some (prevHardState (h_RaftGroup h)) \<and>
     (\<exists>rs. disk_state con (ps_of (h_peer h)) = Some rs \<and> rl_HardState rs = Some (prevHardState (h_RaftGroup h)))"

text \<open>What is on disk once the \<open>Ready\<close> of a round is saved: the hard state, and the whole raft state if the hard state is new.\<close>

definition saved_state :: "('db \<Rightarrow> bytes \<rightharpoonup> EngineValue) \<Rightarrow> 'db Handler \<Rightarrow> 'db PeerStorage \<Rightarrow> bool" where
  "saved_state con h ps \<longleftrightarrow> (\<exists>rs. disk_state con ps = Some rs \<and> rl_HardState rs = Some (raft_HardState (h_raft h)) \<and>
     (raft_HardState (h_raft h) \<noteq> prevHardState (h_RaftGroup h) \<longrightarrow> rs = ps_raftState ps))"

text \<open>What a round does, seen from outside.\<close>

definition round_done :: "'db Env \<Rightarrow> ('db \<Rightarrow> bytes \<rightharpoonup> EngineValue) \<Rightarrow> 'db Handler \<Rightarrow> 'db Handler \<Rightarrow> bool" where
  "round_done env con h h' \<longleftrightarrow>
     (let l = r_RaftLog (h_raft h); l' = r_RaftLog (h_raft h') in
      log_view l' = log_view l \<and> ps_log con (ps_of (h_peer h')) = log_view l \<and>
      rl_HardState (ps_raftState (ps_of (h_peer h'))) = Some (raft_HardState (h_raft h)) \<and>
      ps_li (ps_of (h_peer h')) = LastIndex l \<and>
      saved_state con h (ps_of (h_peer h')) \<and>
      raft_HardState (h_raft h') = raft_HardState (h_raft h) \<and>
      applied l' = committed l \<and> stabled l' = LastIndex l \<and> h_region h' = h_region h \<and>
      con (kv_of h') = replayed env (h_region h) (p_regionId (h_peer h)) (ps_applyState (ps_of (h_peer h)))
        (log_range l (applied l) (committed l)) (con (kv_of h)) \<and>
      (\<exists>out. h_trans h' = h_trans h @ out \<and>
         map rm_Message out = map Some (filter (known_receiver (h_peer h)) (msgs (h_raft h)))) \<and>
      HasReady (h_RaftGroup h') = Some False)"

lemma HasReady_False:
  assumes "HasReady rn = Some False" "log_ok (r_RaftLog (rn_Raft rn))"
  defines "l \<equiv> r_RaftLog (rn_Raft rn)"
  shows "msgs (rn_Raft rn) = []" "stabled l = LastIndex l" "applied l = committed l"
    "\<not> IsEmptyHardState (raft_HardState (rn_Raft rn)) \<Longrightarrow> prevHardState rn = raft_HardState (rn_Raft rn)"
proof -
  have lok: "log_ok l" using assms(2) by (simp add: l_def)
  note L = log_okE[OF lok]
  have f: "msgs (rn_Raft rn) = [] \<and> \<not> hasUnstableEnts l \<and> hasNextEnts l = Some False \<and>
      (HardState_IsEmpty (raft_HardState (rn_Raft rn)) \<or> HardState_Equal (raft_HardState (rn_Raft rn)) (prevHardState rn))"
    using assms(1) by (auto simp: HasReady_def Let_def l_def split: if_splits)
  show "msgs (rn_Raft rn) = []" using f by simp
  show "stabled l = LastIndex l" using f L(5) by (simp add: hasUnstableEnts_def)
  have "realIdx l (applied l) = Some (int (applied l) - int (lastIdxOfSnapshot l) - 1) \<and>
      realIdx l (committed l) = Some (int (committed l) - int (lastIdxOfSnapshot l) - 1)"
    using realIdx_eq[OF log_ok_wf[OF lok]] L by simp
  then show "applied l = committed l" using f L(2) by (simp add: hasNextEnts_def)
  show "\<not> IsEmptyHardState (raft_HardState (rn_Raft rn)) \<Longrightarrow> prevHardState rn = raft_HardState (rn_Raft rn)"
    using f by (auto simp: HardState_IsEmpty_def HardState_Equal_def IsEmptyHardState_def isHardStateEqual_def)
qed

lemma ready_state_parts:
  assumes "ready_state env con h"
  shows "raft_ok (peer_storage_ops (env_DB env) (env_snap env)) (ps_wf con) (h_raft h)" "log_ok (r_RaftLog (h_raft h))"
    "storage_ops (r_RaftLog (h_raft h)) = peer_storage_ops (env_DB env) (env_snap env)"
    "log_synced con (r_RaftLog (h_raft h))" "ready_to_apply h" "ps_wf con (ps_of (h_peer h))"
  using assms by (auto simp: ready_state_def peer_ok_def raft_ok_def ps_of_def)

lemma HasReady_returns:
  assumes "log_ok (r_RaftLog (rn_Raft rn))"
  shows "\<exists>b. HasReady rn = Some b"
  using realIdx_eq[OF log_ok_wf[OF assms]] log_okE[OF assms] by (auto simp: HasReady_def Let_def hasNextEnts_def)

lemma round_idle:
  assumes st: "ready_state env con h" and idle: "HasReady (h_RaftGroup h) = Some False"
  shows "HandleRaftReady env h = Some h" "round_done env con h h"
proof -
  let ?l = "r_RaftLog (h_raft h)"
  note P = ready_state_parts[OF st]
  note f = HasReady_False[OF idle[unfolded h_RaftGroup_def] P(2)]
  show "HandleRaftReady env h = Some h"
    using P(5) idle by (simp add: HandleRaftReady_def ready_to_apply_def)
  have hs: "rl_HardState (ps_raftState (ps_of (h_peer h))) = Some (raft_HardState (h_raft h))" "prevHardState (h_RaftGroup h) = raft_HardState (h_raft h)"
      "\<exists>rs. disk_state con (ps_of (h_peer h)) = Some rs \<and> rl_HardState rs = Some (raft_HardState (h_raft h))"
    using st f(4) by (simp_all add: ready_state_def h_RaftGroup_def)
  have li: "ps_li (ps_of (h_peer h)) = LastIndex ?l" using P(4) f(2) by (simp add: log_synced_def ps_of_def)
  have "ps_log con (storage ?l) i = log_view ?l i" for i
  proof (cases "i \<le> stabled ?l")
    case True
    then show ?thesis using P(4) by (simp add: log_synced_def)
  next
    case False
    then show ?thesis using P(4) f(2) log_okE(6)[OF P(2)] by (auto simp: log_synced_def log_view_def ps_log_def)
  qed
  then have "ps_log con (ps_of (h_peer h)) = log_view ?l" by (simp add: fun_eq_iff ps_of_def)
  then show "round_done env con h h"
    using f(1-3) hs li idle by (simp add: round_done_def saved_state_def Let_def replayed_def log_range_empty)
qed

lemma set_RaftGroup_fields [simp]:
  "p_RaftGroup (h_peer (set_RaftGroup rg h)) = rg" "p_stopped (h_peer (set_RaftGroup rg h)) = p_stopped (h_peer h)"
  "p_proposals (h_peer (set_RaftGroup rg h)) = p_proposals (h_peer h)" "h_trans (set_RaftGroup rg h) = h_trans h"
  "p_regionId (h_peer (set_RaftGroup rg h)) = p_regionId (h_peer h)"
  by (simp_all add: set_RaftGroup_def)

lemma HasReady_settled:
  assumes "SoftState_equal (raft_SoftState (rn_Raft rn)) (prevSoftState rn)" "raft_HardState (rn_Raft rn) = prevHardState rn"
    "IsEmptySnap (pendingSnapshot (r_RaftLog (rn_Raft rn)))" "msgs (rn_Raft rn) = []" "log_ok (r_RaftLog (rn_Raft rn))"
    "stabled (r_RaftLog (rn_Raft rn)) = LastIndex (r_RaftLog (rn_Raft rn))"
    "applied (r_RaftLog (rn_Raft rn)) = committed (r_RaftLog (rn_Raft rn))"
  shows "HasReady rn = Some False"
  using assms realIdx_eq[OF log_ok_wf[OF assms(5)]] log_okE[OF assms(5)]
  by (auto simp: HasReady_def Let_def hasNextEnts_def hasUnstableEnts_def)

text \<open>The group that a round leaves behind.\<close>

definition round_group :: "SoftState \<Rightarrow> 'db PeerStorage \<Rightarrow> 'db PeerStorage RawNode \<Rightarrow> 'db PeerStorage RawNode" where
  "round_group soft st rg =
     (let r = rn_Raft rg; l = r_RaftLog r in
      rg\<lparr>rn_Raft := r\<lparr>msgs := [], r_RaftLog := l\<lparr>storage := st, stabled := LastIndex l, applied := committed l\<rparr>\<rparr>,
        prevSoftState := soft, prevHardState := raft_HardState r\<rparr>)"

lemma round_group_fields:
  "r_RaftLog (rn_Raft (round_group soft st rg)) = (r_RaftLog (rn_Raft rg))\<lparr>storage := st,
      stabled := LastIndex (r_RaftLog (rn_Raft rg)), applied := committed (r_RaftLog (rn_Raft rg))\<rparr>"
    "msgs (rn_Raft (round_group soft st rg)) = []" "prevHardState (round_group soft st rg) = raft_HardState (rn_Raft rg)"
    "raft_HardState (rn_Raft (round_group soft st rg)) = raft_HardState (rn_Raft rg)"
    "prevSoftState (round_group soft st rg) = soft" "raft_SoftState (rn_Raft (round_group soft st rg)) = raft_SoftState (rn_Raft rg)"
    "electionTimeout (rn_Raft (round_group soft st rg)) = electionTimeout (rn_Raft rg)"
    "peers (rn_Raft (round_group soft st rg)) = peers (rn_Raft rg)" "Prs (rn_Raft (round_group soft st rg)) = Prs (rn_Raft rg)"
  by (simp_all add: round_group_def Let_def raft_HardState_def raft_SoftState_def)

context reliable_engine
begin

text \<open>Up to the entries: the \<open>Ready\<close> is taken and saved, and the messages are sent.\<close>

lemma round_saved:
  assumes st: "ready_state env con h" and run: "HasReady (h_RaftGroup h) = Some True" and env: "env_DB env = D"
  defines "r \<equiv> h_raft h" and "l \<equiv> r_RaftLog (h_raft h)"
  shows "\<exists>rd soft ps1 h3 out. HandleRaftReady env h =
      HandleCommitEnts env (rd_CommittedEntries rd) h3 \<bind> (\<lambda>h. Advance rd (h_RaftGroup h) \<bind> (\<lambda>rg. Some (set_RaftGroup rg h))) \<and>
    rd_Entries rd = log_range l (stabled l) (LastIndex l) \<and> rd_CommittedEntries rd = log_range l (applied l) (committed l) \<and>
    SoftState_equal (raft_SoftState r) soft \<and>
    p_RaftGroup (h_peer h3) = (h_RaftGroup h)\<lparr>rn_Raft := r\<lparr>msgs := [], r_RaftLog := l\<lparr>storage := ps1\<rparr>\<rparr>, prevSoftState := soft,
      prevHardState := raft_HardState r\<rparr> \<and>
    ps_wf con ps1 \<and> ps_log con ps1 = log_view l \<and> ps_applyState ps1 = ps_applyState (storage l) \<and> ps_region ps1 = h_region h \<and>
    ps_li ps1 = LastIndex l \<and> rl_HardState (ps_raftState ps1) = Some (raft_HardState r) \<and> saved_state con h ps1 \<and>
    ready_to_apply h3 \<and> kv_of h3 = kv_of h \<and> p_regionId (h_peer h3) = p_regionId (h_peer h) \<and>
    h_trans h3 = h_trans h @ out \<and> map rm_Message out = map Some (filter (known_receiver (h_peer h)) (msgs r)) \<and>
    p_proposals (h_peer h3) = p_proposals (h_peer h) \<and> h_answers h3 = h_answers h"
proof -
  note P = ready_state_parts[OF st]
  have lok: "log_ok l" and sync: "log_synced con l" and psl: "ps_of (h_peer h) = storage l"
    using P(2,4) by (simp_all add: l_def ps_of_def)
  obtain rd soft where rd: "rn_Ready (h_RaftGroup h) = Some (rd, (h_RaftGroup h)\<lparr>rn_Raft := r\<lparr>msgs := []\<rparr>, prevSoftState := soft,
      prevHardState := raft_HardState r\<rparr>)" "SoftState_equal (raft_SoftState r) soft"
    "rd_Entries rd = log_range l (stabled l) (LastIndex l)" "unstableEntries l = Some (rd_Entries rd)"
    "rd_CommittedEntries rd = log_range l (applied l) (committed l)" "rd_Messages rd = msgs r" "rd_Snapshot rd = zero_Snapshot"
    "rd_HardState rd = (if prevHardState (h_RaftGroup h) = raft_HardState r then zero_HardState else raft_HardState r)"
    using rn_Ready_eq[of "h_RaftGroup h"] P(2) st by (auto simp: h_RaftGroup_def l_def r_def ready_state_def)
  define h1 where "h1 = set_RaftGroup ((h_RaftGroup h)\<lparr>rn_Raft := r\<lparr>msgs := []\<rparr>, prevSoftState := soft, prevHardState := raft_HardState r\<rparr>) h"
  have snap: "IsEmptySnap (Some (rd_Snapshot rd))" by (simp add: rd(7) IsEmptySnap_def zero_Snapshot_def)
  obtain ps1 where ps1: "SaveReadyState D (env_snap env) rd (storage l) = Some (None, ps1)" "ps_wf con ps1" "ps_log con ps1 = log_view l"
    using SaveReadyState_log[OF sync rd(4) snap] by blast
  note F = SaveReadyState_frame[OF ps1(1) snap]
  define p2 where "p2 = set_ps ps1 (h_peer h1)"
  have p2: "p_RaftGroup p2 = (h_RaftGroup h)\<lparr>rn_Raft := r\<lparr>msgs := [], r_RaftLog := l\<lparr>storage := ps1\<rparr>\<rparr>, prevSoftState := soft,
      prevHardState := raft_HardState r\<rparr>" "ps_of p2 = ps1" "p_Region p2 = h_region h" "known_receiver p2 = known_receiver (h_peer h)"
      "ps_of (h_peer h1) = storage l"
    using F(1) by (simp_all add: p2_def h1_def set_RaftGroup_def set_ps_def ps_of_def p_Region_def h_region_def known_receiver_def
        fun_eq_iff l_def r_def)
  obtain out p3 where p3: "peer_Send (msgs r) p2 = Some (out, p3)" "same_but_cache p2 p3"
      "map rm_Message out = map Some (filter (known_receiver (h_peer h)) (msgs r))"
    using peer_Send_ok[of p2 "msgs r"] P(5) p2(3,4) by (auto simp: ready_to_apply_def)
  note G = same_but_cache_fields[OF p3(2)]
  define h3 where "h3 = h1\<lparr>h_peer := p3, h_trans := h_trans h @ out\<rparr>"
  have h3: "ready_to_apply h3" "kv_of h3 = kv_of h" "p_regionId (h_peer h3) = p_regionId (h_peer h)" "p_RaftGroup (h_peer h3) = p_RaftGroup p2"
      "p_proposals (h_peer h3) = p_proposals (h_peer h)" "h_answers h3 = h_answers h"
    using G p2(2,3) P(5) F(3) psl by (simp_all add: h3_def h_region_def ready_to_apply_def kv_of_def) (simp_all add: p2_def h1_def set_ps_def set_RaftGroup_def)
  have "HandleRaftReady env h = HandleCommitEnts env (rd_CommittedEntries rd) h3 \<bind> (\<lambda>h. Advance rd (h_RaftGroup h) \<bind> (\<lambda>rg. Some (set_RaftGroup rg h)))"
    using P(5) run rd(1) ps1(1) p3(1)
    by (simp add: HandleRaftReady_def ready_to_apply_def env h1_def[symmetric] p2(5) mayUpdateRegion_def p2_def[symmetric] Let_def rd(6) h3_def)
      (simp add: h1_def)
  moreover have "ps_li ps1 = LastIndex l"
    using F(4) rd(3) sync log_range_last[OF log_ok_wf[OF lok] log_okE(4)[OF lok] _ order.refl] log_okE(5)[OF lok]
    by (cases "stabled l = LastIndex l") (auto simp: log_synced_def log_range_empty)
  moreover have "rl_HardState (ps_raftState ps1) = Some (raft_HardState r)" "ps_region ps1 = h_region h" "h_trans h3 = h_trans h @ out"
    using F(1,5) rd(8) st psl by (auto simp: ready_state_def IsEmptyHardState_def h_region_def p_Region_def r_def h3_def)
  moreover have "saved_state con h ps1"
    using SaveReadyState_disk[OF ps1(1) snap] F(5) rd(8) st psl by (auto simp: ready_state_def saved_state_def r_def IsEmptyHardState_def split: if_splits)
  ultimately show ?thesis using rd(2,3,5) ps1(2,3) F(2) h3 p2(1) p3(3)
    by (intro exI[of _ rd] exI[of _ soft] exI[of _ ps1] exI[of _ h3] exI[of _ out]) simp
qed

lemma round_run:
  assumes st: "ready_state env con h" and run: "HasReady (h_RaftGroup h) = Some True" and env: "env_DB env = D"
  defines "l \<equiv> r_RaftLog (h_raft h)"
  assumes plain: "\<And>e. e \<in> set (log_range l (applied l) (committed l)) \<Longrightarrow> plain_entry (env_cmd env) e"
  shows "\<exists>h4 soft ps1 db as out. HandleRaftReady env h = Some (set_RaftGroup (round_group soft (ps_applied db as ps1) (h_RaftGroup h)) h4) \<and>
    SoftState_equal (raft_SoftState (h_raft h)) soft \<and> ps_wf con ps1 \<and> ps_log con ps1 = log_view l \<and>
    ps_ts ps1 = ps_ts (storage l) \<and> ps_li ps1 = LastIndex l \<and> ps_region ps1 = h_region h \<and>
    rl_HardState (ps_raftState ps1) = Some (raft_HardState (h_raft h)) \<and> saved_state con h ps1 \<and> as_TruncatedState as = as_TruncatedState (ps_applyState ps1) \<and>
    con db = replayed env (h_region h) (p_regionId (h_peer h)) (ps_applyState (ps_of (h_peer h)))
        (log_range l (applied l) (committed l)) (con (kv_of h)) \<and>
    h_trans h4 = h_trans h @ out \<and> map rm_Message out = map Some (filter (known_receiver (h_peer h)) (msgs (h_raft h))) \<and>
    p_regionId (h_peer h4) = p_regionId (h_peer h) \<and> ready_to_apply h4"
proof -
  note P = ready_state_parts[OF st]
  have lok: "log_ok l" and sync: "log_synced con l" and ops: "storage_ops l = peer_storage_ops D (env_snap env)"
    and psl: "ps_of (h_peer h) = storage l" using P(2-4) env by (simp_all add: l_def ps_of_def)
  let ?ents = "log_range l (applied l) (committed l)"
  obtain rd soft ps1 h3 out where res: "HandleRaftReady env h =
      HandleCommitEnts env (rd_CommittedEntries rd) h3 \<bind> (\<lambda>h. Advance rd (h_RaftGroup h) \<bind> (\<lambda>rg. Some (set_RaftGroup rg h)))"
    and rd: "rd_Entries rd = log_range l (stabled l) (LastIndex l)" "rd_CommittedEntries rd = ?ents"
    and soft: "SoftState_equal (raft_SoftState (h_raft h)) soft"
    and grp: "p_RaftGroup (h_peer h3) = (h_RaftGroup h)\<lparr>rn_Raft := (h_raft h)\<lparr>msgs := [], r_RaftLog := l\<lparr>storage := ps1\<rparr>\<rparr>,
      prevSoftState := soft, prevHardState := raft_HardState (h_raft h)\<rparr>"
    and ps1: "ps_wf con ps1" "ps_log con ps1 = log_view l" "ps_applyState ps1 = ps_applyState (storage l)" "ps_region ps1 = h_region h"
      "ps_li ps1 = LastIndex l" "rl_HardState (ps_raftState ps1) = Some (raft_HardState (h_raft h))" "saved_state con h ps1"
    and h3: "ready_to_apply h3" "kv_of h3 = kv_of h" "p_regionId (h_peer h3) = p_regionId (h_peer h)"
    and out: "h_trans h3 = h_trans h @ out" "map rm_Message out = map Some (filter (known_receiver (h_peer h)) (msgs (h_raft h)))"
    using round_saved[OF st run env] unfolding l_def by blast
  have h3': "ps_of (h_peer h3) = ps1" "h_region h3 = h_region h" using ps1(4) by (simp_all add: ps_of_def grp h_region_def p_Region_def)
  have ts: "as_TruncatedState (ps_applyState (ps_of (h_peer h3))) \<noteq> None"
    unfolding h3'(1) using ps_wf_parts(3)[OF ps1(1)] by (metis option.discI)
  define as where "as = applied_state ?ents (ps_applyState ps1)"
  obtain h4 db where h4: "HandleCommitEnts env ?ents h3 = Some h4"
    "p_RaftGroup (h_peer h4) = p_RaftGroup (set_ps (ps_applied db as ps1) (h_peer h3))"
    "con db = replayed env (h_region h) (p_regionId (h_peer h)) (ps_applyState (ps_of (h_peer h))) ?ents (con (kv_of h))"
    "h_trans h4 = h_trans h3" "p_regionId (h_peer h4) = p_regionId (h_peer h)" "ready_to_apply h4"
    using HandleCommitEnts_storage[OF env h3(1) ts plain] unfolding h3(2,3) h3' as_def psl ps1(3) by blast
  let ?st = "ps_applied db as ps1"
  have as: "as_TruncatedState as = as_TruncatedState (ps_applyState ps1)" by (simp add: as_def applied_state_def)
  have ts1: "ps_ts ps1 = ps_ts (storage l)" by (simp only: ps1(3))
  have log4: "r_RaftLog (rn_Raft (h_RaftGroup h4)) = l\<lparr>storage := ?st\<rparr>" by (simp add: h_RaftGroup_def h4(2) set_ps_def grp)
  have first: "so_FirstIndex (storage_ops l) ?st = Some (Inr (Suc (lastIdxOfSnapshot l)))"
    using ps.FirstIndex[OF ps_applied_wf(1)[OF ps1(1) as], of "env_snap env" db] ps_applied_wf(3)[OF ps1(1) as, of db] ts1 sync
    by (simp add: ops log_synced_def)
  have "(h_RaftGroup h4)\<lparr>rn_Raft := (rn_Raft (h_RaftGroup h4))\<lparr>r_RaftLog := l\<lparr>storage := ?st, stabled := LastIndex l, applied := committed l\<rparr>\<rparr>\<rparr> =
      round_group soft ?st (h_RaftGroup h)"
    by (simp add: h_RaftGroup_def h4(2) set_ps_def grp round_group_def l_def Let_def)
  with Advance_eq[OF lok log4 first rd] have fin: "HandleRaftReady env h = Some (set_RaftGroup (round_group soft ?st (h_RaftGroup h)) h4)"
    using res h4(1) by (simp add: rd(2))
  have trans: "h_trans h4 = h_trans h @ out" using h4(4) out(1) by simp
  show ?thesis
    by (intro exI[of _ h4] exI[of _ soft] exI[of _ ps1] exI[of _ db] exI[of _ as] exI[of _ out] conjI;
        fact fin soft ps1 as h4(3,5,6) trans out(2) ts1)
qed

lemma round_ok:
  assumes st: "ready_state env con h" and env: "env_DB env = D"
    and plain: "\<And>e. e \<in> set (log_range (r_RaftLog (h_raft h)) (applied (r_RaftLog (h_raft h))) (committed (r_RaftLog (h_raft h)))) \<Longrightarrow>
      plain_entry (env_cmd env) e"
  shows "\<exists>h'. HandleRaftReady env h = Some h' \<and> ready_state env con h' \<and> round_done env con h h'"
proof (cases "HasReady (h_RaftGroup h) = Some False")
  case True
  then show ?thesis using round_idle[OF st] st by auto
next
  case False
  note P = ready_state_parts[OF st]
  define l where "l = r_RaftLog (h_raft h)"
  have run: "HasReady (h_RaftGroup h) = Some True"
    using False HasReady_returns[OF P(2)] by (auto simp: h_RaftGroup_def)
  obtain h4 soft ps1 db as out where res: "HandleRaftReady env h = Some (set_RaftGroup (round_group soft (ps_applied db as ps1) (h_RaftGroup h)) h4)"
    and soft: "SoftState_equal (raft_SoftState (h_raft h)) soft"
    and ps1: "ps_wf con ps1" "ps_log con ps1 = log_view l" "ps_ts ps1 = ps_ts (storage l)" "ps_li ps1 = LastIndex l" "ps_region ps1 = h_region h"
      "rl_HardState (ps_raftState ps1) = Some (raft_HardState (h_raft h))" "saved_state con h ps1" and as: "as_TruncatedState as = as_TruncatedState (ps_applyState ps1)"
    and db: "con db = replayed env (h_region h) (p_regionId (h_peer h)) (ps_applyState (ps_of (h_peer h)))
        (log_range l (applied l) (committed l)) (con (kv_of h))"
    and h4: "h_trans h4 = h_trans h @ out" "map rm_Message out = map Some (filter (known_receiver (h_peer h)) (msgs (h_raft h)))"
      "p_regionId (h_peer h4) = p_regionId (h_peer h)" "ready_to_apply h4"
    using round_run[OF st run env plain] unfolding l_def by blast
  have disk: "saved_state con h (ps_applied db as ps1)"
    using ps1(7) by (simp add: saved_state_def ps_applied_def disk_state_def)
  have ep: "rg_RegionEpoch (h_region h) \<noteq> None" using P(5) by (simp add: ready_to_apply_def)
  let ?st = "ps_applied db as ps1"
  define h' where "h' = set_RaftGroup (round_group soft ?st (h_RaftGroup h)) h4"
  note W = ps_applied_wf[OF ps1(1) as, of db]
  have l': "r_RaftLog (h_raft h') = l\<lparr>storage := ?st, stabled := LastIndex l, applied := committed l\<rparr>"
    by (simp add: h'_def round_group_fields l_def h_RaftGroup_def)
  have S: "log_synced con (r_RaftLog (h_raft h'))" "log_ok (r_RaftLog (h_raft h'))"
    using log_synced_after[OF P(4)[folded l_def] P(2)[folded l_def] W(1)] W(2-4) ps1(2-4) by (simp_all add: l')
  have f: "ps_of (h_peer h') = ?st" "h_region h' = h_region h" "kv_of h' = db" "rl_HardState (ps_raftState ?st) = Some (raft_HardState (h_raft h))"
    using l' ps1(5,6) by (simp_all add: ps_of_def h_region_def p_Region_def kv_of_def ps_applied_def)
  have g: "raft_HardState (h_raft h') = raft_HardState (h_raft h)" "prevHardState (h_RaftGroup h') = raft_HardState (h_raft h)"
      "h_trans h' = h_trans h @ out" "ready_to_apply h'" "log_view (r_RaftLog (h_raft h')) = log_view l"
    using h4(1,4) ep f(2) by (simp_all add: l' log_view_def fun_eq_iff) (simp_all add: h'_def round_group_fields h_RaftGroup_def ready_to_apply_def)
  have empty: "IsEmptySnap (pendingSnapshot l)" "\<not> IsEmptyHardState (raft_HardState (h_raft h))"
    using st by (simp_all add: ready_state_def l_def)
  have idle: "HasReady (h_RaftGroup h') = Some False"
  proof (rule HasReady_settled)
    show "SoftState_equal (raft_SoftState (rn_Raft (h_RaftGroup h'))) (prevSoftState (h_RaftGroup h'))" "msgs (rn_Raft (h_RaftGroup h')) = []"
      using soft by (simp_all add: h_RaftGroup_def h'_def round_group_fields)
  qed (use S(2) g(1,2) empty(1) l' in \<open>simp_all add: h_RaftGroup_def LastIndex_def\<close>)
  have ok: "peer_ok env con h'"
    using st P(1) S(2) W(1) h4(3) l' f(2)
    by (simp add: peer_ok_def raft_ok_def ready_state_def l_def h'_def round_group_fields h_RaftGroup_def)
  have "ready_state env con h'"
    using ok S(1) g(1,2,4) empty f(1,4) l' disk by (auto simp: ready_state_def saved_state_def)
  moreover have "round_done env con h h'"
    using g f W(2,4) ps1(2,4) db h4(2) l' idle disk by (simp add: round_done_def Let_def l_def)
  ultimately show ?thesis using res by (simp add: h'_def)
qed

end

text \<open>
  C3 (refinement): one round of the ready loop carries the peer from what the raft instance decided to what
  the engines hold. For an engine whose writes succeed, a peer whose raft log and storage are in
  step, whose last hard state is on disk, which waits for no snapshot and whose committed entries carry
  plain commands: \<open>HandleRaftReady\<close> returns and leaves the peer in such a state again. The log in
  the raft engine is the raft log; the raft state in the raft engine has the hard state of the raft instance,
  and, if that is new, also the last index and term of the storage; every committed
  entry has been applied, exactly once and in order, on top of the contents of the key-value engine, with the
  applied index recorded there; the messages of the raft instance have gone out in their
  order, those without a known receiver excepted; and nothing is left to do.
\<close>

theorem HandleRaftReady_round:
  assumes "reliable_engine (env_DB env) con" "ready_state env con h"
    and "\<And>e. e \<in> set (log_range (r_RaftLog (h_raft h)) (applied (r_RaftLog (h_raft h))) (committed (r_RaftLog (h_raft h)))) \<Longrightarrow>
      plain_entry (env_cmd env) e"
  shows "\<exists>h'. HandleRaftReady env h = Some h' \<and> ready_state env con h' \<and> round_done env con h h'"
  using reliable_engine.round_ok[OF assms(1,2) refl assms(3)] .

lemma round_doneD:
  assumes "round_done env con h h'"
  shows "ps_log con (ps_of (h_peer h')) = log_view (r_RaftLog (h_raft h))"
    "con (kv_of h') = replayed env (h_region h) (p_regionId (h_peer h)) (ps_applyState (ps_of (h_peer h)))
      (log_range (r_RaftLog (h_raft h)) (applied (r_RaftLog (h_raft h))) (committed (r_RaftLog (h_raft h)))) (con (kv_of h))"
    "\<exists>out. h_trans h' = h_trans h @ out \<and> map rm_Message out = map Some (filter (known_receiver (h_peer h)) (msgs (h_raft h)))"
    "HasReady (h_RaftGroup h') = Some False" "ps_li (ps_of (h_peer h')) = LastIndex (r_RaftLog (h_raft h))"
    "saved_state con h (ps_of (h_peer h'))"
  using assms unfolding round_done_def Let_def by - (elim conjE, assumption)+

text \<open>A follower with a committed put that is neither stored nor applied, and with two messages to send.\<close>

definition demo_round :: "(bytes \<times> EngineValue) list Handler" where
  "demo_round = set_RaftGroup \<lparr>rn_Raft = (h_raft demo_handler)\<lparr>
       r_RaftLog := (r_RaftLog (h_raft demo_handler))\<lparr>entries := [zero_Entry\<lparr>e_Term := 5, e_Index := 6, e_Data := Some [7]\<rparr>], committed := 6\<rparr>,
       msgs := [zero_Message\<lparr>m_To := 2\<rparr>, zero_Message\<lparr>m_To := 9\<rparr>]\<rparr>,
     prevSoftState = \<lparr>ss_Lead = 0, ss_RaftState = StateFollower\<rparr>,
     prevHardState = \<lparr>hs_Term = 5, hs_Vote = 0, hs_Commit = 5\<rparr>\<rparr> demo_handler"

lemma demo_peer_cache: "p_peerCache demo_peer = fmempty"
  by (simp add: demo_peer_simps)

lemma demo_round_fields:
  "r_RaftLog (h_raft demo_round) = demo_peer_log\<lparr>entries := [zero_Entry\<lparr>e_Term := 5, e_Index := 6, e_Data := Some [7]\<rparr>], committed := 6\<rparr>"
  "ps_of (h_peer demo_round) = demo_storage" "h_region demo_round = demo_kv_region"
  "raft_HardState (h_raft demo_round) = \<lparr>hs_Term = 5, hs_Vote = 0, hs_Commit = 6\<rparr>"
  "msgs (h_raft demo_round) = [zero_Message\<lparr>m_To := 2\<rparr>, zero_Message\<lparr>m_To := 9\<rparr>]"
  "p_regionId (h_peer demo_round) = 1"
  "prevHardState (h_RaftGroup demo_round) = \<lparr>hs_Term = 5, hs_Vote = 0, hs_Commit = 5\<rparr>" "h_trans demo_round = []"
  "p_proposals (h_peer demo_round) = []" "\<not> p_stopped (h_peer demo_round)" "electionTimeout (h_raft demo_round) = 10"
  "peers (h_raft demo_round) = peers (h_raft demo_handler)" "Prs (h_raft demo_round) = Prs (h_raft demo_handler)"
  "p_peerCache (h_peer demo_round) = fmempty"
proof -
  have "h_trans demo_handler = []" "p_proposals (h_peer demo_handler) = []" "\<not> p_stopped (h_peer demo_handler)"
    "p_peerCache (h_peer demo_handler) = fmempty"
    using demo_peer_created(3,4) by (simp_all add: demo_handler_def demo_peer_cache)
  then show "h_trans demo_round = []" "p_proposals (h_peer demo_round) = []" "\<not> p_stopped (h_peer demo_round)"
    "p_peerCache (h_peer demo_round) = fmempty"
    by (simp_all add: demo_round_def set_RaftGroup_def)
qed (use demo_handler_ready(4) in \<open>simp_all add: demo_round_def demo_raft_eq demo_peer_log_def ps_of_def h_region_def p_Region_def
  h_RaftGroup_def raft_HardState_def demo_storage_eq\<close>)

lemmas demo_ready_simps = demo_peer_log_def demo_storage_eq demo_raft_state_def IsEmptySnap_def disk_state_def demo_kv_region_fields

lemma demo_round_state: "ready_state demo_env map_of demo_round"
proof -
  have "log_synced map_of (r_RaftLog (h_raft demo_round))" "log_ok (r_RaftLog (h_raft demo_round))"
    using demo_storage_wf
    by (simp_all add: demo_round_fields log_synced_def log_ok_def demo_peer_log_def log_wf_def LastIndex_def log_view_def ps_log_def
        demo_storage_fields zero_Entry_def)
  moreover have "peer_ok demo_env map_of demo_round"
    using calculation(2) demo_handler_ok(1) demo_storage_wf
    by (simp add: peer_ok_def raft_ok_def demo_round_fields demo_kv_region_fields) (simp add: demo_peer_log_def demo_env_def)
  ultimately show ?thesis
    by (simp add: ready_state_def ready_to_apply_def demo_round_fields demo_kv_region_fields IsEmptyHardState_def zero_HardState_def)
      (simp add: demo_ready_simps)
qed

theorem HandleRaftReady_round_witness:
  "\<exists>h'. HandleRaftReady demo_env demo_round = Some h' \<and> HasReady (h_RaftGroup h') = Some False \<and>
     map_of (kv_of h') (KeyWithCF CfDefault [7]) = Some (VBytes [1]) \<and>
     ps_log map_of (ps_of (h_peer h')) 6 = Some (zero_Entry\<lparr>e_Term := 5, e_Index := 6, e_Data := Some [7]\<rparr>) \<and>
     map_option rl_HardState (disk_state map_of (ps_of (h_peer h'))) = Some (Some \<lparr>hs_Term = 5, hs_Vote = 0, hs_Commit = 6\<rparr>) \<and>
     map_option rl_LastIndex (disk_state map_of (ps_of (h_peer h'))) = Some 6 \<and>
     map rm_Message (h_trans h') = [Some (zero_Message\<lparr>m_To := 2\<rparr>)]"
proof -
  let ?e = "zero_Entry\<lparr>e_Term := 5, e_Index := 6, e_Data := Some [7]\<rparr>"
  have range: "log_range (r_RaftLog (h_raft demo_round)) (applied (r_RaftLog (h_raft demo_round))) (committed (r_RaftLog (h_raft demo_round))) = [?e]"
    by (simp add: demo_round_fields demo_peer_log_def log_range_def log_view_def upt_conv_Cons)
  have eng: "reliable_engine (env_DB demo_env) map_of" by (simp add: demo_env_def al.reliable_engine_axioms)
  have pl: "plain_entry (env_cmd demo_env) ?e" using demo_put_plain by (simp add: plain_entry_def zero_Entry_def demo_env_def)
  obtain h' where h': "HandleRaftReady demo_env demo_round = Some h'" "round_done demo_env map_of demo_round h'"
    using HandleRaftReady_round[OF eng demo_round_state] pl unfolding range by auto
  have "KeyWithCF CfDefault [7] \<noteq> ApplyStateKey 1" by (rule cf_key_not_local) (simp add: CFs_def)
  then have "map_of (kv_of h') (KeyWithCF CfDefault [7]) = Some (VBytes [1])"
    unfolding round_doneD(2)[OF h'(2)] range
    by (simp add: replayed_def demo_round_fields apply_data_def demo_env_def command_effect_def demo_put_def demo_header_def
        demo_kv_region_fields getKey_def in_range_def request_effect_def)
  moreover have "ps_log map_of (ps_of (h_peer h')) 6 = Some ?e" "HasReady (h_RaftGroup h') = Some False"
    using round_doneD(1,4)[OF h'(2)] by (simp_all add: demo_round_fields demo_peer_log_def log_view_def)
  moreover have "known_receiver (h_peer demo_round) (zero_Message\<lparr>m_To := 2\<rparr>)" "\<not> known_receiver (h_peer demo_round) (zero_Message\<lparr>m_To := 9\<rparr>)"
    using demo_round_fields(2) by (simp_all add: known_receiver_def p_Region_def demo_round_fields demo_storage_eq demo_kv_region_def)
  then have "map rm_Message (h_trans h') = [Some (zero_Message\<lparr>m_To := 2\<rparr>)]"
    using round_doneD(3)[OF h'(2)] by (auto simp: demo_round_fields)
  moreover have "map_option rl_HardState (disk_state map_of (ps_of (h_peer h'))) = Some (Some \<lparr>hs_Term = 5, hs_Vote = 0, hs_Commit = 6\<rparr>)"
      "map_option rl_LastIndex (disk_state map_of (ps_of (h_peer h'))) = Some 6"
    using round_doneD(5,6)[OF h'(2)] by (auto simp: saved_state_def demo_round_fields demo_peer_log_def LastIndex_def)
  ultimately show ?thesis using h'(1) by (intro exI[of _ h']) simp
qed

end
