(* ===== verification/Peer_Propose.thy ===== *)
theory Peer_Propose
  imports Peer_Ready
begin

text \<open>
  Proposals: what a leader does with a command of a client, and how it reaches the engine.
\<close>

section \<open>Appending to the log of a leader\<close>

text \<open>The entry that a leader appends for some data.\<close>

definition new_entry :: "'s Raft \<Rightarrow> bytes \<Rightarrow> Entry" where
  "new_entry r data = zero_Entry\<lparr>e_Data := Some data, e_Term := r_Term r, e_Index := Suc (LastIndex (r_RaftLog r))\<rparr>"

text \<open>A raft instance that has appended it: everything else of the log is kept, except that the only
  peer of a group commits at once.\<close>

definition appended :: "bytes \<Rightarrow> 's Raft \<Rightarrow> 's Raft \<Rightarrow> bool" where
  "appended data r r' \<longleftrightarrow> (let l = r_RaftLog r; l' = r_RaftLog r' in
     entries l' = entries l @ [new_entry r data] \<and> lastIdxOfSnapshot l' = lastIdxOfSnapshot l \<and>
     lastTermOfSnapshot l' = lastTermOfSnapshot l \<and> stabled l' = stabled l \<and> applied l' = applied l \<and>
     pendingSnapshot l' = pendingSnapshot l \<and> storage_ops l' = storage_ops l \<and>
     committed l' = (if length (peers r) = 1 then Suc (LastIndex l) else committed l) \<and>
     PendingConfIndex r' = PendingConfIndex r \<and> r_id r' = r_id r \<and> r_Term r' = r_Term r \<and> r_Vote r' = r_Vote r \<and>
     r_State r' = r_State r \<and> peers r' = peers r)"

lemma handleMsgPropose_appended:
  assumes "handleMsgPropose m r = Some r'" "m_Entries m = [zero_Entry\<lparr>e_Data := Some data\<rparr>]" "log_ok (r_RaftLog r)"
  shows "appended data r r'"
proof -
  define r1 where "r1 = r\<lparr>r_RaftLog := AppendEntry (new_entry r data) (r_RaftLog r)\<rparr>"
  have "u64_add (LastIndex (r_RaftLog r)) 1 = Suc (LastIndex (r_RaftLog r))"
    using log_okE(7)[OF assms(3)] by (simp add: u64_add_def)
  then have "propose_entry (zero_Entry\<lparr>e_Data := Some data\<rparr>) r = r1"
    by (simp add: propose_entry_def r1_def new_entry_def zero_Entry_def)
  with assms(1,2) obtain pr where r': "r' = (let r = set_pr (r_id r1) pr r1 in
      if length (peers r) = 1 then r\<lparr>r_RaftLog := (r_RaftLog r)\<lparr>committed := LastIndex (r_RaftLog r1)\<rparr>\<rparr> else r)"
    by (auto simp: handleMsgPropose_def Let_def elim!: bind_SomeE)
  have "LastIndex (r_RaftLog r1) = Suc (LastIndex (r_RaftLog r))"
    by (simp add: r1_def AppendEntry_def LastIndex_def new_entry_def)
  then show ?thesis by (auto simp: r' r1_def appended_def Let_def set_pr_def AppendEntry_def)
qed

lemma appended_sends:
  assumes "appended data r r1" "sends r1 r2"
  shows "appended data r r2"
  using assms(1) sends_frame[OF assms(2)] by (simp add: appended_def Let_def)

context kv_engine
begin

lemma Propose_leader:
  assumes ok: "raft_ok (peer_storage_ops D U) (ps_wf con) (rn_Raft rg)" and self: "r_State (rn_Raft rg) = StateLeader"
      "r_id (rn_Raft rg) \<in> set (peers (rn_Raft rg))"
    and bound: "Suc (Suc (LastIndex (r_RaftLog (rn_Raft rg)))) < 2 ^ 63"
  shows "\<exists>r'. Propose (Some data) rg = Some (rg\<lparr>rn_Raft := r'\<rparr>) \<and> raft_ok (peer_storage_ops D U) (ps_wf con) r' \<and>
    appended data (rn_Raft rg) r' \<and> same_data (r_ps (rn_Raft rg)) (r_ps r')"
proof -
  define m where "m = zero_Message\<lparr>m_MsgType := MsgPropose, m_From := r_id (rn_Raft rg), m_Entries := [zero_Entry\<lparr>e_Data := Some data\<rparr>]\<rparr>"
  have "Suc (LastIndex (r_RaftLog (rn_Raft rg)) + length (m_Entries m)) < 2 ^ 63" using bound by (simp add: m_def)
  from ps.propose_ok[OF ok self(2) this] obtain r' where
    r': "(do { r1 \<leftarrow> handleMsgPropose m (rn_Raft rg); broadCastAE r1 }) = Some r'" "raft_ok (peer_storage_ops D U) (ps_wf con) r'" by blast
  then obtain r1 where r1: "handleMsgPropose m (rn_Raft rg) = Some r1" "broadCastAE r1 = Some r'" by (auto elim!: bind_SomeE)
  have "log_ok (r_RaftLog (rn_Raft rg))" using ok by (simp add: raft_ok_def)
  with r1(1) have "appended data (rn_Raft rg) r1" by (intro handleMsgPropose_appended) (auto simp: m_def)
  with r1(2) have app: "appended data (rn_Raft rg) r'" by (blast intro: appended_sends sends_broadCastAE)
  have ops: "r_ops (rn_Raft rg) = peer_storage_ops D U" using ok by (simp add: raft_ok_def)
  have "same_data (r_ps (rn_Raft rg)) (r_ps r')"
    using ps_data.propose_stored[OF r'(1) stored_data[OF ops]] by (simp add: stored_def)
  moreover have "Step m (rn_Raft rg) = Some r'" using r'(1) self by (simp add: Step_def m_def)
  ultimately show ?thesis using app r'(2) by (auto simp: Propose_def rn_lift_def m_def)
qed

end

section \<open>The queue of proposals\<close>

text \<open>
  The callbacks wait in the order of their entries, and each waits for an entry that the log holds
  with the term of the proposal and with data.
\<close>

definition queue_bound :: "'db Handler \<Rightarrow> bool" where
  "queue_bound h \<longleftrightarrow> sorted_wrt (\<lambda>p q. pp_index p < pp_index q) (p_proposals (h_peer h)) \<and>
     (\<forall>p \<in> set (p_proposals (h_peer h)). \<exists>e. log_view (r_RaftLog (h_raft h)) (pp_index p) = Some e \<and> e_Term e = pp_term p \<and>
       e_Data e \<noteq> None)"

lemma appended_view:
  assumes "appended data r r'" "log_ok (r_RaftLog r)"
  shows "LastIndex (r_RaftLog r') = Suc (LastIndex (r_RaftLog r))"
    "log_view (r_RaftLog r') (Suc (LastIndex (r_RaftLog r))) = Some (new_entry r data)"
    "i \<le> LastIndex (r_RaftLog r) \<Longrightarrow> log_view (r_RaftLog r') i = log_view (r_RaftLog r) i"
  using assms(1) log_okE(6)[OF assms(2)]
  by (auto simp: appended_def Let_def LastIndex_def log_view_def new_entry_def nth_append)

lemma log_view_le: "log_ok l \<Longrightarrow> log_view l i = Some e \<Longrightarrow> i \<le> LastIndex l"
  using log_okE(6)[of l] by (auto simp: log_view_def split: if_splits)

text \<open>A leader of its group, with room for more entries.\<close>

definition can_propose :: "'db Handler \<Rightarrow> bool" where
  "can_propose h \<longleftrightarrow> r_State (h_raft h) = StateLeader \<and> r_id (h_raft h) \<in> set (peers (h_raft h)) \<and>
     Suc (Suc (LastIndex (r_RaftLog (h_raft h)))) < 2 ^ 63"

lemma propose_data_ok:
  assumes eng: "kv_engine (env_DB env) con" and ok: "peer_ok env con h" and lead: "can_propose h"
    and data: "env_cmd_bytes env msg = Some data"
  shows "\<exists>r'. propose_data env msg h = Some (set_RaftGroup ((h_RaftGroup h)\<lparr>rn_Raft := r'\<rparr>) h) \<and>
    raft_ok (peer_storage_ops (env_DB env) (env_snap env)) (ps_wf con) r' \<and> appended data (h_raft h) r' \<and>
    same_data (ps_of (h_peer h)) (r_ps r')"
proof -
  have "raft_ok (peer_storage_ops (env_DB env) (env_snap env)) (ps_wf con) (rn_Raft (h_RaftGroup h))"
    using ok by (simp add: peer_ok_def h_RaftGroup_def)
  from kv_engine.Propose_leader[OF eng this, of data] lead data show ?thesis
    by (auto simp: can_propose_def h_RaftGroup_def propose_data_def ps_of_def)
qed

lemma peer_ok_group:
  assumes "peer_ok env con h" "raft_ok (peer_storage_ops (env_DB env) (env_snap env)) (ps_wf con) (rn_Raft rg)"
    "same_data (ps_of (h_peer h)) (r_ps (rn_Raft rg))"
  shows "peer_ok env con (set_RaftGroup rg h)"
  using assms by (simp add: peer_ok_def same_data_def h_region_def p_Region_def ps_of_def)

definition with_proposal :: "Callback \<Rightarrow> 'db peer \<Rightarrow> 'db peer" where
  "with_proposal cb p = (if cb \<noteq> None
     then p\<lparr>p_proposals := p_proposals p @ [\<lparr>pp_index = nextProposalIndex p, pp_term = p_Term p, pp_cb = cb\<rparr>]\<rparr> else p)"

lemma with_proposal_fields [simp]:
  "p_RaftGroup (with_proposal cb p) = p_RaftGroup p" "ps_of (with_proposal cb p) = ps_of p"
  "p_regionId (with_proposal cb p) = p_regionId p" "p_stopped (with_proposal cb p) = p_stopped p"
  by (simp_all add: with_proposal_def ps_of_def)

text \<open>
  C14 (safety): a proposal waits for the entry that carries it. When a leader with a well-formed state
  takes a command, \<open>proposeRequest\<close> returns with a well-formed state, the log has grown by one entry
  with the encoded command at the index and in the term that the new proposal waits for, nothing has
  been answered yet, and the queue stays bound: its callbacks wait in the order of the log, each for an
  entry that is there.
\<close>

theorem proposeRequest_binds:
  assumes "kv_engine (env_DB env) con" "peer_ok env con h" "can_propose h" "env_cmd_bytes env msg = Some data"
    and queue: "queue_bound h"
  shows "\<exists>h'. proposeRequest env msg (Some cb) h = Some h' \<and> peer_ok env con h' \<and> queue_bound h' \<and>
    entries (r_RaftLog (h_raft h')) = entries (r_RaftLog (h_raft h)) @ [new_entry (h_raft h) data] \<and>
    p_proposals (h_peer h') = p_proposals (h_peer h) @
      [\<lparr>pp_index = e_Index (new_entry (h_raft h) data), pp_term = e_Term (new_entry (h_raft h) data), pp_cb = Some cb\<rparr>] \<and>
    h_answers h' = h_answers h"
proof -
  define h1 where "h1 = h\<lparr>h_peer := with_proposal (Some cb) (h_peer h)\<rparr>"
  have f: "h_raft h1 = h_raft h" "ps_of (h_peer h1) = ps_of (h_peer h)" "h_region h1 = h_region h" "h_RaftGroup h1 = h_RaftGroup h"
    by (simp_all add: h1_def h_region_def p_Region_def h_RaftGroup_def)
  have ok1: "peer_ok env con h1" "can_propose h1"
    using assms(2,3) f by (simp_all add: peer_ok_def can_propose_def h1_def)
  obtain r' where r': "propose_data env msg h1 = Some (set_RaftGroup ((h_RaftGroup h)\<lparr>rn_Raft := r'\<rparr>) h1)"
    "raft_ok (peer_storage_ops (env_DB env) (env_snap env)) (ps_wf con) r'" "appended data (h_raft h) r'" "same_data (ps_of (h_peer h)) (r_ps r')"
    using propose_data_ok[OF assms(1) ok1 assms(4)] f by auto
  define h' where "h' = set_RaftGroup ((h_RaftGroup h)\<lparr>rn_Raft := r'\<rparr>) h1"
  have lok: "log_ok (r_RaftLog (h_raft h))" using assms(2) by (simp add: peer_ok_def raft_ok_def)
  note v = appended_view[OF r'(3) lok]
  have idx: "nextProposalIndex (h_peer h) = Suc (LastIndex (r_RaftLog (h_raft h)))"
    using log_okE(7)[OF lok] by (simp add: nextProposalIndex_def u64_add_def)
  have q: "p_proposals (h_peer h') = p_proposals (h_peer h) @
      [\<lparr>pp_index = e_Index (new_entry (h_raft h) data), pp_term = e_Term (new_entry (h_raft h) data), pp_cb = Some cb\<rparr>]"
    by (simp add: h'_def h1_def with_proposal_def idx new_entry_def p_Term_def)
  have raft': "h_raft h' = r'" by (simp add: h'_def)
  have old: "\<exists>e. log_view (r_RaftLog r') (pp_index p) = Some e \<and> e_Term e = pp_term p \<and> e_Data e \<noteq> None" "pp_index p \<le> LastIndex (r_RaftLog (h_raft h))"
    if "p \<in> set (p_proposals (h_peer h))" for p
    using queue that v(3) log_view_le[OF lok] by (fastforce simp: queue_bound_def)+
  have "queue_bound h'"
    using queue old v(2) unfolding queue_bound_def q raft' by (auto simp: sorted_wrt_append new_entry_def less_Suc_eq_le)
  moreover have "peer_ok env con h'"
    unfolding h'_def using ok1(1) r'(2,4) by (intro peer_ok_group) (simp_all add: f)
  moreover have "proposeRequest env msg (Some cb) h = Some h'"
    using r'(1) by (simp add: proposeRequest_def with_proposal_def h1_def h'_def Let_def)
  moreover have "h_answers h' = h_answers h" by (simp add: h'_def h1_def set_RaftGroup_def)
  ultimately show ?thesis using q r'(3) by (auto simp: raft' appended_def Let_def)
qed

section \<open>From the proposal to the engine\<close>

text \<open>No entry of the log is newer than the leader's term.\<close>

definition terms_bounded :: "'db Handler \<Rightarrow> bool" where
  "terms_bounded h \<longleftrightarrow> lastTermOfSnapshot (r_RaftLog (h_raft h)) \<le> r_Term (h_raft h) \<and>
     (\<forall>e \<in> set (entries (r_RaftLog (h_raft h))). e_Term e \<le> r_Term (h_raft h))"

lemma same_data_log:
  assumes "same_data ps ps'"
  shows "ps_log con ps' = ps_log con ps" "ps_li ps' = ps_li ps" "ps_ts ps' = ps_ts ps"
  using assms by (simp_all add: same_data_def ps_log_def ps_ent_def fun_eq_iff)

lemma log_synced_append:
  assumes sync: "log_synced con (r_RaftLog r)" and app: "appended data r r'" and ok: "log_ok (r_RaftLog r')"
    and st: "same_data (r_ps r) (r_ps r')" "ps_wf con (r_ps r')"
    and terms: "lastTermOfSnapshot (r_RaftLog r) \<le> r_Term r" "\<And>e. e \<in> set (entries (r_RaftLog r)) \<Longrightarrow> e_Term e \<le> r_Term r"
  shows "log_synced con (r_RaftLog r')"
proof -
  let ?l = "r_RaftLog r" and ?l' = "r_RaftLog r'"
  have S: "log_wf ?l" "lastIdxOfSnapshot ?l = ts_Index (ps_ts (r_ps r))" "lastTermOfSnapshot ?l = ts_Term (ps_ts (r_ps r))"
      "lastIdxOfSnapshot ?l \<le> stabled ?l" "stabled ?l \<le> ps_li (r_ps r)" "\<And>i. i \<le> stabled ?l \<Longrightarrow> log_view ?l i = ps_log con (r_ps r) i"
      "sorted (lastTermOfSnapshot ?l # map e_Term (entries ?l))"
    using sync by (auto simp: log_synced_def)
  have A: "entries ?l' = entries ?l @ [new_entry r data]" "lastIdxOfSnapshot ?l' = lastIdxOfSnapshot ?l"
      "lastTermOfSnapshot ?l' = lastTermOfSnapshot ?l" "stabled ?l' = stabled ?l"
    using app by (simp_all add: appended_def Let_def)
  have b: "stabled ?l \<le> LastIndex ?l" "LastIndex ?l = lastIdxOfSnapshot ?l + length (entries ?l)"
    using S(1) by (auto simp: LastIndex_eq) (auto simp: log_wf_def)
  have "stabled ?l' \<noteq> LastIndex ?l'" using b by (simp add: A LastIndex_def new_entry_def)
  moreover have "log_view ?l' i = log_view ?l i" if "i \<le> stabled ?l" for i
    using that b by (auto simp: log_view_def A nth_append)
  moreover have "sorted (lastTermOfSnapshot ?l' # map e_Term (entries ?l'))"
    using S(7) terms by (auto simp: A sorted_append new_entry_def)
  ultimately show ?thesis
    using S log_ok_wf[OF ok] st(2) same_data_log[OF st(1)] A(2-4) by (simp add: log_synced_def)
qed

lemma ready_state_append:
  assumes h: "ready_state env con h" "terms_bounded h" and r': "raft_ok (peer_storage_ops (env_DB env) (env_snap env)) (ps_wf con) r'"
    "appended data (h_raft h) r'" "same_data (ps_of (h_peer h)) (r_ps r')"
  shows "ready_state env con (set_RaftGroup ((h_RaftGroup h)\<lparr>rn_Raft := r'\<rparr>) h)"
proof -
  note P = ready_state_parts[OF h(1)]
  have E: "peer_ok env con h" "IsEmptySnap (pendingSnapshot (r_RaftLog (h_raft h)))" "\<not> IsEmptyHardState (raft_HardState (h_raft h))"
      "rl_HardState (ps_raftState (ps_of (h_peer h))) = Some (prevHardState (h_RaftGroup h))"
      "\<exists>rs. disk_state con (ps_of (h_peer h)) = Some rs \<and> rl_HardState rs = Some (prevHardState (h_RaftGroup h))"
    using h(1) unfolding ready_state_def by - (elim conjE, assumption)+
  have "log_ok (r_RaftLog r')" "ps_wf con (r_ps r')" using r'(1) by (simp_all add: raft_ok_def)
  then have sync: "log_synced con (r_RaftLog r')"
    using h(2) r'(3) unfolding terms_bounded_def ps_of_def by (intro log_synced_append[OF P(4) r'(2)]) simp_all
  have "peer_ok env con (set_RaftGroup ((h_RaftGroup h)\<lparr>rn_Raft := r'\<rparr>) h)"
    using E(1) r'(1,3) by (intro peer_ok_group) simp_all
  moreover have "ready_to_apply (set_RaftGroup ((h_RaftGroup h)\<lparr>rn_Raft := r'\<rparr>) h)"
    using P(5) r'(3) by (simp add: ready_to_apply_def h_region_def p_Region_def ps_of_def same_data_def)
  moreover have "\<not> IsEmptyHardState (raft_HardState r')"
    using E(3) r'(2) by (auto simp: IsEmptyHardState_def raft_HardState_def zero_HardState_def appended_def Let_def split: if_splits)
  moreover have "rl_HardState (ps_raftState (r_ps r')) = Some (prevHardState (h_RaftGroup h))"
    using E(4) r'(3) by (simp add: same_data_def)
  moreover have "disk_state con (r_ps r') = disk_state con (ps_of (h_peer h))"
    using r'(3) by (simp add: same_data_def disk_state_def)
  moreover have "pendingSnapshot (r_RaftLog r') = pendingSnapshot (r_RaftLog (h_raft h))"
    using r'(2) by (simp add: appended_def Let_def)
  ultimately show ?thesis using sync E(2,5) by (simp add: ready_state_def ps_of_def h_RaftGroup_def)
qed

lemma log_range_appended:
  assumes "appended data r r'" "log_ok (r_RaftLog r)" "lo \<le> LastIndex (r_RaftLog r)"
  shows "log_range (r_RaftLog r') lo (Suc (LastIndex (r_RaftLog r))) =
    log_range (r_RaftLog r) lo (LastIndex (r_RaftLog r)) @ [new_entry r data]"
proof -
  have "map (\<lambda>i. the (log_view (r_RaftLog r') i)) [Suc lo..<Suc (LastIndex (r_RaftLog r))] =
      map (\<lambda>i. the (log_view (r_RaftLog r) i)) [Suc lo..<Suc (LastIndex (r_RaftLog r))]"
    using appended_view(3)[OF assms(1,2)] by (auto simp del: upt_Suc)
  then show ?thesis using assms(3) appended_view(2)[OF assms(1,2)] by (simp add: log_range_def)
qed

lemma ready_state_proposal:
  assumes "ready_state env con h"
  shows "ready_state env con (h\<lparr>h_peer := with_proposal (Some cb) (h_peer h)\<rparr>)"
proof -
  have "h_region (h\<lparr>h_peer := with_proposal (Some cb) (h_peer h)\<rparr>) = h_region h"
    by (simp add: h_region_def p_Region_def)
  with assms show ?thesis
    unfolding ready_state_def peer_ok_def ready_to_apply_def h_RaftGroup_def by (simp add: with_proposal_def ps_of_def)
qed

text \<open>
  C13 (liveness): a command of the only peer of a region is durable and visible after one round. The
  leader of a group of one, in a state between two rounds, takes a plain command: proposing it and
  then running the ready loop both return, the peer is again between two rounds, the log in the
  engine holds the entry, everything is applied, and every key but the record of the applied index
  reads as the pending entries followed by the command leave it.
\<close>

theorem command_becomes_visible:
  assumes eng: "reliable_engine (env_DB env) con" and h: "ready_state env con h" "terms_bounded h" "can_propose h"
    and one: "peers (h_raft h) = [r_id (h_raft h)]" "committed (r_RaftLog (h_raft h)) = LastIndex (r_RaftLog (h_raft h))"
    and msg: "env_cmd_bytes env msg = Some data" "env_cmd env data = Some msg" "plain_command msg"
    and plain: "\<And>e. e \<in> set (log_range (r_RaftLog (h_raft h)) (applied (r_RaftLog (h_raft h))) (committed (r_RaftLog (h_raft h)))) \<Longrightarrow>
      plain_entry (env_cmd env) e"
  shows "\<exists>h1 h2. proposeRequest env msg (Some cb) h = Some h1 \<and> HandleRaftReady env h1 = Some h2 \<and> ready_state env con h2 \<and>
    ps_log con (ps_of (h_peer h2)) (Suc (LastIndex (r_RaftLog (h_raft h)))) = Some (new_entry (h_raft h) data) \<and>
    HasReady (h_RaftGroup h2) = Some False \<and>
    (\<forall>k. k \<noteq> ApplyStateKey (p_regionId (h_peer h)) \<longrightarrow> con (kv_of h2) k =
       command_effect (h_region h) msg (fold (apply_data (env_cmd env) (h_region h))
         (log_range (r_RaftLog (h_raft h)) (applied (r_RaftLog (h_raft h))) (committed (r_RaftLog (h_raft h)))) (con (kv_of h))) k)"
proof -
  let ?l = "r_RaftLog (h_raft h)"
  define h0 where "h0 = h\<lparr>h_peer := with_proposal (Some cb) (h_peer h)\<rparr>"
  have f: "h_raft h0 = h_raft h" "h_RaftGroup h0 = h_RaftGroup h" "kv_of h0 = kv_of h" "h_region h0 = h_region h" "p_regionId (h_peer h0) = p_regionId (h_peer h)"
    by (simp_all add: h0_def h_RaftGroup_def kv_of_def h_region_def p_Region_def)
  have st0: "ready_state env con h0" unfolding h0_def by (rule ready_state_proposal[OF h(1)])
  have ok0: "peer_ok env con h0" "can_propose h0" "terms_bounded h0"
    using st0 h(2,3) f(1) by (simp_all add: ready_state_def can_propose_def terms_bounded_def)
  have kv: "kv_engine (env_DB env) con" by (rule reliable_engine.axioms(1)[OF eng])
  obtain r' where r': "propose_data env msg h0 = Some (set_RaftGroup ((h_RaftGroup h0)\<lparr>rn_Raft := r'\<rparr>) h0)"
    "raft_ok (peer_storage_ops (env_DB env) (env_snap env)) (ps_wf con) r'" "appended data (h_raft h0) r'" "same_data (ps_of (h_peer h0)) (r_ps r')"
    using propose_data_ok[OF kv ok0(1,2) msg(1)] by blast
  define h1 where "h1 = set_RaftGroup ((h_RaftGroup h0)\<lparr>rn_Raft := r'\<rparr>) h0"
  have st1: "ready_state env con h1" unfolding h1_def by (rule ready_state_append[OF st0 ok0(3) r'(2-4)])
  have lok: "log_ok ?l" by (rule ready_state_parts(2)[OF h(1)])
  note app = r'(3)[unfolded f(1)]
  have c: "committed (r_RaftLog r') = Suc (LastIndex ?l)" "applied (r_RaftLog r') = applied ?l"
    using app one(1) by (simp_all add: appended_def Let_def)
  have raft1: "h_raft h1 = r'" by (simp add: h1_def)
  have range: "log_range (r_RaftLog r') (applied (r_RaftLog r')) (committed (r_RaftLog r')) = log_range ?l (applied ?l) (committed ?l) @ [new_entry (h_raft h) data]"
    using log_range_appended[OF app lok, of "applied ?l"] log_okE(2,3)[OF lok] by (simp add: c one(2))
  have new: "plain_entry (env_cmd env) (new_entry (h_raft h) data)"
    using msg(2,3) by (simp add: plain_entry_def new_entry_def zero_Entry_def)
  obtain h2 where h2: "HandleRaftReady env h1 = Some h2" "ready_state env con h2" "round_done env con h1 h2"
    using reliable_engine.round_ok[OF eng st1 refl] plain new unfolding raft1 range by auto
  have h1f: "h_region h1 = h_region h" "kv_of h1 = kv_of h" "p_regionId (h_peer h1) = p_regionId (h_peer h)"
    using r'(4) f(3-5) by (simp_all add: h1_def h_region_def p_Region_def ps_of_def kv_of_def same_data_def)
  have eff: "apply_data (env_cmd env) (h_region h) (new_entry (h_raft h) data) m = command_effect (h_region h) msg m" for m
    using msg(2) by (simp add: apply_data_def new_entry_def)
  have "con (kv_of h2) k = command_effect (h_region h) msg (fold (apply_data (env_cmd env) (h_region h))
      (log_range ?l (applied ?l) (committed ?l)) (con (kv_of h))) k" if "k \<noteq> ApplyStateKey (p_regionId (h_peer h))" for k
    using that unfolding round_doneD(2)[OF h2(3)] raft1 range h1f by (simp add: replayed_def eff)
  moreover have "ps_log con (ps_of (h_peer h2)) (Suc (LastIndex ?l)) = Some (new_entry (h_raft h) data)"
    unfolding round_doneD(1)[OF h2(3)] raft1 by (rule appended_view(2)[OF app lok])
  moreover have "proposeRequest env msg (Some cb) h = Some h1"
    using r'(1) by (simp add: proposeRequest_def with_proposal_def h0_def h1_def Let_def)
  ultimately show ?thesis using h2(1,2) round_doneD(4)[OF h2(3)] by blast
qed

section \<open>Witnesses\<close>

text \<open>The leader of a group of one.\<close>

definition demo_single :: "(bytes \<times> EngineValue) list Handler" where
  "demo_single = set_RaftGroup \<lparr>rn_Raft = (h_raft demo_handler)\<lparr>peers := [1], r_State := StateLeader\<rparr>,
     prevSoftState = \<lparr>ss_Lead = 0, ss_RaftState = StateFollower\<rparr>,
     prevHardState = \<lparr>hs_Term = 5, hs_Vote = 0, hs_Commit = 5\<rparr>\<rparr> demo_handler"

definition demo_single_env :: "(bytes \<times> EngineValue) list Env" where
  "demo_single_env = demo_env\<lparr>env_cmd_bytes := \<lambda>m. Some [7]\<rparr>"

lemma demo_single_fields:
  "r_RaftLog (h_raft demo_single) = demo_peer_log\<lparr>entries := []\<rparr>" "ps_of (h_peer demo_single) = demo_storage"
  "h_region demo_single = demo_kv_region" "raft_HardState (h_raft demo_single) = \<lparr>hs_Term = 5, hs_Vote = 0, hs_Commit = 5\<rparr>"
  "p_regionId (h_peer demo_single) = 1" "prevHardState (h_RaftGroup demo_single) = \<lparr>hs_Term = 5, hs_Vote = 0, hs_Commit = 5\<rparr>"
  "r_Term (h_raft demo_single) = 5" "r_State (h_raft demo_single) = StateLeader" "r_id (h_raft demo_single) = 1"
  "peers (h_raft demo_single) = [1]" "Prs (h_raft demo_single) = Prs (h_raft demo_handler)" "electionTimeout (h_raft demo_single) = 10"
  "p_proposals (h_peer demo_single) = []" "\<not> p_stopped (h_peer demo_single)" "h_answers demo_single = []"
proof -
  have "p_proposals (h_peer demo_handler) = []" "\<not> p_stopped (h_peer demo_handler)" "h_answers demo_handler = []"
    using demo_peer_created(3,4) by (simp_all add: demo_handler_def)
  then show "p_proposals (h_peer demo_single) = []" "\<not> p_stopped (h_peer demo_single)" "h_answers demo_single = []"
    by (simp_all add: demo_single_def set_RaftGroup_def)
qed (use demo_handler_ready(4) in \<open>simp_all add: demo_single_def demo_raft_eq demo_peer_log_def ps_of_def h_region_def p_Region_def
  h_RaftGroup_def raft_HardState_def demo_storage_eq\<close>)

lemma demo_single_state:
  "ready_state demo_single_env map_of demo_single" "terms_bounded demo_single" "can_propose demo_single" "queue_bound demo_single"
    "committed (r_RaftLog (h_raft demo_single)) = LastIndex (r_RaftLog (h_raft demo_single))"
proof -
  have "log_synced map_of (r_RaftLog (h_raft demo_single))" "log_ok (r_RaftLog (h_raft demo_single))"
    using demo_storage_wf
    by (simp_all add: demo_single_fields log_synced_def log_ok_def demo_peer_log_def log_wf_def LastIndex_def log_view_def ps_log_def
        demo_storage_fields)
  moreover have "peer_ok demo_single_env map_of demo_single"
    using calculation(2) demo_raft(11) demo_storage_wf
    by (simp add: peer_ok_def raft_ok_def demo_single_fields demo_kv_region_fields)
      (simp add: demo_peer_log_def demo_single_env_def demo_env_def demo_raft(9) demo_kv_region_def)
  ultimately show "ready_state demo_single_env map_of demo_single"
    by (simp add: ready_state_def ready_to_apply_def demo_single_fields demo_kv_region_fields IsEmptyHardState_def zero_HardState_def)
      (simp add: demo_ready_simps)
qed (simp_all add: terms_bounded_def can_propose_def queue_bound_def demo_single_fields demo_peer_log_def LastIndex_def)

lemma demo_single_engine: "reliable_engine (env_DB demo_single_env) map_of"
  by (simp add: demo_single_env_def demo_env_def al.reliable_engine_axioms)

theorem proposeRequest_binds_witness:
  "\<exists>h'. proposeRequest demo_single_env (demo_put [7]) (Some 3) demo_single = Some h' \<and>
     p_proposals (h_peer h') = [\<lparr>pp_index = 6, pp_term = 5, pp_cb = Some 3\<rparr>] \<and>
     entries (r_RaftLog (h_raft h')) = [zero_Entry\<lparr>e_Data := Some [7], e_Term := 5, e_Index := 6\<rparr>]"
proof -
  have ok: "peer_ok demo_single_env map_of demo_single" using demo_single_state(1) by (simp add: ready_state_def)
  have data: "env_cmd_bytes demo_single_env (demo_put [7]) = Some [7]" by (simp add: demo_single_env_def)
  have e: "new_entry (h_raft demo_single) [7] = zero_Entry\<lparr>e_Data := Some [7], e_Term := 5, e_Index := 6\<rparr>"
    by (simp add: new_entry_def demo_single_fields demo_peer_log_def LastIndex_def)
  from proposeRequest_binds[OF reliable_engine.axioms(1)[OF demo_single_engine] ok demo_single_state(3) data demo_single_state(4), of 3]
  show ?thesis by (auto simp: e demo_single_fields demo_peer_log_def)
qed

theorem command_becomes_visible_witness:
  "\<exists>h1 h2. proposeRequest demo_single_env (demo_put [7]) (Some 3) demo_single = Some h1 \<and> HandleRaftReady demo_single_env h1 = Some h2 \<and>
     map_of (kv_of h2) (KeyWithCF CfDefault [7]) = Some (VBytes [1])"
proof -
  have range: "log_range (r_RaftLog (h_raft demo_single)) (applied (r_RaftLog (h_raft demo_single))) (committed (r_RaftLog (h_raft demo_single))) = []"
    by (simp add: demo_single_fields demo_peer_log_def log_range_def)
  have env: "env_cmd_bytes demo_single_env (demo_put [7]) = Some [7]" "env_cmd demo_single_env [7] = Some (demo_put [7])"
    by (simp_all add: demo_single_env_def demo_env_def)
  have one: "peers (h_raft demo_single) = [r_id (h_raft demo_single)]" by (simp add: demo_single_fields)
  obtain h1 h2 where h: "proposeRequest demo_single_env (demo_put [7]) (Some 3) demo_single = Some h1" "HandleRaftReady demo_single_env h1 = Some h2"
    "\<forall>k. k \<noteq> ApplyStateKey 1 \<longrightarrow> map_of (kv_of h2) k = command_effect demo_kv_region (demo_put [7]) (map_of (kv_of demo_single)) k"
    using command_becomes_visible[OF demo_single_engine demo_single_state(1-3) one demo_single_state(5) env demo_put_plain, of 3]
    unfolding range demo_single_fields(3,5) by auto
  have "KeyWithCF CfDefault [7] \<noteq> ApplyStateKey 1" by (rule cf_key_not_local) (simp add: CFs_def)
  then have "map_of (kv_of h2) (KeyWithCF CfDefault [7]) = Some (VBytes [1])"
    using h(3) by (simp add: command_effect_def demo_put_def demo_header_def demo_kv_region_fields getKey_def in_range_def request_effect_def)
  with h(1,2) show ?thesis by blast
qed

end
