(* ===== verification/Peer_Answers.thy ===== *)
theory Peer_Answers
  imports Peer_Propose
begin

text \<open>
  The answers of the clients: which callbacks one round of the ready loop calls.
\<close>

section \<open>One command\<close>






section \<open>A queue that waits for the entries\<close>









section \<open>The whole round\<close>












end
