(* ===== verification/Peer_Total.thy ===== *)
theory Peer_Total
  imports Peer_Answers
begin

text \<open>
  The handler of a peer as a total function: the messages it receives and the ticks of its clock do not
  stop it, and they keep its state well-formed.
\<close>

section \<open>A tick of the raft instance\<close>

text \<open>The configuration stays and the log grows by at most \<open>n\<close> entries.\<close>

definition steady :: "nat \<Rightarrow> 's Raft \<Rightarrow> 's Raft \<Rightarrow> bool" where
  "steady n r r' \<longleftrightarrow> peers r' = peers r \<and> r_id r' = r_id r \<and>
     lastIdxOfSnapshot (r_RaftLog r') = lastIdxOfSnapshot (r_RaftLog r) \<and>
     length (entries (r_RaftLog r)) \<le> length (entries (r_RaftLog r')) \<and>
     length (entries (r_RaftLog r')) \<le> length (entries (r_RaftLog r)) + n"

lemma steady_refl [simp]: "steady n r r"
  by (simp add: steady_def)








section \<open>The handler\<close>



text \<open>What a part of the handler may change: the raft instance grows, the data of the storage stay.\<close>

definition grown :: "nat \<Rightarrow> 'db Handler \<Rightarrow> 'db Handler \<Rightarrow> bool" where
  "grown n h h' \<longleftrightarrow> steady n (h_raft h) (h_raft h') \<and> same_data (ps_of (h_peer h)) (ps_of (h_peer h')) \<and>
     committed (r_RaftLog (h_raft h)) \<le> committed (r_RaftLog (h_raft h')) \<and> p_regionId (h_peer h') = p_regionId (h_peer h) \<and>
     h_cfg h' = h_cfg h"

lemma grown_refl [simp]: "grown n h h"
  by (simp add: grown_def)













section \<open>Ticks\<close>




















section \<open>Messages\<close>






















end
