(* ===== verification/Peer_Split.thy ===== *)
theory Peer_Split
  imports Peer_Admin
begin

text \<open>
  The split of a region: the two ranges, what is stored for them, and the peer that is created for the
  new region.
\<close>

section \<open>Keys of two regions\<close>

lemma region_keys_apart:
  assumes "r < 2 ^ 64" "r' < 2 ^ 64" "r \<noteq> r'"
  shows "RaftStateKey r' < RaftLogKey r i \<longleftrightarrow> r' < r"
proof -
  have "bytes_compare (be64 r' @ [RaftStateSuffix]) (be64 r @ RaftLogSuffix # be64 i) = bytes_compare (be64 r') (be64 r)"
    using assms be64_inject[of r' r] by (subst bytes_compare_append) auto
  then have "be64 r' @ [RaftStateSuffix] < be64 r @ RaftLogSuffix # be64 i \<longleftrightarrow> be64 r' < be64 r"
    by (metis bytes_compare_less_iff)
  then show ?thesis using be64_less[OF assms(2,1)] by (simp add: key_defs append_less_append)
qed

text \<open>Writing the raft state of a region leaves the log of every region alone.\<close>

lemma log_keys_state:
  assumes "log_keys_ok m r" "r < 2 ^ 64" "r' < 2 ^ 64"
  shows "log_keys_ok (m(RaftStateKey r' := v)) r"
proof (cases "r = r'")
  case True
  then show ?thesis using log_keys_ok_upd[OF assms(1)] RaftStateKey_above by blast
next
  case False
  have "\<not> (RaftLogKey r 0 \<le> RaftStateKey r' \<and> RaftStateKey r' \<le> RaftLogKey r (2 ^ 64 - 1))"
    using region_keys_apart[OF assms(2,3) False, of 0] region_keys_apart[OF assms(2,3) False, of "2 ^ 64 - 1"]
    by (auto simp: not_le[symmetric] dest: order.antisym)
  then show ?thesis using assms(1) by (auto simp: log_keys_ok_def)
qed

section \<open>The two ranges\<close>

lemma validSplitKey_iff:
  "validSplitKey key lo hi \<longleftrightarrow> (lo = [] \<or> lo < key) \<and> (hi = [] \<or> key < hi)"
  by (auto simp: validSplitKey_def Let_def bytes_compare_less_iff)

lemma split_ranges:
  assumes "validSplitKey key lo hi" "key \<noteq> []"
  shows "in_range lo hi k \<longleftrightarrow> in_range lo key k \<or> in_range key hi k" "\<not> (in_range lo key k \<and> in_range key hi k)"
proof -
  have "lo \<le> key" using assms(1) by (auto simp: validSplitKey_iff)
  then show "in_range lo hi k \<longleftrightarrow> in_range lo key k \<or> in_range key hi k" "\<not> (in_range lo key k \<and> in_range key hi k)"
    using assms by (auto simp: in_range_def validSplitKey_iff)
qed

definition left_region :: "SplitRequest \<Rightarrow> Region \<Rightarrow> Region" where
  "left_region req region = region\<lparr>rg_EndKey := sr_SplitKey req, rg_RegionEpoch :=
     map_option (\<lambda>e. e\<lparr>ep_Version := u64_add (ep_Version e) 1\<rparr>) (rg_RegionEpoch region)\<rparr>"

definition right_region :: "SplitRequest \<Rightarrow> Region \<Rightarrow> Region" where
  "right_region req region = \<lparr>rg_Id = sr_NewRegionId req, rg_StartKey = sr_SplitKey req, rg_EndKey = rg_EndKey region,
     rg_RegionEpoch = Some \<lparr>ep_ConfVer = 1, ep_Version = 1\<rparr>,
     rg_Peers = map (\<lambda>(p, i). \<lparr>peer_Id = i, peer_StoreId = peer_StoreId p\<rparr>) (zip (rg_Peers region) (sr_NewPeerIds req))\<rparr>"

text \<open>The states a region starts with.\<close>

definition initial_raft :: RaftLocalState where
  "initial_raft = \<lparr>rl_HardState = Some (zero_HardState\<lparr>hs_Term := 5, hs_Commit := 5\<rparr>), rl_LastIndex = 5, rl_LastTerm = 0\<rparr>"

definition initial_apply :: RaftApplyState where
  "initial_apply = \<lparr>as_AppliedIndex = 5, as_TruncatedState = Some \<lparr>ts_Index = 5, ts_Term = 5\<rparr>\<rparr>"

definition normal_state :: "Region \<Rightarrow> EngineValue" where
  "normal_state region = VRegionState \<lparr>rls_State = PeerState_Normal, rls_Region = Some region\<rparr>"

text \<open>What a split writes to the key-value engine.\<close>

definition split_writes :: "SplitRequest \<Rightarrow> Region \<Rightarrow> (bytes \<rightharpoonup> EngineValue) \<Rightarrow> (bytes \<rightharpoonup> EngineValue)" where
  "split_writes req region m = m(ApplyStateKey (sr_NewRegionId req) \<mapsto> VApplyState initial_apply,
     RegionStateKey (sr_NewRegionId req) \<mapsto> normal_state (right_region req region),
     RegionStateKey (rg_Id region) \<mapsto> normal_state (left_region req region))"

context reliable_engine
begin

lemma regionSplit_ok:
  assumes env: "env_DB env = D" and peers: "length (rg_Peers region) = length (sr_NewPeerIds req)" "sr_NewPeerIds req \<noteq> []"
    and ep: "rg_RegionEpoch region \<noteq> None"
  shows "\<exists>kv raft. regionSplit env region req h =
      Some (right_region req region, set_raft raft (h_setRegion (left_region req region) (set_kv kv h))) \<and>
    con kv = split_writes req region (con (kv_of h)) \<and>
    con raft = (con (raft_of h))(RaftStateKey (sr_NewRegionId req) \<mapsto> VRaftState initial_raft)"
proof -
  define kvWB where "kvWB = WriteRegionState (WriteRegionState (writeInitialApplyState (sr_NewRegionId req) new_WriteBatch)
    (right_region req region) PeerState_Normal) (left_region req region) PeerState_Normal"
  define raftWB where "raftWB = writeInitialRaftState (sr_NewRegionId req) new_WriteBatch"
  have id: "rg_Id (right_region req region) = sr_NewRegionId req" "rg_Id (left_region req region) = rg_Id region"
    by (simp_all add: right_region_def left_region_def)
  obtain kv where kv: "snd (WriteToDB D kvWB (kv_of h)) = kv" "con kv = wb_apply kvWB (con (kv_of h))"
    using WriteToDB_ok[of kvWB "kv_of h"] by auto
  obtain raft where raft: "snd (WriteToDB D raftWB (raft_of h)) = raft" "con raft = wb_apply raftWB (con (raft_of h))"
    using WriteToDB_ok[of raftWB "raft_of h"] by auto
  obtain e where e: "rg_RegionEpoch region = Some e" using ep by blast
  have L: "region\<lparr>rg_RegionEpoch := Some (e\<lparr>ep_Version := u64_add (ep_Version e) (Suc 0)\<rparr>), rg_EndKey := sr_SplitKey req\<rparr> = left_region req region"
    by (simp add: left_region_def e)
  have R: "\<lparr>rg_Id = sr_NewRegionId req, rg_StartKey = sr_SplitKey req, rg_EndKey = rg_EndKey region,
      rg_RegionEpoch = Some \<lparr>ep_ConfVer = InitEpochConfVer, ep_Version = InitEpochVer\<rparr>,
      rg_Peers = map2 (\<lambda>p i. \<lparr>peer_Id = i, peer_StoreId = peer_StoreId p\<rparr>) (rg_Peers region) (sr_NewPeerIds req)\<rparr> = right_region req region"
    by (simp add: right_region_def InitEpochConfVer_def InitEpochVer_def)
  have r: "raft_of (h_setRegion reg (set_kv db h)) = raft_of h" for reg db
    by (simp add: raft_of_def h_setRegion_def p_SetRegion_def ps_SetRegion_def set_ps_def ps_of_def set_kv_def set_engines_def)
  have "regionSplit env region req h = Some (right_region req region, set_raft raft (h_setRegion (left_region req region) (set_kv kv h)))"
    using peers e by (simp add: regionSplit_def split_peers_def Let_def R L id kvWB_def[symmetric] raftWB_def[symmetric] env kv(1) raft(1) r)
  moreover have "con kv = split_writes req region (con (kv_of h))"
    by (simp add: kv(2) kvWB_def WriteRegionState_def writeInitialApplyState_def split_writes_def normal_state_def initial_apply_def id
        RaftInitLogIndex_def RaftInitLogTerm_def)
  moreover have "con raft = (con (raft_of h))(RaftStateKey (sr_NewRegionId req) \<mapsto> VRaftState initial_raft)"
    by (simp add: raft(2) raftWB_def writeInitialRaftState_def initial_raft_def RaftInitLogIndex_def RaftInitLogTerm_def)
  ultimately show ?thesis by blast
qed

end

section \<open>The new peer\<close>

text \<open>A storage that has just been created for a region with peers.\<close>

definition fresh_storage :: "Region \<Rightarrow> RegionTask list \<Rightarrow> 'db Engines \<Rightarrow> 'db PeerStorage" where
  "fresh_storage region sched en = \<lparr>ps_region = region, ps_raftState = initial_raft, ps_applyState = initial_apply,
     ps_snapState = \<lparr>st_StateType = SnapState_Relax, st_Receiver = None\<rparr>, ps_regionSched = sched, ps_snapTriedCnt = 0, ps_Engines = en\<rparr>"

definition cfg_ok :: "KvConfig \<Rightarrow> bool" where
  "cfg_ok cfg \<longleftrightarrow> 0 < cfg_RaftHeartbeatTicks cfg \<and> cfg_RaftHeartbeatTicks cfg < cfg_RaftElectionTimeoutTicks cfg \<and>
     cfg_RaftBaseTickInterval cfg \<noteq> 0"

lemma fresh_storage_wf:
  assumes "rg_Id region < 2 ^ 64" "log_keys_ok (con (en_Raft en)) (rg_Id region)"
  shows "ps_wf con (fresh_storage region sched en)"
  using assms by (auto simp: ps_wf_def fresh_storage_def initial_raft_def initial_apply_def IsEmptyHardState_def zero_HardState_def)

context kv_engine
begin

lemma NewPeerStorage_fresh:
  assumes "con (en_Raft en) (RaftStateKey (rg_Id region)) = Some (VRaftState initial_raft)"
    "con (en_Kv en) (ApplyStateKey (rg_Id region)) = Some (VApplyState initial_apply)"
  shows "NewPeerStorage D region sched en = Some (Inr (fresh_storage region sched en), en)"
  using assms
  by (simp add: NewPeerStorage_def InitRaftLocalState_def GetRaftLocalState_def InitApplyState_def GetApplyState_def Get
      fresh_storage_def initial_raft_def initial_apply_def Let_def)

lemma NewPeer_fresh:
  assumes states: "con (en_Raft en) (RaftStateKey (rg_Id region)) = Some (VRaftState initial_raft)"
      "con (en_Kv en) (ApplyStateKey (rg_Id region)) = Some (VApplyState initial_apply)"
    and wf: "rg_Id region < 2 ^ 64" "log_keys_ok (con (en_Raft en)) (rg_Id region)" and cfg: "cfg_ok cfg"
    and meta: "FindPeer region store = Some p" "peer_Id p \<noteq> 0" and many: "length (rg_Peers region) \<noteq> 1"
  shows "\<exists>np. createPeer D U cfg src store sched en region = Some (Inr np) \<and> ps_of np = fresh_storage region sched en \<and> p_Meta np = p \<and>
    p_regionId np = rg_Id region \<and> raft_ok (peer_storage_ops D U) (ps_wf con) (rn_Raft (p_RaftGroup np)) \<and>
    r_id (rn_Raft (p_RaftGroup np)) = peer_Id p \<and> r_State (rn_Raft (p_RaftGroup np)) = StateFollower \<and>
    peers (rn_Raft (p_RaftGroup np)) = map peer_Id (rg_Peers region) \<and> p_proposals np = [] \<and> \<not> p_stopped np"
proof -
  let ?s = "fresh_storage region sched en"
  define c where "c = \<lparr>c_ID = peer_Id p, c_peers = None, c_ElectionTick = cfg_RaftElectionTimeoutTicks cfg,
    c_HeartbeatTick = cfg_RaftHeartbeatTicks cfg, c_Storage = Some (peer_storage_ops D U, ?s), c_Applied = AppliedIndex ?s\<rparr>"
  have ini: "so_InitialState (peer_storage_ops D U) ?s = Some (Inr (zero_HardState\<lparr>hs_Term := 5, hs_Commit := 5\<rparr>, ConfStateFromRegion region))"
    by (simp add: peer_storage_ops_def ps_InitialState_def fresh_storage_def initial_raft_def IsEmptyHardState_def zero_HardState_def)
  have b: "ps_li ?s = 5" "ps_fi ?s = 6" "AppliedIndex ?s = 5"
    by (simp_all add: fresh_storage_def initial_raft_def initial_apply_def AppliedIndex_def)
  have val: "Config_validate c = None" using cfg meta(2) by (simp add: Config_validate_def c_def None_id_def cfg_ok_def)
  obtain r where r: "newRaft c src = Some r" "raft_ok (peer_storage_ops D U) (ps_wf con) r" "r_State r = StateFollower" "r_id r = peer_Id p"
    "storage (r_RaftLog r) = ?s" "peers r = map peer_Id (rg_Peers region)"
    using ps.newRaft_ok[OF _ fresh_storage_wf[where con = con and sched = sched, OF wf] ini, of c src] val
    by (auto simp: c_def b zero_HardState_def ConfStateFromRegion_def)
  obtain t where t: "newTicker (rg_Id region) cfg = Some t" using cfg by (simp add: newTicker_def cfg_ok_def Let_def)
  have "NewRawNode c src = Some \<lparr>rn_Raft = r, prevSoftState = raft_SoftState r, prevHardState = raft_HardState r\<rparr>"
    using r(1) by (simp add: NewRawNode_def)
  then show ?thesis
    using r t meta many by (simp add: createPeer_def NewPeer_def NewPeerStorage_fresh[OF states] c_def[symmetric] ps_of_def)
qed

end

section \<open>Applying the split\<close>

lemma ps_wf_split:
  assumes wf: "ps_wf con ps" and id: "rg_Id region = rg_Id (ps_region ps)" "r' < 2 ^ 64"
    and raft: "con (en_Raft en) = (con (en_Raft (ps_Engines ps)))(RaftStateKey r' \<mapsto> v)" and init: "ps_isInitialized ps"
  shows "ps_wf con (ps\<lparr>ps_region := region, ps_Engines := en\<rparr>)"
proof -
  have e: "ps_ent con (ps\<lparr>ps_region := region, ps_Engines := en\<rparr>) = ps_ent con ps"
    by (simp add: ps_ent_def fun_eq_iff id(1) raft)
  have "log_keys_ok (con (en_Raft en)) (rg_Id region)"
    unfolding raft id(1) by (rule log_keys_state[OF ps_wf_parts(5,1)[OF wf] id(2)])
  then show ?thesis using wf init unfolding ps_wf_def e ps_isInitialized_def by (auto simp: id(1) simp del: not_less)
qed

lemma find_zip:
  assumes "length ps = length is" "find (\<lambda>p. peer_StoreId p = s) ps \<noteq> None"
  shows "\<exists>p. find (\<lambda>p. peer_StoreId p = s) (map (\<lambda>(p, i). \<lparr>peer_Id = i, peer_StoreId = peer_StoreId p\<rparr>) (zip ps is)) = Some p \<and>
    peer_Id p \<in> set is \<and> peer_StoreId p = s"
  using assms by (induction ps "is" rule: list_induct2) auto

text \<open>What a split needs: a key inside the region, an id for the new region and one for each of its peers.\<close>

definition split_ok :: "SplitRequest \<Rightarrow> 'db Handler \<Rightarrow> bool" where
  "split_ok req h \<longleftrightarrow> validSplitKey (sr_SplitKey req) (rg_StartKey (h_region h)) (rg_EndKey (h_region h)) \<and> sr_SplitKey req \<noteq> [] \<and>
     length (sr_NewPeerIds req) = length (rg_Peers (h_region h)) \<and> 1 < length (sr_NewPeerIds req) \<and> 0 \<notin> set (sr_NewPeerIds req) \<and>
     sr_NewRegionId req < 2 ^ 64 \<and> sr_NewRegionId req \<noteq> rg_Id (h_region h)"

definition split_state :: "'db \<Rightarrow> 'db \<Rightarrow> SplitRequest \<Rightarrow> 'db Handler \<Rightarrow> 'db Handler" where
  "split_state kv raft req h = set_raft raft (h_setRegion (left_region req (h_region h)) (set_kv kv h))"

lemma split_state_fields:
  "h_raft (split_state kv raft req h) = (h_raft h)\<lparr>r_RaftLog := (r_RaftLog (h_raft h))\<lparr>storage := (ps_of (h_peer h))\<lparr>
     ps_region := left_region req (h_region h), ps_Engines := \<lparr>en_Kv = kv, en_Raft = raft\<rparr>\<rparr>\<rparr>\<rparr>"
  "ps_Engines (ps_of (h_peer (split_state kv raft req h))) = \<lparr>en_Kv = kv, en_Raft = raft\<rparr>"
  "h_region (split_state kv raft req h) = left_region req (h_region h)" "kv_of (split_state kv raft req h) = kv"
  "raft_of (split_state kv raft req h) = raft" "p_regionId (h_peer (split_state kv raft req h)) = p_regionId (h_peer h)"
  "h_storeMeta (split_state kv raft req h) = meta_setRegion (left_region req (h_region h)) (h_storeMeta h)"
  "h_cfg (split_state kv raft req h) = h_cfg h" "storeID (h_peer (split_state kv raft req h)) = storeID (h_peer h)"
  "h_newPeers (split_state kv raft req h) = h_newPeers h" "h_router (split_state kv raft req h) = h_router h"
  by (simp_all add: split_state_def set_raft_def set_kv_def set_engines_def set_ps_def ps_of_def h_setRegion_def p_SetRegion_def
      ps_SetRegion_def h_region_def p_Region_def kv_of_def raft_of_def storeID_def)

lemma set_engines_same: "set_engines (ps_Engines (ps_of (h_peer h))) h = h"
  by (simp add: set_engines_def set_ps_def ps_of_def)

context reliable_engine
begin

lemma handleSplit_ok:
  assumes env: "env_DB env = D" and ok: "peer_ok env con h" "rg_RegionEpoch (h_region h) \<noteq> None" "cfg_ok (h_cfg h)" "meta_wf (h_storeMeta h)"
    and me: "FindPeer (h_region h) (storeID (h_peer h)) \<noteq> None" and req: "ar_Split admin = Some req" "split_ok req h"
    and fresh: "log_keys_ok (con (raft_of h)) (sr_NewRegionId req)"
  shows "\<exists>kv raft np m'. handleSplit env admin h = Some ((split_state kv raft req h)\<lparr>h_storeMeta := m', h_newPeers := h_newPeers h @ [np],
      h_router := (router_register (sr_NewRegionId req) (h_router h))\<lparr>rt_peerSender := rt_peerSender (h_router h) @ [(sr_NewRegionId req, MsgTypeStart)]\<rparr>\<rparr>) \<and>
    con kv = split_writes req (h_region h) (con (kv_of h)) \<and>
    con raft = (con (raft_of h))(RaftStateKey (sr_NewRegionId req) \<mapsto> VRaftState initial_raft) \<and>
    meta_wf m' \<and> regions m' = fmupd (sr_NewRegionId req) (right_region req (h_region h)) (fmupd (rg_Id (h_region h)) (left_region req (h_region h)) (regions (h_storeMeta h))) \<and>
    right_region req (h_region h) \<in> set (ranges m') \<and>
    p_Region np = right_region req (h_region h) \<and> storeID np = storeID (h_peer h) \<and>
    raft_ok (peer_storage_ops D (env_snap env)) (ps_wf con) (rn_Raft (p_RaftGroup np)) \<and>
    peers (rn_Raft (p_RaftGroup np)) = sr_NewPeerIds req"
proof -
  let ?R = "right_region req (h_region h)" and ?new = "sr_NewRegionId req"
  have sp: "length (rg_Peers (h_region h)) = length (sr_NewPeerIds req)" "sr_NewPeerIds req \<noteq> []" "?new < 2 ^ 64" "0 \<notin> set (sr_NewPeerIds req)"
      "length (sr_NewPeerIds req) \<noteq> 1" "?new \<noteq> rg_Id (h_region h)"
      "validSplitKey (sr_SplitKey req) (rg_StartKey (h_region h)) (rg_EndKey (h_region h))"
    using req(2) by (auto simp: split_ok_def)
  obtain kv raft where s: "regionSplit env (h_region h) req h = Some (?R, split_state kv raft req h)"
    "con kv = split_writes req (h_region h) (con (kv_of h))" "con raft = (con (raft_of h))(RaftStateKey ?new \<mapsto> VRaftState initial_raft)"
    using regionSplit_ok[OF env sp(1,2) ok(2), of h] unfolding split_state_def by blast
  have R: "rg_Id ?R = ?new" "map peer_Id (rg_Peers ?R) = sr_NewPeerIds req" "length (rg_Peers ?R) = length (sr_NewPeerIds req)"
    using sp(1) by (simp_all add: right_region_def case_prod_unfold comp_def map_snd_zip)
  have id: "rg_Id (h_region h) < 2 ^ 64"
    using ok(1) ps_wf_parts(1) by (auto simp: peer_ok_def raft_ok_def h_region_def p_Region_def ps_of_def)
  have keys: "log_keys_ok (con raft) ?new" unfolding s(3) by (rule log_keys_state[OF fresh sp(3) sp(3)])
  have kvs: "con kv (ApplyStateKey ?new) = Some (VApplyState initial_apply)" by (simp add: s(2) split_writes_def)
  obtain p where p: "FindPeer ?R (storeID (h_peer h)) = Some p" "peer_Id p \<in> set (sr_NewPeerIds req)" "peer_StoreId p = storeID (h_peer h)"
    using find_zip[OF sp(1)] me by (auto simp: FindPeer_def right_region_def)
  have "peer_Id p \<noteq> 0" using p(2) sp(4) by metis
  then obtain np where np: "createPeer D (env_snap env) (h_cfg h) (env_rand env) (storeID (h_peer h)) [] \<lparr>en_Kv = kv, en_Raft = raft\<rparr> ?R = Some (Inr np)"
    "ps_of np = fresh_storage ?R [] \<lparr>en_Kv = kv, en_Raft = raft\<rparr>" "p_Meta np = p"
    "raft_ok (peer_storage_ops D (env_snap env)) (ps_wf con) (rn_Raft (p_RaftGroup np))" "peers (rn_Raft (p_RaftGroup np)) = sr_NewPeerIds req"
    using NewPeer_fresh[of "\<lparr>en_Kv = kv, en_Raft = raft\<rparr>" ?R "h_cfg h" "storeID (h_peer h)" p "env_snap env" "env_rand env" "[]"] s(3) kvs sp(3,5) keys ok(3) p(1) R
    by auto
  have same: "p_SetRegion ?R np = np" "ps_Engines (ps_of np) = ps_Engines (ps_of (h_peer (split_state kv raft req h)))"
    using np(2) by (simp_all add: p_SetRegion_def ps_SetRegion_def split_state_fields fresh_storage_def set_ps_def ps_of_def)
  have m0: "meta_wf (meta_setRegion reg m)" if "meta_wf m" for reg m using that by (simp add: meta_wf_def meta_setRegion_def)
  obtain m' where m': "ranges_insert_item ?R (meta_setRegion ?R (h_storeMeta (split_state kv raft req h))) = Some m'" "meta_wf m'"
    "regions m' = regions (meta_setRegion ?R (h_storeMeta (split_state kv raft req h)))" "?R \<in> set (ranges m')"
    using ranges_insert_ok[OF m0[OF m0[OF ok(4)]], of ?R ?R "left_region req (h_region h)"] by (auto simp: split_state_fields)
  note eng = set_engines_same[of "split_state kv raft req h", unfolded split_state_fields(2)]
  have "handleSplit env admin h = Some ((split_state kv raft req h)\<lparr>h_storeMeta := m', h_newPeers := h_newPeers h @ [np],
      h_router := (router_register ?new (h_router h))\<lparr>rt_peerSender := rt_peerSender (h_router h) @ [(?new, MsgTypeStart)]\<rparr>\<rparr>)"
    using req(1) sp(1,7) s(1) np(1) m'(1)
    by (simp add: handleSplit_def env split_state_fields(2,8,9) same eng Let_def R(1) split_state_fields(10,11) router_send_def
        router_register_def)
  moreover have "p_Region np = ?R" "storeID np = storeID (h_peer h)"
    using np(2,3) p(3) by (simp_all add: p_Region_def fresh_storage_def storeID_def)
  moreover have "regions m' = fmupd ?new ?R (fmupd (rg_Id (h_region h)) (left_region req (h_region h)) (regions (h_storeMeta h)))"
    using m'(3) R(1) by (simp add: split_state_fields meta_setRegion_def left_region_def)
  ultimately show ?thesis using s(2,3) m'(2,4) np(4,5) by blast
qed

end

text \<open>
  C11 (functional): a split cuts the range of a region at the key and gives the upper part to a new region.
  For a replicated region over an engine whose writes succeed, with a key strictly inside the range and
  fresh ids: \<open>handleSplit\<close> returns; the peer is well-formed again and serves the lower part with a newer
  version; a well-formed peer of the new region is registered on the same store with the ids of the
  request as its configuration and gets its start message; a key is in the old range exactly if it is
  in one of the two, and never in both; the states of both regions and the initial states of the new
  one are in the engines, the tables of the store know both, and every other key keeps its value.
\<close>

theorem handleSplit_partitions:
  assumes eng: "reliable_engine (env_DB env) con" and ok: "peer_ok env con h" "rg_RegionEpoch (h_region h) = Some ep" "cfg_ok (h_cfg h)"
      "meta_wf (h_storeMeta h)" and me: "FindPeer (h_region h) (storeID (h_peer h)) \<noteq> None"
    and req: "ar_Split admin = Some req" "split_ok req h" and fresh: "log_keys_ok (con (raft_of h)) (sr_NewRegionId req)"
  defines "L \<equiv> left_region req (h_region h)" and "R \<equiv> right_region req (h_region h)"
  shows "\<exists>h' np. handleSplit env admin h = Some h' \<and> peer_ok env con h' \<and> h_region h' = L \<and>
    rg_RegionEpoch L = Some (ep\<lparr>ep_Version := u64_add (ep_Version ep) 1\<rparr>) \<and>
    h_newPeers h' = h_newPeers h @ [np] \<and> p_Region np = R \<and> storeID np = storeID (h_peer h) \<and>
    raft_ok (peer_storage_ops (env_DB env) (env_snap env)) (ps_wf con) (rn_Raft (p_RaftGroup np)) \<and>
    peers (rn_Raft (p_RaftGroup np)) = sr_NewPeerIds req \<and>
    rg_Id R \<in> set (rt_peers (h_router h')) \<and> (rg_Id R, MsgTypeStart) \<in> set (rt_peerSender (h_router h')) \<and>
    (\<forall>k. in_range (rg_StartKey (h_region h)) (rg_EndKey (h_region h)) k \<longleftrightarrow>
       in_range (rg_StartKey L) (rg_EndKey L) k \<noteq> in_range (rg_StartKey R) (rg_EndKey R) k) \<and>
    con (kv_of h') = (con (kv_of h))(ApplyStateKey (rg_Id R) \<mapsto> VApplyState initial_apply,
       RegionStateKey (rg_Id R) \<mapsto> normal_state R, RegionStateKey (rg_Id L) \<mapsto> normal_state L) \<and>
    con (raft_of h') = (con (raft_of h))(RaftStateKey (rg_Id R) \<mapsto> VRaftState initial_raft) \<and>
    fmlookup (regions (h_storeMeta h')) (rg_Id L) = Some L \<and> fmlookup (regions (h_storeMeta h')) (rg_Id R) = Some R"
proof -
  have id: "rg_Id L = rg_Id (h_region h)" "rg_Id R = sr_NewRegionId req" by (simp_all add: L_def R_def left_region_def right_region_def)
  have ne: "sr_NewRegionId req \<noteq> rg_Id (h_region h)" "sr_NewRegionId req < 2 ^ 64" "rg_Peers (h_region h) \<noteq> []"
    and key: "validSplitKey (sr_SplitKey req) (rg_StartKey (h_region h)) (rg_EndKey (h_region h))" "sr_SplitKey req \<noteq> []"
    using req(2) by (auto simp: split_ok_def)
  have ep: "rg_RegionEpoch (h_region h) \<noteq> None" using ok(2) by simp
  obtain kv raft np m' rt where res: "handleSplit env admin h = Some ((split_state kv raft req h)\<lparr>h_storeMeta := m', h_newPeers := h_newPeers h @ [np], h_router := rt\<rparr>)"
    and rt: "rt = (router_register (sr_NewRegionId req) (h_router h))\<lparr>rt_peerSender := rt_peerSender (h_router h) @ [(sr_NewRegionId req, MsgTypeStart)]\<rparr>"
    and kv: "con kv = split_writes req (h_region h) (con (kv_of h))"
    and raft: "con raft = (con (raft_of h))(RaftStateKey (sr_NewRegionId req) \<mapsto> VRaftState initial_raft)"
    and m': "regions m' = fmupd (sr_NewRegionId req) R (fmupd (rg_Id (h_region h)) L (regions (h_storeMeta h)))"
    and np: "p_Region np = R" "storeID np = storeID (h_peer h)" "raft_ok (peer_storage_ops (env_DB env) (env_snap env)) (ps_wf con) (rn_Raft (p_RaftGroup np))"
      "peers (rn_Raft (p_RaftGroup np)) = sr_NewPeerIds req"
    using reliable_engine.handleSplit_ok[OF eng refl ok(1) ep ok(3,4) me req fresh] unfolding L_def R_def by blast
  define h' where "h' = (split_state kv raft req h)\<lparr>h_storeMeta := m', h_newPeers := h_newPeers h @ [np], h_router := rt\<rparr>"
  have f: "h_raft h' = h_raft (split_state kv raft req h)" "h_region h' = L" "kv_of h' = kv" "raft_of h' = raft" "p_regionId (h_peer h') = p_regionId (h_peer h)"
    using split_state_fields(3-6)[of kv raft req h] by (simp_all add: h'_def L_def h_region_def kv_of_def raft_of_def)
  have wf: "ps_wf con (ps_of (h_peer h))" using ok(1) by (simp add: peer_ok_def raft_ok_def ps_of_def)
  have "ps_wf con ((ps_of (h_peer h))\<lparr>ps_region := L, ps_Engines := \<lparr>en_Kv = kv, en_Raft = raft\<rparr>\<rparr>)"
    by (rule ps_wf_split[OF wf _ ne(2)])
      (use id(1) ne(3) raft in \<open>simp_all add: h_region_def p_Region_def raft_of_def ps_isInitialized_def\<close>)
  then have "raft_ok (peer_storage_ops (env_DB env) (env_snap env)) (ps_wf con) (h_raft h')"
    using ok(1) unfolding f(1) split_state_fields(1) L_def by (intro raft_ok_storage) (simp_all add: peer_ok_def)
  then have "peer_ok env con h'" using ok(1) f(2,5) id(1) by (simp add: peer_ok_def)
  moreover have "in_range (rg_StartKey (h_region h)) (rg_EndKey (h_region h)) k \<longleftrightarrow>
       in_range (rg_StartKey L) (rg_EndKey L) k \<noteq> in_range (rg_StartKey R) (rg_EndKey R) k" for k
    using split_ranges[OF key, of k] by (auto simp: L_def R_def left_region_def right_region_def)
  moreover have "rg_RegionEpoch L = Some (ep\<lparr>ep_Version := u64_add (ep_Version ep) 1\<rparr>)" by (simp add: L_def left_region_def ok(2))
  moreover have "con (kv_of h') = (con (kv_of h))(ApplyStateKey (rg_Id R) \<mapsto> VApplyState initial_apply,
       RegionStateKey (rg_Id R) \<mapsto> normal_state R, RegionStateKey (rg_Id L) \<mapsto> normal_state L)"
    using kv id by (simp add: f split_writes_def L_def R_def)
  ultimately show ?thesis
    using res m' np raft ne(1) id f(2,4) by (intro exI[of _ h'] exI[of _ np]) (simp add: h'_def rt router_register_def)
qed

text \<open>The demo region split at the key 3: region 2 gets the keys from 3 on, with the peers 4, 5 and 6.\<close>

definition demo_split :: SplitRequest where
  "demo_split = \<lparr>sr_SplitKey = [3], sr_NewRegionId = 2, sr_NewPeerIds = [4, 5, 6]\<rparr>"

definition demo_split_admin :: AdminRequest where
  "demo_split_admin = \<lparr>ar_CmdType = AdminCmdType_Split, ar_ChangePeer = None, ar_CompactLog = None, ar_TransferLeader = None,
     ar_Split = Some demo_split\<rparr>"

lemma demo_split_ok:
  "split_ok demo_split demo_handler" "cfg_ok (h_cfg demo_handler)" "meta_wf (h_storeMeta demo_handler)"
  "FindPeer (h_region demo_handler) (storeID (h_peer demo_handler)) \<noteq> None" "log_keys_ok (map_of (raft_of demo_handler)) 2"
proof -
  show "split_ok demo_split demo_handler"
    by (simp add: split_ok_def demo_split_def demo_handler_ready demo_kv_region_fields validSplitKey_iff)
  show "cfg_ok (h_cfg demo_handler)" by (simp add: cfg_ok_def demo_handler_def demo_cfg_def)
  show "meta_wf (h_storeMeta demo_handler)" by (simp add: demo_handler_def meta_wf_def wf_tree_def tree_items_def)
  have "storeID (h_peer demo_handler) = 1"
    by (simp add: demo_handler_def storeID_def demo_peer_simps)
  then show "FindPeer (h_region demo_handler) (storeID (h_peer demo_handler)) \<noteq> None"
    by (simp add: demo_handler_ready demo_kv_region_fields)
  have "log_keys_ok (map_of (raft_of demo_handler)) 2 = log_keys_ok (Map.empty(RaftStateKey 1 := Some (VRaftState demo_raft_state))) 2"
    by (simp add: raft_of_def demo_handler_ready demo_storage_eq)
  then show "log_keys_ok (map_of (raft_of demo_handler)) 2"
    using log_keys_state[of Map.empty 2 1] by (simp add: log_keys_ok_def)
qed

theorem handleSplit_partitions_witness:
  "\<exists>h' np. handleSplit demo_env (demo_split_admin) demo_handler = Some h' \<and>
     rg_EndKey (h_region h') = [3] \<and> h_newPeers h' = [np] \<and> rg_StartKey (p_Region np) = [3] \<and> peers (rn_Raft (p_RaftGroup np)) = [4, 5, 6]"
proof -
  have eng: "reliable_engine (env_DB demo_env) map_of" by (simp add: demo_env_def al.reliable_engine_axioms)
  have ep: "rg_RegionEpoch (h_region demo_handler) = Some \<lparr>ep_ConfVer = 1, ep_Version = 1\<rparr>"
    by (simp add: demo_handler_ready demo_kv_region_fields)
  have "h_newPeers demo_handler = []" by (simp add: demo_handler_def)
  moreover have "log_keys_ok (map_of (raft_of demo_handler)) (sr_NewRegionId demo_split)" using demo_split_ok(5) by (simp add: demo_split_def)
  ultimately show ?thesis
    using handleSplit_partitions[OF eng demo_handler_ok(1) ep demo_split_ok(2-4) _ demo_split_ok(1),
      of "demo_split_admin"]
    by (auto simp: left_region_def right_region_def demo_split_def demo_split_admin_def)
qed

end
