(* ===== verification/Spec2Isabelle.thy ===== *)
theory Spec2Isabelle
  imports Codec Mvcc Latches Raft_Votes Raft_Driver Raft_Cluster Peer_Total Peer_Split
begin

text \<open>
  A verification of the distributed key-value store in \<open>src\<close>. A store keeps regions of the key space; each region
  is replicated by a group of peers that agree on a log of commands by Raft and apply it to a
  key-value engine; a scheduler collects heartbeats of stores and regions.

  \<^bold>\<open>The parts and how they interact.\<close> A message or tick reaches a peer through
  \<open>HandleMsg\<close> of \<open>kv/raftstore/peer_msg_handler.go\<close>. Commands of clients are proposed to the consensus module in
  \<open>raft\<close> through \<open>RawNode\<close>; messages of other peers are stepped into it. \<open>HandleRaftReady\<close> then
  takes what the module has decided, saves it through \<open>PeerStorage\<close>, sends the messages, applies committed
  entries to the engine, answers the waiting clients and advances the module. The module reads its
  stored log back through the \<open>Storage\<close> interface. A leader reports its region to the scheduler, whose
  cluster view keeps regions in B-trees by start key.

  \<^bold>\<open>Conventions\<close> (\<open>Prelude\<close>). A Go struct is a record with the source's field names, prefixed where two
  records share one; a method is a function from the old state to the new one. \<open>uint64\<close> is \<open>u64\<close>, natural
  numbers with arithmetic modulo \<open>2 ^ 64\<close> written out; bytes are words; Go maps are finite maps; a nil
  pointer is \<open>None\<close>. A result \<open>None\<close> is a panic; a Go error is \<open>Inl\<close> or an optional error value. Loops
  are structural recursion, \<open>fold\<close> or \<open>foldM\<close>. Only the insertion and the
  removal of the B-tree recurse without an evident measure; they are partial functions, and
  \<open>BTree_Insert\<close> and \<open>BTree_Remove\<close> prove that they return. No definition has fuel. Random numbers,
  encodings, snapshot files and the engine badger are parameters; values are copied, so that a message which in Go points
  into the log slice of its sender (\<open>sendAppend\<close>) holds its entries here, and aliasing is not modelled.

  \<^bold>\<open>Consensus\<close> (\<open>raft/*.go\<close>, \<open>proto/pkg/eraftpb\<close>). \<open>Raft_Types\<close> has messages and the \<open>Storage\<close> interface, as a
  method table with the contract \<open>raft_storage\<close>; \<open>Memory_Storage\<close> and \<open>Peer_Storage\<close> meet it. \<open>Raft_Log\<close>,
  \<open>Raft\<close> and \<open>Raw_Node\<close> are \<open>log.go\<close>, \<open>raft.go\<close> and \<open>rawnode.go\<close>, method by method. \<open>Raft_Frame\<close>,
  \<open>Raft_Storage_Frame\<close>, \<open>Raft_Inv\<close>, \<open>Raft_Append\<close> and \<open>Raft_Step\<close> prove, over any storage with the
  contract, that every admissible message is handled without a panic and keeps the invariant \<open>raft_ok\<close>. \<open>Raft_Safety\<close>,
  \<open>Raft_Roles\<close>, \<open>Raft_Votes\<close>, \<open>Raft_Driver\<close> and \<open>Raft_Network\<close> hold the properties: the append handler
  implements the receiver rule of Raft and keeps committed entries exactly unless an accepted request conflicts with
  them; a commit has a majority; who may become leader and what the vote counter means;
  terms; timeouts; and a reachable state with two leaders of one term, by which a cluster-wide
  election safety does not hold of this code. The admissibility of an append request (\<open>append_ok\<close>) includes that it
  agrees with the committed entries of the receiver, which the handler does not check itself.

  \<^bold>\<open>Engine and keys\<close> (\<open>kv/util\<close>, \<open>kv/raftstore/meta\<close>, \<open>kv/transaction\<close>). \<open>Bytes\<close>, \<open>Key_Order\<close>, \<open>Codec\<close> and
  \<open>Mvcc\<close> are the byte order and the key formats with their order embeddings and round trips. \<open>Engine\<close> has write batches,
  column families and range deletion over badger, which is the argument \<open>D\<close>: \<open>kv_engine\<close> states that
  reads see what writes left and that updates are atomic, \<open>reliable_engine\<close> adds that updates succeed (the code
  drops their errors), and \<open>al_engine\<close> is an instance of both. \<open>Meta_Keys\<close> lays out the local keys. \<open>Latches\<close> is
  the latch table with its threads as a step relation: mutual exclusion and no lost wake-up.

  \<^bold>\<open>A peer on its store\<close> (\<open>kv/raftstore\<close>). \<open>Region_Util\<close>: commands, checks and errors. \<open>Peer_Storage\<close> and \<open>Peer_Save\<close>:
  \<open>peer_storage.go\<close>, what \<open>SaveReadyState\<close> leaves in the engines and what a restart finds.
  \<open>Store_Meta\<close>: the region tables of a store. \<open>Raft_Peer\<close>: \<open>peer.go\<close> with ticker, router and bootstrap states.
  \<open>Peer_Apply\<close> and \<open>Peer_Handler\<close>: \<open>peer_msg_handler.go\<close>; the handler's state, with the outputs it has
  produced, is the record \<open>Handler\<close>, and what it is given is the record \<open>Env\<close>. \<open>Peer_Replay\<close>: applying entries refines the replay of
  their commands. \<open>Peer_Admin\<close> and \<open>Peer_Split\<close>: membership changes and splits. \<open>Peer_Ready\<close>: one round of the ready
  loop, down to the raft state on disk. \<open>Peer_Propose\<close> and \<open>Peer_Answers\<close>: a proposal waits for its
  entry, and each client is answered once and in order. \<open>Peer_Total\<close>: the handler returns on every admissible message.

  \<^bold>\<open>Scheduler\<close> (\<open>scheduler\<close>). \<open>Go_Sort\<close>, \<open>BTree\<close>, \<open>BTree_Inv\<close>, \<open>BTree_Insert\<close>, \<open>BTree_Remove\<close>, \<open>BTree_Read\<close>, \<open>BTree_Iter\<close> and
  \<open>BTree_Spec\<close>: \<open>pkg/btree/btree.go\<close> against sorted lists, for every strict weak order (\<open>item_order\<close>).
  \<open>Metapb\<close>, \<open>Region_Info\<close>, \<open>Region_Tree\<close> and \<open>Regions_Info\<close>: \<open>server/core/region.go\<close> and \<open>region_tree.go\<close>, whose six
  indices describe one list of disjoint regions. \<open>Store_Info\<close> and \<open>Raft_Cluster\<close>: stores and the
  handlers of \<open>server/cluster.go\<close>, each as one sequential step.

  \<^bold>\<open>Bounds.\<close> Indices stay below \<open>2 ^ 63\<close> where the code converts them to \<open>int\<close>; terms and counters wrap. Statements about
  the peer handler assume room for a few more entries below that bound.

  \<^bold>\<open>Not modelled\<close>, and why. Goroutines, channels, timers, network and files: the store and raft workers, the tick
  driver, snapshot files and their workers, the servers and clients over gRPC and etcd, among them the timestamp oracle and the
  id allocator. The coprocessor, which calls third-party SQL packages throughout. The schedulers and
  checkers, whose scores are floating-point numbers. Generated marshalling, logging, configuration. The handlers of the transactional
  interface and of the standalone storage are empty in the source.
\<close>

end
